(* ===== verification/Vein_Prelude.thy ===== *)
theory Vein_Prelude
  imports Complex_Main
begin

text \<open>
  The prelude of the library. It holds what every component of the view layer shares:
  \<^item> \<open>Math.round\<close>, \<open>Math.ceil\<close>, \<open>Math.floor\<close> on exact rationals, indexed reads that may be
    \<open>undefined\<close> (\<open>js_nth\<close>) and \<open>splice\<close>;
  \<^item> the event-loop timers (\<open>setTimeout\<close>, \<open>setInterval\<close>, \<open>clearInterval\<close>) as a pool of
    armed handlers;
  \<^item> the locale \<open>event_machine\<close>: a component that reacts to events and an invariant that every
    handler keeps, and \<open>framed_machine\<close> and \<open>guarded_machine\<close> beside it. Each component with a state
    machine interprets one of them on its own step function.

  JavaScript numbers are IEEE doubles. Coordinates, sizes and counters of this program are
  integers below \<open>2 ^ 53\<close>, on which doubles are exact, so they are \<open>int\<close>; a quotient that the
  code does not round at once is a \<open>rat\<close>, that is, the model computes it exactly.
\<close>

section \<open>Collections of facts\<close>

named_theorems js_simps \<open>evaluation of the JavaScript primitives\<close>
named_theorems frame_simps \<open>fields an operation leaves alone\<close>

section \<open>Numbers\<close>

definition js_round :: "rat \<Rightarrow> int" where
  "js_round x = \<lfloor>x + 1 / 2\<rfloor>"

lemma js_round_of_int [simp]: "js_round (of_int n) = n"
  unfolding js_round_def by (simp add: floor_unique)

lemma js_round_mono: "x \<le> y \<Longrightarrow> js_round x \<le> js_round y"
  by (simp add: js_round_def floor_mono)

lemma js_round_nonneg: "0 \<le> x \<Longrightarrow> 0 \<le> js_round x"
  using js_round_mono [of 0 x] js_round_of_int [of 0] by simp

lemma js_round_add_int: "js_round (x + of_int n) = js_round x + n"
  unfolding js_round_def by linarith

lemma js_round_near: "\<bar>of_int (js_round x) - x\<bar> \<le> 1 / 2"
  unfolding js_round_def by linarith

section \<open>Arrays\<close>

text \<open>\<open>xs[i]\<close>: \<open>undefined\<close> (here \<open>None\<close>) when \<open>i\<close> is not an index of the array.\<close>

definition js_nth :: "'a list \<Rightarrow> int \<Rightarrow> 'a option" where
  "js_nth xs i = (if 0 \<le> i \<and> nat i < length xs then Some (xs ! nat i) else None)"

lemma js_nth_in [js_simps]: "0 \<le> i \<Longrightarrow> nat i < length xs \<Longrightarrow> js_nth xs i = Some (xs ! nat i)"
  by (simp add: js_nth_def)

lemma js_nth_out [js_simps]: "i < 0 \<or> length xs \<le> nat i \<Longrightarrow> js_nth xs i = None"
  by (auto simp: js_nth_def)

lemma js_nth_Some: "js_nth xs i = Some x \<longleftrightarrow> 0 \<le> i \<and> nat i < length xs \<and> x = xs ! nat i"
  by (auto simp: js_nth_def)

lemma js_nth_of_nat [simp]: "js_nth xs (int n) = (if n < length xs then Some (xs ! n) else None)"
  by (simp add: js_nth_def)

text \<open>\<open>xs.splice(i, k, ys...)\<close>, for \<open>0 \<le> i\<close>.\<close>

definition js_splice :: "'a list \<Rightarrow> nat \<Rightarrow> nat \<Rightarrow> 'a list \<Rightarrow> 'a list" where
  "js_splice xs i k ys = take i xs @ ys @ drop (i + k) xs"

lemma set_js_splice_subset: "set (js_splice xs i k ys) \<subseteq> set xs \<union> set ys"
  unfolding js_splice_def by (auto dest: in_set_takeD in_set_dropD)

lemma length_js_splice: "i + k \<le> length xs \<Longrightarrow> length (js_splice xs i k ys) = length xs - k + length ys"
  by (simp add: js_splice_def)

text \<open>Mapping with the index, as \<open>$.each(function (index) ...)\<close> does.\<close>

fun map_index_from :: "nat \<Rightarrow> (nat \<Rightarrow> 'a \<Rightarrow> 'b) \<Rightarrow> 'a list \<Rightarrow> 'b list" where
  "map_index_from i f [] = []"
| "map_index_from i f (x # xs) = f i x # map_index_from (Suc i) f xs"

abbreviation map_index :: "(nat \<Rightarrow> 'a \<Rightarrow> 'b) \<Rightarrow> 'a list \<Rightarrow> 'b list" where
  "map_index \<equiv> map_index_from 0"

lemma length_map_index_from [simp]: "length (map_index_from i f xs) = length xs"
  by (induction xs arbitrary: i) auto

lemma nth_map_index_from [simp]:
  "k < length xs \<Longrightarrow> map_index_from i f xs ! k = f (i + k) (xs ! k)"
proof (induction xs arbitrary: i k)
  case (Cons x xs)
  then show ?case by (cases k) auto
qed simp

lemma map_map_index_from: "map g (map_index_from i f xs) = map_index_from i (\<lambda>k x. g (f k x)) xs"
  by (induction xs arbitrary: i) auto

lemma map_index_from_cong:
  "(\<And>k x. x \<in> set xs \<Longrightarrow> f k x = g k x) \<Longrightarrow> map_index_from i f xs = map_index_from i g xs"
  by (induction xs arbitrary: i) auto

lemma find_append: "find P (xs @ ys) = (case find P xs of None \<Rightarrow> find P ys | Some x \<Rightarrow> Some x)"
  by (induction xs) auto

section \<open>Timers\<close>

text \<open>
  \<open>next_id\<close> is the id the browser hands out next, \<open>live\<close> the handlers that are armed, newest
  last, each tagged with the handler it runs. An interval stays armed when it fires, a timeout
  is disarmed first.
\<close>

record 'k timers =
  next_id :: nat
  live :: "(nat \<times> 'k) list"

definition no_timers :: "'k timers" where
  "no_timers = \<lparr>next_id = 1, live = []\<rparr>"

definition set_timer :: "'k \<Rightarrow> 'k timers \<Rightarrow> nat \<times> 'k timers" where
  "set_timer k p = (next_id p, \<lparr>next_id = Suc (next_id p), live = live p @ [(next_id p, k)]\<rparr>)"

definition clear_timer :: "nat option \<Rightarrow> 'k timers \<Rightarrow> 'k timers" where
  "clear_timer i p = p\<lparr>live := filter (\<lambda>t. Some (fst t) \<noteq> i) (live p)\<rparr>"

definition timers_wf :: "'k timers \<Rightarrow> bool" where
  "timers_wf p \<longleftrightarrow> distinct (map fst (live p)) \<and> (\<forall>t \<in> set (live p). fst t < next_id p)"

definition armed :: "'k timers \<Rightarrow> 'k \<Rightarrow> nat list" where
  "armed p k = map fst (filter (\<lambda>t. snd t = k) (live p))"

lemma timers_wf_no_timers [simp]: "timers_wf no_timers"
  by (simp add: timers_wf_def no_timers_def)

lemma armed_no_timers [simp]: "armed no_timers k = []"
  by (simp add: armed_def no_timers_def)

lemma timers_wf_set_timer: "timers_wf p \<Longrightarrow> timers_wf (snd (set_timer k p))"
  by (force simp: timers_wf_def set_timer_def)

lemma timers_wf_clear_timer: "timers_wf p \<Longrightarrow> timers_wf (clear_timer i p)"
  by (auto simp: timers_wf_def clear_timer_def distinct_map_filter)

lemma armed_set_timer:
  "armed (snd (set_timer k p)) k' = armed p k' @ (if k = k' then [fst (set_timer k p)] else [])"
  by (simp add: armed_def set_timer_def)

lemma armed_clear_timer: "armed (clear_timer i p) k = filter (\<lambda>j. Some j \<noteq> i) (armed p k)"
  by (simp add: armed_def clear_timer_def filter_map o_def) (metis (no_types, lifting) conj_commute)

lemma set_armed_clear_timer [simp]: "set (armed (clear_timer i p) k) = set (armed p k) - set_option i"
  by (auto simp: armed_clear_timer)

section \<open>Event machines\<close>

text \<open>
  A component reacts to one event at a time (JavaScript runs a handler to its end before it takes
  the next event), so a history is a list of events. What a component promises of all histories
  is an invariant that each handler keeps.
\<close>

locale event_machine =
  fixes step :: "'e \<Rightarrow> 's \<Rightarrow> 's"
    and inv :: "'s \<Rightarrow> bool"
    and ok :: "'e \<Rightarrow> bool"
  assumes step_inv: "inv s \<Longrightarrow> ok e \<Longrightarrow> inv (step e s)"
begin

lemma run_inv: "inv s \<Longrightarrow> \<forall>e \<in> set es. ok e \<Longrightarrow> inv (fold step es s)"
  by (induction es arbitrary: s) (auto simp: step_inv)

lemma run_prefix_inv: "inv s \<Longrightarrow> \<forall>e \<in> set (es @ fs). ok e \<Longrightarrow> inv (fold step es s)"
  by (rule run_inv) auto

end

text \<open>A machine with an observation that no handler changes (a configuration, a geometry).\<close>

locale framed_machine = event_machine +
  fixes obs :: "'b \<Rightarrow> 'c"
  assumes step_obs: "inv s \<Longrightarrow> ok e \<Longrightarrow> obs (step e s) = obs s"
begin

lemma run_obs: "inv s \<Longrightarrow> \<forall>e \<in> set es. ok e \<Longrightarrow> obs (fold step es s) = obs s"
  by (induction es arbitrary: s) (auto simp: step_obs step_inv)

end

text \<open>
  A machine whose handlers may be called in some states only (a button that is shown, an index that is in
  range): a history is admissible when each event is, in the state it meets.
\<close>

fun ok_run :: "('e \<Rightarrow> 's \<Rightarrow> 's) \<Rightarrow> ('s \<Rightarrow> 'e \<Rightarrow> bool) \<Rightarrow> 's \<Rightarrow> 'e list \<Rightarrow> bool" where
  "ok_run step ok s [] = True"
| "ok_run step ok s (e # es) = (ok s e \<and> ok_run step ok (step e s) es)"

locale guarded_machine =
  fixes step :: "'e \<Rightarrow> 's \<Rightarrow> 's"
    and inv :: "'s \<Rightarrow> bool"
    and ok :: "'s \<Rightarrow> 'e \<Rightarrow> bool"
  assumes step_inv: "inv s \<Longrightarrow> ok s e \<Longrightarrow> inv (step e s)"
begin

lemma run_inv: "inv s \<Longrightarrow> ok_run step ok s es \<Longrightarrow> inv (fold step es s)"
  by (induction es arbitrary: s) (auto simp: step_inv)

end

end
