(* ===== verification/Owl_Model.thy ===== *)
theory Owl_Model
  imports Vein_Prelude
begin

text \<open>
  The carousel of the view layer, \<open>js/owl.carousel.js\<close>: its options, the state one carousel object
  keeps and every operation on it, in the order the file has them.

  The object's fields are the fields of \<open>owl\<close>. What the code reads from the page (the window's
  width, the element's width, whether it is visible, where the pointer is) is a field the
  environment writes or an argument of the event. What the code writes to the page is a field:
  the wrapper's offset, its transition, the classes and data of the items and of the page buttons.
  User callbacks (\<open>beforeMove\<close> and so on) are observed: each call is logged in \<open>hooks\<close>.
  Building the page's markup (\<open>wrapItems\<close>, the button markup) is not modelled.
\<close>

section \<open>Options and state\<close>

datatype autoplay = ApOff | ApOn | ApEvery int
  \<comment> \<open>\<open>false\<close>, \<open>true\<close> or a number of milliseconds\<close>

datatype apstatus = ApUndefined | ApPlay | ApStop
  \<comment> \<open>\<open>undefined\<close>, \<open>"play"\<close>, \<open>"stop"\<close>\<close>

datatype playdir = DirNext | DirPrev

datatype goto_arg = GoUndefined | GoTrue | GoToFirst | GoOther
  \<comment> \<open>the second argument of \<open>goTo\<close>: \<open>undefined\<close>, \<open>true\<close>, \<open>"goToFirst"\<close> or anything else\<close>

datatype owl_hook = BeforeInit | AfterInit | BeforeMove | AfterMove | AfterAction

datatype owl_loaded = LoadUndefined | LoadChecked | LoadLoaded

record owl_options =
  items :: int
  itemsDesktop :: "(int \<times> int) option"   \<comment> \<open>\<open>None\<close> is \<open>false\<close>\<close>
  itemsDesktopSmall :: "(int \<times> int) option"
  itemsTablet :: "(int \<times> int) option"
  itemsMobile :: "(int \<times> int) option"
  singleItem :: bool
  slideSpeed :: int
  paginationSpeed :: int
  autoPlay :: autoplay
  stopOnHover :: bool
  goToFirst :: bool
  goToFirstSpeed :: int
  navigation :: bool
  goToFirstNav :: bool
  scrollPerPage :: bool
  pagination :: bool
  paginationNumbers :: bool
  responsive :: bool
  lazyLoad :: bool
  lazyFollow :: bool
  autoHeight :: bool
  mouseDraggable :: bool
  callbacks :: "owl_hook list"   \<comment> \<open>the callbacks that are functions\<close>

definition owl_defaults :: owl_options where
  "owl_defaults = \<lparr>
     items = 5, itemsDesktop = Some (1199, 4), itemsDesktopSmall = Some (979, 3),
     itemsTablet = Some (768, 2), itemsMobile = Some (479, 1), singleItem = False,
     slideSpeed = 200, paginationSpeed = 800, autoPlay = ApOff, stopOnHover = False,
     goToFirst = True, goToFirstSpeed = 1000, navigation = False, goToFirstNav = True,
     scrollPerPage = False, pagination = True, paginationNumbers = False, responsive = True,
     lazyLoad = False, lazyFollow = True, autoHeight = False, mouseDraggable = True,
     callbacks = []\<rparr>"

text \<open>One \<open>.owl-item\<close>: its CSS, its data and the image to load lazily in it.\<close>

record owl_item =
  it_width :: int
  it_index :: int                  \<comment> \<open>data \<open>owl-item\<close>\<close>
  it_roundPages :: int             \<comment> \<open>data \<open>owl-roundPages\<close>\<close>
  it_loaded :: owl_loaded          \<comment> \<open>data \<open>owl-loaded\<close>\<close>
  it_loading :: bool               \<comment> \<open>class \<open>loading\<close>\<close>
  it_active :: bool                \<comment> \<open>class \<open>active\<close>\<close>
  it_height :: int
  it_lazy_src :: "string option"   \<comment> \<open>\<open>data-src\<close> of its \<open>.lazyOwl\<close> image\<close>
  it_src :: "string option"        \<comment> \<open>\<open>src\<close> of that image, once set\<close>
  it_img_shown :: bool

text \<open>One \<open>.owl-page\<close> button.\<close>

record owl_page =
  pg_target :: "int option"        \<comment> \<open>data \<open>owl-page\<close>\<close>
  pg_roundPages :: int             \<comment> \<open>data \<open>owl-roundPages\<close>\<close>
  pg_text :: "int option"
  pg_active :: bool

datatype owl_timer =
    AutoPlayTick | CheckVisibleTick | Css3Finish | ResizeRefresh | FadeIn | ReloadNow
  | HeightCheck "int option" | HeightClass

record owl =
  options :: owl_options
  itemsAmount :: int
  orignalItems :: int
  currentSlide :: int
  maximumSlide :: int
  maximumPixels :: int
  itemWidth :: int
  positionsInArray :: "int list"
  playDirection :: playdir
  apStatus :: apstatus
  hoverStatus :: apstatus
  hoverBound :: bool               \<comment> \<open>\<open>stopOnHover()\<close> has bound its handlers\<close>
  autoPlaySpeed :: "nat option"
  checkVisible :: "nat option"
  smallDelay :: "nat option"
  timers :: "owl_timer timers"
  isTouch :: bool
  support3d :: bool
  isCssFinish :: bool              \<comment> \<open>false only when the code has set it to \<open>false\<close>\<close>
  isCss3Finish :: bool
  animating :: bool                \<comment> \<open>a jQuery animation of the wrapper is running\<close>
  owlItems :: "owl_item list"
  pages :: "owl_page list"
  hasControls :: bool
  controlsShown :: bool
  prevDisabled :: bool
  nextDisabled :: bool
  wrapperWidth :: int
  wrapperLeft :: "rat option"      \<comment> \<open>the value last given to \<open>left\<close>\<close>
  wrapperTranslate :: "rat option" \<comment> \<open>the value last given to \<open>translate3d\<close>\<close>
  wrapperTransition :: "int option"
  grabbing :: bool
  opacity :: int
  outerHeight :: "int option"
  autoHeightClass :: bool
  newPosX :: rat
  newPosY :: rat
  newRelativeX :: rat
  offsetX :: rat
  offsetY :: rat
  relativePos :: rat
  sliding :: bool
  moveBound :: bool
  endBound :: bool
  winWidth :: int
  elemWidth :: int
  visible :: bool
  hooks :: "owl_hook list"

definition call_hook :: "owl_hook \<Rightarrow> owl \<Rightarrow> owl" where
  "call_hook h b = (if h \<in> set (callbacks (options b)) then b\<lparr>hooks := hooks b @ [h]\<rparr> else b)"

section \<open>Timers of a carousel\<close>

definition clear_interval :: "nat option \<Rightarrow> owl \<Rightarrow> owl" where
  "clear_interval i b = b\<lparr>timers := clear_timer i (timers b)\<rparr>"

definition set_timeout :: "owl_timer \<Rightarrow> owl \<Rightarrow> owl" where
  "set_timeout k b = b\<lparr>timers := snd (set_timer k (timers b))\<rparr>"

section \<open>Sizes and positions\<close>

text \<open>A breakpoint \<open>[w, n]\<close> applies when the window is at most \<open>w\<close> wide.\<close>

definition breakpoint :: "int \<Rightarrow> (int \<times> int) option \<Rightarrow> int \<Rightarrow> int" where
  "breakpoint width bp its =
     (case bp of None \<Rightarrow> its | Some (w, n) \<Rightarrow> if width \<le> w then n else its)"

definition desktop_threshold :: "owl \<Rightarrow> int" where
  "desktop_threshold b =
     (case itemsDesktop (options b) of
        None \<Rightarrow> orignalItems b
      | Some (w, _) \<Rightarrow> if w = 0 then orignalItems b else w)"

definition responsive_items :: "owl \<Rightarrow> int" where
  "responsive_items b =
     (let opt = options b; width = winWidth b;
          i0 = (if width > desktop_threshold b then orignalItems b else items opt);
          i1 = breakpoint width (itemsDesktop opt) i0;
          i2 = breakpoint width (itemsDesktopSmall opt) i1;
          i3 = breakpoint width (itemsTablet opt) i2;
          i4 = breakpoint width (itemsMobile opt) i3
      in if i4 > itemsAmount b then itemsAmount b else i4)"

definition updateItems :: "owl \<Rightarrow> owl" where
  "updateItems b =
     (let opt = options b in
      if \<not> responsive opt then b
      else if singleItem opt then
        b\<lparr>orignalItems := 1,
          options := opt\<lparr>items := 1, itemsDesktop := None, itemsDesktopSmall := None,
                         itemsTablet := None, itemsMobile := None\<rparr>\<rparr>
      else b\<lparr>options := opt\<lparr>items := responsive_items b\<rparr>\<rparr>)"

definition calculateWidth :: "owl \<Rightarrow> owl" where
  "calculateWidth b =
     b\<lparr>itemWidth := js_round (of_int (elemWidth b) / of_int (items (options b)))\<rparr>"

fun append_sizes :: "int \<Rightarrow> int \<Rightarrow> int \<Rightarrow> int \<Rightarrow> int \<Rightarrow> owl_item list \<Rightarrow> owl_item list" where
  "append_sizes w its lastItem index roundPages [] = []"
| "append_sizes w its lastItem index roundPages (x # xs) =
     (let rp = (if index mod its = 0 \<or> index = lastItem
                then if \<not> (index > lastItem) then roundPages + 1 else roundPages
                else roundPages)
      in x\<lparr>it_width := w, it_index := index, it_roundPages := rp\<rparr>
         # append_sizes w its lastItem (index + 1) rp xs)"

definition appendItemsSizes :: "owl \<Rightarrow> owl" where
  "appendItemsSizes b =
     (let its = items (options b); lastItem = itemsAmount b - its
      in b\<lparr>owlItems := append_sizes (itemWidth b) its lastItem 0 0 (owlItems b)\<rparr>)"

definition appendWrapperSizes :: "owl \<Rightarrow> owl" where
  "appendWrapperSizes b =
     (let width = int (length (owlItems b)) * itemWidth b
      in appendItemsSizes (b\<lparr>wrapperWidth := width * 2, wrapperLeft := Some 0\<rparr>))"

fun loops_from :: "int \<Rightarrow> int \<Rightarrow> nat \<Rightarrow> int list" where
  "loops_from w elWidth 0 = []"
| "loops_from w elWidth (Suc n) = - (elWidth + w) # loops_from w (elWidth + w) n"

definition loops :: "owl \<Rightarrow> owl" where
  "loops b = b\<lparr>positionsInArray := 0 # loops_from (itemWidth b) 0 (nat (itemsAmount b))\<rparr>"

definition maxi :: "owl \<Rightarrow> owl" where
  "maxi b =
     (let its = items (options b);
          maximum = itemsAmount b * itemWidth b - its * itemWidth b
      in b\<lparr>maximumSlide := itemsAmount b - its, maximumPixels := maximum * (-1)\<rparr>)"

definition calculateAll :: "owl \<Rightarrow> owl" where
  "calculateAll b = maxi (loops (appendWrapperSizes (calculateWidth b)))"

section \<open>Page buttons and navigation\<close>

function pages_loop :: "int \<Rightarrow> int \<Rightarrow> bool \<Rightarrow> int \<Rightarrow> int \<Rightarrow> int option \<Rightarrow> owl_page list" where
  "pages_loop n its numbers i counter lastItem =
     (if i < n then
        if i mod its = 0 then
          let counter' = counter + 1;
              lastPage = n - n mod its;
              lastItem' = (if lastPage = i then Some (n - its) else lastItem)
          in \<lparr>pg_target = (if lastPage = i then lastItem' else Some i),
              pg_roundPages = counter',
              pg_text = (if numbers then Some counter' else None), pg_active = False\<rparr>
             # pages_loop n its numbers (i + 1) counter' lastItem'
        else pages_loop n its numbers (i + 1) counter lastItem
      else [])"
  by pat_completeness auto
termination
  by (relation "measure (\<lambda>(n, its, numbers, i, counter, lastItem). nat (n - i))") auto

declare pages_loop.simps [simp del]

definition activate_page :: "int option \<Rightarrow> nat \<Rightarrow> owl_page list \<Rightarrow> owl_page list" where
  "activate_page r i ps =
     (if i < length ps \<and> Some (pg_roundPages (ps ! i)) = r
      then (map (\<lambda>p. p\<lparr>pg_active := False\<rparr>) ps)[i := (ps ! i)\<lparr>pg_active := True\<rparr>]
      else ps)"

definition checkPagination :: "owl \<Rightarrow> owl" where
  "checkPagination b =
     (let r = map_option it_roundPages (js_nth (owlItems b) (currentSlide b))
      in b\<lparr>pages := fold (activate_page r) [0..<length (pages b)] (pages b)\<rparr>)"

definition updatePagination :: "owl \<Rightarrow> owl" where
  "updatePagination b =
     (let opt = options b in
      if \<not> pagination opt then b
      else checkPagination
             (b\<lparr>pages := pages_loop (itemsAmount b) (items opt) (paginationNumbers opt) 0 0 None\<rparr>))"

definition checkNavigation :: "owl \<Rightarrow> owl" where
  "checkNavigation b =
     (let opt = options b; cur = currentSlide b; mx = maximumSlide b in
      if \<not> navigation opt then b
      else if goToFirstNav opt then b
      else if cur = 0 \<and> mx = 0 then b\<lparr>prevDisabled := True, nextDisabled := True\<rparr>
      else if cur = 0 \<and> mx \<noteq> 0 then b\<lparr>prevDisabled := True, nextDisabled := False\<rparr>
      else if cur = mx then b\<lparr>prevDisabled := False, nextDisabled := True\<rparr>
      else if cur \<noteq> 0 \<and> cur \<noteq> mx then b\<lparr>prevDisabled := False, nextDisabled := False\<rparr>
      else b)"

definition buildControls :: "owl \<Rightarrow> owl" where
  "buildControls b =
     (if navigation (options b) \<or> pagination (options b)
      then b\<lparr>hasControls := True, controlsShown := True\<rparr> else b)"

definition updateControls :: "owl \<Rightarrow> owl" where
  "updateControls b =
     (let b1 = checkNavigation (updatePagination b) in
      if hasControls b1
      then b1\<lparr>controlsShown := \<not> (items (options b1) = itemsAmount b1)\<rparr>
      else b1)"

section \<open>Work done after each move\<close>

definition lazy_item :: "owl \<Rightarrow> owl_item \<Rightarrow> owl_item" where
  "lazy_item b x =
     (if it_loaded x = LoadLoaded then x
      else
        let x1 = (if it_loaded x = LoadUndefined
                  then x\<lparr>it_img_shown := False, it_loading := True, it_loaded := LoadChecked\<rparr>
                  else x);
            follow = (if lazyFollow (options b) then it_index x1 \<ge> currentSlide b else True)
        in if follow \<and> it_index x1 < currentSlide b + items (options b) then
             let x2 = x1\<lparr>it_loaded := LoadLoaded\<rparr>;
                 x3 = (case it_lazy_src x2 of
                         None \<Rightarrow> x2
                       | Some link \<Rightarrow> if link = [] then x2 else x2\<lparr>it_src := Some link\<rparr>)
             in x3\<lparr>it_img_shown := True, it_loading := False\<rparr>
           else x1)"

definition lazyLoad_all :: "owl \<Rightarrow> owl" where
  "lazyLoad_all b =
     (if \<not> lazyLoad (options b) then b else b\<lparr>owlItems := map (lazy_item b) (owlItems b)\<rparr>)"

definition slide_height :: "owl \<Rightarrow> int option" where
  "slide_height b = map_option it_height (js_nth (owlItems b) (currentSlide b))"

definition autoHeight_update :: "owl \<Rightarrow> owl" where
  "autoHeight_update b =
     (if autoHeight (options b)
      then set_timeout HeightClass
             (set_timeout (HeightCheck (slide_height b)) (b\<lparr>outerHeight := slide_height b\<rparr>))
      else b)"

definition addActiveClass :: "owl \<Rightarrow> owl" where
  "addActiveClass b =
     b\<lparr>owlItems := map_index (\<lambda>i x. x\<lparr>it_active := int i = currentSlide b\<rparr>) (owlItems b)\<rparr>"

definition eachMoveUpdate :: "owl \<Rightarrow> owl" where
  "eachMoveUpdate b =
     (let b1 = autoHeight_update (lazyLoad_all b);
          b2 = (if singleItem (options b1) then addActiveClass b1 else b1)
      in call_hook AfterAction b2)"

section \<open>Autoplay\<close>

definition stop :: "owl \<Rightarrow> owl" where
  "stop b = clear_interval (autoPlaySpeed b) (b\<lparr>apStatus := ApStop\<rparr>)"

definition play :: "owl \<Rightarrow> owl" where
  "play b =
     (let b1 = b\<lparr>apStatus := ApPlay\<rparr> in
      if autoPlay (options b1) = ApOff then b1
      else
        let b2 = clear_interval (autoPlaySpeed b1) b1;
            (i, p) = set_timer AutoPlayTick (timers b2)
        in b2\<lparr>timers := p, autoPlaySpeed := Some i\<rparr>)"

definition checkAp :: "owl \<Rightarrow> owl" where
  "checkAp b = (if apStatus b \<noteq> ApStop then play b else b)"

section \<open>Moving the wrapper\<close>

definition addTransition :: "int \<Rightarrow> owl \<Rightarrow> owl" where
  "addTransition speed b = b\<lparr>wrapperTransition := Some speed\<rparr>"

datatype transition_action = SlideSpeed | PaginationSpeed | Milliseconds int

fun swapTransitionSpeed :: "transition_action \<Rightarrow> owl \<Rightarrow> owl" where
  "swapTransitionSpeed SlideSpeed b = addTransition (slideSpeed (options b)) b"
| "swapTransitionSpeed PaginationSpeed b = addTransition (paginationSpeed (options b)) b"
| "swapTransitionSpeed (Milliseconds ms) b = addTransition ms b"

definition transition3d :: "rat option \<Rightarrow> owl \<Rightarrow> owl" where
  "transition3d value b = b\<lparr>wrapperTranslate := value\<rparr>"

definition css2move :: "rat option \<Rightarrow> owl \<Rightarrow> owl" where
  "css2move value b = b\<lparr>wrapperLeft := value\<rparr>"

text \<open>
  \<open>stop(true, true)\<close> brings a running animation to its end, which runs its \<open>complete\<close> callback and
  sets \<open>isCssFinish\<close> again, before the new animation starts.
\<close>

definition css2slide :: "rat option \<Rightarrow> owl \<Rightarrow> owl" where
  "css2slide value b =
     (let b1 = b\<lparr>isCssFinish := False\<rparr>;
          b2 = (if animating b1 then b1\<lparr>animating := False, isCssFinish := True\<rparr> else b1)
      in b2\<lparr>animating := True, wrapperLeft := value\<rparr>)"

definition css2slide_complete :: "owl \<Rightarrow> owl" where
  "css2slide_complete b =
     (if animating b then b\<lparr>animating := False, isCssFinish := True\<rparr> else b)"

definition move3d :: "goto_arg \<Rightarrow> rat option \<Rightarrow> owl \<Rightarrow> owl" where
  "move3d arg pixel b =
     (let b1 = b\<lparr>isCss3Finish := False\<rparr>;
          b2 = (case arg of
                  GoTrue \<Rightarrow> swapTransitionSpeed PaginationSpeed b1
                | GoToFirst \<Rightarrow> swapTransitionSpeed (Milliseconds (goToFirstSpeed (options b1))) b1
                | _ \<Rightarrow> swapTransitionSpeed SlideSpeed b1)
      in transition3d pixel (set_timeout Css3Finish b2))"

definition goTo :: "int \<Rightarrow> goto_arg \<Rightarrow> owl \<Rightarrow> owl" where
  "goTo position arg b =
     (let b0 = call_hook BeforeMove b;
          pos = (if position \<ge> maximumSlide b0 then maximumSlide b0
                 else if position \<le> 0 then 0 else position);
          b1 = b0\<lparr>currentSlide := pos\<rparr>;
          goToPixel = map_option of_int (js_nth (positionsInArray b1) pos);
          b2 = (if support3d b1 then move3d arg goToPixel b1 else css2slide goToPixel b1);
          b3 = (if pagination (options b2) then checkPagination b2 else b2);
          b4 = (if navigation (options b3) then checkNavigation b3 else b3);
          b5 = (if autoPlay (options b4) \<noteq> ApOff then checkAp b4 else b4)
      in call_hook AfterMove (eachMoveUpdate b5))"

definition owl_next :: "goto_arg \<Rightarrow> owl \<Rightarrow> owl" where
  "owl_next speed b =
     (let opt = options b;
          cur = currentSlide b + (if scrollPerPage opt then items opt else 1);
          limit = maximumSlide b + (if scrollPerPage opt then items opt - 1 else 0);
          b1 = b\<lparr>currentSlide := cur\<rparr>
      in if cur > limit
         then if goToFirstNav opt then goTo 0 GoToFirst (b1\<lparr>currentSlide := 0\<rparr>)
              else b1\<lparr>currentSlide := maximumSlide b1\<rparr>
         else goTo cur speed b1)"

definition owl_prev :: "goto_arg \<Rightarrow> owl \<Rightarrow> owl" where
  "owl_prev speed b =
     (let opt = options b;
          cur = (if scrollPerPage opt \<and> currentSlide b > 0 \<and> currentSlide b < items opt then 0
                 else currentSlide b - (if scrollPerPage opt then items opt else 1));
          b1 = b\<lparr>currentSlide := cur\<rparr>
      in if cur < 0
         then if goToFirstNav opt
              then goTo (maximumSlide b1) GoToFirst (b1\<lparr>currentSlide := maximumSlide b1\<rparr>)
              else b1\<lparr>currentSlide := 0\<rparr>
         else goTo cur speed b1)"

definition autoplay_tick :: "owl \<Rightarrow> owl" where
  "autoplay_tick b =
     (let cur = currentSlide b in
      if cur < maximumSlide b \<and> playDirection b = DirNext then owl_next GoTrue b
      else if cur = maximumSlide b then
        if goToFirst (options b) then goTo 0 GoToFirst b
        else owl_prev GoTrue (b\<lparr>playDirection := DirPrev\<rparr>)
      else if playDirection b = DirPrev \<and> cur > 0 then owl_prev GoTrue b
      else if playDirection b = DirPrev \<and> cur = 0
        then owl_next GoTrue (b\<lparr>playDirection := DirNext\<rparr>)
      else b)"

definition page_click :: "nat \<Rightarrow> owl \<Rightarrow> owl" where
  "page_click k b =
     (if k < length (pages b) then
        case pg_target (pages b ! k) of
          None \<Rightarrow> b
        | Some t \<Rightarrow> if t \<noteq> currentSlide b then goTo t GoTrue b else b
      else b)"

section \<open>Resizing and visibility\<close>

definition updatePosition :: "owl \<Rightarrow> owl" where
  "updatePosition b =
     (let pos = js_nth (positionsInArray b) (currentSlide b);
          inside = (case pos of None \<Rightarrow> False | Some p \<Rightarrow> p > maximumPixels b);
          move = (if support3d b then transition3d else css2slide);
          b1 = (if inside then move (map_option of_int pos) b
                else (move (Some 0) b)\<lparr>currentSlide := 0\<rparr>)
      in if autoPlay (options b1) \<noteq> ApOff then checkAp b1 else b1)"

definition watchVisibility :: "owl \<Rightarrow> owl" where
  "watchVisibility b =
     (let b1 = clear_interval (checkVisible b) b in
      if visible b1 then b1
      else
        let b2 = clear_interval (autoPlaySpeed b1) (b1\<lparr>opacity := 0\<rparr>);
            (i, p) = set_timer CheckVisibleTick (timers b2)
        in b2\<lparr>timers := p, checkVisible := Some i\<rparr>)"

definition checkVisible_tick :: "owl \<Rightarrow> owl" where
  "checkVisible_tick b =
     (if visible b
      then clear_interval (checkVisible b) ((set_timeout ReloadNow b)\<lparr>opacity := 1\<rparr>)
      else b)"

definition updateVars :: "owl \<Rightarrow> owl" where
  "updateVars b =
     eachMoveUpdate (updateControls (updatePosition (calculateAll
       (updateItems (watchVisibility b)))))"

definition on_resize :: "int \<Rightarrow> int \<Rightarrow> owl \<Rightarrow> owl" where
  "on_resize win el b =
     (let b0 = b\<lparr>winWidth := win, elemWidth := el\<rparr> in
      if \<not> responsive (options b0) then b0
      else
        let b1 = (if autoPlay (options b0) \<noteq> ApOff
                  then clear_interval (autoPlaySpeed b0) b0 else b0);
            b2 = clear_interval (smallDelay b1) b1;
            (i, p) = set_timer ResizeRefresh (timers b2)
        in b2\<lparr>timers := p, smallDelay := Some i\<rparr>)"

section \<open>Dragging\<close>

definition dragStart :: "rat \<Rightarrow> rat \<Rightarrow> rat \<Rightarrow> rat \<Rightarrow> owl \<Rightarrow> owl" where
  "dragStart x y left tp b =
     (if \<not> isCssFinish b then b
      else if \<not> isCss3Finish b then b
      else
        let b1 = (if autoPlay (options b) \<noteq> ApOff
                  then clear_interval (autoPlaySpeed b) b else b);
            b2 = (if \<not> isTouch b1 then b1\<lparr>grabbing := True\<rparr> else b1)
        in b2\<lparr>newPosX := 0, newRelativeX := 0, wrapperTransition := None,
             relativePos := left, offsetX := x - left, offsetY := y - tp,
             moveBound := True, endBound := True, sliding := False\<rparr>)"

definition dragMove :: "rat \<Rightarrow> rat \<Rightarrow> owl \<Rightarrow> owl" where
  "dragMove x y b =
     (if \<not> moveBound b then b
      else
        let b1 = b\<lparr>newPosX := x - offsetX b, newPosY := y - offsetY b,
                   newRelativeX := x - offsetX b - relativePos b\<rparr>;
            b2 = (if newRelativeX b1 > 8 \<or> newRelativeX b1 < -8 \<and> isTouch b1
                  then b1\<lparr>sliding := True\<rparr> else b1);
            b3 = (if (newPosY b2 > 10 \<or> newPosY b2 < -10) \<and> \<not> sliding b2 \<and> isTouch b2
                  then b2\<lparr>moveBound := False\<rparr> else b2);
            minSwipe = newRelativeX b3 / 5;
            maxSwipe = of_int (maximumPixels b3) + newRelativeX b3 / 5;
            b4 = b3\<lparr>newPosX := max (min (newPosX b3) minSwipe) maxSwipe\<rparr>
        in if support3d b4 then transition3d (Some (newPosX b4)) b4
           else css2move (Some (newPosX b4)) b4)"

definition moveDirection :: "owl \<Rightarrow> playdir \<times> owl" where
  "moveDirection b =
     (if newRelativeX b < 0 then (DirNext, b\<lparr>playDirection := DirNext\<rparr>)
      else (DirPrev, b\<lparr>playDirection := DirPrev\<rparr>))"

text \<open>
  One turn of the loop of \<open>improveClosest\<close>. \<open>DirPrev\<close> is the code's \<open>"left"\<close>, \<open>DirNext\<close> its
  \<open>"right"\<close>; \<open>array[i+1]\<close> is \<open>undefined\<close> at the last index, and every comparison with it is false.
\<close>

definition closest_step :: "nat \<Rightarrow> owl \<Rightarrow> owl" where
  "closest_step i b =
     (let arr = positionsInArray b; v = of_int (arr ! i); goal = newPosX b;
          w = of_int (itemWidth b) / 20;
          above = (\<lambda>g. case js_nth arr (int i + 1) of None \<Rightarrow> False | Some u \<Rightarrow> g > of_int u);
          c1 = (above (goal - w) \<and> goal - w < v);
          (d1, b1) = (if c1 then moveDirection b else (DirNext, b))
      in if c1 \<and> d1 = DirPrev then b1\<lparr>currentSlide := int i\<rparr>
         else
           let c2 = (goal + w < v \<and> above (goal + w));
               (d2, b2) = (if c2 then moveDirection b1 else (DirPrev, b1))
           in if c2 \<and> d2 = DirNext then b2\<lparr>currentSlide := int i + 1\<rparr> else b2)"

definition improveClosest :: "owl \<Rightarrow> owl" where
  "improveClosest b = fold closest_step [0..<length (positionsInArray b)] b"

definition getNewPosition :: "owl \<Rightarrow> int \<times> owl" where
  "getNewPosition b =
     (let b1 = improveClosest b; newPosition = currentSlide b1 in
      if newPosition > maximumSlide b1
      then (maximumSlide b1, b1\<lparr>currentSlide := maximumSlide b1\<rparr>)
      else if newPosX b1 \<ge> 0 then (0, b1\<lparr>currentSlide := 0\<rparr>)
      else (newPosition, b1))"

definition dragEnd :: "owl \<Rightarrow> owl" where
  "dragEnd b =
     (if \<not> endBound b then b
      else
        let b1 = (if \<not> isTouch b then b\<lparr>grabbing := False\<rparr> else b);
            b2 = b1\<lparr>moveBound := False, endBound := False\<rparr>
        in if newPosX b2 \<noteq> 0
           then let (newPosition, b3) = getNewPosition b2 in goTo newPosition GoUndefined b3
           else b2)"

section \<open>Start-up and the events\<close>

text \<open>The condition under which \<open>stopOnHover()\<close>, called once at start-up, binds its handlers.\<close>

definition hover_bound :: "owl \<Rightarrow> bool" where
  "hover_bound b \<longleftrightarrow> stopOnHover (options b) \<and> \<not> isTouch b \<and> autoPlay (options b) \<noteq> ApOff"

definition onStartup :: "owl \<Rightarrow> owl" where
  "onStartup b =
     (let b1 = updateControls (buildControls (calculateAll (updateItems b)));
          b2 = (if mouseDraggable (options b1) \<or> isTouch b1 then b1\<lparr>isCssFinish := True\<rparr> else b1);
          bh = b2\<lparr>hoverBound := hover_bound b2\<rparr>;
          b3 = (if autoPlay (options bh) = ApOn
                then bh\<lparr>options := (options bh)\<lparr>autoPlay := ApEvery 5000\<rparr>\<rparr> else bh);
          b4 = play b3;
          b5 = (if \<not> visible b4 then watchVisibility b4 else set_timeout FadeIn b4)
      in call_hook AfterInit (eachMoveUpdate b5))"

definition fresh_item :: "int \<Rightarrow> string option \<Rightarrow> owl_item" where
  "fresh_item h src =
     \<lparr>it_width = 0, it_index = 0, it_roundPages = 0, it_loaded = LoadUndefined,
      it_loading = False, it_active = False, it_height = h, it_lazy_src = src,
      it_src = None, it_img_shown = True\<rparr>"

text \<open>
  The object before \<open>onStartup\<close>: \<open>logIn\<close> on an element whose children have the given heights and
  lazy images, in a window of width \<open>win\<close>, the element \<open>el\<close> wide, with or without touch and 3d
  transforms.
\<close>

definition owl_raw ::
  "owl_options \<Rightarrow> (int \<times> string option) list \<Rightarrow> int \<Rightarrow> int \<Rightarrow> bool \<Rightarrow> bool \<Rightarrow> bool \<Rightarrow> owl" where
  "owl_raw opt children win el vis touch s3d =
     \<lparr>options = opt, itemsAmount = int (length children), orignalItems = items opt,
      currentSlide = 0, maximumSlide = 0, maximumPixels = 0, itemWidth = 0,
      positionsInArray = [], playDirection = DirNext, apStatus = ApUndefined,
      hoverStatus = ApUndefined, hoverBound = False, autoPlaySpeed = None, checkVisible = None, smallDelay = None,
      timers = no_timers, isTouch = touch, support3d = s3d, isCssFinish = True,
      isCss3Finish = True, animating = False,
      owlItems = map (\<lambda>(h, src). fresh_item h src) children, pages = [],
      hasControls = False, controlsShown = False, prevDisabled = False, nextDisabled = False,
      wrapperWidth = 0, wrapperLeft = None, wrapperTranslate = None, wrapperTransition = None,
      grabbing = False, opacity = 0, outerHeight = None, autoHeightClass = False, newPosX = 0,
      newPosY = 0, newRelativeX = 0, offsetX = 0, offsetY = 0, relativePos = 0, sliding = False,
      moveBound = False, endBound = False, winWidth = win, elemWidth = el, visible = vis,
      hooks = []\<rparr>"

definition logIn ::
  "owl_options \<Rightarrow> (int \<times> string option) list \<Rightarrow> int \<Rightarrow> int \<Rightarrow> bool \<Rightarrow> bool \<Rightarrow> bool \<Rightarrow> owl" where
  "logIn opt children win el vis touch s3d =
     onStartup (call_hook BeforeInit (owl_raw opt children win el vis touch s3d))"

definition heightCheck :: "int option \<Rightarrow> owl \<Rightarrow> owl" where
  "heightCheck h b = (if h \<noteq> slide_height b then b\<lparr>outerHeight := h\<rparr> else b)"

fun timer_handler :: "owl_timer \<Rightarrow> owl \<Rightarrow> owl" where
  "timer_handler AutoPlayTick b = autoplay_tick b"
| "timer_handler CheckVisibleTick b = checkVisible_tick b"
| "timer_handler Css3Finish b = b\<lparr>isCss3Finish := True\<rparr>"
| "timer_handler ResizeRefresh b = updateVars b"
| "timer_handler FadeIn b = b\<lparr>opacity := 1\<rparr>"
| "timer_handler ReloadNow b = updateVars b"
| "timer_handler (HeightCheck h) b = heightCheck h b"
| "timer_handler HeightClass b = b\<lparr>autoHeightClass := True\<rparr>"

fun is_interval :: "owl_timer \<Rightarrow> bool" where
  "is_interval AutoPlayTick = True"
| "is_interval CheckVisibleTick = True"
| "is_interval _ = False"

definition fire :: "nat \<Rightarrow> owl \<Rightarrow> owl" where
  "fire i b =
     (case map_of (live (timers b)) i of
        None \<Rightarrow> b
      | Some k \<Rightarrow> timer_handler k (if is_interval k then b else clear_interval (Some i) b))"

datatype owl_event =
    EvNext | EvPrev | EvPageClick nat | EvGoTo int | EvPlay int | EvStop
  | EvMouseOver | EvMouseOut
  | EvDragStart rat rat rat rat | EvDragMove rat rat | EvDragEnd
  | EvResize int int | EvVisible bool | EvTimer nat | EvAnimationEnd

fun owl_step :: "owl_event \<Rightarrow> owl \<Rightarrow> owl" where
  "owl_step EvNext b = owl_next GoUndefined b"
| "owl_step EvPrev b = owl_prev GoUndefined b"
| "owl_step (EvPageClick k) b = page_click k b"
| "owl_step (EvGoTo p) b = goTo p GoUndefined b"
| "owl_step (EvPlay ms) b =
     (play (b\<lparr>options := (options b)\<lparr>autoPlay := ApEvery ms\<rparr>\<rparr>))\<lparr>hoverStatus := ApPlay\<rparr>"
| "owl_step EvStop b = (stop b)\<lparr>hoverStatus := ApStop\<rparr>"
| "owl_step EvMouseOver b = (if hoverBound b then stop b else b)"
| "owl_step EvMouseOut b = (if hoverBound b \<and> hoverStatus b \<noteq> ApStop then play b else b)"
| "owl_step (EvDragStart x y left tp) b =
     (if mouseDraggable (options b) \<or> isTouch b then dragStart x y left tp b else b)"
| "owl_step (EvDragMove x y) b = dragMove x y b"
| "owl_step EvDragEnd b = dragEnd b"
| "owl_step (EvResize win el) b = on_resize win el b"
| "owl_step (EvVisible v) b = b\<lparr>visible := v\<rparr>"
| "owl_step (EvTimer i) b = fire i b"
| "owl_step EvAnimationEnd b = css2slide_complete b"

end
