(* ===== verification/Owl_Frame.thy ===== *)
theory Owl_Frame
  imports Owl_Model
begin

text \<open>
  What each operation of the carousel leaves alone. \<open>geom\<close> collects the sizes, the options and
  the page numbers of the items; \<open>clock\<close> the timers and the fields that hold their ids. An
  operation that moves the carousel changes neither the geometry nor, but for the autoplay timer,
  the clock; the lemmas below are the library's way to say so once.
\<close>

definition geom ::
  "owl \<Rightarrow> owl_options \<times> int \<times> int \<times> (int \<times> int \<times> int \<times> int list) \<times> int list \<times> int list" where
  "geom b = (options b, itemsAmount b, orignalItems b,
     (maximumSlide b, maximumPixels b, itemWidth b, positionsInArray b),
     map it_roundPages (owlItems b), map it_index (owlItems b))"

definition clock :: "owl \<Rightarrow> owl_timer timers \<times> nat option \<times> nat option \<times> nat option" where
  "clock b = (timers b, autoPlaySpeed b, checkVisible b, smallDelay b)"

lemma geomD:
  assumes "geom b = geom c"
  shows "options b = options c" and "itemsAmount b = itemsAmount c"
    and "orignalItems b = orignalItems c" and "maximumSlide b = maximumSlide c"
    and "maximumPixels b = maximumPixels c" and "itemWidth b = itemWidth c"
    and "positionsInArray b = positionsInArray c"
    and "map it_roundPages (owlItems b) = map it_roundPages (owlItems c)"
    and "map it_index (owlItems b) = map it_index (owlItems c)"
  using assms by (auto simp: geom_def)

subsection \<open>Helpers that touch one field\<close>

lemma call_hook_frame [simp, frame_simps]:
  "geom (call_hook h b) = geom b" "clock (call_hook h b) = clock b"
  "currentSlide (call_hook h b) = currentSlide b" "pages (call_hook h b) = pages b"
  "options (call_hook h b) = options b" "owlItems (call_hook h b) = owlItems b"
  "maximumSlide (call_hook h b) = maximumSlide b" "itemsAmount (call_hook h b) = itemsAmount b"
  "positionsInArray (call_hook h b) = positionsInArray b" "support3d (call_hook h b) = support3d b"
  "playDirection (call_hook h b) = playDirection b" "apStatus (call_hook h b) = apStatus b"
  "wrapperTranslate (call_hook h b) = wrapperTranslate b"
  "wrapperLeft (call_hook h b) = wrapperLeft b" "visible (call_hook h b) = visible b"
  "itemWidth (call_hook h b) = itemWidth b" "elemWidth (call_hook h b) = elemWidth b"
  by (simp_all add: call_hook_def geom_def clock_def)

lemma clear_interval_frame [simp, frame_simps]:
  "geom (clear_interval i b) = geom b"
  "currentSlide (clear_interval i b) = currentSlide b" "pages (clear_interval i b) = pages b"
  "options (clear_interval i b) = options b" "owlItems (clear_interval i b) = owlItems b"
  "timers (clear_interval i b) = clear_timer i (timers b)"
  "autoPlaySpeed (clear_interval i b) = autoPlaySpeed b"
  "checkVisible (clear_interval i b) = checkVisible b"
  "smallDelay (clear_interval i b) = smallDelay b"
  "elemWidth (clear_interval i b) = elemWidth b" "visible (clear_interval i b) = visible b"
  by (simp_all add: clear_interval_def geom_def)

lemma set_timeout_frame [simp, frame_simps]:
  "geom (set_timeout k b) = geom b"
  "currentSlide (set_timeout k b) = currentSlide b" "pages (set_timeout k b) = pages b"
  "options (set_timeout k b) = options b" "owlItems (set_timeout k b) = owlItems b"
  "timers (set_timeout k b) = snd (set_timer k (timers b))"
  "autoPlaySpeed (set_timeout k b) = autoPlaySpeed b"
  "checkVisible (set_timeout k b) = checkVisible b"
  "smallDelay (set_timeout k b) = smallDelay b"
  "elemWidth (set_timeout k b) = elemWidth b" "visible (set_timeout k b) = visible b"
  "playDirection (set_timeout k b) = playDirection b"
  by (simp_all add: set_timeout_def geom_def)

subsection \<open>Work done after each move\<close>

lemma lazy_item_frame [simp, frame_simps]:
  "it_roundPages (lazy_item b x) = it_roundPages x" "it_index (lazy_item b x) = it_index x"
  "it_height (lazy_item b x) = it_height x" "it_active (lazy_item b x) = it_active x"
  by (simp_all add: lazy_item_def Let_def split: option.splits)

lemma lazyLoad_all_frame [simp, frame_simps]:
  "geom (lazyLoad_all b) = geom b" "clock (lazyLoad_all b) = clock b"
  "currentSlide (lazyLoad_all b) = currentSlide b" "pages (lazyLoad_all b) = pages b"
  "options (lazyLoad_all b) = options b" "playDirection (lazyLoad_all b) = playDirection b"
  "wrapperTranslate (lazyLoad_all b) = wrapperTranslate b"
  "wrapperLeft (lazyLoad_all b) = wrapperLeft b" "elemWidth (lazyLoad_all b) = elemWidth b"
  "apStatus (lazyLoad_all b) = apStatus b" "support3d (lazyLoad_all b) = support3d b"
  by (simp_all add: lazyLoad_all_def geom_def clock_def o_def)

lemma autoHeight_update_frame [simp, frame_simps]:
  "geom (autoHeight_update b) = geom b"
  "currentSlide (autoHeight_update b) = currentSlide b" "pages (autoHeight_update b) = pages b"
  "options (autoHeight_update b) = options b" "owlItems (autoHeight_update b) = owlItems b"
  "playDirection (autoHeight_update b) = playDirection b"
  "wrapperTranslate (autoHeight_update b) = wrapperTranslate b"
  "wrapperLeft (autoHeight_update b) = wrapperLeft b"
  "autoPlaySpeed (autoHeight_update b) = autoPlaySpeed b"
  "checkVisible (autoHeight_update b) = checkVisible b"
  "smallDelay (autoHeight_update b) = smallDelay b"
  "elemWidth (autoHeight_update b) = elemWidth b" "apStatus (autoHeight_update b) = apStatus b"
  "support3d (autoHeight_update b) = support3d b"
  by (simp_all add: autoHeight_update_def geom_def set_timeout_def)

lemma addActiveClass_frame [simp, frame_simps]:
  "geom (addActiveClass b) = geom b" "clock (addActiveClass b) = clock b"
  "currentSlide (addActiveClass b) = currentSlide b" "pages (addActiveClass b) = pages b"
  "options (addActiveClass b) = options b" "playDirection (addActiveClass b) = playDirection b"
  "wrapperTranslate (addActiveClass b) = wrapperTranslate b"
  "wrapperLeft (addActiveClass b) = wrapperLeft b" "elemWidth (addActiveClass b) = elemWidth b"
  "apStatus (addActiveClass b) = apStatus b" "support3d (addActiveClass b) = support3d b"
proof -
  have m: "map g (map_index_from i (\<lambda>k x. x\<lparr>it_active := P k\<rparr>) xs) = map g xs"
    if "\<And>x v. g (x\<lparr>it_active := v\<rparr>) = (g x :: int)" for g xs i P
    by (induction xs arbitrary: i) (auto simp: that)
  show "geom (addActiveClass b) = geom b"
    by (simp add: addActiveClass_def geom_def m)
qed (simp_all add: addActiveClass_def clock_def)

lemma eachMoveUpdate_frame [simp, frame_simps]:
  "geom (eachMoveUpdate b) = geom b"
  "currentSlide (eachMoveUpdate b) = currentSlide b" "pages (eachMoveUpdate b) = pages b"
  "options (eachMoveUpdate b) = options b" "playDirection (eachMoveUpdate b) = playDirection b"
  "wrapperTranslate (eachMoveUpdate b) = wrapperTranslate b"
  "wrapperLeft (eachMoveUpdate b) = wrapperLeft b" "elemWidth (eachMoveUpdate b) = elemWidth b"
  "apStatus (eachMoveUpdate b) = apStatus b" "support3d (eachMoveUpdate b) = support3d b"
  by (simp_all add: eachMoveUpdate_def Let_def)

subsection \<open>Controls\<close>

lemma checkPagination_frame [simp, frame_simps]:
  "geom (checkPagination b) = geom b" "clock (checkPagination b) = clock b"
  "currentSlide (checkPagination b) = currentSlide b"
  "options (checkPagination b) = options b" "owlItems (checkPagination b) = owlItems b"
  "playDirection (checkPagination b) = playDirection b"
  "wrapperTranslate (checkPagination b) = wrapperTranslate b"
  "wrapperLeft (checkPagination b) = wrapperLeft b" "elemWidth (checkPagination b) = elemWidth b"
  "apStatus (checkPagination b) = apStatus b" "support3d (checkPagination b) = support3d b"
  by (simp_all add: checkPagination_def geom_def clock_def Let_def)

lemma updatePagination_frame [simp, frame_simps]:
  "geom (updatePagination b) = geom b" "clock (updatePagination b) = clock b"
  "currentSlide (updatePagination b) = currentSlide b"
  "options (updatePagination b) = options b" "owlItems (updatePagination b) = owlItems b"
  "elemWidth (updatePagination b) = elemWidth b"
  "playDirection (updatePagination b) = playDirection b"
  by (simp_all add: updatePagination_def checkPagination_def geom_def clock_def Let_def)

lemma checkNavigation_frame [simp, frame_simps]:
  "geom (checkNavigation b) = geom b" "clock (checkNavigation b) = clock b"
  "currentSlide (checkNavigation b) = currentSlide b" "pages (checkNavigation b) = pages b"
  "options (checkNavigation b) = options b" "owlItems (checkNavigation b) = owlItems b"
  "playDirection (checkNavigation b) = playDirection b"
  "wrapperTranslate (checkNavigation b) = wrapperTranslate b"
  "wrapperLeft (checkNavigation b) = wrapperLeft b" "elemWidth (checkNavigation b) = elemWidth b"
  "apStatus (checkNavigation b) = apStatus b" "support3d (checkNavigation b) = support3d b"
  by (simp_all add: checkNavigation_def geom_def clock_def Let_def)

lemma buildControls_frame [simp, frame_simps]:
  "geom (buildControls b) = geom b" "clock (buildControls b) = clock b"
  "currentSlide (buildControls b) = currentSlide b" "pages (buildControls b) = pages b"
  "options (buildControls b) = options b" "owlItems (buildControls b) = owlItems b"
  "elemWidth (buildControls b) = elemWidth b" "playDirection (buildControls b) = playDirection b"
  by (simp_all add: buildControls_def geom_def clock_def)

lemma updateControls_frame [simp, frame_simps]:
  "geom (updateControls b) = geom b" "clock (updateControls b) = clock b"
  "currentSlide (updateControls b) = currentSlide b"
  "pages (updateControls b) = pages (updatePagination b)"
  "options (updateControls b) = options b" "owlItems (updateControls b) = owlItems b"
  "elemWidth (updateControls b) = elemWidth b"
  "playDirection (updateControls b) = playDirection b"
proof -
  have g: "geom (c\<lparr>controlsShown := v\<rparr>) = geom c" "clock (c\<lparr>controlsShown := v\<rparr>) = clock c"
    for c v by (simp_all add: geom_def clock_def)
  show "geom (updateControls b) = geom b" "clock (updateControls b) = clock b"
    by (simp_all add: updateControls_def Let_def g)
qed (simp_all add: updateControls_def Let_def)

subsection \<open>Autoplay and wrapper\<close>

lemma play_frame [simp, frame_simps]:
  "geom (play b) = geom b" "currentSlide (play b) = currentSlide b" "pages (play b) = pages b"
  "options (play b) = options b" "owlItems (play b) = owlItems b"
  "playDirection (play b) = playDirection b" "wrapperTranslate (play b) = wrapperTranslate b"
  "wrapperLeft (play b) = wrapperLeft b" "elemWidth (play b) = elemWidth b"
  "support3d (play b) = support3d b" "apStatus (play b) = ApPlay" "visible (play b) = visible b"
  "checkVisible (play b) = checkVisible b" "smallDelay (play b) = smallDelay b"
  by (simp_all add: play_def geom_def clear_interval_def Let_def split: prod.splits)

lemma checkAp_frame [simp, frame_simps]:
  "geom (checkAp b) = geom b" "currentSlide (checkAp b) = currentSlide b"
  "pages (checkAp b) = pages b" "options (checkAp b) = options b"
  "owlItems (checkAp b) = owlItems b" "playDirection (checkAp b) = playDirection b"
  "wrapperTranslate (checkAp b) = wrapperTranslate b"
  "wrapperLeft (checkAp b) = wrapperLeft b" "elemWidth (checkAp b) = elemWidth b"
  "support3d (checkAp b) = support3d b"
  by (simp_all add: checkAp_def)

lemma stop_frame [simp, frame_simps]:
  "geom (stop b) = geom b" "currentSlide (stop b) = currentSlide b" "pages (stop b) = pages b"
  "options (stop b) = options b" "owlItems (stop b) = owlItems b"
  "elemWidth (stop b) = elemWidth b"
  by (simp_all add: stop_def geom_def clear_interval_def)

lemma css2slide_frame [simp, frame_simps]:
  "geom (css2slide v b) = geom b" "clock (css2slide v b) = clock b"
  "currentSlide (css2slide v b) = currentSlide b" "pages (css2slide v b) = pages b"
  "options (css2slide v b) = options b" "owlItems (css2slide v b) = owlItems b"
  "playDirection (css2slide v b) = playDirection b" "wrapperLeft (css2slide v b) = v"
  "elemWidth (css2slide v b) = elemWidth b" "apStatus (css2slide v b) = apStatus b"
  "support3d (css2slide v b) = support3d b"
  by (simp_all add: css2slide_def geom_def clock_def Let_def)

lemma transition3d_frame [simp, frame_simps]:
  "geom (transition3d v b) = geom b" "clock (transition3d v b) = clock b"
  "currentSlide (transition3d v b) = currentSlide b" "pages (transition3d v b) = pages b"
  "options (transition3d v b) = options b" "owlItems (transition3d v b) = owlItems b"
  "playDirection (transition3d v b) = playDirection b" "wrapperTranslate (transition3d v b) = v"
  "elemWidth (transition3d v b) = elemWidth b" "apStatus (transition3d v b) = apStatus b"
  "support3d (transition3d v b) = support3d b"
  by (simp_all add: transition3d_def geom_def clock_def)

lemma move3d_frame [simp, frame_simps]:
  "geom (move3d a v b) = geom b"
  "currentSlide (move3d a v b) = currentSlide b" "pages (move3d a v b) = pages b"
  "options (move3d a v b) = options b" "owlItems (move3d a v b) = owlItems b"
  "playDirection (move3d a v b) = playDirection b" "wrapperTranslate (move3d a v b) = v"
  "elemWidth (move3d a v b) = elemWidth b" "apStatus (move3d a v b) = apStatus b"
  "support3d (move3d a v b) = support3d b"
  "timers (move3d a v b) = snd (set_timer Css3Finish (timers b))"
  "autoPlaySpeed (move3d a v b) = autoPlaySpeed b" "checkVisible (move3d a v b) = checkVisible b"
  "smallDelay (move3d a v b) = smallDelay b"
  by (simp_all add: move3d_def geom_def addTransition_def transition3d_def set_timeout_def Let_def
        split: goto_arg.splits)

subsection \<open>Moves\<close>

lemma goTo_frame [simp, frame_simps]:
  "geom (goTo p a b) = geom b" "options (goTo p a b) = options b"
  "playDirection (goTo p a b) = playDirection b" "elemWidth (goTo p a b) = elemWidth b"
  "support3d (goTo p a b) = support3d b"
proof -
  have g: "geom (c\<lparr>currentSlide := v\<rparr>) = geom c" for c v by (simp add: geom_def)
  show "geom (goTo p a b) = geom b" by (simp add: goTo_def Let_def g)
qed (simp_all add: goTo_def Let_def)

lemma goTo_currentSlide [simp]:
  "currentSlide (goTo p a b) =
     (if p \<ge> maximumSlide b then maximumSlide b else if p \<le> 0 then 0 else p)"
  by (simp add: goTo_def Let_def)

text \<open>The simplest setter frames, for the events that write one field of the object.\<close>

lemma geom_setters [simp, frame_simps]:
  "geom (b\<lparr>currentSlide := v\<rparr>) = geom b" "geom (b\<lparr>playDirection := d\<rparr>) = geom b"
  "geom (b\<lparr>hoverStatus := h\<rparr>) = geom b" "geom (b\<lparr>hoverBound := q\<rparr>) = geom b" "geom (b\<lparr>visible := q\<rparr>) = geom b"
  "geom (b\<lparr>isCss3Finish := q\<rparr>) = geom b" "geom (b\<lparr>isCssFinish := q\<rparr>) = geom b"
  "geom (b\<lparr>opacity := n\<rparr>) = geom b" "geom (b\<lparr>outerHeight := w\<rparr>) = geom b"
  "geom (b\<lparr>autoHeightClass := q\<rparr>) = geom b"
  by (simp_all add: geom_def)

lemma owl_next_frame [simp, frame_simps]:
  "geom (owl_next a b) = geom b" "options (owl_next a b) = options b"
  "playDirection (owl_next a b) = playDirection b" "elemWidth (owl_next a b) = elemWidth b"
  by (simp_all add: owl_next_def Let_def)

lemma owl_prev_frame [simp, frame_simps]:
  "geom (owl_prev a b) = geom b" "options (owl_prev a b) = options b"
  "playDirection (owl_prev a b) = playDirection b" "elemWidth (owl_prev a b) = elemWidth b"
  by (simp_all add: owl_prev_def Let_def)

lemma autoplay_tick_frame [simp, frame_simps]:
  "geom (autoplay_tick b) = geom b" "options (autoplay_tick b) = options b"
  "elemWidth (autoplay_tick b) = elemWidth b"
  by (simp_all add: autoplay_tick_def Let_def)

lemma page_click_frame [simp, frame_simps]:
  "geom (page_click k b) = geom b" "elemWidth (page_click k b) = elemWidth b"
  by (simp_all add: page_click_def split: option.splits)

lemma css2slide_complete_frame [simp, frame_simps]:
  "geom (css2slide_complete b) = geom b" "clock (css2slide_complete b) = clock b"
  "currentSlide (css2slide_complete b) = currentSlide b"
  "pages (css2slide_complete b) = pages b" "elemWidth (css2slide_complete b) = elemWidth b"
  by (simp_all add: css2slide_complete_def geom_def clock_def)

lemma updatePosition_frame [simp, frame_simps]:
  "geom (updatePosition b) = geom b" "elemWidth (updatePosition b) = elemWidth b"
  by (simp_all add: updatePosition_def Let_def)

lemma watchVisibility_frame [simp, frame_simps]:
  "geom (watchVisibility b) = geom b" "elemWidth (watchVisibility b) = elemWidth b"
  "currentSlide (watchVisibility b) = currentSlide b" "pages (watchVisibility b) = pages b"
  "autoPlaySpeed (watchVisibility b) = autoPlaySpeed b"
  "smallDelay (watchVisibility b) = smallDelay b"
  "options (watchVisibility b) = options b" "playDirection (watchVisibility b) = playDirection b"
  by (simp_all add: watchVisibility_def geom_def clear_interval_def Let_def split: prod.splits)

lemma moveDirection_frame [simp, frame_simps]:
  "geom (snd (moveDirection b)) = geom b" "clock (snd (moveDirection b)) = clock b"
  "currentSlide (snd (moveDirection b)) = currentSlide b"
  "pages (snd (moveDirection b)) = pages b" "newPosX (snd (moveDirection b)) = newPosX b"
  "newRelativeX (snd (moveDirection b)) = newRelativeX b"
  "elemWidth (snd (moveDirection b)) = elemWidth b"
  by (simp_all add: moveDirection_def geom_def clock_def)

lemma closest_step_frame [simp, frame_simps]:
  "geom (closest_step i b) = geom b" "clock (closest_step i b) = clock b"
  "pages (closest_step i b) = pages b" "newPosX (closest_step i b) = newPosX b"
  "newRelativeX (closest_step i b) = newRelativeX b"
  "elemWidth (closest_step i b) = elemWidth b"
  by (simp_all add: closest_step_def moveDirection_def geom_def clock_def Let_def
        split: option.splits prod.splits)

lemma fold_closest_frame:
  "geom (fold closest_step is b) = geom b \<and> clock (fold closest_step is b) = clock b \<and>
   pages (fold closest_step is b) = pages b \<and> newPosX (fold closest_step is b) = newPosX b \<and>
   newRelativeX (fold closest_step is b) = newRelativeX b \<and>
   elemWidth (fold closest_step is b) = elemWidth b"
  by (induction "is" arbitrary: b) auto

lemma improveClosest_frame [simp, frame_simps]:
  "geom (improveClosest b) = geom b" "clock (improveClosest b) = clock b"
  "pages (improveClosest b) = pages b" "newPosX (improveClosest b) = newPosX b"
  "newRelativeX (improveClosest b) = newRelativeX b"
  "elemWidth (improveClosest b) = elemWidth b"
  by (simp_all add: improveClosest_def fold_closest_frame)

lemma getNewPosition_frame [simp, frame_simps]:
  "geom (snd (getNewPosition b)) = geom b" "clock (snd (getNewPosition b)) = clock b"
  "elemWidth (snd (getNewPosition b)) = elemWidth b"
  by (simp_all add: getNewPosition_def clock_def [of "_\<lparr>currentSlide := _\<rparr>"]
        clock_def [symmetric] Let_def)

end
