(* ===== verification/Owl_Pages.thy ===== *)
theory Owl_Pages
  imports Owl_Frame
begin

text \<open>
  The page buttons of the carousel and the page number \<open>owl-roundPages\<close> of each item. The two are
  computed by different loops (\<open>updatePagination\<close> and \<open>appendItemsSizes\<close>) and compared by
  \<open>checkPagination\<close>; the lemmas give both loops a closed form and show that they agree.
\<close>

section \<open>Rounded-up division\<close>

definition ceil_div :: "int \<Rightarrow> int \<Rightarrow> int" where
  "ceil_div a k = (a + k - 1) div k"

lemma ceil_div_step_mult:
  assumes "0 < k" "i mod k = 0"
  shows "ceil_div i k = i div k" and "ceil_div (i + 1) k = i div k + 1"
proof -
  from assms obtain q where i: "i = k * q" by auto
  have "(k * q + k - 1) div k = q"
    using assms by (intro int_div_pos_eq [of _ _ _ "k - 1"]) auto
  then show "ceil_div i k = i div k" using i assms by (simp add: ceil_div_def)
  show "ceil_div (i + 1) k = i div k + 1" using i assms by (simp add: ceil_div_def)
qed

lemma ceil_div_step_other:
  assumes "0 < k" "i mod k \<noteq> 0"
  shows "ceil_div i k = i div k + 1" and "ceil_div (i + 1) k = i div k + 1"
proof -
  define q r where qr: "q = i div k" "r = i mod k"
  have i: "i = k * q + r" by (simp add: qr)
  have r: "0 < r" "r < k"
    using assms pos_mod_bound [of k i] pos_mod_sign [of k i] unfolding qr by linarith+
  have "(i + k - 1) div k = q + 1"
    using r i by (intro int_div_pos_eq [of _ _ _ "r - 1"]) (auto simp: algebra_simps)
  then show "ceil_div i k = i div k + 1" by (simp add: ceil_div_def qr)
  have "(i + 1 + k - 1) div k = q + 1"
    using r i by (intro int_div_pos_eq [of _ _ _ r]) (auto simp: algebra_simps)
  then show "ceil_div (i + 1) k = i div k + 1" by (simp add: ceil_div_def qr)
qed

lemma ceil_div_mono: "0 < k \<Longrightarrow> a \<le> b \<Longrightarrow> ceil_div a k \<le> ceil_div b k"
  by (simp add: ceil_div_def zdiv_mono1)

lemma ceil_div_0 [simp]: "0 < k \<Longrightarrow> ceil_div 0 k = 0"
  by (simp add: ceil_div_def)

lemma ceil_div_add: "0 < k \<Longrightarrow> ceil_div (a + k) k = ceil_div a k + 1"
proof -
  assume "0 < k"
  have "(a + k + k - 1) = (a + k - 1) + 1 * k" by simp
  then show "ceil_div (a + k) k = ceil_div a k + 1"
    using \<open>0 < k\<close> unfolding ceil_div_def by (simp only: div_mult_self1)
qed

section \<open>The page of an item\<close>

text \<open>What \<open>appendItemsSizes\<close> writes: pages of \<open>its\<close> items, the last one reached at \<open>lst\<close>.\<close>

definition round_page :: "int \<Rightarrow> int \<Rightarrow> int \<Rightarrow> int" where
  "round_page its lst j = (if j < lst then j div its + 1 else ceil_div lst its + 1)"

lemma append_sizes_rounds:
  assumes "0 < its" "0 \<le> lst" "0 \<le> i"
    and "rp = (if i = 0 then 0 else round_page its lst (i - 1))"
  shows "map it_roundPages (append_sizes w its lst i rp xs) =
         map (\<lambda>k. round_page its lst (i + int k)) [0..<length xs]"
  using assms(3,4)
proof (induction xs arbitrary: i rp)
  case (Cons x xs)
  let ?rp = "if (i mod its = 0 \<or> i = lst) \<and> \<not> i > lst then rp + 1 else rp"
  have rp: "?rp = round_page its lst i"
  proof (cases "i = 0")
    case True
    then show ?thesis using Cons.prems assms(1,2) by (simp add: round_page_def)
  next
    case False
    then have r: "rp = round_page its lst (i - 1)" and i: "0 < i" using Cons.prems by auto
    have d: "(i - 1) div its + 1 = ceil_div i its"
    proof -
      have "i + its - 1 = (i - 1) + 1 * its" by simp
      then show ?thesis using assms(1) unfolding ceil_div_def by (simp only: div_mult_self1)
    qed
    consider "i < lst" | "i = lst" | "i > lst" by linarith
    then show ?thesis
    proof cases
      case 1
      then have "rp = ceil_div i its" using r d by (simp add: round_page_def)
      then show ?thesis using 1 assms(1) ceil_div_step_mult(1) [of its i]
          ceil_div_step_other(1) [of its i] by (simp add: round_page_def)
    next
      case 2
      then have "rp = ceil_div lst its" using r d by (simp add: round_page_def)
      then show ?thesis using 2 by (simp add: round_page_def)
    next
      case 3
      then show ?thesis using r by (simp add: round_page_def)
    qed
  qed
  have "map it_roundPages (append_sizes w its lst (i + 1) ?rp xs) =
        map (\<lambda>k. round_page its lst (i + 1 + int k)) [0..<length xs]"
    by (rule Cons.IH) (use Cons.prems rp in auto)
  then have *: "map it_roundPages (append_sizes w its lst i rp (x # xs)) =
        round_page its lst i # map (\<lambda>k. round_page its lst (i + 1 + int k)) [0..<length xs]"
  proof -
    have "(if i mod its = 0 \<or> i = lst then if \<not> i > lst then rp + 1 else rp else rp) =
          round_page its lst i"
      using rp by (cases "(i mod its = 0 \<or> i = lst) \<and> \<not> i > lst") auto
    then show ?thesis using \<open>map _ _ = _\<close> rp by (simp only: append_sizes.simps Let_def) simp
  qed
  have "map (\<lambda>k. round_page its lst (i + int k)) [0..<length (x # xs)] =
        round_page its lst i # map (\<lambda>k. round_page its lst (i + int (Suc k))) [0..<length xs]"
    by (subst upt_conv_Cons) (simp_all add: map_Suc_upt [symmetric] o_def del: upt_Suc)
  then show ?case using * by (simp add: algebra_simps)
qed simp

lemma append_sizes_index:
  "map it_index (append_sizes w its lst i rp xs) = map (\<lambda>k. i + int k) [0..<length xs]"
proof (induction xs arbitrary: i rp)
  case (Cons x xs)
  have "map (\<lambda>k. i + int k) [0..<length (x # xs)] =
        i # map (\<lambda>k. i + int (Suc k)) [0..<length xs]"
    by (subst upt_conv_Cons) (simp_all add: map_Suc_upt [symmetric] o_def del: upt_Suc)
  then show ?case using Cons by (simp add: Let_def algebra_simps)
qed simp

section \<open>The page buttons\<close>

definition page_button :: "int \<Rightarrow> int \<Rightarrow> bool \<Rightarrow> int \<Rightarrow> owl_page" where
  "page_button n its numbers k =
     \<lparr>pg_target = Some (if n - n mod its = k * its then n - its else k * its),
      pg_roundPages = k + 1, pg_text = (if numbers then Some (k + 1) else None),
      pg_active = False\<rparr>"

lemma pages_loop_from:
  assumes "0 < its" "0 \<le> i" "i \<le> n"
  shows "pages_loop n its nums i (ceil_div i its) lst =
         map (\<lambda>k. page_button n its nums (int k)) [nat (ceil_div i its)..<nat (ceil_div n its)]"
  using assms(2,3)
proof (induction "nat (n - i)" arbitrary: i lst)
  case 0
  then have "i = n" by simp
  then show ?case by (subst pages_loop.simps) simp
next
  case (Suc d)
  let ?c = "ceil_div i its"
  have i: "i < n" using Suc.hyps(2) by linarith
  show ?case
  proof (cases "i mod its = 0")
    case True
    note c = ceil_div_step_mult [OF assms(1) True]
    have m: "i = ?c * its" using True c by (simp add: minus_mod_eq_div_mult [symmetric])
    have IH: "pages_loop n its nums (i + 1) (?c + 1) l =
        map (\<lambda>k. page_button n its nums (int k)) [nat (?c + 1)..<nat (ceil_div n its)]" for l
      using Suc.hyps(1) [of "i + 1"] Suc.hyps(2) Suc.prems i c by simp
    have nn: "0 \<le> ?c" using c(1) Suc.prems(1) assms(1) by (simp add: pos_imp_zdiv_nonneg_iff)
    have lt: "?c < ceil_div n its"
      using ceil_div_mono [OF assms(1), of "i + 1" n] i c by linarith
    have upt: "[nat ?c..<nat (ceil_div n its)] = nat ?c # [nat (?c + 1)..<nat (ceil_div n its)]"
      using nn lt by (subst upt_conv_Cons) (auto simp: nat_add_distrib)
    have "pages_loop n its nums i ?c lst = page_button n its nums ?c
        # map (\<lambda>k. page_button n its nums (int k)) [nat (?c + 1)..<nat (ceil_div n its)]"
      using i True m
      by (subst pages_loop.simps) (simp add: Let_def IH page_button_def)
    then show ?thesis using upt nn by simp
  next
    case False
    note c = ceil_div_step_other [OF assms(1) False]
    have "pages_loop n its nums (i + 1) (ceil_div (i + 1) its) lst =
        map (\<lambda>k. page_button n its nums (int k)) [nat (ceil_div (i + 1) its)..<nat (ceil_div n its)]"
      using Suc.hyps(1) [of "i + 1"] Suc.hyps(2) Suc.prems i by simp
    then show ?thesis using i False c by (subst pages_loop.simps) simp
  qed
qed

lemma pages_loop_eq:
  "0 < its \<Longrightarrow> 0 \<le> n \<Longrightarrow> pages_loop n its nums 0 0 None =
     map (\<lambda>k. page_button n its nums (int k)) [0..<nat (ceil_div n its)]"
  using pages_loop_from [of its 0 n nums None] by simp

section \<open>Items and buttons agree\<close>

lemma round_page_range:
  assumes "0 < its" "its \<le> n" "0 \<le> j" "j \<le> n - its"
  shows "1 \<le> round_page its (n - its) j" and "round_page its (n - its) j \<le> ceil_div n its"
proof -
  have lastp: "ceil_div (n - its) its + 1 = ceil_div n its"
    using ceil_div_add [OF assms(1), of "n - its"] by simp
  have nn: "0 \<le> ceil_div (n - its) its"
    using ceil_div_mono [OF assms(1), of 0 "n - its"] assms by simp
  have j: "0 \<le> j div its" using assms by (simp add: pos_imp_zdiv_nonneg_iff)
  show "1 \<le> round_page its (n - its) j" using j nn by (simp add: round_page_def)
  show "round_page its (n - its) j \<le> ceil_div n its"
  proof (cases "j < n - its")
    case True
    have "j div its + 1 = ceil_div (j + 1) its"
      using ceil_div_step_mult(2) ceil_div_step_other(2) assms(1) by (cases "j mod its = 0") auto
    also have "\<dots> \<le> ceil_div n its" using True assms(1) by (intro ceil_div_mono) auto
    finally show ?thesis using True by (simp add: round_page_def)
  next
    case False
    then show ?thesis using lastp by (simp add: round_page_def)
  qed
qed

text \<open>The slide a page button leads to lies on that button's page.\<close>

lemma page_button_target:
  assumes "0 < its" "its \<le> n" "0 \<le> k" "k < ceil_div n its"
  shows "\<exists>t. pg_target (page_button n its nums k) = Some t \<and> 0 \<le> t \<and> t \<le> n - its \<and>
             round_page its (n - its) t = k + 1"
proof -
  have lastp: "ceil_div (n - its) its + 1 = ceil_div n its"
    using ceil_div_add [OF assms(1), of "n - its"] by simp
  have kle: "k * its \<le> n - 1"
  proof -
    have "k \<le> (n - 1) div its"
      using assms(4) unfolding ceil_div_def
      by (metis assms(1) add.commute add_diff_eq div_add_self1 less_irrefl zle_add1_eq_le add.commute
          diff_add_eq)
    then have "k * its \<le> (n - 1) div its * its" using assms(1) by simp
    also have "\<dots> \<le> n - 1" using assms(1) minus_mod_eq_div_mult [of "n - 1" its] pos_mod_sign [of its "n - 1"]
      by linarith
    finally show ?thesis .
  qed
  show ?thesis
  proof (cases "n - n mod its = k * its")
    case True
    then have "n mod its \<noteq> 0" using kle by auto
    then have "ceil_div n its = n div its + 1" using ceil_div_step_other assms(1) by blast
    moreover have "n div its = k"
      using True assms(1) by (metis minus_mod_eq_div_mult mult_right_cancel less_irrefl)
    ultimately show ?thesis
      using True assms lastp by (simp add: page_button_def round_page_def)
  next
    case False
    have le: "k * its \<le> n - its"
    proof (rule ccontr)
      assume "\<not> k * its \<le> n - its"
      then have "n div its = k"
        using kle assms(1) by (intro int_div_pos_eq [of _ _ _ "n - k * its"]) (auto simp: algebra_simps)
      then show False using False minus_mod_eq_div_mult [of n its] by simp
    qed
    have r: "round_page its (n - its) (k * its) = k + 1"
    proof (cases "k * its = n - its")
      case True
      then have "ceil_div (n - its) its = k"
        using ceil_div_step_mult(1) [OF assms(1), of "k * its"] assms(1)
        by (simp only: True [symmetric]) simp
      then show ?thesis using True by (simp add: round_page_def)
    next
      case neq: False
      then show ?thesis using le assms(1) by (simp add: round_page_def)
    qed
    then show ?thesis using False le assms by (simp add: page_button_def)
  qed
qed

section \<open>Which button is active\<close>

text \<open>\<open>activate_page\<close> over all buttons: with distinct page numbers, exactly the matching one.\<close>

definition set_active :: "int option \<Rightarrow> owl_page \<Rightarrow> owl_page" where
  "set_active r p = p\<lparr>pg_active := Some (pg_roundPages p) = r\<rparr>"

lemma activate_page_round: "map pg_roundPages (activate_page r i ps) = map pg_roundPages ps"
  by (auto simp: activate_page_def list_eq_iff_nth_eq nth_list_update)

lemma activate_page_length [simp]: "length (activate_page r i ps) = length ps"
  by (simp add: activate_page_def)

lemma fold_activate_length [simp]: "length (fold (activate_page r) is ps) = length ps"
  by (induction "is" arbitrary: ps) auto

lemma fold_activate_round:
  "map pg_roundPages (fold (activate_page r) is ps) = map pg_roundPages ps"
  by (induction "is" arbitrary: ps) (auto simp: activate_page_round)

lemma fold_activate_none:
  assumes "\<forall>i \<in> set is. i < length ps \<longrightarrow> Some (map pg_roundPages ps ! i) \<noteq> r"
  shows "fold (activate_page r) is ps = ps"
  using assms by (induction "is") (auto simp: activate_page_def)

lemma activate_match:
  assumes "j < length ps" "r = Some (pg_roundPages (ps ! j))" "distinct (map pg_roundPages ps)"
  shows "activate_page r j ps = map (set_active r) ps"
proof (rule nth_equalityI)
  fix i assume "i < length (activate_page r j ps)"
  then have i: "i < length ps" by simp
  have "i = j \<longleftrightarrow> pg_roundPages (ps ! i) = pg_roundPages (ps ! j)"
    using assms i by (auto simp: distinct_conv_nth)
  then show "activate_page r j ps ! i = map (set_active r) ps ! i"
    using assms i by (auto simp: activate_page_def set_active_def nth_list_update)
qed simp

lemma fold_activate_match:
  assumes d: "distinct (map pg_roundPages ps)"
    and m: "j < length ps" "r = Some (pg_roundPages (ps ! j))"
  shows "fold (activate_page r) [0..<length ps] ps = map (set_active r) ps"
proof -
  let ?R = "map pg_roundPages ps"
  have uniq: "i = j" if "i < length ps" "Some (?R ! i) = r" for i
    using that m d by (auto simp: distinct_conv_nth)
  have split: "[0..<length ps] = [0..<j] @ j # [Suc j..<length ps]"
    using m(1) by (metis le_add_diff_inverse less_imp_le_nat upt_add_eq_append upt_conv_Cons zero_le)
  have 1: "fold (activate_page r) [0..<j] ps = ps"
  proof (rule fold_activate_none)
    show "\<forall>i \<in> set [0..<j]. i < length ps \<longrightarrow> Some (?R ! i) \<noteq> r"
      using uniq by fastforce
  qed
  have 2: "activate_page r j ps = map (set_active r) ps"
    by (rule activate_match [OF m(1) m(2) d])
  have "fold (activate_page r) [Suc j..<length ps] (map (set_active r) ps) = map (set_active r) ps"
  proof (rule fold_activate_none)
    have "map pg_roundPages (map (set_active r) ps) = ?R" by (simp add: set_active_def o_def)
    then show "\<forall>i \<in> set [Suc j..<length ps]. i < length (map (set_active r) ps) \<longrightarrow>
        Some (map pg_roundPages (map (set_active r) ps) ! i) \<noteq> r"
      using uniq by (metis Suc_n_not_le_n atLeastLessThan_iff atLeastLessThan_upt)
  qed
  then show ?thesis by (simp add: split 1 2)
qed

end
