(* ===== verification/Owl_Invariant.thy ===== *)
theory Owl_Invariant
  imports Owl_Pages
begin

text \<open>
  The invariant of the carousel and its preservation by every event: the geometry is the one the
  options and the widths determine, the current slide is one that fills the window, exactly the
  button of the current page is active, and each kind of timer the code owns is armed at most
  once, under the id the object remembers.
\<close>

section \<open>The parts of the invariant\<close>

definition breakpoint_ok :: "(int \<times> int) option \<Rightarrow> bool" where
  "breakpoint_ok bp = (case bp of None \<Rightarrow> True | Some (w, n) \<Rightarrow> 1 \<le> n)"

text \<open>
  What the page's author has to respect: at least one child, at least one item per page, and, when
  the carousel is not responsive, no more items per page than there are.
\<close>

definition setup_ok :: "owl \<Rightarrow> bool" where
  "setup_ok b \<longleftrightarrow>
     (let opt = options b in
      breakpoint_ok (itemsDesktop opt) \<and> breakpoint_ok (itemsDesktopSmall opt) \<and>
      breakpoint_ok (itemsTablet opt) \<and> breakpoint_ok (itemsMobile opt) \<and>
      1 \<le> orignalItems b \<and> 1 \<le> items opt \<and> (responsive opt \<or> items opt \<le> itemsAmount b) \<and>
      1 \<le> itemsAmount b \<and> itemsAmount b = int (length (owlItems b)))"

definition geometry_ok :: "owl \<Rightarrow> bool" where
  "geometry_ok b \<longleftrightarrow>
     (let its = items (options b); n = itemsAmount b; w = itemWidth b in
      1 \<le> its \<and> its \<le> n \<and> 0 \<le> w \<and> maximumSlide b = n - its \<and>
      maximumPixels b = - ((n - its) * w) \<and>
      positionsInArray b = map (\<lambda>i. - (int i * w)) [0..<Suc (nat n)] \<and>
      map it_roundPages (owlItems b) = map (\<lambda>k. round_page its (n - its) (int k)) [0..<nat n] \<and>
      map it_index (owlItems b) = map int [0..<nat n])"

definition cursor_ok :: "owl \<Rightarrow> bool" where
  "cursor_ok b \<longleftrightarrow> 0 \<le> currentSlide b \<and> currentSlide b \<le> maximumSlide b"

definition round_of :: "owl \<Rightarrow> int option" where
  "round_of b = map_option it_roundPages (js_nth (owlItems b) (currentSlide b))"

definition fresh_pages :: "owl \<Rightarrow> owl_page list" where
  "fresh_pages b =
     pages_loop (itemsAmount b) (items (options b)) (paginationNumbers (options b)) 0 0 None"

definition pages_ok :: "owl \<Rightarrow> bool" where
  "pages_ok b \<longleftrightarrow>
     (pagination (options b) \<longrightarrow> pages b = map (set_active (round_of b)) (fresh_pages b))"

definition timers_ok :: "owl \<Rightarrow> bool" where
  "timers_ok b \<longleftrightarrow> timers_wf (timers b) \<and>
     set (armed (timers b) AutoPlayTick) \<subseteq> set_option (autoPlaySpeed b) \<and>
     set (armed (timers b) CheckVisibleTick) \<subseteq> set_option (checkVisible b) \<and>
     set (armed (timers b) ResizeRefresh) \<subseteq> set_option (smallDelay b)"

definition owl_inv :: "owl \<Rightarrow> bool" where
  "owl_inv b \<longleftrightarrow> setup_ok b \<and> 0 \<le> elemWidth b \<and> geometry_ok b \<and> cursor_ok b \<and>
     pages_ok b \<and> timers_ok b"

lemma owl_invD:
  assumes "owl_inv b"
  shows "setup_ok b" and "geometry_ok b" and "cursor_ok b" and "pages_ok b" and "timers_ok b"
    and "0 \<le> elemWidth b"
  using assms by (auto simp: owl_inv_def)

section \<open>The geometry\<close>

lemma js_nth_map: "map_option f (js_nth xs i) = js_nth (map f xs) i"
  by (simp add: js_nth_def)

lemma geometry_ok_geom: "geom b = geom c \<Longrightarrow> geometry_ok b = geometry_ok c"
  by (simp add: geometry_ok_def geom_def)

lemma setup_ok_geom: "geom b = geom c \<Longrightarrow> setup_ok b = setup_ok c"
  by (auto simp: setup_ok_def geom_def dest: map_eq_imp_length_eq)

lemma round_of_geom: "geom b = geom c \<Longrightarrow> currentSlide b = currentSlide c \<Longrightarrow> round_of b = round_of c"
  by (simp add: round_of_def js_nth_map geom_def)

lemma fresh_pages_geom: "geom b = geom c \<Longrightarrow> fresh_pages b = fresh_pages c"
  by (simp add: fresh_pages_def geom_def)

lemma pages_ok_geom:
  "geom b = geom c \<Longrightarrow> currentSlide b = currentSlide c \<Longrightarrow> pages b = pages c \<Longrightarrow>
   pages_ok b = pages_ok c"
  by (simp add: pages_ok_def round_of_geom [of b c] fresh_pages_geom [of b c] geomD(1) [of b c])

lemma timers_ok_clock: "clock b = clock c \<Longrightarrow> timers_ok b = timers_ok c"
  by (simp add: timers_ok_def clock_def)

lemma loops_from_eq: "loops_from w e n = map (\<lambda>i. - (e + (int i + 1) * w)) [0..<n]"
proof (induction n arbitrary: e)
  case (Suc n)
  have "map (\<lambda>i. - (e + (int i + 1) * w)) [0..<Suc n] =
        - (e + w) # map (\<lambda>i. - (e + w + (int i + 1) * w)) [0..<n]"
    by (subst upt_conv_Cons)
      (simp_all add: map_Suc_upt [symmetric] o_def algebra_simps del: upt_Suc)
  then show ?case using Suc by simp
qed simp

lemma positions_eq: "0 # loops_from w 0 n = map (\<lambda>i. - (int i * w)) [0..<Suc n]"
  by (subst upt_conv_Cons)
    (simp_all add: loops_from_eq map_Suc_upt [symmetric] o_def algebra_simps del: upt_Suc)

lemma breakpoint_pos: "breakpoint_ok bp \<Longrightarrow> 1 \<le> i \<Longrightarrow> 1 \<le> breakpoint w bp i"
  by (auto simp: breakpoint_ok_def breakpoint_def split: option.splits prod.splits)

lemma responsive_items_range:
  assumes "setup_ok b"
  shows "1 \<le> responsive_items b" and "responsive_items b \<le> itemsAmount b"
  using assms unfolding setup_ok_def responsive_items_def
  by (auto simp: Let_def intro!: breakpoint_pos)

lemma updateItems_range:
  assumes "setup_ok b"
  shows "1 \<le> items (options (updateItems b))"
    and "items (options (updateItems b)) \<le> itemsAmount b"
  using assms responsive_items_range [OF assms]
  by (auto simp: updateItems_def setup_ok_def Let_def)

lemma updateItems_frame [simp]:
  "itemsAmount (updateItems b) = itemsAmount b" "owlItems (updateItems b) = owlItems b"
  "elemWidth (updateItems b) = elemWidth b" "clock (updateItems b) = clock b"
  "pages (updateItems b) = pages b" "currentSlide (updateItems b) = currentSlide b"
  "responsive (options (updateItems b)) = responsive (options b)"
  "playDirection (updateItems b) = playDirection b"
  by (simp_all add: updateItems_def clock_def Let_def)

lemma setup_ok_updateItems: "setup_ok b \<Longrightarrow> setup_ok (updateItems b)"
  using updateItems_range [of b]
  by (auto simp: setup_ok_def updateItems_def breakpoint_ok_def Let_def)

lemma length_append_sizes [simp]: "length (append_sizes w its lst i rp xs) = length xs"
  by (induction xs arbitrary: i rp) (auto simp: Let_def)

lemma calculateAll_frame [simp]:
  "options (calculateAll b) = options b" "itemsAmount (calculateAll b) = itemsAmount b"
  "orignalItems (calculateAll b) = orignalItems b" "elemWidth (calculateAll b) = elemWidth b"
  "clock (calculateAll b) = clock b" "length (owlItems (calculateAll b)) = length (owlItems b)"
  "pages (calculateAll b) = pages b" "currentSlide (calculateAll b) = currentSlide b"
  "playDirection (calculateAll b) = playDirection b"
  by (simp_all add: calculateAll_def calculateWidth_def appendWrapperSizes_def appendItemsSizes_def
        loops_def maxi_def clock_def Let_def)

lemma setup_ok_calculateAll: "setup_ok b \<Longrightarrow> setup_ok (calculateAll b)"
  by (simp add: setup_ok_def)

lemma geometry_ok_calculateAll:
  assumes "setup_ok b" "items (options b) \<le> itemsAmount b" "0 \<le> elemWidth b"
  shows "geometry_ok (calculateAll b)"
proof -
  let ?its = "items (options b)" and ?n = "itemsAmount b"
  let ?w = "js_round (of_int (elemWidth b) / of_int ?its)"
  have its: "1 \<le> ?its" "?its \<le> ?n" and len: "int (length (owlItems b)) = ?n"
    using assms by (auto simp: setup_ok_def Let_def)
  have w: "0 \<le> ?w" using its assms by (intro js_round_nonneg) simp
  have len': "length (owlItems b) = nat ?n" using len by simp
  have r: "map it_roundPages (append_sizes ?w ?its (?n - ?its) 0 0 (owlItems b)) =
      map (\<lambda>k. round_page ?its (?n - ?its) (int k)) [0..<nat ?n]"
    using append_sizes_rounds [of ?its "?n - ?its" 0 0 ?w "owlItems b"] its len' by simp
  have i: "map it_index (append_sizes ?w ?its (?n - ?its) 0 0 (owlItems b)) =
      map int [0..<nat ?n]"
    using append_sizes_index [of ?w ?its "?n - ?its" 0 0 "owlItems b"] len' by simp
  show ?thesis
    using its w positions_eq [of ?w "nat ?n"]
    by (simp add: geometry_ok_def calculateAll_def calculateWidth_def appendWrapperSizes_def
        appendItemsSizes_def loops_def maxi_def Let_def r i algebra_simps del: upt_Suc)
qed

lemma geometry_ok_recalculate:
  "setup_ok b \<Longrightarrow> 0 \<le> elemWidth b \<Longrightarrow> geometry_ok (calculateAll (updateItems b))"
  by (rule geometry_ok_calculateAll) (auto intro: setup_ok_updateItems updateItems_range)

text \<open>The facts the moves use.\<close>

lemma geometry_position:
  assumes "geometry_ok b" "0 \<le> p" "p \<le> itemsAmount b"
  shows "js_nth (positionsInArray b) p = Some (- (p * itemWidth b))"
  using assms by (simp add: geometry_ok_def js_nth_def Let_def nat_le_iff del: upt_Suc)

lemma geometry_maximum: "geometry_ok b \<Longrightarrow> 0 \<le> maximumSlide b"
  "geometry_ok b \<Longrightarrow> maximumSlide b \<le> itemsAmount b"
  by (auto simp: geometry_ok_def Let_def)

lemma geometry_round:
  assumes "geometry_ok b" "0 \<le> p" "p < itemsAmount b"
  shows "map_option it_roundPages (js_nth (owlItems b) p) =
         Some (round_page (items (options b)) (maximumSlide b) p)"
  using assms by (simp add: js_nth_map) (simp add: geometry_ok_def js_nth_def Let_def)

section \<open>The page buttons\<close>

lemma set_active_twice: "map (set_active r) (map (set_active r') ps) = map (set_active r) ps"
  by (simp add: set_active_def)

lemma round_set_active: "map pg_roundPages (map (set_active r) ps) = map pg_roundPages ps"
  by (simp add: set_active_def o_def)

lemma fresh_pages_round:
  assumes "geometry_ok b"
  shows "map pg_roundPages (fresh_pages b) =
         map (\<lambda>k. int k + 1) [0..<nat (ceil_div (itemsAmount b) (items (options b)))]"
  using assms
  by (simp add: fresh_pages_def geometry_ok_def pages_loop_eq page_button_def o_def Let_def)

lemma round_of_button:
  assumes "geometry_ok b" "cursor_ok b"
  shows "\<exists>j < length (fresh_pages b). round_of b = Some (map pg_roundPages (fresh_pages b) ! j)"
proof -
  let ?its = "items (options b)" and ?n = "itemsAmount b"
  let ?r = "round_page ?its (maximumSlide b) (currentSlide b)"
  have g: "0 < ?its" "?its \<le> ?n" "maximumSlide b = ?n - ?its"
    using assms(1) by (auto simp: geometry_ok_def Let_def)
  have rng: "1 \<le> ?r" "?r \<le> ceil_div ?n ?its"
    using round_page_range [of ?its ?n "currentSlide b"] g assms(2) by (auto simp: cursor_ok_def)
  have "round_of b = Some ?r"
    using geometry_round [OF assms(1), of "currentSlide b"] assms(2) g
    by (simp add: round_of_def cursor_ok_def)
  moreover have "map pg_roundPages (fresh_pages b) ! nat (?r - 1) = ?r"
    using rng by (simp add: fresh_pages_round [OF assms(1)])
  moreover have "nat (?r - 1) < length (fresh_pages b)"
    using rng arg_cong [OF fresh_pages_round [OF assms(1)], of length] by simp
  ultimately show ?thesis by auto
qed

lemma checkPagination_pages:
  assumes "geometry_ok b" "cursor_ok b"
    and "map (set_active None) (pages b) = map (set_active None) (fresh_pages b)"
  shows "pages (checkPagination b) = map (set_active (round_of b)) (fresh_pages b)"
proof -
  let ?F = "fresh_pages b"
  have R: "map pg_roundPages (pages b) = map pg_roundPages ?F"
    using assms(3) round_set_active by metis
  have len: "length (pages b) = length ?F" using arg_cong [OF R, of length] by simp
  obtain j where j: "j < length ?F" "round_of b = Some (map pg_roundPages ?F ! j)"
    using round_of_button [OF assms(1,2)] by auto
  have jr: "round_of b = Some (pg_roundPages (pages b ! j))"
    using j R len by (metis nth_map)
  have d: "distinct (map pg_roundPages (pages b))"
    unfolding R fresh_pages_round [OF assms(1)] by (auto simp: distinct_map inj_on_def)
  have "pages (checkPagination b) = map (set_active (round_of b)) (pages b)"
    using fold_activate_match [OF d _ jr] j len
    by (simp add: checkPagination_def round_of_def)
  also have "\<dots> = map (set_active (round_of b)) (map (set_active None) (pages b))"
    by (simp only: set_active_twice)
  also have "\<dots> = map (set_active (round_of b)) ?F"
    by (simp only: assms(3) set_active_twice)
  finally show ?thesis .
qed

lemma updatePagination_pages_ok:
  assumes "geometry_ok b" "cursor_ok b"
  shows "pages_ok (updatePagination b)"
proof (cases "pagination (options b)")
  case True
  let ?c = "b\<lparr>pages := fresh_pages b\<rparr>"
  have g: "geom ?c = geom b" by (simp add: geom_def)
  have "pages (checkPagination ?c) = map (set_active (round_of ?c)) (fresh_pages ?c)"
    by (rule checkPagination_pages)
      (use assms g in \<open>auto simp: geometry_ok_geom [OF g] cursor_ok_def fresh_pages_geom [OF g]\<close>)
  moreover have "updatePagination b = checkPagination ?c"
    using True by (simp add: updatePagination_def fresh_pages_def Let_def)
  ultimately show ?thesis
    using round_of_geom [of "checkPagination ?c" ?c] fresh_pages_geom [of "checkPagination ?c" ?c]
    by (simp add: pages_ok_def)
next
  case False
  then show ?thesis by (simp add: pages_ok_def updatePagination_def Let_def)
qed

lemma pages_ok_cleared:
  assumes "pages_ok b" "pagination (options b)"
  shows "map (set_active None) (pages b) = map (set_active None) (fresh_pages b)"
  using assms by (simp add: pages_ok_def set_active_twice del: map_map)

section \<open>Moves keep the invariant\<close>

lemma goTo_cursor_ok: "geometry_ok b \<Longrightarrow> cursor_ok (goTo p a b)"
  using geometry_maximum [of b] geomD(4) [of "goTo p a b" b] by (auto simp: cursor_ok_def)

lemma goTo_pages_ok:
  assumes "geometry_ok b" "pages_ok (b\<lparr>currentSlide := k\<rparr>)"
  shows "pages_ok (goTo p a b)"
proof (cases "pagination (options b)")
  case True
  define pos where "pos = (if p \<ge> maximumSlide b then maximumSlide b else if p \<le> 0 then 0 else p)"
  define b1 where "b1 = (call_hook BeforeMove b)\<lparr>currentSlide := pos\<rparr>"
  define px where "px = map_option (of_int :: int \<Rightarrow> rat) (js_nth (positionsInArray b1) pos)"
  define b2 where "b2 = (if support3d b1 then move3d a px b1 else css2slide px b1)"
  have g: "geom b2 = geom b" "pages b2 = pages b" "currentSlide b2 = pos"
    by (simp_all add: b2_def b1_def)
  have cl: "map (set_active None) (pages b) = map (set_active None) (fresh_pages b)"
    using pages_ok_cleared [OF assms(2)] True fresh_pages_geom [of "b\<lparr>currentSlide := k\<rparr>" b]
    by simp
  have c: "cursor_ok b2"
    using geometry_maximum [OF assms(1)] geomD(4) [OF g(1)] g(3)
    by (auto simp: cursor_ok_def pos_def)
  have "pages (goTo p a b) = pages (checkPagination b2)"
    using True by (simp add: goTo_def Let_def b2_def b1_def px_def pos_def)
  also have "\<dots> = map (set_active (round_of b2)) (fresh_pages b2)"
    by (rule checkPagination_pages)
      (use assms g c cl in \<open>auto simp: geometry_ok_geom [OF g(1)] fresh_pages_geom [OF g(1)]\<close>)
  finally show ?thesis
    using round_of_geom [of "goTo p a b" b2] fresh_pages_geom [of "goTo p a b" b2] g
    by (simp add: pages_ok_def pos_def)
next
  case False
  then show ?thesis by (simp add: pages_ok_def)
qed

text \<open>The part of the invariant a move preserves, in one fact per move.\<close>

definition move_inv :: "owl \<Rightarrow> bool" where
  "move_inv b \<longleftrightarrow> setup_ok b \<and> 0 \<le> elemWidth b \<and> geometry_ok b \<and> cursor_ok b \<and> pages_ok b"

lemma owl_inv_split: "owl_inv b \<longleftrightarrow> move_inv b \<and> timers_ok b"
  by (auto simp: owl_inv_def move_inv_def)

lemma move_inv_cong:
  "geom b = geom c \<Longrightarrow> currentSlide b = currentSlide c \<Longrightarrow> pages b = pages c \<Longrightarrow>
   elemWidth b = elemWidth c \<Longrightarrow> move_inv b = move_inv c"
  using pages_ok_geom [of b c] geomD(4) [of b c]
  by (auto simp: move_inv_def geometry_ok_geom [of b c] setup_ok_geom [of b c] cursor_ok_def)

lemma goTo_move_inv_from:
  assumes "setup_ok b" "0 \<le> elemWidth b" "geometry_ok b" "pages_ok (b\<lparr>currentSlide := k\<rparr>)"
  shows "move_inv (goTo p a b)"
  using assms goTo_cursor_ok [OF assms(3)] goTo_pages_ok [OF assms(3,4)]
  by (simp add: move_inv_def geometry_ok_geom [of "goTo p a b" b] setup_ok_geom [of "goTo p a b" b])

lemma goTo_move_inv: "move_inv b \<Longrightarrow> move_inv (goTo p a b)"
  by (rule goTo_move_inv_from [where k = "currentSlide b"]) (auto simp: move_inv_def)

lemma goTo_after_set: "move_inv b \<Longrightarrow> move_inv (goTo p a (b\<lparr>currentSlide := v\<rparr>))"
  using geometry_ok_geom [of "b\<lparr>currentSlide := v\<rparr>" b] setup_ok_geom [of "b\<lparr>currentSlide := v\<rparr>" b]
  by (intro goTo_move_inv_from [where k = "currentSlide b"]) (auto simp: move_inv_def)

lemma set_same_slide: "currentSlide b = v \<Longrightarrow> b\<lparr>currentSlide := v\<rparr> = b"
  by auto

lemma move_inv_same_slide:
  "move_inv b \<Longrightarrow> currentSlide b = v \<Longrightarrow> move_inv (b\<lparr>currentSlide := v\<rparr>)"
  by (simp add: set_same_slide)

lemma owl_next_move_inv:
  assumes "move_inv b"
  shows "move_inv (owl_next a b)"
proof -
  let ?s = "if scrollPerPage (options b) then items (options b) else 1"
  have s: "1 \<le> ?s" and cur: "currentSlide b \<le> maximumSlide b"
    using assms by (auto simp: move_inv_def cursor_ok_def geometry_ok_def Let_def)
  have "currentSlide b = maximumSlide b"
    if "currentSlide b + ?s > maximumSlide b + (if scrollPerPage (options b) then items (options b) - 1 else 0)"
    using that cur by (auto split: if_splits)
  then show ?thesis
    using assms by (auto simp: owl_next_def Let_def intro: goTo_after_set move_inv_same_slide)
qed

lemma owl_prev_move_inv:
  assumes "move_inv b"
  shows "move_inv (owl_prev a b)"
proof -
  let ?cur = "if scrollPerPage (options b) \<and> currentSlide b > 0 \<and> currentSlide b < items (options b)
    then 0 else currentSlide b - (if scrollPerPage (options b) then items (options b) else 1)"
  have "currentSlide b = 0" if "?cur < 0"
    using that assms by (auto simp: move_inv_def cursor_ok_def split: if_splits)
  then show ?thesis
    using assms by (auto simp: owl_prev_def Let_def intro: goTo_after_set move_inv_same_slide)
qed

lemma move_inv_playDirection [simp]: "move_inv (b\<lparr>playDirection := d\<rparr>) = move_inv b"
  by (rule move_inv_cong) simp_all

lemma autoplay_tick_move_inv: "move_inv b \<Longrightarrow> move_inv (autoplay_tick b)"
  by (simp add: autoplay_tick_def owl_next_move_inv owl_prev_move_inv goTo_move_inv Let_def)

lemma page_click_move_inv: "move_inv b \<Longrightarrow> move_inv (page_click k b)"
  by (auto simp: page_click_def intro: goTo_move_inv split: option.splits)

end
