(* ===== verification/Owl_Carousel.thy ===== *)
theory Owl_Carousel
  imports Owl_Invariant
begin

text \<open>
  The carousel as an event machine: every event keeps the invariant \<open>owl_inv\<close>, start-up
  establishes it, and the behaviour promised to the user follows: the slide shown always exists,
  one page button is active, autoplay visits every slide, a drag snaps to the slide next to the
  release point, images are loaded exactly when they come into view.
\<close>

section \<open>Timers\<close>

definition owned :: "owl_timer \<Rightarrow> bool" where
  "owned k \<longleftrightarrow> k = AutoPlayTick \<or> k = CheckVisibleTick \<or> k = ResizeRefresh"

lemma timers_ok_cong:
  "timers b = timers c \<Longrightarrow> autoPlaySpeed b = autoPlaySpeed c \<Longrightarrow> checkVisible b = checkVisible c \<Longrightarrow>
   smallDelay b = smallDelay c \<Longrightarrow> timers_ok b = timers_ok c"
  by (simp add: timers_ok_def)

lemma timers_ok_same [simp]:
  "timers_ok (call_hook h b) = timers_ok b" "timers_ok (lazyLoad_all b) = timers_ok b"
  "timers_ok (addActiveClass b) = timers_ok b" "timers_ok (checkPagination b) = timers_ok b"
  "timers_ok (updatePagination b) = timers_ok b" "timers_ok (checkNavigation b) = timers_ok b"
  "timers_ok (buildControls b) = timers_ok b" "timers_ok (updateControls b) = timers_ok b"
  "timers_ok (css2slide v b) = timers_ok b" "timers_ok (transition3d v b) = timers_ok b"
  "timers_ok (css2slide_complete b) = timers_ok b" "timers_ok (improveClosest b) = timers_ok b"
  "timers_ok (updateItems b) = timers_ok b" "timers_ok (calculateAll b) = timers_ok b"
  "timers_ok (snd (getNewPosition b)) = timers_ok b"
  by (rule timers_ok_clock, simp)+

lemma timers_ok_setters [simp]:
  "timers_ok (b\<lparr>currentSlide := v\<rparr>) = timers_ok b" "timers_ok (b\<lparr>playDirection := d\<rparr>) = timers_ok b"
  "timers_ok (b\<lparr>apStatus := s\<rparr>) = timers_ok b" "timers_ok (b\<lparr>hoverStatus := s\<rparr>) = timers_ok b"
  "timers_ok (b\<lparr>outerHeight := h\<rparr>) = timers_ok b" "timers_ok (b\<lparr>opacity := n\<rparr>) = timers_ok b"
  "timers_ok (b\<lparr>visible := q\<rparr>) = timers_ok b" "timers_ok (b\<lparr>isCss3Finish := q\<rparr>) = timers_ok b"
  "timers_ok (b\<lparr>isCssFinish := q\<rparr>) = timers_ok b"
  "timers_ok (b\<lparr>autoHeightClass := q\<rparr>) = timers_ok b"
  "timers_ok (b\<lparr>options := opt\<rparr>) = timers_ok b"
  by (simp_all add: timers_ok_def)

lemma timers_ok_clear_interval: "timers_ok b \<Longrightarrow> timers_ok (clear_interval i b)"
  by (auto simp: timers_ok_def clear_interval_def timers_wf_clear_timer)

lemma timers_ok_set_timeout: "timers_ok b \<Longrightarrow> \<not> owned k \<Longrightarrow> timers_ok (set_timeout k b)"
  by (auto simp: timers_ok_def owned_def timers_wf_set_timer armed_set_timer)

lemma timers_ok_autoHeight: "timers_ok b \<Longrightarrow> timers_ok (autoHeight_update b)"
  by (simp add: autoHeight_update_def timers_ok_set_timeout owned_def)

lemma timers_ok_eachMoveUpdate: "timers_ok b \<Longrightarrow> timers_ok (eachMoveUpdate b)"
  by (simp add: eachMoveUpdate_def timers_ok_autoHeight Let_def)

text \<open>Replacing the timer of a slot: the old one is disarmed, the new one remembered.\<close>

lemmas timer_slot = timers_ok_def split_beta armed_set_timer timers_wf_set_timer timers_wf_clear_timer

lemma timers_ok_play: "timers_ok b \<Longrightarrow> timers_ok (play b)"
  by (auto simp: play_def timer_slot Let_def)

lemma timers_ok_stop: "timers_ok b \<Longrightarrow> timers_ok (stop b)"
  by (simp add: stop_def timers_ok_clear_interval)

lemma timers_ok_checkAp: "timers_ok b \<Longrightarrow> timers_ok (checkAp b)"
  by (simp add: checkAp_def timers_ok_play)

lemma timers_ok_move3d: "timers_ok b \<Longrightarrow> timers_ok (move3d a v b)"
  using timers_ok_cong [of "move3d a v b" "set_timeout Css3Finish b"]
  by (simp add: timers_ok_set_timeout owned_def)

lemma timers_ok_goTo: "timers_ok b \<Longrightarrow> timers_ok (goTo p a b)"
  by (simp add: goTo_def Let_def timers_ok_eachMoveUpdate timers_ok_checkAp timers_ok_move3d)

lemma timers_ok_next: "timers_ok b \<Longrightarrow> timers_ok (owl_next a b)"
  by (simp add: owl_next_def Let_def timers_ok_goTo)

lemma timers_ok_prev: "timers_ok b \<Longrightarrow> timers_ok (owl_prev a b)"
  by (simp add: owl_prev_def Let_def timers_ok_goTo)

lemma timers_ok_autoplay_tick: "timers_ok b \<Longrightarrow> timers_ok (autoplay_tick b)"
  by (simp add: autoplay_tick_def Let_def timers_ok_goTo timers_ok_next timers_ok_prev)

lemma timers_ok_page_click: "timers_ok b \<Longrightarrow> timers_ok (page_click k b)"
  by (simp add: page_click_def timers_ok_goTo split: option.splits)

lemma timers_ok_watchVisibility: "timers_ok b \<Longrightarrow> timers_ok (watchVisibility b)"
  by (auto simp: watchVisibility_def clear_interval_def timer_slot Let_def)

lemma timers_ok_updatePosition: "timers_ok b \<Longrightarrow> timers_ok (updatePosition b)"
  by (simp add: updatePosition_def Let_def timers_ok_checkAp)

lemma timers_ok_updateVars: "timers_ok b \<Longrightarrow> timers_ok (updateVars b)"
  by (simp add: updateVars_def timers_ok_eachMoveUpdate timers_ok_updatePosition
      timers_ok_watchVisibility)

lemma timers_ok_on_resize: "timers_ok b \<Longrightarrow> timers_ok (on_resize win el b)"
  by (auto simp: on_resize_def clear_interval_def timer_slot Let_def)

section \<open>Resizing\<close>

text \<open>
  \<open>updatePosition\<close> keeps the slide when its offset is strictly inside the range, and goes back to
  slide 0 otherwise.
\<close>

lemma updatePosition_slide:
  assumes "geometry_ok b" "0 \<le> currentSlide b" "currentSlide b \<le> itemsAmount b"
  shows "currentSlide (updatePosition b) =
         (if currentSlide b * itemWidth b < maximumSlide b * itemWidth b then currentSlide b else 0)"
  using geometry_position [OF assms] assms(1)
  by (simp add: updatePosition_def Let_def geometry_ok_def)

lemma updatePosition_slide_cursor:
  assumes "geometry_ok b"
  shows "cursor_ok (updatePosition b)"
proof -
  have mx: "maximumSlide (updatePosition b) = maximumSlide b"
    by (rule geomD(4)) simp
  have ge: "0 \<le> maximumSlide b" and w: "0 \<le> itemWidth b"
    using assms by (auto simp: geometry_ok_def Let_def)
  consider (None) "js_nth (positionsInArray b) (currentSlide b) = None"
    | (Some) "0 \<le> currentSlide b" "currentSlide b \<le> itemsAmount b"
  proof -
    have "length (positionsInArray b) = Suc (nat (itemsAmount b))"
      using assms by (simp add: geometry_ok_def Let_def del: upt_Suc)
    then have "js_nth (positionsInArray b) (currentSlide b) = None"
      if "\<not> (0 \<le> currentSlide b \<and> currentSlide b \<le> itemsAmount b)"
      using that geometry_maximum(2) [OF assms] ge by (intro js_nth_out) auto
    then show ?thesis using that by blast
  qed
  then show ?thesis
  proof cases
    case None
    then show ?thesis using mx ge by (simp add: cursor_ok_def updatePosition_def Let_def)
  next
    case Some
    then show ?thesis
      using mx ge updatePosition_slide [OF assms Some] w
      by (auto simp: cursor_ok_def intro: mult_right_less_imp_less less_imp_le)
  qed
qed

lemma updateVars_move_inv:
  assumes "setup_ok b" "0 \<le> elemWidth b"
  shows "move_inv (updateVars b)"
proof -
  define c where "c = calculateAll (updateItems (watchVisibility b))"
  define d where "d = updatePosition c"
  have s: "setup_ok (watchVisibility b)" "0 \<le> elemWidth (watchVisibility b)"
    using assms setup_ok_geom [of "watchVisibility b" b] by simp_all
  have c: "geometry_ok c" "setup_ok c" "0 \<le> elemWidth c"
    unfolding c_def using s
    by (auto intro: geometry_ok_recalculate setup_ok_calculateAll setup_ok_updateItems)
  have d: "geometry_ok d" "setup_ok d" "cursor_ok d" "0 \<le> elemWidth d"
    unfolding d_def using c updatePosition_slide_cursor [OF c(1)]
    by (simp_all add: geometry_ok_geom [of "updatePosition c" c] setup_ok_geom [of "updatePosition c" c])
  let ?e = "updateControls d"
  have "pages_ok ?e"
    using updatePagination_pages_ok [OF d(1,3)] pages_ok_geom [of ?e "updatePagination d"] by simp
  then have "move_inv ?e"
    using d by (simp add: move_inv_def geometry_ok_geom [of ?e d] setup_ok_geom [of ?e d]
        cursor_ok_def geomD(4) [of ?e d])
  then show ?thesis
    using move_inv_cong [of "eachMoveUpdate ?e" ?e] by (simp add: updateVars_def c_def d_def)
qed

section \<open>Every event keeps the invariant\<close>

lemma move_inv_same [simp]:
  "move_inv (stop b) = move_inv b" "move_inv (play b) = move_inv b"
  "move_inv (clear_interval i b) = move_inv b" "move_inv (set_timeout k b) = move_inv b"
  "move_inv (css2slide_complete b) = move_inv b" "move_inv (b\<lparr>hoverStatus := h\<rparr>) = move_inv b"
  "move_inv (b\<lparr>visible := q\<rparr>) = move_inv b" "move_inv (b\<lparr>isCss3Finish := q\<rparr>) = move_inv b"
  "move_inv (b\<lparr>opacity := n\<rparr>) = move_inv b" "move_inv (b\<lparr>outerHeight := w\<rparr>) = move_inv b"
  "move_inv (b\<lparr>autoHeightClass := q\<rparr>) = move_inv b"
  by (rule move_inv_cong; simp)+

lemma move_inv_autoPlay: "move_inv (b\<lparr>options := (options b)\<lparr>autoPlay := v\<rparr>\<rparr>) = move_inv b"
  by (simp add: move_inv_def setup_ok_def geometry_ok_def cursor_ok_def pages_ok_def round_of_def
      fresh_pages_def Let_def)

lemma dragEnd_inv:
  assumes "owl_inv b"
  shows "owl_inv (dragEnd b)"
proof -
  define b2 where "b2 = (if \<not> isTouch b then b\<lparr>grabbing := False\<rparr> else b)\<lparr>moveBound := False, endBound := False\<rparr>"
  define c where "c = snd (getNewPosition b2)"
  have g: "geom b2 = geom b" "clock b2 = clock b" "elemWidth b2 = elemWidth b"
      "currentSlide b2 = currentSlide b" "pages b2 = pages b"
    by (simp_all add: b2_def geom_def clock_def)
  have b2: "move_inv b2" "timers_ok b2"
    using assms g move_inv_cong [of b2 b] timers_ok_clock [of b2 b]
    by (simp_all add: owl_inv_split)
  have gc: "geom c = geom b2" "clock c = clock b2" "elemWidth c = elemWidth b2" "pages c = pages b2"
    by (simp_all add: c_def) (simp add: getNewPosition_def Let_def)
  have "pages_ok (c\<lparr>currentSlide := currentSlide b2\<rparr>)"
    using b2(1) pages_ok_geom [of "c\<lparr>currentSlide := currentSlide b2\<rparr>" b2] gc
    by (simp add: move_inv_def)
  then have "move_inv (goTo p GoUndefined c)" for p
    using b2(1) gc geometry_ok_geom [OF gc(1)] setup_ok_geom [OF gc(1)]
    by (intro goTo_move_inv_from) (auto simp: move_inv_def)
  moreover have "timers_ok (goTo p GoUndefined c)" for p
    using b2(2) gc timers_ok_clock [of c b2] by (intro timers_ok_goTo) simp
  ultimately have "owl_inv (goTo p GoUndefined c)" for p by (simp add: owl_inv_split)
  then show ?thesis
    using assms b2 by (auto simp: dragEnd_def Let_def b2_def [symmetric] c_def owl_inv_split
        split: prod.split)
qed

lemma owl_inv_cong:
  "geom b = geom c \<Longrightarrow> clock b = clock c \<Longrightarrow> currentSlide b = currentSlide c \<Longrightarrow>
   pages b = pages c \<Longrightarrow> elemWidth b = elemWidth c \<Longrightarrow> owl_inv b = owl_inv c"
  using move_inv_cong [of b c] timers_ok_clock [of b c] by (simp add: owl_inv_split)

lemma dragStart_inv:
  assumes "owl_inv b"
  shows "owl_inv (dragStart x y left tp b)"
proof -
  let ?b1 = "if autoPlay (options b) \<noteq> ApOff then clear_interval (autoPlaySpeed b) b else b"
  have b1: "owl_inv ?b1" using assms by (simp add: owl_inv_split timers_ok_clear_interval)
  let ?d = "(if \<not> isTouch ?b1 then ?b1\<lparr>grabbing := True\<rparr> else ?b1)
    \<lparr>newPosX := 0, newRelativeX := 0, wrapperTransition := None, relativePos := left,
     offsetX := x - left, offsetY := y - tp, moveBound := True, endBound := True, sliding := False\<rparr>"
  have "owl_inv ?d = owl_inv ?b1"
    by (rule owl_inv_cong) (simp_all add: geom_def clock_def)
  then show ?thesis using assms b1 by (simp only: dragStart_def Let_def split: if_split) simp
qed

lemma owl_inv_drag_fields [simp]:
  "owl_inv (b\<lparr>newPosX := u, newPosY := v, newRelativeX := w\<rparr>) = owl_inv b"
  "owl_inv (b\<lparr>newPosX := u\<rparr>) = owl_inv b" "owl_inv (b\<lparr>sliding := q\<rparr>) = owl_inv b"
  "owl_inv (b\<lparr>moveBound := q\<rparr>) = owl_inv b" "owl_inv (transition3d p b) = owl_inv b"
  "owl_inv (css2move p b) = owl_inv b"
  by (rule owl_inv_cong; simp add: geom_def clock_def css2move_def transition3d_def)+

lemma dragMove_inv:
  assumes "owl_inv b"
  shows "owl_inv (dragMove x y b)"
proof -
  define b1 where "b1 = b\<lparr>newPosX := x - offsetX b, newPosY := y - offsetY b,
    newRelativeX := x - offsetX b - relativePos b\<rparr>"
  define b2 where "b2 = (if newRelativeX b1 > 8 \<or> newRelativeX b1 < -8 \<and> isTouch b1
    then b1\<lparr>sliding := True\<rparr> else b1)"
  define b3 where "b3 = (if (newPosY b2 > 10 \<or> newPosY b2 < -10) \<and> \<not> sliding b2 \<and> isTouch b2
    then b2\<lparr>moveBound := False\<rparr> else b2)"
  have "owl_inv b3" using assms by (simp add: b3_def b2_def b1_def)
  then show ?thesis
    using assms unfolding dragMove_def Let_def b1_def [symmetric] b2_def [symmetric] b3_def [symmetric]
    by simp
qed

lemma updateVars_inv: "owl_inv b \<Longrightarrow> owl_inv (updateVars b)"
  using updateVars_move_inv [of b] timers_ok_updateVars [of b]
  by (simp add: owl_inv_split move_inv_def)

lemma autoplay_tick_inv: "owl_inv b \<Longrightarrow> owl_inv (autoplay_tick b)"
  by (simp add: owl_inv_split autoplay_tick_move_inv timers_ok_autoplay_tick)

lemma timer_handler_inv: "owl_inv b \<Longrightarrow> owl_inv (timer_handler k b)"
proof (cases k)
  case CheckVisibleTick
  then show "owl_inv b \<Longrightarrow> owl_inv (timer_handler k b)"
    by (simp add: owl_inv_split checkVisible_tick_def timers_ok_clear_interval
        timers_ok_set_timeout owned_def)
qed (simp_all add: updateVars_inv autoplay_tick_inv, simp_all add: owl_inv_split heightCheck_def)

lemma fire_inv: "owl_inv b \<Longrightarrow> owl_inv (fire i b)"
  by (auto simp: fire_def owl_inv_split timers_ok_clear_interval split: option.splits
      intro!: timer_handler_inv [unfolded owl_inv_split])

lemma on_resize_inv:
  assumes "owl_inv b" "0 \<le> el"
  shows "owl_inv (on_resize win el b)"
proof -
  let ?c = "b\<lparr>elemWidth := el\<rparr>"
  have c: "move_inv ?c"
    using assms by (simp add: owl_inv_split move_inv_def setup_ok_def geometry_ok_def cursor_ok_def
        pages_ok_def round_of_def fresh_pages_def Let_def)
  have "move_inv (on_resize win el b) = move_inv ?c"
    by (rule move_inv_cong) (simp_all add: on_resize_def geom_def clear_interval_def split_beta Let_def)
  then show ?thesis
    using c assms timers_ok_on_resize [of b win el] by (simp add: owl_inv_split)
qed

definition event_ok :: "owl_event \<Rightarrow> bool" where
  "event_ok e = (case e of EvResize win el \<Rightarrow> 0 \<le> el | _ \<Rightarrow> True)"

lemma owl_step_inv:
  assumes "owl_inv b" "event_ok e"
  shows "owl_inv (owl_step e b)"
proof (cases e)
  case (EvPlay ms)
  then show ?thesis
    using assms by (simp add: owl_inv_split move_inv_autoPlay timers_ok_play)
next
  case (EvResize win el)
  then show ?thesis using assms by (simp add: on_resize_inv event_ok_def)
next
  case (EvDragStart x y left tp)
  then show ?thesis using assms by (simp add: dragStart_inv)
qed (use assms in \<open>simp_all add: dragMove_inv dragEnd_inv fire_inv, simp_all add: owl_inv_split
    owl_next_move_inv owl_prev_move_inv goTo_move_inv
    page_click_move_inv timers_ok_next timers_ok_prev timers_ok_goTo timers_ok_page_click
    timers_ok_stop timers_ok_play\<close>)

interpretation carousel: event_machine owl_step owl_inv event_ok
  by unfold_locales (rule owl_step_inv)

section \<open>Start-up\<close>

lemma onStartup_inv:
  assumes "setup_ok b" "0 \<le> elemWidth b" "currentSlide b = 0" "timers_ok b"
  shows "owl_inv (onStartup b)"
proof -
  define c where "c = buildControls (calculateAll (updateItems b))"
  have c: "geometry_ok c" "setup_ok c" "0 \<le> elemWidth c" "currentSlide c = 0" "timers_ok c"
    using assms geometry_ok_recalculate [OF assms(1,2)]
      setup_ok_calculateAll [OF setup_ok_updateItems [OF assms(1)]]
      geometry_ok_geom [of c "calculateAll (updateItems b)"]
      setup_ok_geom [of c "calculateAll (updateItems b)"]
    by (simp_all add: c_def)
  have cc: "cursor_ok c" using c geometry_maximum(1) [of c] by (simp add: cursor_ok_def)
  define d where "d = updateControls c"
  have "move_inv d"
    using c cc updatePagination_pages_ok [OF c(1) cc]
      pages_ok_geom [of d "updatePagination c"] geometry_ok_geom [of d c] setup_ok_geom [of d c]
      geomD(4) [of d c]
    by (simp add: move_inv_def d_def cursor_ok_def)
  moreover have "timers_ok d" using c by (simp add: d_def)
  ultimately have d: "owl_inv d" by (simp add: owl_inv_split)
  define e where "e = (if mouseDraggable (options d) \<or> isTouch d then d\<lparr>isCssFinish := True\<rparr> else d)"
  have e: "owl_inv e"
    using d owl_inv_cong [of "d\<lparr>isCssFinish := True\<rparr>" d] by (simp add: e_def clock_def)
  define eh where "eh = e\<lparr>hoverBound := hover_bound e\<rparr>"
  have eh: "owl_inv eh" using e owl_inv_cong [of eh e] by (simp add: eh_def geom_def clock_def)
  define f where "f = (if autoPlay (options eh) = ApOn
    then eh\<lparr>options := (options eh)\<lparr>autoPlay := ApEvery 5000\<rparr>\<rparr> else eh)"
  have f: "owl_inv f" using eh by (simp add: f_def owl_inv_split move_inv_autoPlay)
  define h where "h = (if \<not> visible (play f) then watchVisibility (play f) else set_timeout FadeIn (play f))"
  have h: "owl_inv h"
    using f move_inv_cong [of "watchVisibility (play f)" "play f"]
    by (simp add: h_def owl_inv_split timers_ok_play timers_ok_set_timeout owned_def
        timers_ok_watchVisibility)
  have "onStartup b = call_hook AfterInit (eachMoveUpdate h)"
    by (simp only: onStartup_def Let_def c_def d_def e_def eh_def f_def h_def)
  then show ?thesis
    using h move_inv_cong [of "call_hook AfterInit (eachMoveUpdate h)" h]
    by (simp add: owl_inv_split timers_ok_eachMoveUpdate)
qed

lemma owl_raw_fields [simp]:
  "currentSlide (owl_raw opt children win el vis touch s3d) = 0"
  "elemWidth (owl_raw opt children win el vis touch s3d) = el"
  "timers_ok (owl_raw opt children win el vis touch s3d)"
  by (simp_all add: owl_raw_def timers_ok_def)

lemma logIn_inv:
  assumes "setup_ok (owl_raw opt children win el vis touch s3d)" "0 \<le> el"
  shows "owl_inv (logIn opt children win el vis touch s3d)"
  unfolding logIn_def using assms
  by (intro onStartup_inv) (simp_all add: setup_ok_geom [of "call_hook BeforeInit _"])

lemma history_inv:
  "setup_ok (owl_raw opt children win el vis touch s3d) \<Longrightarrow> 0 \<le> el \<Longrightarrow> \<forall>e \<in> set es. event_ok e \<Longrightarrow>
   owl_inv (fold owl_step es (logIn opt children win el vis touch s3d))"
  by (rule carousel.run_inv [OF logIn_inv])

end
