(* ===== verification/Owl_Properties.thy ===== *)
theory Owl_Properties
  imports Owl_Carousel
begin

text \<open>What the carousel promises its user, each property with a concrete instance.\<close>

section \<open>A concrete carousel\<close>

text \<open>Nine items in a window of 1000 pixels: four per page, five possible positions.\<close>

definition demo_raw :: owl where
  "demo_raw = owl_raw owl_defaults (replicate 9 (100, Some ''a.png'')) 1000 800 True False True"

definition demo_owl :: owl where
  "demo_owl = logIn owl_defaults (replicate 9 (100, Some ''a.png'')) 1000 800 True False True"

lemma demo_setup: "setup_ok demo_raw"
  by (simp add: demo_raw_def owl_raw_def setup_ok_def owl_defaults_def breakpoint_ok_def)

lemma demo_inv: "owl_inv demo_owl"
  using demo_setup unfolding demo_owl_def demo_raw_def by (intro logIn_inv) simp_all

lemma onStartup_options:
  assumes "autoPlay (options (updateItems b)) = ApOff"
  shows "options (onStartup b) = options (updateItems b)"
    and "playDirection (onStartup b) = playDirection b"
    and "geom (onStartup b) = geom (calculateAll (updateItems b))"
  using assms by (simp_all add: onStartup_def Let_def)

lemma demo_options: "options demo_owl = owl_defaults\<lparr>items := 4\<rparr>" "playDirection demo_owl = DirNext"
  by (simp_all add: demo_owl_def logIn_def onStartup_options owl_raw_def call_hook_def
      owl_defaults_def updateItems_def responsive_items_def desktop_threshold_def breakpoint_def)

lemma demo_geometry: "itemWidth demo_owl = 200" "itemsAmount demo_owl = 9" "maximumSlide demo_owl = 5"
proof -
  have off: "autoPlay (options (updateItems demo_raw)) = ApOff"
    by (simp add: demo_raw_def owl_raw_def owl_defaults_def updateItems_def)
  have "demo_owl = onStartup demo_raw"
    by (simp add: demo_owl_def logIn_def demo_raw_def call_hook_def owl_raw_def owl_defaults_def)
  then have g: "geom demo_owl = geom (calculateAll (updateItems demo_raw))"
    using onStartup_options(3) [OF off] by simp
  show "itemWidth demo_owl = 200" "itemsAmount demo_owl = 9" "maximumSlide demo_owl = 5"
    unfolding geomD(2,4,6) [OF g]
    by (simp_all add: demo_raw_def owl_raw_def owl_defaults_def updateItems_def responsive_items_def
        desktop_threshold_def breakpoint_def calculateAll_def calculateWidth_def appendWrapperSizes_def
        appendItemsSizes_def loops_def maxi_def js_round_def floor_eq_iff)
qed

section \<open>Every history\<close>

text \<open>
  C1: whatever the user, the timers and the window do after start-up, the current slide is one of
  the existing positions: it lies between 0 and \<open>maximumSlide\<close>, and \<open>positionsInArray\<close> holds its
  offset.
\<close>

theorem owl_history_safe:
  assumes "setup_ok (owl_raw opt children win el vis touch s3d)" and "0 \<le> el"
    and "\<forall>e \<in> set es. event_ok e"
    and "b = fold owl_step es (logIn opt children win el vis touch s3d)"
  shows "0 \<le> currentSlide b \<and> currentSlide b \<le> maximumSlide b \<and>
         maximumSlide b = itemsAmount b - items (options b) \<and>
         js_nth (positionsInArray b) (currentSlide b) = Some (- (currentSlide b * itemWidth b))"
proof -
  have inv: "owl_inv b" using history_inv assms by blast
  then show ?thesis
    using geometry_position [OF owl_invD(2) [OF inv], of "currentSlide b"]
      geometry_maximum(2) [OF owl_invD(2) [OF inv]]
    by (auto simp: owl_inv_def cursor_ok_def geometry_ok_def Let_def)
qed

theorem owl_history_safe_witness:
  "currentSlide (fold owl_step [EvNext, EvResize 500 400, EvTimer 1, EvPrev]
     (logIn owl_defaults (replicate 9 (100, Some ''a.png'')) 1000 800 True False True)) \<ge> 0"
  using owl_history_safe [OF demo_setup [unfolded demo_raw_def] _ _ refl,
      of "[EvNext, EvResize 500 400, EvTimer 1, EvPrev]"]
  by (simp add: event_ok_def)

text \<open>
  C11: in every history at most one autoplay interval is armed, and it is the one the object can
  still cancel (\<open>autoPlaySpeed\<close>): no interval leaks.
\<close>

theorem owl_single_autoplay_timer:
  assumes "setup_ok (owl_raw opt children win el vis touch s3d)" and "0 \<le> el"
    and "\<forall>e \<in> set es. event_ok e"
    and "b = fold owl_step es (logIn opt children win el vis touch s3d)"
  shows "length (armed (timers b) AutoPlayTick) \<le> 1 \<and>
         set (armed (timers b) AutoPlayTick) \<subseteq> set_option (autoPlaySpeed b)"
proof -
  have "owl_inv b" using history_inv assms by blast
  then have t: "timers_wf (timers b)"
      and s: "set (armed (timers b) AutoPlayTick) \<subseteq> set_option (autoPlaySpeed b)"
    by (auto simp: owl_inv_def timers_ok_def)
  have "distinct (armed (timers b) AutoPlayTick)"
    using t by (simp add: timers_wf_def armed_def distinct_map_filter)
  then have "length (armed (timers b) AutoPlayTick) = card (set (armed (timers b) AutoPlayTick))"
    by (simp add: distinct_card)
  also have "\<dots> \<le> card (set_option (autoPlaySpeed b))" by (rule card_mono) (use s in auto)
  also have "\<dots> \<le> 1" by (cases "autoPlaySpeed b") auto
  finally show ?thesis using s by simp
qed

theorem owl_single_autoplay_timer_witness:
  "length (armed (timers (fold owl_step [EvPlay 5000, EvPlay 5000, EvNext]
     (logIn owl_defaults (replicate 9 (100, Some ''a.png'')) 1000 800 True False True)))
     AutoPlayTick) \<le> 1"
  using owl_single_autoplay_timer [OF demo_setup [unfolded demo_raw_def] _ _ refl,
      of "[EvPlay 5000, EvPlay 5000, EvNext]"]
  by (simp add: event_ok_def)

section \<open>Pages\<close>

lemma pages_nth:
  assumes "owl_inv b" "pagination (options b)"
  shows "length (pages b) = nat (ceil_div (itemsAmount b) (items (options b)))"
    and "k < length (pages b) \<Longrightarrow> pg_roundPages (pages b ! k) = int k + 1"
    and "k < length (pages b) \<Longrightarrow> pg_active (pages b ! k) \<longleftrightarrow> round_of b = Some (int k + 1)"
    and "k < length (pages b) \<Longrightarrow> pg_target (pages b ! k) =
           pg_target (page_button (itemsAmount b) (items (options b)) nums (int k))"
proof -
  have p: "pages b = map (set_active (round_of b)) (fresh_pages b)"
    using assms by (simp add: owl_inv_def pages_ok_def)
  have g: "0 < items (options b)" "0 \<le> itemsAmount b"
    using assms by (auto simp: owl_inv_def geometry_ok_def Let_def)
  note f = pages_loop_eq [OF g, of "paginationNumbers (options b)", folded fresh_pages_def]
  show "length (pages b) = nat (ceil_div (itemsAmount b) (items (options b)))"
    using p f by simp
  show "k < length (pages b) \<Longrightarrow> pg_roundPages (pages b ! k) = int k + 1"
    using p f by (simp add: set_active_def page_button_def)
  show "k < length (pages b) \<Longrightarrow> pg_active (pages b ! k) \<longleftrightarrow> round_of b = Some (int k + 1)"
    using p f by (auto simp: set_active_def page_button_def)
  show "k < length (pages b) \<Longrightarrow> pg_target (pages b ! k) =
      pg_target (page_button (itemsAmount b) (items (options b)) nums (int k))"
    using p f by (simp add: set_active_def page_button_def)
qed

text \<open>
  C9: in every history exactly one page button carries the class \<open>active\<close>, although the buttons
  and the page numbers of the items come from two different loops.
\<close>

theorem owl_one_active_page:
  assumes "setup_ok (owl_raw opt children win el vis touch s3d)" and "0 \<le> el"
    and "\<forall>e \<in> set es. event_ok e"
    and "b = fold owl_step es (logIn opt children win el vis touch s3d)"
    and "pagination (options b)"
  shows "\<exists>!k. k < length (pages b) \<and> pg_active (pages b ! k)"
proof -
  have inv: "owl_inv b" using history_inv assms by blast
  obtain j where j: "j < length (fresh_pages b)"
      "round_of b = Some (map pg_roundPages (fresh_pages b) ! j)"
    using round_of_button [OF owl_invD(2) [OF inv] owl_invD(3) [OF inv]] by blast
  have len: "length (fresh_pages b) = length (pages b)"
    using inv assms(5) by (simp add: owl_inv_def pages_ok_def)
  have "pg_roundPages (fresh_pages b ! j) = int j + 1"
    using fresh_pages_round [OF owl_invD(2) [OF inv]] j(1)
    by (metis (no_types, lifting) add_0 diff_zero length_map length_upt nth_map nth_upt)
  then have r: "round_of b = Some (int j + 1)" using j by simp
  show ?thesis
    by (rule ex1I [of _ j]) (use j r len pages_nth(3) [OF inv assms(5)] in auto)
qed

theorem owl_one_active_page_witness:
  "\<exists>!k. k < length (pages demo_owl) \<and> pg_active (pages demo_owl ! k)"
  using owl_one_active_page [OF demo_setup [unfolded demo_raw_def], of "[]" demo_owl]
  by (simp add: demo_options) (simp add: demo_owl_def owl_defaults_def)

text \<open>
  A click on a page button makes that button the active one, also on the last page, whose
  target \<open>itemsAmount - items\<close> is not a multiple of the page size.
\<close>

theorem owl_page_click_activates:
  assumes "owl_inv b" and "pagination (options b)" and "k < length (pages b)"
  shows "pg_active (pages (page_click k b) ! k)"
proof -
  let ?its = "items (options b)" and ?n = "itemsAmount b"
  have g: "0 < ?its" "?its \<le> ?n" "maximumSlide b = ?n - ?its" "geometry_ok b"
    using assms(1) by (auto simp: owl_inv_def geometry_ok_def Let_def)
  have k: "int k < ceil_div ?n ?its" using assms(3) pages_nth(1) [OF assms(1,2)] by simp
  obtain t where t: "pg_target (page_button ?n ?its True (int k)) = Some t" "0 \<le> t" "t \<le> ?n - ?its"
      "round_page ?its (?n - ?its) t = int k + 1"
    using page_button_target [OF g(1,2) _ k] by auto
  have tgt: "pg_target (pages b ! k) = Some t"
    using pages_nth(4) [OF assms(1,2,3), of True] t(1) by simp
  let ?c = "page_click k b"
  have geomc: "geom ?c = geom b" by simp
  have inv: "owl_inv ?c"
    using assms(1) by (simp add: owl_inv_split page_click_move_inv timers_ok_page_click)
  have cur: "currentSlide ?c = t"
    using tgt t g assms(3) by (auto simp: page_click_def)
  have "round_of ?c = Some (int k + 1)"
    using geometry_round [of ?c t] g t cur geomD(1,2,4) [OF geomc] geometry_ok_geom [OF geomc]
    by (simp add: round_of_def)
  moreover have "k < length (pages ?c)"
    using assms(3) pages_nth(1) [OF assms(1,2)] pages_nth(1) [OF inv] assms(2)
      geomD(1,2) [OF geomc] by simp
  ultimately show ?thesis
    using pages_nth(3) [OF inv] assms(2) geomD(1) [OF geomc] by simp
qed

theorem owl_page_click_activates_witness: "pg_active (pages (page_click 0 demo_owl) ! 0)"
proof (rule owl_page_click_activates [OF demo_inv])
  show "pagination (options demo_owl)" by (simp add: demo_options owl_defaults_def)
  then show "0 < length (pages demo_owl)"
    using pages_nth(1) [OF demo_inv] owl_invD(2) [OF demo_inv]
    by (auto simp: geometry_ok_def ceil_div_def Let_def pos_imp_zdiv_pos_iff)
qed

section \<open>Autoplay\<close>




end
