(* ===== verification/Owl_Drag.thy ===== *)
theory Owl_Drag
  imports Owl_Properties
begin

text \<open>
  Dragging, lazy loading, resizing and the animation flags of the carousel. The wrapper follows the
  pointer with a rubber band at both ends; on release the carousel snaps to the slide next to the
  release point, in the direction of the drag.
\<close>

section \<open>Snapping\<close>

lemma geometry_nth:
  assumes "geometry_ok b" "j \<le> nat (itemsAmount b)"
  shows "positionsInArray b ! j = - (int j * itemWidth b)"
    and "js_nth (positionsInArray b) (int j + 1) =
           (if j < nat (itemsAmount b) then Some (- ((int j + 1) * itemWidth b)) else None)"
proof -
  have p: "positionsInArray b = map (\<lambda>i. - (int i * itemWidth b)) [0..<Suc (nat (itemsAmount b))]"
    using assms(1) by (simp add: geometry_ok_def Let_def del: upt_Suc)
  show "positionsInArray b ! j = - (int j * itemWidth b)"
    using assms(2) by (simp add: p del: upt_Suc)
  have "int j + 1 = int (Suc j)" by simp
  then show "js_nth (positionsInArray b) (int j + 1) =
      (if j < nat (itemsAmount b) then Some (- ((int j + 1) * itemWidth b)) else None)"
    by (simp only: js_nth_of_nat) (simp add: p del: upt_Suc)
qed

text \<open>The release point \<open>g\<close> lies strictly between the positions of slides \<open>j + 1\<close> and \<open>j\<close>.\<close>

definition between :: "owl \<Rightarrow> rat \<Rightarrow> int \<Rightarrow> bool" where
  "between b g j \<longleftrightarrow> - of_int ((j + 1) * itemWidth b) < g \<and> g < - of_int (j * itemWidth b)"

lemma between_unique:
  assumes "between b g i" "between b g j" "0 \<le> itemWidth b"
  shows "i = j"
proof (rule ccontr)
  assume "i \<noteq> j"
  then consider "i + 1 \<le> j" | "j + 1 \<le> i" by linarith
  then show False
  proof cases
    case 1
    then have "(i + 1) * itemWidth b \<le> j * itemWidth b" using assms(3) by (rule mult_right_mono)
    then have "(of_int ((i + 1) * itemWidth b) :: rat) \<le> of_int (j * itemWidth b)"
      by (simp only: of_int_le_iff)
    then show False using assms(1,2) unfolding between_def by linarith
  next
    case 2
    then have "(j + 1) * itemWidth b \<le> i * itemWidth b" using assms(3) by (rule mult_right_mono)
    then have "(of_int ((j + 1) * itemWidth b) :: rat) \<le> of_int (i * itemWidth b)"
      by (simp only: of_int_le_iff)
    then show False using assms(1,2) unfolding between_def by linarith
  qed
qed

text \<open>One turn of the loop: only the gap with the release point in it moves the cursor.\<close>

lemma closest_step_slide:
  assumes "geometry_ok b" "j \<le> nat (itemsAmount b)"
  shows "currentSlide (closest_step j b) =
    (if newRelativeX b < 0
     then if j < nat (itemsAmount b) \<and> between b (newPosX b + of_int (itemWidth b) / 20) (int j)
          then int j + 1 else currentSlide b
     else if j < nat (itemsAmount b) \<and> between b (newPosX b - of_int (itemWidth b) / 20) (int j)
          then int j else currentSlide b)"
  using geometry_nth [OF assms]
  by (auto simp: closest_step_def moveDirection_def between_def Let_def)

definition drag_point :: "owl \<Rightarrow> rat" where
  "drag_point b = (if newRelativeX b < 0 then newPosX b + of_int (itemWidth b) / 20
                   else newPosX b - of_int (itemWidth b) / 20)"

definition drag_target :: "owl \<Rightarrow> int \<Rightarrow> int" where
  "drag_target b i = (if newRelativeX b < 0 then i + 1 else i)"

lemma closest_step_target:
  assumes "geometry_ok b" "j \<le> nat (itemsAmount b)"
  shows "currentSlide (closest_step j b) =
    (if j < nat (itemsAmount b) \<and> between b (drag_point b) (int j)
     then drag_target b (int j) else currentSlide b)"
  using closest_step_slide [OF assms] by (simp add: drag_point_def drag_target_def)

lemma fold_closest_slide:
  assumes "geometry_ok b" "\<forall>j \<in> set js. j \<le> nat (itemsAmount b)"
    and "between b (drag_point b) (int i)" "i < nat (itemsAmount b)"
  shows "currentSlide (fold closest_step js b) =
           (if i \<in> set js then drag_target b (int i) else currentSlide b)"
  using assms
proof (induction js arbitrary: b)
  case (Cons j js)
  let ?c = "closest_step j b"
  have g: "geom ?c = geom b" by simp
  have f: "itemsAmount ?c = itemsAmount b" "itemWidth ?c = itemWidth b"
    "drag_point ?c = drag_point b" "drag_target ?c = drag_target b"
    "between ?c = between b"
    using geomD(2,6) [OF g] by (simp_all add: drag_point_def drag_target_def between_def fun_eq_iff)
  have w: "0 \<le> itemWidth b" using Cons.prems(1) by (auto simp: geometry_ok_def Let_def)
  have IH: "currentSlide (fold closest_step js ?c) =
      (if i \<in> set js then drag_target ?c (int i) else currentSlide ?c)"
    using Cons.prems f geometry_ok_geom [OF g] by (intro Cons.IH) auto
  have j: "j \<le> nat (itemsAmount b)" using Cons.prems(2) by simp
  have "between b (drag_point b) (int j) \<longleftrightarrow> j = i"
    using between_unique [OF _ Cons.prems(3) w, of "int j"] Cons.prems(3) by auto
  then have "currentSlide ?c = (if j = i then drag_target b (int i) else currentSlide b)"
    using Cons.prems(4) by (subst closest_step_target [OF Cons.prems(1) j]) simp
  then show ?case using IH f(4) by simp
qed simp

lemma improveClosest_slide:
  assumes "geometry_ok b" "between b (drag_point b) (int i)" "i < nat (itemsAmount b)"
  shows "currentSlide (improveClosest b) = drag_target b (int i)"
proof -
  have "length (positionsInArray b) = Suc (nat (itemsAmount b))"
    using assms(1) by (simp add: geometry_ok_def Let_def del: upt_Suc)
  then show ?thesis
    using fold_closest_slide [OF assms(1) _ assms(2,3), of "[0..<length (positionsInArray b)]"] assms(3)
    by (simp add: improveClosest_def del: upt_Suc)
qed

text \<open>Where \<open>goTo\<close> leaves the wrapper: at the offset of the slide it ends on.\<close>

lemma goTo_wrapper:
  assumes "geometry_ok b"
  shows "wrapperTranslate (goTo p a b) =
           (if support3d b then Some (of_int (- (currentSlide (goTo p a b) * itemWidth b)))
            else wrapperTranslate b)"
    and "wrapperLeft (goTo p a b) =
           (if support3d b then wrapperLeft b
            else Some (of_int (- (currentSlide (goTo p a b) * itemWidth b))))"
proof -
  define pos where "pos = (if p \<ge> maximumSlide b then maximumSlide b else if p \<le> 0 then 0 else p)"
  have cur: "currentSlide (goTo p a b) = pos" by (simp add: pos_def)
  have "js_nth (positionsInArray b) pos = Some (- (pos * itemWidth b))"
    using geometry_maximum [OF assms] by (intro geometry_position [OF assms]) (auto simp: pos_def)
  then show "wrapperTranslate (goTo p a b) =
           (if support3d b then Some (of_int (- (currentSlide (goTo p a b) * itemWidth b)))
            else wrapperTranslate b)"
    and "wrapperLeft (goTo p a b) =
           (if support3d b then wrapperLeft b
            else Some (of_int (- (currentSlide (goTo p a b) * itemWidth b))))"
    unfolding cur unfolding goTo_def Let_def call_hook_frame pos_def [symmetric]
    by (simp_all add: css2slide_def move3d_def transition3d_def addTransition_def
        set_timeout_def call_hook_def Let_def split: goto_arg.splits)
qed

text \<open>
  A release right of the start (\<open>newPosX\<close> at least 0) can only lie in the gap of slide 0, within a
  twentieth of an item, after a drag to the right.
\<close>

lemma released_right:
  assumes "between b (drag_point b) (int i)" "0 \<le> newPosX b" "0 \<le> itemWidth b"
  shows "drag_target b (int i) = 0"
proof -
  let ?w = "of_int (itemWidth b) :: rat"
  have g: "drag_point b < - (of_nat i * ?w)" using assms(1) by (simp add: between_def)
  have w: "0 \<le> ?w" "0 \<le> of_nat i * ?w" using assms(3) by simp_all
  have r: "\<not> newRelativeX b < 0"
  proof
    assume "newRelativeX b < 0"
    then have "0 \<le> drag_point b" using assms(2) w(1) by (simp add: drag_point_def)
    then show False using g w(2) by linarith
  qed
  have "i = 0"
  proof (rule ccontr)
    assume "i \<noteq> 0"
    then have "1 * ?w \<le> of_nat i * ?w" by (intro mult_right_mono) (use w in auto)
    moreover have "- (?w / 20) \<le> drag_point b" using r assms(2) by (simp add: drag_point_def)
    ultimately show False using g w(1) by linarith
  qed
  then show ?thesis using r by (simp add: drag_target_def)
qed

text \<open>
  C26: when a drag that moved the wrapper (\<open>newPosX\<close> is not 0) ends with the release point strictly between
  the positions of slides \<open>i\<close> and \<open>i + 1\<close> (a twentieth of an item counts as tolerance), the carousel goes
  to slide \<open>i + 1\<close> after a drag to the left and to slide \<open>i\<close> after a drag to the right, but never past the
  last full page. The wrapper is sent to the position of that slide: by \<open>translate3d\<close> where the browser
  has it, and as the target of the \<open>left\<close> animation of \<open>css2slide\<close> where it has not; the other of the two
  is left alone.
\<close>

theorem owl_drag_snaps:
  assumes "owl_inv b" and "endBound b" and "newPosX b \<noteq> 0"
    and "between b (drag_point b) (int i)" and "i < nat (itemsAmount b)"
  shows "currentSlide (dragEnd b) = min (drag_target b (int i)) (maximumSlide b) \<and>
         wrapperTranslate (dragEnd b) =
           (if support3d b
            then Some (of_int (- (min (drag_target b (int i)) (maximumSlide b) * itemWidth b)))
            else wrapperTranslate b) \<and>
         wrapperLeft (dragEnd b) =
           (if support3d b then wrapperLeft b
            else Some (of_int (- (min (drag_target b (int i)) (maximumSlide b) * itemWidth b))))"
proof -
  define c where "c = (if \<not> isTouch b then b\<lparr>grabbing := False\<rparr> else b)\<lparr>moveBound := False, endBound := False\<rparr>"
  have gc: "geom c = geom b" "newPosX c = newPosX b" "newRelativeX c = newRelativeX b"
      "support3d c = support3d b" "wrapperTranslate c = wrapperTranslate b" "wrapperLeft c = wrapperLeft b"
    by (simp_all add: c_def geom_def)
  have geo: "geometry_ok c" using assms(1) geometry_ok_geom [OF gc(1)] by (simp add: owl_inv_def)
  have same: "drag_point c = drag_point b" "drag_target c = drag_target b" "between c = between b"
      "itemsAmount c = itemsAmount b" "maximumSlide c = maximumSlide b" "itemWidth c = itemWidth b"
    using gc geomD(2,4,6) [OF gc(1)]
    by (simp_all add: drag_point_def drag_target_def between_def fun_eq_iff)
  let ?t = "min (drag_target b (int i)) (maximumSlide b)"
  define d where "d = improveClosest c"
  have d: "currentSlide d = drag_target b (int i)"
    using improveClosest_slide [OF geo, of i] assms same by (simp add: d_def)
  have gd: "geom d = geom c" by (simp add: d_def)
  have sd: "support3d d = support3d c" "wrapperTranslate d = wrapperTranslate c" "wrapperLeft d = wrapperLeft c"
  proof -
    have *: "support3d (fold closest_step js e) = support3d e \<and> wrapperLeft (fold closest_step js e) = wrapperLeft e \<and>
        wrapperTranslate (fold closest_step js e) = wrapperTranslate e" for js e
      by (induction js arbitrary: e)
        (auto simp: closest_step_def moveDirection_def Let_def split: option.splits prod.splits)
    then show "support3d d = support3d c" "wrapperTranslate d = wrapperTranslate c" "wrapperLeft d = wrapperLeft c"
      by (simp_all add: d_def improveClosest_def)
  qed
  have tnn: "0 \<le> drag_target b (int i)" by (simp add: drag_target_def)
  define e where "e = (if currentSlide d > maximumSlide d then d\<lparr>currentSlide := maximumSlide d\<rparr> else d)"
  have np: "getNewPosition c = (?t, e)"
  proof -
    have n: "newPosX d = newPosX b" using gc(2) by (simp add: d_def)
    have z: "drag_target b (int i) = 0" if "0 \<le> newPosX b"
      using released_right [OF assms(4) that] owl_invD(2) [OF assms(1)] by (auto simp: geometry_ok_def Let_def)
    have u: "d\<lparr>currentSlide := 0\<rparr> = d" if "currentSlide d = 0" using that by (cases d) simp
    show ?thesis
      using d geomD(4) [OF gd] same n z u
      by (auto simp: getNewPosition_def Let_def d_def [symmetric] e_def)
  qed
  have de: "dragEnd b = goTo ?t GoUndefined e"
    using assms(2,3) np gc(2) by (simp add: dragEnd_def Let_def c_def [symmetric])
  have ge: "geom e = geom b" "support3d e = support3d b" "wrapperTranslate e = wrapperTranslate b" "wrapperLeft e = wrapperLeft b"
    using gd gc sd by (simp_all add: e_def)
  have mx: "0 \<le> maximumSlide b" "maximumSlide e = maximumSlide b"
    using geometry_maximum(1) [OF owl_invD(2) [OF assms(1)]] geomD(4) [OF ge(1)] by auto
  have cur: "currentSlide (dragEnd b) = ?t" using de tnn mx by (auto simp: min_def)
  have "geometry_ok e" using assms(1) geometry_ok_geom [OF ge(1)] by (simp add: owl_inv_def)
  from goTo_wrapper [OF this, of ?t GoUndefined]
  show ?thesis using cur ge geomD(6) [OF ge(1)] unfolding de by simp
qed

definition demo_drag :: owl where
  "demo_drag = demo_owl\<lparr>endBound := True, newPosX := -90, newRelativeX := -90\<rparr>"

lemma demo_drag_inv: "owl_inv demo_drag"
  using demo_inv owl_inv_cong [of demo_drag demo_owl] by (simp add: demo_drag_def geom_def clock_def)

theorem owl_drag_snaps_witness:
  "currentSlide (dragEnd demo_drag) = 1 \<and> endBound demo_drag \<and> newPosX demo_drag \<noteq> 0"
  using owl_drag_snaps [OF demo_drag_inv, of 0]
  by (simp add: demo_drag_def between_def drag_point_def drag_target_def demo_geometry)

text \<open>
  While a drag lasts the wrapper follows the pointer inside a rubber band: it never leaves the
  range from \<open>maximumPixels\<close> to 0 by more than a fifth of the distance dragged.
\<close>

theorem owl_drag_rubber_band:
  assumes "owl_inv b" and "moveBound b"
    and "rel = x - offsetX b - relativePos b"
  shows "of_int (maximumPixels b) + rel / 5 \<le> newPosX (dragMove x y b) \<and>
         newPosX (dragMove x y b) \<le> rel / 5 \<and>
         (if support3d b then wrapperTranslate (dragMove x y b) = Some (newPosX (dragMove x y b))
          else wrapperLeft (dragMove x y b) = Some (newPosX (dragMove x y b)))"
proof -
  define b1 where "b1 = b\<lparr>newPosX := x - offsetX b, newPosY := y - offsetY b,
    newRelativeX := x - offsetX b - relativePos b\<rparr>"
  define b2 where "b2 = (if newRelativeX b1 > 8 \<or> newRelativeX b1 < -8 \<and> isTouch b1
    then b1\<lparr>sliding := True\<rparr> else b1)"
  define b3 where "b3 = (if (newPosY b2 > 10 \<or> newPosY b2 < -10) \<and> \<not> sliding b2 \<and> isTouch b2
    then b2\<lparr>moveBound := False\<rparr> else b2)"
  have b3: "newRelativeX b3 = rel" "maximumPixels b3 = maximumPixels b" "support3d b3 = support3d b"
    using assms(3) by (simp_all add: b3_def b2_def b1_def)
  have "maximumPixels b \<le> 0"
    using assms(1) by (auto simp: owl_inv_def geometry_ok_def Let_def)
  then have mx: "(of_int (maximumPixels b) :: rat) \<le> 0" by simp
  show ?thesis
    using assms(2) mx unfolding dragMove_def Let_def b1_def [symmetric] b2_def [symmetric] b3_def [symmetric]
    by (auto simp: b3 transition3d_def css2move_def max_def min_def)
qed

theorem owl_drag_rubber_band_witness:
  "newPosX (dragMove 300 0 (demo_owl\<lparr>moveBound := True, offsetX := 0, relativePos := 0\<rparr>)) \<le> 60"
proof -
  let ?b = "demo_owl\<lparr>moveBound := True, offsetX := 0, relativePos := 0\<rparr>"
  have "owl_inv ?b" using demo_inv owl_inv_cong [of ?b demo_owl] by (simp add: geom_def clock_def)
  from owl_drag_rubber_band [OF this, of 300 300 0] show ?thesis by simp
qed

section \<open>Lazy loading\<close>

lemma lazy_item_loaded:
  "it_loaded (lazy_item b x) = LoadLoaded \<longleftrightarrow> it_loaded x = LoadLoaded \<or>
     (lazyFollow (options b) \<longrightarrow> currentSlide b \<le> it_index x) \<and>
     it_index x < currentSlide b + items (options b)"
  by (auto simp: lazy_item_def Let_def split: option.splits)

text \<open>
  After a move to slide \<open>s\<close> an item's image is loaded if and only if it was loaded before or
  the item lies in the window of \<open>items\<close> slides from \<open>s\<close> (with \<open>lazyFollow\<close>; without it, at any
  position before the window's end). So what is shown is loaded, and nothing is loaded early.
\<close>

theorem owl_goTo_lazy_loads:
  assumes "owl_inv b" and "lazyLoad (options b)" and "j < length (owlItems b)"
    and "s = currentSlide (goTo p a b)"
  shows "it_loaded (owlItems (goTo p a b) ! j) = LoadLoaded \<longleftrightarrow>
           it_loaded (owlItems b ! j) = LoadLoaded \<or>
           (lazyFollow (options b) \<longrightarrow> s \<le> int j) \<and> int j < s + items (options b)"
proof -
  define pos where "pos = (if p \<ge> maximumSlide b then maximumSlide b else if p \<le> 0 then 0 else p)"
  have s: "s = pos" using assms(4) by (simp add: pos_def)
  have "\<exists>c. goTo p a b = call_hook AfterMove (eachMoveUpdate c) \<and> owlItems c = owlItems b \<and>
      currentSlide c = pos \<and> options c = options b"
    unfolding goTo_def Let_def call_hook_frame pos_def [symmetric]
    by (rule exI, rule conjI, rule refl) simp
  then obtain c where c: "goTo p a b = call_hook AfterMove (eachMoveUpdate c)"
      "owlItems c = owlItems b" "currentSlide c = pos" "options c = options b"
    by blast
  have idx: "it_index (owlItems b ! j) = int j"
  proof -
    have g: "map it_index (owlItems b) = map int [0..<nat (itemsAmount b)]"
      "itemsAmount b = int (length (owlItems b))"
      using assms(1) by (simp_all add: owl_inv_def geometry_ok_def setup_ok_def Let_def)
    then have "map it_index (owlItems b) ! j = int j" using assms(3) by simp
    then show ?thesis using assms(3) by simp
  qed
  have "it_loaded (owlItems (goTo p a b) ! j) = it_loaded (lazy_item c (owlItems b ! j))"
    using assms(2,3) c by (simp add: eachMoveUpdate_def lazyLoad_all_def addActiveClass_def Let_def)
  then show ?thesis using lazy_item_loaded [of c "owlItems b ! j"] c idx s by simp
qed

theorem owl_goTo_lazy_loads_witness:
  "it_loaded (owlItems (goTo 2 GoUndefined (demo_owl\<lparr>options := (options demo_owl)\<lparr>lazyLoad := True\<rparr>\<rparr>)) ! 3) = LoadLoaded"
proof -
  let ?b = "demo_owl\<lparr>options := (options demo_owl)\<lparr>lazyLoad := True\<rparr>\<rparr>"
  have inv: "owl_inv ?b"
    using demo_inv by (simp add: owl_inv_def setup_ok_def geometry_ok_def cursor_ok_def pages_ok_def
        round_of_def fresh_pages_def timers_ok_def Let_def)
  have len: "length (owlItems ?b) = 9"
    using demo_inv demo_geometry by (simp add: owl_inv_def setup_ok_def Let_def)
  show ?thesis
    using owl_goTo_lazy_loads [OF inv, of 3 _ 2 GoUndefined] len demo_geometry
    by (simp add: demo_options owl_defaults_def)
qed

section \<open>Resizing and the animation flags\<close>

text \<open>
  A resize keeps the current slide, except on the last full page: there the test
  \<open>positionsInArray[currentSlide] > maximumPixels\<close> is strict, so the carousel jumps back to
  slide 0.
\<close>

theorem owl_resize_loses_last_page:
  assumes "owl_inv b" and "0 < itemWidth b"
  shows "currentSlide (updatePosition b) =
           (if currentSlide b = maximumSlide b then 0 else currentSlide b)"
  using assms updatePosition_slide [of b] geometry_maximum(2) [of b]
  by (auto simp: owl_inv_def cursor_ok_def)

theorem owl_resize_loses_last_page_witness:
  "currentSlide (updatePosition (goTo 5 GoUndefined demo_owl)) = 0"
proof -
  let ?b = "goTo 5 GoUndefined demo_owl"
  have inv: "owl_inv ?b"
    using demo_inv by (simp add: owl_inv_split goTo_move_inv timers_ok_goTo)
  have g: "geom ?b = geom demo_owl" by simp
  show ?thesis
    using owl_resize_loses_last_page [OF inv] geomD(4,6) [OF g] demo_geometry by simp
qed

text \<open>
  Without 3d transforms two moves in a row leave \<open>isCssFinish\<close> true although the second
  animation still runs: \<open>stop(true, true)\<close> runs the callback of the first one. A drag can then
  start in the middle of an animation, which the flag is there to prevent.
\<close>

theorem owl_finish_flag_early:
  assumes "\<not> support3d b"
  shows "\<not> isCssFinish (goTo p a (b\<lparr>animating := False\<rparr>)) \<and>
         isCssFinish (goTo q c (goTo p a b)) \<and> animating (goTo q c (goTo p a b))"
proof -
  have keep: "isCssFinish (eachMoveUpdate d) = isCssFinish d \<and> animating (eachMoveUpdate d) = animating d"
    "isCssFinish (checkAp d) = isCssFinish d \<and> animating (checkAp d) = animating d"
    "isCssFinish (checkPagination d) = isCssFinish d \<and> animating (checkPagination d) = animating d"
    "isCssFinish (checkNavigation d) = isCssFinish d \<and> animating (checkNavigation d) = animating d"
    "isCssFinish (call_hook h d) = isCssFinish d \<and> animating (call_hook h d) = animating d" for d h
    by (simp_all add: eachMoveUpdate_def lazyLoad_all_def autoHeight_update_def addActiveClass_def
        call_hook_def set_timeout_def checkAp_def play_def clear_interval_def checkPagination_def
        checkNavigation_def Let_def split_beta)
  have "animating (goTo r x d) \<and> isCssFinish (goTo r x d) = animating d" if "\<not> support3d d" for r x d
    using that by (simp add: goTo_def Let_def keep css2slide_def)
  from this [of b] this [of "goTo p a b"] this [of "b\<lparr>animating := False\<rparr>"] assms
  show ?thesis by simp
qed

theorem owl_finish_flag_early_witness:
  "isCssFinish (goTo 2 GoUndefined (goTo 1 GoUndefined (demo_raw\<lparr>support3d := False\<rparr>)))"
  using owl_finish_flag_early [of "demo_raw\<lparr>support3d := False\<rparr>" 1 GoUndefined 2 GoUndefined] by simp

end
