(* ===== verification/Js_Number.thy ===== *)
theory Js_Number
  imports Vein_Prelude
begin

text \<open>
  JavaScript numbers: exact rationals with the two infinities and \<open>NaN\<close>. Rounding of doubles and
  the sign of zero are left out; the degenerate results the charts can run into (a division by
  zero, the minimum of an empty array, arithmetic on \<open>undefined\<close>) are kept, because the code
  distinguishes them.
\<close>

datatype jsnum = Fin rat | PosInf | NegInf | NaN

instantiation jsnum :: "{zero, one, plus, minus, uminus, times, divide, inverse, ord}"
begin

definition zero_jsnum :: jsnum where "zero_jsnum = Fin 0"

definition one_jsnum :: jsnum where "one_jsnum = Fin 1"

fun plus_jsnum :: "jsnum \<Rightarrow> jsnum \<Rightarrow> jsnum" where
  "plus_jsnum (Fin a) (Fin b) = Fin (a + b)"
| "plus_jsnum NaN b = NaN"
| "plus_jsnum a NaN = NaN"
| "plus_jsnum PosInf NegInf = NaN"
| "plus_jsnum NegInf PosInf = NaN"
| "plus_jsnum PosInf b = PosInf"
| "plus_jsnum a PosInf = PosInf"
| "plus_jsnum NegInf b = NegInf"
| "plus_jsnum a NegInf = NegInf"

fun uminus_jsnum :: "jsnum \<Rightarrow> jsnum" where
  "uminus_jsnum (Fin a) = Fin (- a)"
| "uminus_jsnum PosInf = NegInf"
| "uminus_jsnum NegInf = PosInf"
| "uminus_jsnum NaN = NaN"

definition minus_jsnum :: "jsnum \<Rightarrow> jsnum \<Rightarrow> jsnum" where
  "minus_jsnum a b = a + (- b)"

text \<open>An infinity with the sign of a finite factor; \<open>0 * \<infinity>\<close> is \<open>NaN\<close>.\<close>

definition inf_sign :: "rat \<Rightarrow> jsnum" where
  "inf_sign a = (if a > 0 then PosInf else if a < 0 then NegInf else NaN)"

fun times_jsnum :: "jsnum \<Rightarrow> jsnum \<Rightarrow> jsnum" where
  "times_jsnum (Fin a) (Fin b) = Fin (a * b)"
| "times_jsnum NaN b = NaN"
| "times_jsnum a NaN = NaN"
| "times_jsnum (Fin a) PosInf = inf_sign a"
| "times_jsnum (Fin a) NegInf = inf_sign (- a)"
| "times_jsnum PosInf (Fin b) = inf_sign b"
| "times_jsnum NegInf (Fin b) = inf_sign (- b)"
| "times_jsnum PosInf PosInf = PosInf"
| "times_jsnum PosInf NegInf = NegInf"
| "times_jsnum NegInf PosInf = NegInf"
| "times_jsnum NegInf NegInf = PosInf"

fun inverse_jsnum :: "jsnum \<Rightarrow> jsnum" where
  "inverse_jsnum (Fin a) = (if a = 0 then PosInf else Fin (inverse a))"
| "inverse_jsnum PosInf = Fin 0"
| "inverse_jsnum NegInf = Fin 0"
| "inverse_jsnum NaN = NaN"

definition divide_jsnum :: "jsnum \<Rightarrow> jsnum \<Rightarrow> jsnum" where
  "divide_jsnum a b = a * inverse b"

fun less_jsnum :: "jsnum \<Rightarrow> jsnum \<Rightarrow> bool" where
  "less_jsnum NaN b = False"
| "less_jsnum a NaN = False"
| "less_jsnum (Fin a) (Fin b) = (a < b)"
| "less_jsnum a NegInf = False"
| "less_jsnum NegInf b = True"
| "less_jsnum PosInf b = False"
| "less_jsnum a PosInf = True"

definition less_eq_jsnum :: "jsnum \<Rightarrow> jsnum \<Rightarrow> bool" where
  "less_eq_jsnum a b = (a < b \<or> a = b \<and> a \<noteq> NaN)"

instance ..

end

text \<open>\<open>===\<close> on numbers: \<open>NaN\<close> differs from itself.\<close>

definition js_eq :: "jsnum \<Rightarrow> jsnum \<Rightarrow> bool" where
  "js_eq a b \<longleftrightarrow> a = b \<and> a \<noteq> NaN"

definition is_fin :: "jsnum \<Rightarrow> bool" where
  "is_fin x = (case x of Fin _ \<Rightarrow> True | _ \<Rightarrow> False)"

lemma fin_simps [simp, js_simps]:
  "Fin a + Fin b = Fin (a + b)" "Fin a - Fin b = Fin (a - b)" "Fin a * Fin b = Fin (a * b)"
  "- Fin a = Fin (- a)" "b \<noteq> 0 \<Longrightarrow> Fin a / Fin b = Fin (a / b)"
  "Fin 0 / Fin 0 = NaN" "(Fin a < Fin b) = (a < b)" "(Fin a \<le> Fin b) = (a \<le> b)"
  "js_eq (Fin a) (Fin b) = (a = b)" "is_fin (Fin a)"
  by (auto simp: minus_jsnum_def divide_jsnum_def less_eq_jsnum_def js_eq_def is_fin_def
      inf_sign_def field_simps)

lemma nan_simps [simp, js_simps]:
  "NaN + x = NaN" "x + NaN = NaN" "NaN - x = NaN" "x - NaN = NaN" "NaN * x = NaN" "x * NaN = NaN"
  "NaN / x = NaN" "x / NaN = NaN" "\<not> NaN < x" "\<not> x < NaN" "\<not> NaN \<le> x" "\<not> x \<le> NaN"
  "\<not> js_eq NaN x" "\<not> js_eq x NaN" "\<not> is_fin NaN"
proof -
  show a: "x + NaN = NaN" "x * NaN = NaN" "\<not> x < NaN" by (cases x; simp)+
  show "NaN + x = NaN" "NaN - x = NaN" "x - NaN = NaN" "NaN * x = NaN" "NaN / x = NaN"
    "x / NaN = NaN" "\<not> NaN < x" "\<not> NaN \<le> x" "\<not> x \<le> NaN" "\<not> js_eq NaN x" "\<not> js_eq x NaN"
    "\<not> is_fin NaN"
    using a by (auto simp: minus_jsnum_def divide_jsnum_def less_eq_jsnum_def js_eq_def is_fin_def)
qed

lemma inf_simps [simp, js_simps]:
  "Fin a < PosInf" "NegInf < Fin a" "\<not> PosInf < x" "\<not> x < NegInf" "NegInf < PosInf"
  "Fin a \<le> PosInf" "NegInf \<le> Fin a" "\<not> PosInf \<le> Fin a" "\<not> Fin a \<le> NegInf"
  by (cases x; simp add: less_eq_jsnum_def)+

section \<open>The functions of \<open>Math\<close>\<close>

definition num_round :: "jsnum \<Rightarrow> jsnum" where
  "num_round x = (case x of Fin a \<Rightarrow> Fin (of_int (js_round a)) | _ \<Rightarrow> x)"

definition num_floor :: "jsnum \<Rightarrow> jsnum" where
  "num_floor x = (case x of Fin a \<Rightarrow> Fin (of_int \<lfloor>a\<rfloor>) | _ \<Rightarrow> x)"

definition num_ceil :: "jsnum \<Rightarrow> jsnum" where
  "num_ceil x = (case x of Fin a \<Rightarrow> Fin (of_int \<lceil>a\<rceil>) | _ \<Rightarrow> x)"

definition num_abs :: "jsnum \<Rightarrow> jsnum" where
  "num_abs x = (case x of Fin a \<Rightarrow> Fin \<bar>a\<bar> | NegInf \<Rightarrow> PosInf | _ \<Rightarrow> x)"

lemma num_fin [simp, js_simps]:
  "num_round (Fin a) = Fin (of_int (js_round a))" "num_floor (Fin a) = Fin (of_int \<lfloor>a\<rfloor>)"
  "num_ceil (Fin a) = Fin (of_int \<lceil>a\<rceil>)" "num_abs (Fin a) = Fin \<bar>a\<bar>"
  "num_round NaN = NaN" "num_floor NaN = NaN" "num_ceil NaN = NaN" "num_abs NaN = NaN"
  by (simp_all add: num_round_def num_floor_def num_ceil_def num_abs_def)

text \<open>\<open>Math.min.apply(Math, xs)\<close> and \<open>Math.max.apply(Math, xs)\<close>.\<close>

definition num_min :: "jsnum \<Rightarrow> jsnum \<Rightarrow> jsnum" where
  "num_min a b = (if a = NaN \<or> b = NaN then NaN else if b < a then b else a)"

definition num_max :: "jsnum \<Rightarrow> jsnum \<Rightarrow> jsnum" where
  "num_max a b = (if a = NaN \<or> b = NaN then NaN else if a < b then b else a)"

definition math_min :: "jsnum list \<Rightarrow> jsnum" where
  "math_min xs = foldl num_min PosInf xs"

definition math_max :: "jsnum list \<Rightarrow> jsnum" where
  "math_max xs = foldl num_max NegInf xs"

lemma num_min_fin [simp]: "num_min (Fin a) (Fin b) = Fin (min a b)"
  "num_min PosInf (Fin b) = Fin b"
  by (auto simp: num_min_def)

lemma num_max_fin [simp]: "num_max (Fin a) (Fin b) = Fin (max a b)"
  "num_max NegInf (Fin b) = Fin b"
  by (auto simp: num_max_def)

lemma foldl_min_fin: "foldl num_min (Fin a) (map Fin xs) = Fin (foldl min a xs)"
  by (induction xs arbitrary: a) auto

lemma foldl_max_fin: "foldl num_max (Fin a) (map Fin xs) = Fin (foldl max a xs)"
  by (induction xs arbitrary: a) auto

lemma foldl_min_set: "foldl min a xs = Min (insert a (set xs))" for a :: "'a::linorder"
proof (induction xs arbitrary: a)
  case (Cons x xs)
  then show ?case
    by (cases "set xs = {}") (auto simp: min.assoc [symmetric] insert_commute)
qed simp

lemma foldl_max_set: "foldl max a xs = Max (insert a (set xs))" for a :: "'a::linorder"
proof (induction xs arbitrary: a)
  case (Cons x xs)
  then show ?case
    by (cases "set xs = {}") (auto simp: max.assoc [symmetric] insert_commute)
qed simp

lemma math_min_fin: "xs \<noteq> [] \<Longrightarrow> math_min (map Fin xs) = Fin (Min (set xs))"
  by (cases xs) (simp_all add: math_min_def foldl_min_fin foldl_min_set)

lemma math_max_fin: "xs \<noteq> [] \<Longrightarrow> math_max (map Fin xs) = Fin (Max (set xs))"
  by (cases xs) (simp_all add: math_max_def foldl_max_fin foldl_max_set)

lemma math_min_Nil [simp]: "math_min [] = PosInf" and math_max_Nil [simp]: "math_max [] = NegInf"
  by (simp_all add: math_min_def math_max_def)

lemma js_round_numeral_half: "js_round (of_int a / 2) = (a + 1) div 2"
  unfolding js_round_def
proof -
  have "(of_int a / 2 + 1 / 2 :: rat) = of_int (a + 1) / of_int 2" by (simp add: field_simps)
  then show "\<lfloor>of_int a / 2 + 1 / 2 :: rat\<rfloor> = (a + 1) div 2"
    by (simp only: floor_divide_of_int_eq)
qed

lemma js_round_le: "x \<le> of_int n \<Longrightarrow> js_round x \<le> n"
  using js_round_mono [of x "of_int n"] by simp

lemma js_round_ge: "of_int n \<le> x \<Longrightarrow> n \<le> js_round x"
  using js_round_mono [of "of_int n" x] by simp

end
