(* ===== verification/Js_Value.thy ===== *)
theory Js_Value
  imports Js_Number "HOL-Library.Char_ord"
begin

text \<open>
  JavaScript values as the charts handle them, the decimal grammar that \<open>parseFloat\<close> and the
  conversion to a number share, and the decimal text of an integer. Strings are ASCII.
\<close>

datatype jsval =
    VUndef | VNull | VBool bool | VNum jsnum | VStr string | VArr "jsval list"

section \<open>Digits\<close>

definition digit_of :: "char \<Rightarrow> nat option" where
  "digit_of c = (let n = of_char c :: nat in if 48 \<le> n \<and> n \<le> 57 then Some (n - 48) else None)"

definition hex_of :: "char \<Rightarrow> nat option" where
  "hex_of c =
     (let n = of_char c :: nat in
      if 48 \<le> n \<and> n \<le> 57 then Some (n - 48)
      else if 65 \<le> n \<and> n \<le> 70 then Some (n - 55)
      else if 97 \<le> n \<and> n \<le> 102 then Some (n - 87) else None)"

lemma hex_of_bound: "hex_of c = Some d \<Longrightarrow> d \<le> 15"
  by (auto simp: hex_of_def Let_def split: if_splits)

definition char_of_digit :: "nat \<Rightarrow> char" where
  "char_of_digit d = char_of (48 + d)"

text \<open>The decimal digits of a number, most significant first (\<open>String(n)\<close> for an integer).\<close>

fun show_nat :: "nat \<Rightarrow> string" where
  "show_nat n = (if n < 10 then [char_of_digit n] else show_nat (n div 10) @ [char_of_digit (n mod 10)])"

declare show_nat.simps [simp del]

definition show_int :: "int \<Rightarrow> string" where
  "show_int i = (if i < 0 then CHR ''-'' # show_nat (nat (- i)) else show_nat (nat i))"

fun read_digits :: "nat \<Rightarrow> string \<Rightarrow> nat \<times> nat \<times> string" where
  "read_digits acc [] = (acc, 0, [])"
| "read_digits acc (c # cs) =
     (case digit_of c of
        None \<Rightarrow> (acc, 0, c # cs)
      | Some d \<Rightarrow> (case read_digits (10 * acc + d) cs of (n, k, rest) \<Rightarrow> (n, Suc k, rest)))"

lemma digit_of_char_of_digit [simp]: "d < 10 \<Longrightarrow> digit_of (char_of_digit d) = Some d"
  by (simp add: digit_of_def char_of_digit_def)

lemma read_digits_append:
  "\<forall>c \<in> set s. digit_of c \<noteq> None \<Longrightarrow>
   read_digits acc (s @ t) =
     (case read_digits acc s of (n, k, _) \<Rightarrow> case read_digits n t of (m, j, r) \<Rightarrow> (m, k + j, r))"
  by (induction s arbitrary: acc) (auto split: option.splits prod.splits)

lemma show_nat_digits: "c \<in> set (show_nat n) \<Longrightarrow> digit_of c \<noteq> None"
proof (induction n rule: show_nat.induct)
  case (1 n)
  then show ?case by (subst (asm) show_nat.simps) (auto split: if_splits)
qed

lemma show_nat_ne [simp]: "show_nat n \<noteq> []"
  by (subst show_nat.simps) simp

lemma read_show_nat:
  "read_digits acc (show_nat n) = (acc * 10 ^ length (show_nat n) + n, length (show_nat n), [])"
proof (induction n arbitrary: acc rule: show_nat.induct)
  case (1 n)
  show ?case
  proof (cases "n < 10")
    case True
    then show ?thesis by (simp add: show_nat.simps [of n])
  next
    case False
    have "read_digits acc (show_nat n) = read_digits acc (show_nat (n div 10) @ [char_of_digit (n mod 10)])"
      using False by (simp add: show_nat.simps [of n])
    also have "\<dots> = (acc * 10 ^ length (show_nat n) + n, length (show_nat n), [])"
      using False "1" show_nat_digits [of _ "n div 10"]
      by (subst read_digits_append) (auto simp: show_nat.simps [of n] algebra_simps)
    finally show ?thesis .
  qed
qed

section \<open>Decimal literals\<close>

definition is_space :: "char \<Rightarrow> bool" where
  "is_space c \<longleftrightarrow> (of_char c :: nat) \<in> {9, 10, 11, 12, 13, 32, 160}"

definition trim_left :: "string \<Rightarrow> string" where
  "trim_left s = dropWhile is_space s"

definition trim :: "string \<Rightarrow> string" where
  "trim s = rev (trim_left (rev (trim_left s)))"

text \<open>
  The longest decimal literal at the start of a string: sign, digits, fraction, exponent, or the
  word \<open>Infinity\<close>; with it the rest of the string.
\<close>

definition read_sign :: "string \<Rightarrow> bool \<times> string" where
  "read_sign s =
     (case s of [] \<Rightarrow> (False, [])
      | c # cs \<Rightarrow> if c = CHR ''-'' then (True, cs) else if c = CHR ''+'' then (False, cs) else (False, s))"

definition read_fraction :: "nat \<Rightarrow> string \<Rightarrow> nat \<times> nat \<times> string" where
  "read_fraction n s =
     (case s of
        c # cs \<Rightarrow> if c = CHR ''.'' then read_digits n cs else (n, 0, s)
      | [] \<Rightarrow> (n, 0, s))"

definition read_exponent :: "string \<Rightarrow> int \<times> string" where
  "read_exponent s =
     (case s of
        c # cs \<Rightarrow>
          if c = CHR ''e'' \<or> c = CHR ''E'' then
            (case read_sign cs of (neg, t) \<Rightarrow>
              case read_digits 0 t of (m, k, rest) \<Rightarrow>
                if k = 0 then (0, s) else ((if neg then - int m else int m), rest))
          else (0, s)
      | [] \<Rightarrow> (0, s))"

definition pow10 :: "int \<Rightarrow> rat" where
  "pow10 e = (if 0 \<le> e then 10 ^ nat e else 1 / 10 ^ nat (- e))"

definition read_decimal :: "string \<Rightarrow> (jsnum \<times> string) option" where
  "read_decimal s =
     (case read_sign s of (neg, t) \<Rightarrow>
      if take 8 t = ''Infinity'' then Some (if neg then NegInf else PosInf, drop 8 t)
      else
        (case read_digits 0 t of (n, k, u) \<Rightarrow>
         case read_fraction n u of (m, j, v) \<Rightarrow>
         if k + j = 0 then None
         else
           (case read_exponent v of (e, w) \<Rightarrow>
              let x = of_nat m * pow10 (e - int j) in Some (Fin (if neg then - x else x), w))))"

definition parseFloat :: "string \<Rightarrow> jsnum" where
  "parseFloat s = (case read_decimal (trim_left s) of None \<Rightarrow> NaN | Some (x, _) \<Rightarrow> x)"

text \<open>\<open>Number(s)\<close>; hexadecimal literals are not read (they give \<open>NaN\<close> here).\<close>

definition string_to_num :: "string \<Rightarrow> jsnum" where
  "string_to_num s =
     (if trim s = [] then Fin 0
      else case read_decimal (trim s) of Some (x, []) \<Rightarrow> x | _ \<Rightarrow> NaN)"

section \<open>Conversions\<close>

fun to_num :: "jsval \<Rightarrow> jsnum" where
  "to_num VUndef = NaN"
| "to_num VNull = Fin 0"
| "to_num (VBool b) = (if b then Fin 1 else Fin 0)"
| "to_num (VNum x) = x"
| "to_num (VStr s) = string_to_num s"
| "to_num (VArr []) = Fin 0"
| "to_num (VArr (v # w # vs)) = NaN"
| "to_num (VArr [VUndef]) = Fin 0"
| "to_num (VArr [VNull]) = Fin 0"
| "to_num (VArr [VBool b]) = NaN"
| "to_num (VArr [VNum x]) = x"
| "to_num (VArr [VStr s]) = string_to_num s"
| "to_num (VArr [VArr vs]) = to_num (VArr vs)"

text \<open>\<open>===\<close>; arrays are compared by identity, and no two reads of the code share one.\<close>

fun strict_eq :: "jsval \<Rightarrow> jsval \<Rightarrow> bool" where
  "strict_eq (VNum x) (VNum y) = js_eq x y"
| "strict_eq (VArr _) w = False"
| "strict_eq v (VArr _) = False"
| "strict_eq v w = (v = w)"

fun truthy :: "jsval \<Rightarrow> bool" where
  "truthy VUndef = False"
| "truthy VNull = False"
| "truthy (VBool b) = b"
| "truthy (VNum x) = (x \<noteq> Fin 0 \<and> x \<noteq> NaN)"
| "truthy (VStr s) = (s \<noteq> [])"
| "truthy (VArr _) = True"

lemma parseFloat_show_nat: "parseFloat (show_nat n) = Fin (of_nat n)"
proof -
  obtain c cs where s: "show_nat n = c # cs" by (cases "show_nat n") auto
  then have d: "digit_of c \<noteq> None" using show_nat_digits [of c n] by simp
  have c: "\<not> is_space c" "c \<noteq> CHR ''-''" "c \<noteq> CHR ''+''" "c \<noteq> CHR ''I''"
    using d by (auto simp: digit_of_def is_space_def Let_def split: if_splits)
  have sg: "read_sign (show_nat n) = (False, show_nat n)" using c s by (simp add: read_sign_def)
  have t: "trim_left (show_nat n) = show_nat n" using c s by (simp add: trim_left_def)
  have i: "take 8 (show_nat n) \<noteq> ''Infinity''" using c s by simp
  have r: "read_digits 0 (show_nat n) = (n, length (show_nat n), [])" by (simp add: read_show_nat)
  show ?thesis
    unfolding parseFloat_def read_decimal_def t sg using i r
    by (simp add: read_fraction_def read_exponent_def pow10_def)
qed

end
