(* ===== verification/Spark_Util.thy ===== *)
theory Spark_Util
  imports Js_Value
begin

text \<open>
  The helper functions of \<open>js/jquery.sparkline.js\<close>: clipping, quartiles, normalising the values of a
  tag, grouping digits and range maps. Each has its reference definition beside it.
\<close>

section \<open>Clipping\<close>

definition clipval :: "'a::ord \<Rightarrow> 'a \<Rightarrow> 'a \<Rightarrow> 'a" where
  "clipval val lo hi = (if val < lo then lo else if val > hi then hi else val)"

lemma clipval_range: "lo \<le> hi \<Longrightarrow> lo \<le> clipval v lo hi \<and> clipval v lo hi \<le> hi" for v :: "'a::linorder"
  by (auto simp: clipval_def)

lemma clipval_id: "lo \<le> v \<Longrightarrow> v \<le> hi \<Longrightarrow> clipval v lo hi = v" for v :: "'a::linorder"
  by (auto simp: clipval_def)

lemma clipval_fin [simp]: "clipval (Fin v) (Fin lo) (Fin hi) = Fin (clipval v lo hi)"
  by (simp add: clipval_def)

section \<open>Quartiles\<close>

text \<open>A read outside the array is \<open>undefined\<close>, on which arithmetic gives \<open>NaN\<close>.\<close>

definition num_at :: "jsnum list \<Rightarrow> int \<Rightarrow> jsnum" where
  "num_at values i = (case js_nth values i of None \<Rightarrow> NaN | Some x \<Rightarrow> x)"

definition quartile :: "jsnum list \<Rightarrow> int \<Rightarrow> jsnum" where
  "quartile values q =
     (let n = int (length values) in
      if q = 2 then
        (let vl = n div 2 in
         if n mod 2 \<noteq> 0 then num_at values vl
         else (num_at values (vl - 1) + num_at values vl) / Fin 2)
      else
        (let quad = (if n mod 2 \<noteq> 0 then n * q + q else n * q + 2) in   \<comment> \<open>\<open>vl = quad / 4\<close>\<close>
         if quad mod 4 \<noteq> 0
         then (num_at values (quad div 4) + num_at values (quad div 4 - 1)) / Fin 2
         else num_at values (quad div 4 - 1)))"

lemma num_at_fin: "num_at (map Fin xs) i = (if 0 \<le> i \<and> i < int (length xs) then Fin (xs ! nat i) else NaN)"
  by (auto simp: num_at_def js_nth_def)

section \<open>Values of a tag\<close>

definition normalizeValue :: "jsval \<Rightarrow> jsval" where
  "normalizeValue val =
     (case val of
        VStr s \<Rightarrow>
          if s = ''undefined'' then VUndef
          else if s = ''null'' then VNull
          else if s = ''true'' then VBool True
          else if s = ''false'' then VBool False
          else (let nf = parseFloat s in if js_eq (string_to_num s) nf then VNum nf else val)
      | _ \<Rightarrow> val)"

definition normalizeValues :: "jsval list \<Rightarrow> jsval list" where
  "normalizeValues vals = map normalizeValue vals"

fun remove_val :: "jsval list \<Rightarrow> jsval \<Rightarrow> jsval list" where
  "remove_val [] flt = []"
| "remove_val (v # vs) flt = (if strict_eq v flt then remove_val vs flt else v # remove_val vs flt)"

fun all_val :: "jsval \<Rightarrow> jsval list \<Rightarrow> bool \<Rightarrow> bool" where
  "all_val val [] ignoreNull = True"
| "all_val val (v # vs) ignoreNull =
     (if ignoreNull \<and> v = VNull then all_val val vs ignoreNull
      else strict_eq v val \<and> all_val val vs ignoreNull)"

definition isNumber :: "jsval \<Rightarrow> bool" where
  "isNumber v =
     ((case v of VNum x \<Rightarrow> x \<noteq> NaN | VStr s \<Rightarrow> parseFloat s \<noteq> NaN | _ \<Rightarrow> False) \<and> is_fin (to_num v))"

fun sum_val :: "jsval list \<Rightarrow> jsnum" where
  "sum_val [] = Fin 0"
| "sum_val (v # vs) = sum_val vs + (case v of VNum x \<Rightarrow> x | _ \<Rightarrow> Fin 0)"

definition ensureArray :: "jsval \<Rightarrow> jsval list" where
  "ensureArray v = (case v of VArr vs \<Rightarrow> vs | _ \<Rightarrow> [v])"

lemma normalizeValue_idem: "normalizeValue (normalizeValue v) = normalizeValue v"
  by (cases v) (auto simp: normalizeValue_def Let_def)

lemma remove_val_Null: "remove_val vs VNull = filter (\<lambda>v. v \<noteq> VNull) vs"
proof (induction vs)
  case (Cons v vs)
  then show ?case by (cases v) auto
qed simp

lemma all_val_Null: "all_val VNull vs False \<longleftrightarrow> set vs \<subseteq> {VNull}"
proof (induction vs)
  case (Cons v vs)
  then show ?case by (cases v) auto
qed simp

section \<open>Digit grouping\<close>

text \<open>
  \<open>formatNumber\<close> works on the text of the number (\<open>toString\<close> or \<open>toFixed\<close>, here the argument
  \<open>txt\<close>) as an array of one-character strings. The loop that inserts the separators ends only when
  the group size is positive; otherwise the result is \<open>None\<close>.
\<close>

partial_function (option) group_loop :: "int \<Rightarrow> string \<Rightarrow> int \<Rightarrow> string list \<Rightarrow> string list option" where
  "group_loop groupsize groupsep i num =
     (if i > 0 then group_loop groupsize groupsep (i - groupsize) (js_splice num (nat i) 0 [groupsep])
      else Some num)"

fun index_of :: "'a \<Rightarrow> 'a list \<Rightarrow> nat option" where
  "index_of x [] = None"
| "index_of x (y # ys) = (if x = y then Some 0 else map_option Suc (index_of x ys))"

definition formatNumber :: "string \<Rightarrow> int \<Rightarrow> string \<Rightarrow> string \<Rightarrow> string option" where
  "formatNumber txt groupsize groupsep decsep =
     (let num = map (\<lambda>c. [c]) txt;
          p = (case index_of ''.'' num of None \<Rightarrow> length num | Some p \<Rightarrow> p);
          num = (if p < length num then num[p := decsep] else num)
      in map_option concat (group_loop groupsize groupsep (int p - groupsize) num))"

text \<open>What grouping means: cut groups off the right end, one separator between two groups.\<close>

function group_right :: "nat \<Rightarrow> 'a list \<Rightarrow> 'a list list" where
  "group_right g xs =
     (if g = 0 \<or> length xs \<le> g then [xs]
      else group_right g (take (length xs - g) xs) @ [drop (length xs - g) xs])"
  by auto
termination by (relation "measure (\<lambda>(g, xs). length xs)") auto

declare group_right.simps [simp del]

fun join :: "'a list \<Rightarrow> 'a list list \<Rightarrow> 'a list" where
  "join sep [] = []"
| "join sep [x] = x"
| "join sep (x # y # zs) = x @ sep @ join sep (y # zs)"

lemma join_snoc: "xss \<noteq> [] \<Longrightarrow> join sep (xss @ [ys]) = join sep xss @ sep @ ys"
  by (induction sep xss rule: join.induct) auto

lemma group_right_ne [simp]: "group_right g xs \<noteq> []"
  by (subst group_right.simps) simp

lemma group_loop_eq:
  fixes g :: nat
  assumes "0 < g" "i \<le> length num"
  shows "group_loop (int g) sep (int i - int g) num =
    Some (join [sep] (group_right g (take i num)) @ drop i num)"
  using assms(2)
proof (induction i arbitrary: num rule: less_induct)
  case (less i)
  show ?case
  proof (cases "i \<le> g")
    case True
    then show ?thesis using less.prems by (simp add: group_loop.simps group_right.simps)
  next
    case False
    let ?n = "js_splice num (i - g) 0 [sep]"
    have "group_loop (int g) sep (int i - int g) num = group_loop (int g) sep (int (i - g) - int g) ?n"
      using False assms(1) by (subst group_loop.simps) (simp add: nat_diff_distrib')
    also have "\<dots> = Some (join [sep] (group_right g (take (i - g) ?n)) @ drop (i - g) ?n)"
      using False less.prems assms(1) by (intro less.IH) (auto simp: length_js_splice)
    also have "take (i - g) ?n = take (i - g) num" using less.prems by (simp add: js_splice_def)
    also have "drop (i - g) ?n = sep # drop (i - g) num" using less.prems by (simp add: js_splice_def)
    also have "drop (i - g) num = drop (i - g) (take i num) @ drop i num"
      using less.prems False by (metis append_take_drop_id diff_le_self drop_append length_take min.absorb2
          diff_is_0_eq drop0)
    also have "join [sep] (group_right g (take (i - g) num)) @ sep # drop (i - g) (take i num) @ drop i num =
        join [sep] (group_right g (take i num)) @ drop i num"
      using False less.prems assms(1)
      by (subst (2) group_right.simps) (simp add: join_snoc min_def)
    finally show ?thesis .
  qed
qed

lemma group_loop_diverges: "group_loop g sep i num = Some r \<Longrightarrow> i \<le> 0 \<or> 0 < g"
  by (erule group_loop.raw_induct [of "\<lambda>g sep i num r. i \<le> 0 \<or> 0 < g", rotated])
    (fastforce split: if_splits)

section \<open>Range maps\<close>

text \<open>
  The keys of the map that contain a colon are ranges \<open>lo:hi\<close>, an empty end being infinite. \<open>get\<close>
  looks the value up by its text first and then in the ranges, the last one first.
\<close>

record 'r range_map =
  rm_map :: "(string \<times> 'r) list"
  rangelist :: "(jsnum \<times> jsnum \<times> 'r) list"

fun split_colon :: "string \<Rightarrow> string list" where
  "split_colon [] = [[]]"
| "split_colon (c # cs) =
     (if c = CHR '':'' then [] # split_colon cs
      else (case split_colon cs of [] \<Rightarrow> [[c]] | w # ws \<Rightarrow> (c # w) # ws))"

definition range_of :: "string \<Rightarrow> (jsnum \<times> jsnum) option" where
  "range_of key =
     (case split_colon key of
        lo # hi # _ \<Rightarrow>
          Some (if lo = [] then NegInf else parseFloat lo, if hi = [] then PosInf else parseFloat hi)
      | _ \<Rightarrow> None)"

fun ranges_of :: "(string \<times> 'r) list \<Rightarrow> (jsnum \<times> jsnum \<times> 'r) list" where
  "ranges_of [] = []"
| "ranges_of ((key, v) # m) =
     (case range_of key of None \<Rightarrow> ranges_of m | Some (lo, hi) \<Rightarrow> (lo, hi, v) # ranges_of m)"

definition new_range_map :: "(string \<times> 'r) list \<Rightarrow> 'r range_map" where
  "new_range_map m = \<lparr>rm_map = m, rangelist = ranges_of m\<rparr>"

definition range_map_get :: "'r range_map \<Rightarrow> string \<Rightarrow> jsnum \<Rightarrow> 'r option" where
  "range_map_get rm name value =
     (case map_of (rm_map rm) name of
        Some r \<Rightarrow> Some r
      | None \<Rightarrow>
          map_option (\<lambda>(lo, hi, r). r) (find (\<lambda>(lo, hi, r). lo \<le> value \<and> hi \<ge> value) (rev (rangelist rm))))"

lemma split_colon_ne [simp]: "split_colon s \<noteq> []"
  by (induction s) (auto split: list.splits)

lemma split_colon_join: "join [CHR '':''] (split_colon s) = s"
proof (induction s)
  case (Cons c s)
  obtain w ws where w: "split_colon s = w # ws" by (cases "split_colon s") auto
  then show ?case using Cons by (cases ws) auto
qed simp

lemma split_colon_parts: "w \<in> set (split_colon s) \<Longrightarrow> CHR '':'' \<notin> set w"
  by (induction s arbitrary: w) (auto split: if_splits list.splits)

end
