(* ===== verification/Spark_Canvas.thy ===== *)
theory Spark_Canvas
  imports Js_Number
begin

text \<open>
  The virtual canvas of \<open>js/jquery.sparkline.js\<close>: \<open>VShape\<close>, the drawing calls of \<open>VCanvas_base\<close> and
  the shape store of \<open>VCanvas_canvas\<close>. A canvas keeps the shapes by id and the ids in drawing order;
  \<open>render\<close> clears the bitmap and replays the shapes. A shape id in the order without a shape would
  make \<open>render\<close> throw a \<open>TypeError\<close>, which is the value \<open>None\<close> here.

  The bitmap itself is the list of context calls (\<open>ctx_op\<close>). Whether a point lies in a path
  (\<open>isPointInPath\<close> of the browser) is the parameter \<open>inpath\<close>.
\<close>

section \<open>Shapes\<close>

type_synonym colour = "string option"   \<comment> \<open>\<open>None\<close> is \<open>undefined\<close>\<close>

datatype drawing =
    DShape "(jsnum \<times> jsnum) list" colour colour "jsnum option"
  | DCircle jsnum jsnum jsnum colour colour "jsnum option"
  | DPie jsnum jsnum jsnum jsnum jsnum colour colour
  | DRect jsnum jsnum jsnum jsnum colour colour

record vshape =
  sh_id :: nat
  sh_draw :: drawing

datatype ctx_op =
    ClearRect jsnum jsnum | StrokeStyle string | FillStyle string | LineWidth jsnum
  | BeginPath | MoveTo jsnum jsnum | LineTo jsnum jsnum
  | Arc jsnum jsnum jsnum jsnum jsnum | ClosePath | StrokePath | FillPath

record canvas =
  shapes :: "nat \<Rightarrow> vshape option"
  shapeseq :: "nat list"
  lastShapeId :: "nat option"
  interact :: bool
  pixelWidth :: jsnum
  pixelHeight :: jsnum
  currentTargetShapeId :: "nat option"
  target :: "(jsnum \<times> jsnum) option"   \<comment> \<open>\<open>targetX\<close>, \<open>targetY\<close>\<close>
  shapeCount :: nat                     \<comment> \<open>the counter ids come from\<close>
  bitmap :: "ctx_op list"

definition new_canvas :: "jsnum \<Rightarrow> jsnum \<Rightarrow> bool \<Rightarrow> nat \<Rightarrow> canvas" where
  "new_canvas w h intr count =
     \<lparr>shapes = Map.empty, shapeseq = [], lastShapeId = None, interact = intr, pixelWidth = w,
      pixelHeight = h, currentTargetShapeId = None, target = None, shapeCount = count, bitmap = []\<rparr>"

definition genShape :: "drawing \<Rightarrow> canvas \<Rightarrow> vshape \<times> canvas" where
  "genShape d c = (\<lparr>sh_id = shapeCount c, sh_draw = d\<rparr>, c\<lparr>shapeCount := Suc (shapeCount c)\<rparr>)"

text \<open>The drawing calls only build shapes; \<open>drawLine\<close> hands its line width on as the fill colour.\<close>

definition drawShape ::
  "(jsnum \<times> jsnum) list \<Rightarrow> colour \<Rightarrow> colour \<Rightarrow> jsnum option \<Rightarrow> drawing" where
  "drawShape path lineColor fillColor lineWidth = DShape path lineColor fillColor lineWidth"

definition drawLine ::
  "jsnum \<Rightarrow> jsnum \<Rightarrow> jsnum \<Rightarrow> jsnum \<Rightarrow> colour \<Rightarrow> colour \<Rightarrow> drawing" where
  "drawLine x1 y1 x2 y2 lineColor lineWidth =
     drawShape [(x1, y1), (x2, y2)] lineColor lineWidth None"

definition drawCircle ::
  "jsnum \<Rightarrow> jsnum \<Rightarrow> jsnum \<Rightarrow> colour \<Rightarrow> colour \<Rightarrow> jsnum option \<Rightarrow> drawing" where
  "drawCircle x y radius lineColor fillColor lineWidth = DCircle x y radius lineColor fillColor lineWidth"

definition drawPieSlice ::
  "jsnum \<Rightarrow> jsnum \<Rightarrow> jsnum \<Rightarrow> jsnum \<Rightarrow> jsnum \<Rightarrow> colour \<Rightarrow> colour \<Rightarrow> drawing" where
  "drawPieSlice x y radius startAngle endAngle lineColor fillColor =
     DPie x y radius startAngle endAngle lineColor fillColor"

definition drawRect ::
  "jsnum \<Rightarrow> jsnum \<Rightarrow> jsnum \<Rightarrow> jsnum \<Rightarrow> colour \<Rightarrow> colour \<Rightarrow> drawing" where
  "drawRect x y width height lineColor fillColor = DRect x y width height lineColor fillColor"

section \<open>The store\<close>

definition appendShape :: "vshape \<Rightarrow> canvas \<Rightarrow> canvas" where
  "appendShape sh c =
     c\<lparr>shapes := (shapes c)(sh_id sh \<mapsto> sh), shapeseq := shapeseq c @ [sh_id sh],
       lastShapeId := Some (sh_id sh)\<rparr>"

definition replaceWithShape :: "nat \<Rightarrow> vshape \<Rightarrow> canvas \<Rightarrow> canvas" where
  "replaceWithShape shapeid sh c =
     c\<lparr>shapes := ((shapes c)(sh_id sh \<mapsto> sh))(shapeid := None),
       shapeseq := map (\<lambda>i. if i = shapeid then sh_id sh else i) (shapeseq c)\<rparr>"

text \<open>
  \<open>replaceWithShapes\<close> removes the old ids from the end of the order to its start, remembering the
  last (leftmost) place, and inserts the new ids there. \<open>splice(undefined, 0, id)\<close> inserts at 0.
\<close>

fun remove_ids :: "nat list \<Rightarrow> nat \<Rightarrow> nat list \<Rightarrow> nat option \<Rightarrow> nat list \<times> nat option" where
  "remove_ids ids 0 seq first = (seq, first)"
| "remove_ids ids (Suc i) seq first =
     (if i < length seq \<and> seq ! i \<in> set ids
      then remove_ids ids i (js_splice seq i 1 []) (Some i)
      else remove_ids ids i seq first)"

fun insert_ids :: "nat \<Rightarrow> nat list \<Rightarrow> nat list \<Rightarrow> nat list" where
  "insert_ids first [] seq = seq"
| "insert_ids first (i # is) seq = js_splice (insert_ids first is seq) first 0 [i]"

definition replaceWithShapes :: "nat list \<Rightarrow> vshape list \<Rightarrow> canvas \<Rightarrow> canvas" where
  "replaceWithShapes shapeids shs c =
     (let (seq, first) = remove_ids shapeids (length (shapeseq c)) (shapeseq c) None;
          place = (case first of None \<Rightarrow> 0 | Some i \<Rightarrow> i);
          removed = set shapeids \<inter> set (shapeseq c)
      in c\<lparr>shapes := foldr (\<lambda>sh m. m(sh_id sh \<mapsto> sh)) shs (\<lambda>i. if i \<in> removed then None else shapes c i),
           shapeseq := insert_ids place (map sh_id shs) seq\<rparr>)"

text \<open>The last place of an id, as the loops that run from the end find it.\<close>

fun last_index :: "nat \<Rightarrow> nat list \<Rightarrow> nat \<Rightarrow> nat option" where
  "last_index x xs 0 = None"
| "last_index x xs (Suc i) = (if i < length xs \<and> xs ! i = x then Some i else last_index x xs i)"

definition insertAfterShape :: "nat option \<Rightarrow> vshape \<Rightarrow> canvas \<Rightarrow> canvas" where
  "insertAfterShape shapeid sh c =
     (case shapeid of
        None \<Rightarrow> c
      | Some sid \<Rightarrow>
          (case last_index sid (shapeseq c) (length (shapeseq c)) of
             None \<Rightarrow> c
           | Some i \<Rightarrow> c\<lparr>shapeseq := js_splice (shapeseq c) (i + 1) 0 [sh_id sh],
                         shapes := (shapes c)(sh_id sh \<mapsto> sh)\<rparr>))"

definition removeShapeId :: "nat \<Rightarrow> canvas \<Rightarrow> canvas" where
  "removeShapeId shapeid c =
     c\<lparr>shapeseq := (case last_index shapeid (shapeseq c) (length (shapeseq c)) of
                      None \<Rightarrow> shapeseq c
                    | Some i \<Rightarrow> js_splice (shapeseq c) i 1 []),
       shapes := (shapes c)(shapeid := None)\<rparr>"

definition reset :: "canvas \<Rightarrow> canvas" where
  "reset c =
     c\<lparr>bitmap := [ClearRect (pixelWidth c) (pixelHeight c)], shapes := Map.empty, shapeseq := [],
       currentTargetShapeId := None\<rparr>"

section \<open>Rendering\<close>

definition getContext :: "colour \<Rightarrow> colour \<Rightarrow> jsnum option \<Rightarrow> ctx_op list" where
  "getContext lineColor fillColor lineWidth =
     (case lineColor of None \<Rightarrow> [] | Some k \<Rightarrow> [StrokeStyle k]) @
     [LineWidth (case lineWidth of None \<Rightarrow> Fin 1 | Some w \<Rightarrow> w)] @
     (case fillColor of None \<Rightarrow> [] | Some k \<Rightarrow> [FillStyle k])"

definition stroke_fill :: "colour \<Rightarrow> colour \<Rightarrow> ctx_op list" where
  "stroke_fill lineColor fillColor =
     (if lineColor \<noteq> None then [StrokePath] else []) @ (if fillColor \<noteq> None then [FillPath] else [])"

fun drawShape_ops :: "(jsnum \<times> jsnum) list \<Rightarrow> colour \<Rightarrow> colour \<Rightarrow> jsnum option \<Rightarrow> ctx_op list option" where
  "drawShape_ops [] lineColor fillColor lineWidth = None"
| "drawShape_ops ((x, y) # path) lineColor fillColor lineWidth =
     Some (getContext lineColor fillColor lineWidth @
       [BeginPath, MoveTo (x + Fin (1/2)) (y + Fin (1/2))] @
       map (\<lambda>(u, v). LineTo (u + Fin (1/2)) (v + Fin (1/2))) path @
       stroke_fill lineColor fillColor)"

text \<open>\<open>Math.PI\<close>, the double nearest to \<open>\<pi>\<close>.\<close>

definition math_PI :: rat where "math_PI = 884279719003555 / 281474976710656"

fun draw_ops :: "drawing \<Rightarrow> ctx_op list option" where
  "draw_ops (DShape path lc fc lw) = drawShape_ops path lc fc lw"
| "draw_ops (DCircle x y r lc fc lw) =
     Some (getContext lc fc lw @ [BeginPath, Arc x y r (Fin 0) (Fin (2 * math_PI))] @ stroke_fill lc fc)"
| "draw_ops (DPie x y r a b lc fc) =
     Some (getContext lc fc None @ [BeginPath, MoveTo x y, Arc x y r a b, LineTo x y, ClosePath] @
       (if lc \<noteq> None then [StrokePath] else []) @
       (if fc \<noteq> None \<and> fc \<noteq> Some [] then [FillPath] else []))"
| "draw_ops (DRect x y w h lc fc) =
     drawShape_ops [(x, y), (x + w, y), (x + w, y + h), (x, y + h), (x, y)] lc fc None"

definition hits :: "(drawing \<Rightarrow> jsnum \<Rightarrow> jsnum \<Rightarrow> bool) \<Rightarrow> canvas \<Rightarrow> drawing \<Rightarrow> bool" where
  "hits inpath c d = (case target c of None \<Rightarrow> False | Some (x, y) \<Rightarrow> inpath d x y)"

fun render_seq ::
  "(drawing \<Rightarrow> jsnum \<Rightarrow> jsnum \<Rightarrow> bool) \<Rightarrow> nat list \<Rightarrow> canvas \<Rightarrow> canvas option" where
  "render_seq inpath [] c = Some c"
| "render_seq inpath (i # is) c =
     (case shapes c i of
        None \<Rightarrow> None
      | Some sh \<Rightarrow>
          (case draw_ops (sh_draw sh) of
             None \<Rightarrow> None
           | Some ops \<Rightarrow>
               render_seq inpath is
                 (c\<lparr>bitmap := bitmap c @ ops,
                    currentTargetShapeId :=
                      (if hits inpath c (sh_draw sh) then Some (sh_id sh)
                       else currentTargetShapeId c)\<rparr>)))"

definition render :: "(drawing \<Rightarrow> jsnum \<Rightarrow> jsnum \<Rightarrow> bool) \<Rightarrow> canvas \<Rightarrow> canvas option" where
  "render inpath c =
     (case render_seq inpath (shapeseq c) (c\<lparr>bitmap := [ClearRect (pixelWidth c) (pixelHeight c)]\<rparr>) of
        None \<Rightarrow> None
      | Some c' \<Rightarrow> Some (if interact c' then c' else c'\<lparr>shapes := Map.empty, shapeseq := []\<rparr>))"

definition getShapeAt ::
  "(drawing \<Rightarrow> jsnum \<Rightarrow> jsnum \<Rightarrow> bool) \<Rightarrow> jsnum \<Rightarrow> jsnum \<Rightarrow> canvas \<Rightarrow> (nat option \<times> canvas) option" where
  "getShapeAt inpath x y c =
     (case render inpath (c\<lparr>target := Some (x, y)\<rparr>) of
        None \<Rightarrow> None
      | Some c' \<Rightarrow> Some (currentTargetShapeId c', c'))"

section \<open>Ids and layers\<close>

text \<open>
  The layers of a canvas are the drawings in drawing order, each under its id: what the next
  \<open>render\<close> paints. \<open>canvas_wf\<close> is the invariant of the store: the order has no id twice, every id in
  it has its shape, and the shape can be drawn.
\<close>

definition drawable :: "drawing \<Rightarrow> bool" where
  "drawable d \<longleftrightarrow> draw_ops d \<noteq> None"

definition layer :: "vshape \<Rightarrow> nat \<times> drawing" where
  "layer sh = (sh_id sh, sh_draw sh)"

definition layers :: "canvas \<Rightarrow> (nat \<times> drawing) list" where
  "layers c = map (\<lambda>i. (i, sh_draw (the (shapes c i)))) (shapeseq c)"

definition canvas_wf :: "canvas \<Rightarrow> bool" where
  "canvas_wf c \<longleftrightarrow>
     distinct (shapeseq c) \<and>
     (\<forall>i \<in> set (shapeseq c). i < shapeCount c \<and>
        (case shapes c i of None \<Rightarrow> False | Some sh \<Rightarrow> sh_id sh = i \<and> drawable (sh_draw sh)))"

definition fresh_id :: "nat \<Rightarrow> canvas \<Rightarrow> bool" where
  "fresh_id i c \<longleftrightarrow> i < shapeCount c \<and> i \<notin> set (shapeseq c)"

lemma canvas_wfD:
  "canvas_wf c \<Longrightarrow> i \<in> set (shapeseq c) \<Longrightarrow>
   \<exists>d. shapes c i = Some \<lparr>sh_id = i, sh_draw = d\<rparr> \<and> drawable d \<and> i < shapeCount c"
  unfolding canvas_wf_def
  by (cases "shapes c i") (auto intro!: exI [of _ "sh_draw (the (shapes c i))"])

lemma canvas_wfI:
  "distinct (shapeseq c) \<Longrightarrow>
   (\<And>i. i \<in> set (shapeseq c) \<Longrightarrow>
      i < shapeCount c \<and> (\<exists>sh. shapes c i = Some sh \<and> sh_id sh = i \<and> drawable (sh_draw sh))) \<Longrightarrow>
   canvas_wf c"
  unfolding canvas_wf_def by fastforce

lemma fst_layers [simp]: "map fst (layers c) = shapeseq c"
  by (simp add: layers_def o_def)

lemma layers_cong:
  "shapeseq c' = shapeseq c \<Longrightarrow> shapes c' = shapes c \<Longrightarrow> layers c' = layers c"
  by (simp add: layers_def)

lemma canvas_wf_new [simp]: "canvas_wf (new_canvas w h b n)"
  and layers_new [simp]: "layers (new_canvas w h b n) = []"
  by (simp_all add: canvas_wf_def new_canvas_def layers_def)

lemma genShape_spec:
  assumes "genShape d c = (sh, c')"
  shows "sh_draw sh = d" "layers c' = layers c" "shapeseq c' = shapeseq c" "shapes c' = shapes c"
    "canvas_wf c \<Longrightarrow> canvas_wf c'" "canvas_wf c \<Longrightarrow> fresh_id (sh_id sh) c'"
    "fresh_id i c \<Longrightarrow> fresh_id i c'" "fresh_id i c \<Longrightarrow> i \<noteq> sh_id sh"
    "interact c' = interact c" "sh_id sh = shapeCount c" "shapeCount c' = Suc (shapeCount c)"
  using assms
  by (auto simp: genShape_def layers_def canvas_wf_def fresh_id_def less_Suc_eq)

lemma canvas_wf_counter: "canvas_wf c \<Longrightarrow> shapeCount c \<le> n \<Longrightarrow> canvas_wf (c\<lparr>shapeCount := n\<rparr>)"
  by (auto simp: canvas_wf_def)

section \<open>Every operation on the layers\<close>

lemma appendShape_spec:
  assumes "canvas_wf c" "fresh_id (sh_id sh) c" "drawable (sh_draw sh)"
  shows "layers (appendShape sh c) = layers c @ [layer sh]" "canvas_wf (appendShape sh c)"
  using assms
  by (auto simp: appendShape_def layers_def layer_def fresh_id_def canvas_wf_def)

lemma replaceWithShape_spec:
  assumes wf: "canvas_wf c" and fr: "fresh_id (sh_id sh) c" and dr: "drawable (sh_draw sh)"
  shows "layers (replaceWithShape i sh c) = map (\<lambda>l. if fst l = i then layer sh else l) (layers c)"
    and "canvas_wf (replaceWithShape i sh c)"
proof -
  have n: "sh_id sh \<notin> set (shapeseq c)" "sh_id sh < shapeCount c" using fr by (auto simp: fresh_id_def)
  show "layers (replaceWithShape i sh c) = map (\<lambda>l. if fst l = i then layer sh else l) (layers c)"
    using n by (auto simp: replaceWithShape_def layers_def layer_def)
  have d: "distinct (map (\<lambda>j. if j = i then sh_id sh else j) (shapeseq c))"
    using wf n(1) by (auto simp: canvas_wf_def distinct_map inj_on_def)
  have e: "\<exists>s. shapes (replaceWithShape i sh c) j = Some s \<and> sh_id s = j \<and> drawable (sh_draw s)"
    "j < shapeCount c"
    if "j \<in> set (map (\<lambda>j. if j = i then sh_id sh else j) (shapeseq c))" for j
    using that n dr canvas_wfD [OF wf, of j] by (auto simp: replaceWithShape_def split: if_splits)
  show "canvas_wf (replaceWithShape i sh c)"
  proof (rule canvas_wfI)
    fix j assume "j \<in> set (shapeseq (replaceWithShape i sh c))"
    then have j: "j \<in> set (map (\<lambda>j. if j = i then sh_id sh else j) (shapeseq c))"
      by (simp add: replaceWithShape_def)
    show "j < shapeCount (replaceWithShape i sh c) \<and>
      (\<exists>s. shapes (replaceWithShape i sh c) j = Some s \<and> sh_id s = j \<and> drawable (sh_draw s))"
      using e [OF j] by (simp add: replaceWithShape_def)
  qed (use d in \<open>simp add: replaceWithShape_def\<close>)
qed

lemma remove_ids_filter:
  "k \<le> length seq \<Longrightarrow>
   fst (remove_ids ids k seq first) = filter (\<lambda>i. i \<notin> set ids) (take k seq) @ drop k seq"
proof (induction k arbitrary: seq first)
  case (Suc k)
  then have k: "k < length seq" by simp
  have t: "take (Suc k) seq = take k seq @ [seq ! k]" by (rule take_Suc_conv_app_nth [OF k])
  show ?case
  proof (cases "seq ! k \<in> set ids")
    case True
    let ?s = "js_splice seq k 1 []"
    have "take k ?s = take k seq" "drop k ?s = drop (Suc k) seq" "k \<le> length ?s"
      using k by (simp_all add: js_splice_def)
    then show ?thesis using Suc.IH [of ?s "Some k"] True k t by simp
  next
    case False
    have "drop k seq = seq ! k # drop (Suc k) seq" using k by (simp add: Cons_nth_drop_Suc)
    then show ?thesis using Suc.IH [of seq first] False k t by simp
  qed
qed simp

lemma remove_ids_place:
  "k \<le> length seq \<Longrightarrow>
   snd (remove_ids ids k seq first) =
     (if set (take k seq) \<inter> set ids = {} then first
      else Some (length (takeWhile (\<lambda>i. i \<notin> set ids) (take k seq))))"
proof (induction k arbitrary: seq first)
  case (Suc k)
  then have k: "k < length seq" by simp
  have t: "take (Suc k) seq = take k seq @ [seq ! k]" by (rule take_Suc_conv_app_nth [OF k])
  have len: "length (take k seq) = k" using k by simp
  show ?case
  proof (cases "seq ! k \<in> set ids")
    case True
    let ?s = "js_splice seq k 1 []"
    have "take k ?s = take k seq" "k \<le> length ?s" using k by (simp_all add: js_splice_def)
    moreover have "length (takeWhile (\<lambda>i. i \<notin> set ids) (take k seq)) = k"
      if "set (take k seq) \<inter> set ids = {}"
      using that len by (subst takeWhile_eq_all_conv [THEN iffD2]) auto
    moreover have "takeWhile (\<lambda>i. i \<notin> set ids) (take k seq @ [seq ! k]) =
        takeWhile (\<lambda>i. i \<notin> set ids) (take k seq)" if "set (take k seq) \<inter> set ids \<noteq> {}"
      using that by (auto intro: takeWhile_append1)
    moreover have "takeWhile (\<lambda>i. i \<notin> set ids) (take k seq @ [seq ! k]) = take k seq"
      if "set (take k seq) \<inter> set ids = {}"
      using that True by (subst takeWhile_append2) auto
    ultimately show ?thesis using Suc.IH [of ?s "Some k"] True k t len by (auto simp: min_def)
  next
    case False
    moreover have "takeWhile (\<lambda>i. i \<notin> set ids) (take k seq @ [seq ! k]) =
        takeWhile (\<lambda>i. i \<notin> set ids) (take k seq)" if "set (take k seq) \<inter> set ids \<noteq> {}"
      using that by (auto intro: takeWhile_append1)
    ultimately show ?thesis using Suc.IH [of seq first] k t by auto
  qed
qed simp

lemma insert_ids_eq:
  "n \<le> length seq \<Longrightarrow> insert_ids n is seq = take n seq @ is @ drop n seq"
  by (induction "is") (simp_all add: js_splice_def)

lemma foldr_shapes:
  "distinct (map sh_id shs) \<Longrightarrow>
   foldr (\<lambda>sh m. m(sh_id sh \<mapsto> sh)) shs m i = (case map_of (map (\<lambda>s. (sh_id s, s)) shs) i of
      None \<Rightarrow> m i | Some s \<Rightarrow> Some s)"
  by (induction shs) auto

lemma replaceWithShapes_seq:
  assumes seq: "shapeseq c = A @ B @ C" and B: "B \<noteq> []" "set ids = set B"
    and d: "distinct (shapeseq c)"
  shows "shapeseq (replaceWithShapes ids shs c) = A @ map sh_id shs @ C"
proof -
  let ?n = "length (shapeseq c)"
  have dj: "set A \<inter> set ids = {}" "set C \<inter> set ids = {}" using d B(2) unfolding seq by auto
  have "filter (\<lambda>i. i \<notin> set ids) (A @ B @ C) = A @ C"
    using dj B(2) by (simp add: filter_empty_conv) (auto intro!: arg_cong2 [of _ _ _ _ "(@)"] filter_True)
  then have f: "fst (remove_ids ids ?n (shapeseq c) None) = A @ C"
    using remove_ids_filter [of ?n "shapeseq c" ids None] seq by simp
  have "takeWhile (\<lambda>i. i \<notin> set ids) (A @ B @ C) = A"
    using B dj(1) by (subst takeWhile_append2) (auto simp: neq_Nil_conv)
  moreover have "set (A @ B @ C) \<inter> set ids \<noteq> {}" using B by (cases B) auto
  ultimately have s: "snd (remove_ids ids ?n (shapeseq c) None) = Some (length A)"
    using remove_ids_place [of ?n "shapeseq c" ids None] seq by simp
  have p: "remove_ids ids ?n (shapeseq c) None = (A @ C, Some (length A))"
    using f s by (metis prod.collapse)
  show ?thesis unfolding replaceWithShapes_def p by (simp add: insert_ids_eq)
qed

lemma replaceWithShapes_shapes:
  "distinct (map sh_id shs) \<Longrightarrow>
   shapes (replaceWithShapes ids shs c) i =
     (case map_of (map (\<lambda>s. (sh_id s, s)) shs) i of
        None \<Rightarrow> (if i \<in> set ids \<inter> set (shapeseq c) then None else shapes c i)
      | Some s \<Rightarrow> Some s)"
  unfolding replaceWithShapes_def Let_def by (auto simp: foldr_shapes split: prod.splits option.splits)

lemma replaceWithShapes_spec:
  assumes wf: "canvas_wf c" and lay: "layers c = A @ B @ C" and B: "B \<noteq> []" "set ids = fst ` set B"
    and new: "distinct (map sh_id shs)"
      "\<And>sh. sh \<in> set shs \<Longrightarrow> fresh_id (sh_id sh) c \<and> drawable (sh_draw sh)"
  shows "layers (replaceWithShapes ids shs c) = A @ map layer shs @ C"
    and "canvas_wf (replaceWithShapes ids shs c)"
proof -
  let ?c = "replaceWithShapes ids shs c"
  have seq: "shapeseq c = map fst A @ map fst B @ map fst C"
    unfolding fst_layers [of c, symmetric] lay by simp
  have d: "distinct (shapeseq c)" using wf by (simp add: canvas_wf_def)
  have s: "shapeseq ?c = map fst A @ map sh_id shs @ map fst C"
    by (rule replaceWithShapes_seq [OF seq _ _ d]) (use B in auto)
  have m: "map_of (map (\<lambda>s. (sh_id s, s)) shs) i = None" if "i \<in> set (shapeseq c)" for i
    using that new(2) by (auto simp: map_of_eq_None_iff fresh_id_def)
  have new': "map_of (map (\<lambda>s. (sh_id s, s)) shs) (sh_id sh) = Some sh" if "sh \<in> set shs" for sh
    using that new(1) by (intro map_of_is_SomeI) (auto simp: o_def)
  have old: "shapes ?c i = shapes c i" if "i \<in> fst ` set A \<union> fst ` set C" for i
  proof -
    have "i \<in> set (shapeseq c)" using that unfolding seq by auto
    moreover have "i \<notin> set ids"
    proof -
      have "fst ` set A \<inter> fst ` set B = {}" "fst ` set C \<inter> fst ` set B = {}"
        using d unfolding seq by auto
      then show ?thesis using that unfolding B(2) by blast
    qed
    ultimately show ?thesis using m by (simp add: replaceWithShapes_shapes [OF new(1)])
  qed
  have hit: "shapes ?c (sh_id sh) = Some sh" if "sh \<in> set shs" for sh
    using new' [OF that] by (simp add: replaceWithShapes_shapes [OF new(1)])
  have lay_of: "l = (fst l, sh_draw (the (shapes c (fst l))))" if "l \<in> set A \<union> set C" for l
  proof -
    have "l \<in> set (layers c)" using that lay by auto
    then show ?thesis by (auto simp: layers_def)
  qed
  let ?f = "\<lambda>i. (i, sh_draw (the (shapes ?c i)))"
  have keep: "map (\<lambda>l. ?f (fst l)) xs = xs" if "set xs \<subseteq> set A \<union> set C" for xs
    using that lay_of old by (intro map_idI) (force simp: subset_iff)
  have "map (\<lambda>sh. ?f (sh_id sh)) shs = map layer shs" using hit by (simp add: layer_def)
  then show "layers ?c = A @ map layer shs @ C"
    unfolding layers_def s using keep [of A] keep [of C] by (simp add: o_def)
  show "canvas_wf ?c"
  proof (rule canvas_wfI)
    have "set (map sh_id shs) \<inter> set (shapeseq c) = {}" using new(2) by (auto simp: fresh_id_def)
    then show "distinct (shapeseq ?c)" using d new(1) unfolding s seq by auto
    fix i assume i: "i \<in> set (shapeseq ?c)"
    have cnt: "shapeCount ?c = shapeCount c" by (simp add: replaceWithShapes_def split: prod.splits)
    show "i < shapeCount ?c \<and> (\<exists>sh. shapes ?c i = Some sh \<and> sh_id sh = i \<and> drawable (sh_draw sh))"
    proof (cases "i \<in> set (map sh_id shs)")
      case True
      then show ?thesis using hit new(2) by (auto simp: cnt fresh_id_def)
    next
      case False
      then have j: "i \<in> fst ` set A \<union> fst ` set C" using i by (auto simp: s)
      then have "i \<in> set (shapeseq c)" by (auto simp: seq)
      then show ?thesis using canvas_wfD [OF wf, of i] old [OF j] by (auto simp: cnt)
    qed
  qed
qed

end
