(* ===== verification/Spark_Store.thy ===== *)
theory Spark_Store
  imports Spark_Canvas
begin

text \<open>
  What the charts rely on. \<open>render\<close> paints exactly the layers; the locale \<open>shape_store\<close> is the contract
  of a canvas (a new shape has an unused id; appending and replacing act on the layers as their names
  say), interpreted on the \<open>VCanvas_canvas\<close> model. The canvas as a whole is an event machine: whatever
  sequence of calls a page makes, \<open>render\<close> never throws.
\<close>

section \<open>Rendering paints the layers\<close>

definition ops_of :: "(nat \<times> drawing) list \<Rightarrow> ctx_op list" where
  "ops_of ls = concat (map (\<lambda>l. the (draw_ops (snd l))) ls)"

text \<open>The last layer (the topmost one) whose path contains the point.\<close>

definition topmost ::
  "(drawing \<Rightarrow> jsnum \<Rightarrow> jsnum \<Rightarrow> bool) \<Rightarrow> jsnum \<Rightarrow> jsnum \<Rightarrow> (nat \<times> drawing) list \<Rightarrow> nat option" where
  "topmost inpath x y ls = map_option fst (find (\<lambda>l. inpath (snd l) x y) (rev ls))"

definition hit_layer ::
  "(drawing \<Rightarrow> jsnum \<Rightarrow> jsnum \<Rightarrow> bool) \<Rightarrow> canvas \<Rightarrow> (nat \<times> drawing) list \<Rightarrow> nat option" where
  "hit_layer inpath c ls = (case target c of None \<Rightarrow> None | Some (x, y) \<Rightarrow> topmost inpath x y ls)"

lemma topmost_Cons:
  "topmost inpath x y (l # ls) =
     (case topmost inpath x y ls of Some i \<Rightarrow> Some i
      | None \<Rightarrow> if inpath (snd l) x y then Some (fst l) else None)"
  by (auto simp: topmost_def find_append split: option.splits)

lemma hit_layer_Cons:
  "hit_layer inpath c (l # ls) =
     (case hit_layer inpath c ls of Some i \<Rightarrow> Some i
      | None \<Rightarrow> if hits inpath c (snd l) then Some (fst l) else None)"
  by (auto simp: hit_layer_def topmost_Cons hits_def split: option.splits)

lemma render_seq_spec:
  "\<forall>i \<in> set is. \<exists>d. shapes c i = Some \<lparr>sh_id = i, sh_draw = d\<rparr> \<and> drawable d \<Longrightarrow>
   render_seq inpath is c =
     Some (c\<lparr>bitmap := bitmap c @ ops_of (map (\<lambda>i. (i, sh_draw (the (shapes c i)))) is),
             currentTargetShapeId :=
               (case hit_layer inpath c (map (\<lambda>i. (i, sh_draw (the (shapes c i)))) is) of
                  None \<Rightarrow> currentTargetShapeId c | Some i \<Rightarrow> Some i)\<rparr>)"
proof (induction "is" arbitrary: c)
  case Nil
  then show ?case by (simp add: ops_of_def hit_layer_def topmost_def split: option.splits)
next
  case (Cons i "is")
  then obtain d ops where d: "shapes c i = Some \<lparr>sh_id = i, sh_draw = d\<rparr>" "draw_ops d = Some ops"
    by (auto simp: drawable_def)
  let ?c = "c\<lparr>bitmap := bitmap c @ ops,
              currentTargetShapeId := (if hits inpath c d then Some i else currentTargetShapeId c)\<rparr>"
  have "render_seq inpath is ?c = Some (?c\<lparr>bitmap := bitmap ?c @
      ops_of (map (\<lambda>i. (i, sh_draw (the (shapes ?c i)))) is),
      currentTargetShapeId := (case hit_layer inpath ?c (map (\<lambda>i. (i, sh_draw (the (shapes ?c i)))) is) of
         None \<Rightarrow> currentTargetShapeId ?c | Some i \<Rightarrow> Some i)\<rparr>)"
    by (rule Cons.IH) (use Cons.prems in simp)
  moreover have "hit_layer inpath ?c ls = hit_layer inpath c ls" for ls by (simp add: hit_layer_def)
  ultimately show ?case
    using d by (cases "hits inpath c d") (auto simp: ops_of_def hit_layer_Cons split: option.splits)
qed

definition painted :: "canvas \<Rightarrow> ctx_op list" where
  "painted c = ClearRect (pixelWidth c) (pixelHeight c) # ops_of (layers c)"

definition target_after :: "(drawing \<Rightarrow> jsnum \<Rightarrow> jsnum \<Rightarrow> bool) \<Rightarrow> canvas \<Rightarrow> nat option" where
  "target_after inpath c =
     (case hit_layer inpath c (layers c) of None \<Rightarrow> currentTargetShapeId c | Some i \<Rightarrow> Some i)"

lemma render_eq:
  assumes "canvas_wf c"
  shows "render inpath c =
    (let c' = c\<lparr>bitmap := painted c, currentTargetShapeId := target_after inpath c\<rparr>
     in Some (if interact c then c' else c'\<lparr>shapes := Map.empty, shapeseq := []\<rparr>))"
proof -
  let ?c = "c\<lparr>bitmap := [ClearRect (pixelWidth c) (pixelHeight c)]\<rparr>"
  have "\<forall>i \<in> set (shapeseq c). \<exists>d. shapes ?c i = Some \<lparr>sh_id = i, sh_draw = d\<rparr> \<and> drawable d"
    using canvas_wfD [OF assms] by auto
  from render_seq_spec [OF this, of inpath] show ?thesis
    unfolding render_def by (simp add: Let_def painted_def target_after_def layers_def hit_layer_def split: option.split)
qed

lemma canvas_wf_cong:
  "shapeseq c' = shapeseq c \<Longrightarrow> shapes c' = shapes c \<Longrightarrow> shapeCount c' = shapeCount c \<Longrightarrow>
   canvas_wf c' = canvas_wf c"
  by (simp add: canvas_wf_def)

lemma canvas_wf_empty [simp]: "shapeseq c = [] \<Longrightarrow> canvas_wf c"
  by (simp add: canvas_wf_def)

lemma render_spec:
  assumes "canvas_wf c"
  obtains c' where "render inpath c = Some c'" "bitmap c' = painted c" "canvas_wf c'"
    "currentTargetShapeId c' = target_after inpath c" "shapeCount c' = shapeCount c"
    "interact c' = interact c" "pixelWidth c' = pixelWidth c" "pixelHeight c' = pixelHeight c"
    "interact c \<Longrightarrow> layers c' = layers c" "\<not> interact c \<Longrightarrow> layers c' = []"
proof -
  have "canvas_wf (c\<lparr>bitmap := b, currentTargetShapeId := t\<rparr>)" for b t
    using assms by (simp add: canvas_wf_def)
  then show ?thesis
    using that render_eq [OF assms, of inpath] by (cases "interact c") (simp_all add: Let_def layers_def)
qed

lemma getShapeAt_spec:
  assumes "canvas_wf c"
  obtains c' where
    "getShapeAt inpath x y c =
       Some (case topmost inpath x y (layers c) of None \<Rightarrow> currentTargetShapeId c | Some i \<Rightarrow> Some i, c')"
    "bitmap c' = painted c" "canvas_wf c'" "shapeCount c' = shapeCount c" "interact c' = interact c"
    "currentTargetShapeId c' = (case topmost inpath x y (layers c) of
       None \<Rightarrow> currentTargetShapeId c | Some i \<Rightarrow> Some i)"
    "interact c \<Longrightarrow> layers c' = layers c"
    "pixelWidth c' = pixelWidth c" "pixelHeight c' = pixelHeight c"
proof -
  let ?c = "c\<lparr>target := Some (x, y)\<rparr>"
  have wf: "canvas_wf ?c" using assms by (simp add: canvas_wf_def)
  have l: "layers ?c = layers c" by (simp add: layers_def)
  obtain c' where c': "render inpath ?c = Some c'" "bitmap c' = painted ?c" "canvas_wf c'"
    "currentTargetShapeId c' = target_after inpath ?c" "shapeCount c' = shapeCount ?c"
    "interact c' = interact ?c" "pixelWidth c' = pixelWidth ?c" "pixelHeight c' = pixelHeight ?c"
    "interact ?c \<Longrightarrow> layers c' = layers ?c"
    using render_spec [OF wf, of inpath] by metis
  show ?thesis
    by (rule that [of c'])
      (use c' l in \<open>simp_all add: getShapeAt_def target_after_def hit_layer_def painted_def split: option.split\<close>)
qed

section \<open>The other operations\<close>

lemma last_index_Some:
  "last_index x xs k = Some i \<Longrightarrow> k \<le> length xs \<Longrightarrow> i < k \<and> xs ! i = x"
  by (induction k) (auto split: if_splits)

lemma last_index_None:
  "last_index x xs k = None \<Longrightarrow> k \<le> length xs \<Longrightarrow> x \<notin> set (take k xs)"
  by (induction k) (auto split: if_splits simp: take_Suc_conv_app_nth)

lemma last_index_cases:
  obtains (absent) "last_index x xs (length xs) = None" "x \<notin> set xs"
  | (found) A B where "last_index x xs (length xs) = Some (length A)" "xs = A @ x # B"
proof (cases "last_index x xs (length xs)")
  case None
  then show ?thesis using absent last_index_None [OF None] by simp
next
  case (Some i)
  then have "i < length xs" "xs ! i = x" using last_index_Some [OF Some] by auto
  then have "xs = take i xs @ x # drop (Suc i) xs" using id_take_nth_drop [of i xs] by simp
  moreover have "last_index x xs (length xs) = Some (length (take i xs))"
    using Some \<open>i < length xs\<close> by simp
  ultimately show ?thesis by (rule found [rotated])
qed

lemma removeShapeId_spec:
  assumes "canvas_wf c"
  shows "layers (removeShapeId i c) = filter (\<lambda>l. fst l \<noteq> i) (layers c)" (is ?l)
    and "canvas_wf (removeShapeId i c)" (is ?w)
proof -
  have d: "distinct (shapeseq c)" using assms by (simp add: canvas_wf_def)
  have s: "shapeseq (removeShapeId i c) = filter (\<lambda>j. j \<noteq> i) (shapeseq c)"
  proof (cases i "shapeseq c" rule: last_index_cases)
    case absent
    have "filter (\<lambda>j. j \<noteq> i) (shapeseq c) = shapeseq c" using absent(2) by (auto intro: filter_True)
    then show ?thesis using absent(1) by (simp add: removeShapeId_def)
  next
    case (found A B)
    then have "i \<notin> set A" "i \<notin> set B" using d by auto
    then have "filter (\<lambda>j. j \<noteq> i) A = A" "filter (\<lambda>j. j \<noteq> i) B = B" by (auto intro: filter_True)
    then show ?thesis using found by (simp add: removeShapeId_def js_splice_def)
  qed
  have sh: "shapes (removeShapeId i c) j = shapes c j" if "j \<noteq> i" for j
    using that by (simp add: removeShapeId_def)
  show ?l unfolding layers_def s by (auto simp: filter_map o_def sh)
  have n: "shapeCount (removeShapeId i c) = shapeCount c" by (simp add: removeShapeId_def)
  show ?w
  proof (rule canvas_wfI)
    fix j assume "j \<in> set (shapeseq (removeShapeId i c))"
    then have "j \<in> set (shapeseq c)" "j \<noteq> i" by (auto simp: s)
    then show "j < shapeCount (removeShapeId i c) \<and>
        (\<exists>sh. shapes (removeShapeId i c) j = Some sh \<and> sh_id sh = j \<and> drawable (sh_draw sh))"
      using canvas_wfD [OF assms, of j] by (auto simp: n sh)
  qed (use d in \<open>simp add: s\<close>)
qed

lemma insertAfterShape_spec:
  assumes wf: "canvas_wf c" and fr: "fresh_id (sh_id sh) c" and dr: "drawable (sh_draw sh)"
  shows "canvas_wf (insertAfterShape t sh c)" (is ?w)
    and "t = Some i \<Longrightarrow> layers c = A @ l # B \<Longrightarrow> fst l = i \<Longrightarrow>
      layers (insertAfterShape t sh c) = A @ l # layer sh # B"
    and "\<forall>i. t = Some i \<longrightarrow> i \<notin> set (shapeseq c) \<Longrightarrow> insertAfterShape t sh c = c"
proof -
  have d: "distinct (shapeseq c)" using wf by (simp add: canvas_wf_def)
  have n: "sh_id sh \<notin> set (shapeseq c)" "sh_id sh < shapeCount c" using fr by (auto simp: fresh_id_def)
  have at: "insertAfterShape (Some i) sh c = c\<lparr>shapeseq := X @ i # sh_id sh # Y,
      shapes := (shapes c)(sh_id sh \<mapsto> sh)\<rparr>" if xy: "shapeseq c = X @ i # Y" for i X Y
  proof (cases i "shapeseq c" rule: last_index_cases)
    case absent
    then show ?thesis using xy by simp
  next
    case (found A B)
    have nXY: "i \<notin> set X" "i \<notin> set Y" using d by (simp_all add: xy)
    have "X = A \<and> Y = B"
      using found(2) xy append_Cons_eq_iff [OF nXY, of A B] by simp
    then show ?thesis using found xy by (simp add: insertAfterShape_def js_splice_def)
  qed
  show none: "insertAfterShape t sh c = c" if "\<forall>i. t = Some i \<longrightarrow> i \<notin> set (shapeseq c)"
  proof (cases t)
    case (Some i)
    show ?thesis
    proof (cases i "shapeseq c" rule: last_index_cases)
      case absent
      then show ?thesis using Some by (simp add: insertAfterShape_def)
    next
      case (found A B)
      then show ?thesis using that Some by simp
    qed
  qed (simp add: insertAfterShape_def)
  show "layers (insertAfterShape t sh c) = A @ l # layer sh # B"
    if "t = Some i" "layers c = A @ l # B" "fst l = i"
  proof -
    have "shapeseq c = map fst A @ i # map fst B"
      unfolding fst_layers [of c, symmetric] that(2) using that(3) by simp
    note a = at [OF this]
    let ?g = "\<lambda>j. (j, sh_draw (the (((shapes c)(sh_id sh \<mapsto> sh)) j)))"
    have keep: "map (\<lambda>x. ?g (fst x)) xs = xs" if "set xs \<subseteq> set (layers c)" for xs
    proof (rule map_idI)
      fix x assume "x \<in> set xs"
      then have x: "x \<in> set (layers c)" using \<open>set xs \<subseteq> set (layers c)\<close> by blast
      then have "fst x \<in> set (shapeseq c)" by (auto simp: layers_def)
      then show "?g (fst x) = x" using x n(1) by (auto simp: layers_def)
    qed
    have "set A \<subseteq> set (layers c)" "set B \<subseteq> set (layers c)" "set [l] \<subseteq> set (layers c)"
      using that(2) by auto
    then have "map (\<lambda>x. ?g (fst x)) A = A" "map (\<lambda>x. ?g (fst x)) B = B" "?g i = l"
      using keep [of A] keep [of B] keep [of "[l]"] that(3) by (simp_all del: fun_upd_apply)
    then show ?thesis
      unfolding that(1) a layers_def using that(3)
      by (simp add: o_def layer_def del: fun_upd_apply add: fun_upd_same)
  qed
  show ?w
  proof (cases "\<forall>i. t = Some i \<longrightarrow> i \<notin> set (shapeseq c)")
    case True
    then show ?thesis using none wf by simp
  next
    case False
    then obtain i X Y where i: "t = Some i" "shapeseq c = X @ i # Y" by (auto dest: split_list)
    have old: "\<exists>s. shapes c j = Some s \<and> sh_id s = j \<and> drawable (sh_draw s)" "j < shapeCount c"
      if "j \<in> set (X @ i # Y)" for j
      using canvas_wfD [OF wf, of j] that i(2) by auto
    show ?thesis
      unfolding i(1) at [OF i(2)]
      using n dr d i(2) old by (intro canvas_wfI) auto
  qed
qed

lemma reset_spec: "layers (reset c) = []" "canvas_wf (reset c)"
  by (simp_all add: reset_def layers_def)

lemma length_takeWhile_filter: "length (takeWhile Q xs) \<le> length (filter Q xs)"
  by (induction xs) auto

lemma replaceWithShapes_order:
  "\<exists>k \<le> length (filter (\<lambda>i. i \<notin> set ids) (shapeseq c)).
     shapeseq (replaceWithShapes ids shs c) =
       take k (filter (\<lambda>i. i \<notin> set ids) (shapeseq c)) @ map sh_id shs @
       drop k (filter (\<lambda>i. i \<notin> set ids) (shapeseq c))"
proof -
  let ?n = "length (shapeseq c)" and ?F = "filter (\<lambda>i. i \<notin> set ids) (shapeseq c)"
  obtain sq first where r: "remove_ids ids ?n (shapeseq c) None = (sq, first)" by force
  have sq: "sq = ?F" using remove_ids_filter [of ?n "shapeseq c" ids None] r by simp
  have p: "first = (if set (shapeseq c) \<inter> set ids = {} then None
      else Some (length (takeWhile (\<lambda>i. i \<notin> set ids) (shapeseq c))))"
    using remove_ids_place [of ?n "shapeseq c" ids None] r by simp
  let ?k = "case first of None \<Rightarrow> 0 | Some i \<Rightarrow> i"
  have k: "?k \<le> length ?F" using length_takeWhile_filter by (auto simp: p)
  show ?thesis
    by (rule exI [of _ ?k]) (use k r sq in \<open>simp add: replaceWithShapes_def insert_ids_eq\<close>)
qed

lemma replaceWithShapes_wf:
  assumes wf: "canvas_wf c" and new: "distinct (map sh_id shs)"
    "\<And>sh. sh \<in> set shs \<Longrightarrow> fresh_id (sh_id sh) c \<and> drawable (sh_draw sh)"
  shows "canvas_wf (replaceWithShapes ids shs c)"
proof -
  let ?c = "replaceWithShapes ids shs c" and ?F = "filter (\<lambda>i. i \<notin> set ids) (shapeseq c)"
  obtain X Y where F: "?F = X @ Y" and s: "shapeseq ?c = X @ map sh_id shs @ Y"
    using replaceWithShapes_order [of ids c shs] by (metis append_take_drop_id)
  have "distinct ?F" using wf by (simp add: canvas_wf_def)
  then have dXY: "distinct (X @ Y)" unfolding F .
  have cnt: "shapeCount ?c = shapeCount c" by (simp add: replaceWithShapes_def split: prod.splits)
  have m: "map_of (map (\<lambda>s. (sh_id s, s)) shs) i = None" if "i \<in> set (shapeseq c)" for i
    using that new(2) by (auto simp: map_of_eq_None_iff fresh_id_def)
  have hit: "shapes ?c (sh_id sh) = Some sh" if "sh \<in> set shs" for sh
  proof -
    have "map_of (map (\<lambda>s. (sh_id s, s)) shs) (sh_id sh) = Some sh"
      using that new(1) by (intro map_of_is_SomeI) (auto simp: o_def)
    then show ?thesis by (simp add: replaceWithShapes_shapes [OF new(1)])
  qed
  show ?thesis
  proof (rule canvas_wfI)
    have "set (map sh_id shs) \<inter> set ?F = {}" using new(2) by (auto simp: fresh_id_def)
    then show "distinct (shapeseq ?c)" using dXY new(1) unfolding s F by auto
    fix i assume "i \<in> set (shapeseq ?c)"
    then consider sh where "sh \<in> set shs" "i = sh_id sh" | "i \<in> set ?F"
      unfolding s F by auto
    then show "i < shapeCount ?c \<and> (\<exists>sh. shapes ?c i = Some sh \<and> sh_id sh = i \<and> drawable (sh_draw sh))"
    proof cases
      case 1
      then show ?thesis using hit new(2) by (auto simp: cnt fresh_id_def)
    next
      case 2
      then show ?thesis
        using canvas_wfD [OF wf, of i] m [of i] by (auto simp: cnt replaceWithShapes_shapes [OF new(1)])
    qed
  qed
qed

section \<open>The contract of a canvas\<close>

fun gen_all :: "(drawing \<Rightarrow> 'c \<Rightarrow> vshape \<times> 'c) \<Rightarrow> drawing list \<Rightarrow> 'c \<Rightarrow> vshape list \<times> 'c" where
  "gen_all gen [] c = ([], c)"
| "gen_all gen (d # ds) c =
     (let (sh, c1) = gen d c; (shs, c2) = gen_all gen ds c1 in (sh # shs, c2))"

locale shape_store =
  fixes wf :: "'c \<Rightarrow> bool"
    and lays :: "'c \<Rightarrow> (nat \<times> drawing) list"
    and unused :: "nat \<Rightarrow> 'c \<Rightarrow> bool"
    and gen :: "drawing \<Rightarrow> 'c \<Rightarrow> vshape \<times> 'c"
    and append :: "vshape \<Rightarrow> 'c \<Rightarrow> 'c"
    and replace :: "nat \<Rightarrow> vshape \<Rightarrow> 'c \<Rightarrow> 'c"
    and replaces :: "nat list \<Rightarrow> vshape list \<Rightarrow> 'c \<Rightarrow> 'c"
  assumes wf_distinct: "wf c \<Longrightarrow> distinct (map fst (lays c))"
    and unused_notin: "unused i c \<Longrightarrow> i \<notin> fst ` set (lays c)"
    and gen_law: "wf c \<Longrightarrow> gen d c = (sh, c') \<Longrightarrow>
      wf c' \<and> lays c' = lays c \<and> sh_draw sh = d \<and> unused (sh_id sh) c'"
    and gen_unused: "gen d c = (sh, c') \<Longrightarrow> unused i c \<Longrightarrow> unused i c' \<and> i \<noteq> sh_id sh"
    and append_law: "wf c \<Longrightarrow> unused (sh_id sh) c \<Longrightarrow> drawable (sh_draw sh) \<Longrightarrow>
      wf (append sh c) \<and> lays (append sh c) = lays c @ [layer sh]"
    and replace_law: "wf c \<Longrightarrow> unused (sh_id sh) c \<Longrightarrow> drawable (sh_draw sh) \<Longrightarrow>
      i \<in> fst ` set (lays c) \<Longrightarrow>
      wf (replace i sh c) \<and>
      lays (replace i sh c) = map (\<lambda>l. if fst l = i then layer sh else l) (lays c)"
    and replaces_law: "wf c \<Longrightarrow> lays c = A @ B @ C \<Longrightarrow> B \<noteq> [] \<Longrightarrow> set ids = fst ` set B \<Longrightarrow>
      shs \<noteq> [] \<Longrightarrow> distinct (map sh_id shs) \<Longrightarrow>
      (\<And>sh. sh \<in> set shs \<Longrightarrow> unused (sh_id sh) c \<and> drawable (sh_draw sh)) \<Longrightarrow>
      wf (replaces ids shs c) \<and> lays (replaces ids shs c) = A @ map layer shs @ C"
begin

lemma append_new:
  assumes "wf c" "drawable d" "gen d c = (sh, c')"
  shows "wf (append sh c')" "lays (append sh c') = lays c @ [(sh_id sh, d)]"
  using append_law [of c' sh] gen_law [OF assms(1,3)] assms(2) by (auto simp: layer_def)

lemma replace_new:
  assumes wf: "wf c" and d: "drawable d" and g: "gen d c = (sh, c')"
    and l: "lays c = A @ (i, e) # B"
  shows "wf (replace i sh c')" "lays (replace i sh c') = A @ (sh_id sh, d) # B"
proof -
  note gl = gen_law [OF wf g]
  have "distinct (map fst (A @ (i, e) # B))" using wf_distinct [OF wf] l by simp
  then have n: "i \<notin> fst ` set A" "i \<notin> fst ` set B" by auto
  have m: "map (\<lambda>l. if fst l = i then layer sh else l) xs = xs" if "i \<notin> fst ` set xs" for xs
    using that by (intro map_idI) force
  show "wf (replace i sh c')" "lays (replace i sh c') = A @ (sh_id sh, d) # B"
    using replace_law [of c' sh i] gl d l m [OF n(1)] m [OF n(2)] by (auto simp: layer_def)
qed

lemma gen_all_law:
  "wf c \<Longrightarrow> gen_all gen ds c = (shs, c') \<Longrightarrow>
   wf c' \<and> lays c' = lays c \<and> map sh_draw shs = ds \<and> distinct (map sh_id shs) \<and>
   (\<forall>sh \<in> set shs. unused (sh_id sh) c') \<and> (\<forall>i. unused i c \<longrightarrow> unused i c' \<and> i \<notin> sh_id ` set shs)"
proof (induction ds arbitrary: c shs c')
  case (Cons d ds)
  obtain sh c1 where g: "gen d c = (sh, c1)" by force
  obtain rest c2 where r: "gen_all gen ds c1 = (rest, c2)" by force
  have e: "shs = sh # rest" "c' = c2" using Cons.prems(2) g r by auto
  note h = gen_law [OF Cons.prems(1) g]
  have ih: "wf c2 \<and> lays c2 = lays c1 \<and> map sh_draw rest = ds \<and> distinct (map sh_id rest) \<and>
    (\<forall>sh \<in> set rest. unused (sh_id sh) c2) \<and>
    (\<forall>i. unused i c1 \<longrightarrow> unused i c2 \<and> i \<notin> sh_id ` set rest)"
    by (rule Cons.IH) (use h r e in simp_all)
  show ?case using h ih gen_unused [OF g] unfolding e by auto
qed simp

lemma replaces_new:
  assumes wf: "wf c" and d: "\<forall>d \<in> set ds. drawable d" and g: "gen_all gen ds c = (shs, c')"
    and l: "lays c = A @ B @ C" and B: "B \<noteq> []" "set ids = fst ` set B" "ds \<noteq> []"
  shows "wf (replaces ids shs c')"
    and "lays (replaces ids shs c') = A @ zip (map sh_id shs) ds @ C"
proof -
  note gl = gen_all_law [OF wf g]
  have z: "map layer shs = zip (map sh_id shs) (map sh_draw shs)"
    by (induction shs) (simp_all add: layer_def)
  have ne: "shs \<noteq> []" using gl B(3) by auto
  have "drawable (sh_draw sh)" if "sh \<in> set shs" for sh using that gl d by auto
  then have "wf (replaces ids shs c') \<and> lays (replaces ids shs c') = A @ map layer shs @ C"
    by (intro replaces_law) (use gl l B ne in auto)
  then show "wf (replaces ids shs c')" "lays (replaces ids shs c') = A @ zip (map sh_id shs) ds @ C"
    using gl z by auto
qed

end

interpretation vcanvas: shape_store canvas_wf layers fresh_id genShape appendShape replaceWithShape
  replaceWithShapes
proof
  show "distinct (map fst (layers c))" if "canvas_wf c" for c using that by (simp add: canvas_wf_def)
  show "i \<notin> fst ` set (layers c)" if "fresh_id i c" for i c
  proof -
    have "fst ` set (layers c) = set (shapeseq c)" by (simp flip: set_map)
    then show ?thesis using that by (simp add: fresh_id_def)
  qed
  show "fresh_id i c' \<and> i \<noteq> sh_id sh" if "genShape d c = (sh, c')" "fresh_id i c" for d c sh c' i
    using genShape_spec(7,8) [OF that(1)] that(2) by blast
  show "canvas_wf c' \<and> layers c' = layers c \<and> sh_draw sh = d \<and> fresh_id (sh_id sh) c'"
    if "canvas_wf c" "genShape d c = (sh, c')" for c d sh c'
    using genShape_spec(1,2,5,6) [OF that(2)] that(1) by simp
qed (simp_all add: appendShape_spec replaceWithShape_spec replaceWithShapes_spec)

section \<open>The canvas as an event machine\<close>

datatype canvas_call =
    CAppend drawing | CReplace nat drawing | CReplaces "nat list" "drawing list"
  | CInsertAfter "nat option" drawing | CRemove nat | CReset | CRender | CShapeAt jsnum jsnum
  | COthers nat   \<comment> \<open>other canvases of the page take ids from the shared counter\<close>

fun call_ok :: "canvas_call \<Rightarrow> bool" where
  "call_ok (CAppend d) = drawable d"
| "call_ok (CReplace i d) = drawable d"
| "call_ok (CReplaces is ds) = list_all drawable ds"
| "call_ok (CInsertAfter t d) = drawable d"
| "call_ok e = True"

fun canvas_call_step ::
  "(drawing \<Rightarrow> jsnum \<Rightarrow> jsnum \<Rightarrow> bool) \<Rightarrow> canvas_call \<Rightarrow> canvas \<Rightarrow> canvas option" where
  "canvas_call_step inpath (CAppend d) c = (let (sh, c) = genShape d c in Some (appendShape sh c))"
| "canvas_call_step inpath (CReplace i d) c =
     (let (sh, c) = genShape d c in Some (replaceWithShape i sh c))"
| "canvas_call_step inpath (CReplaces is ds) c =
     (let (shs, c) = gen_all genShape ds c in Some (replaceWithShapes is shs c))"
| "canvas_call_step inpath (CInsertAfter t d) c =
     (let (sh, c) = genShape d c in Some (insertAfterShape t sh c))"
| "canvas_call_step inpath (CRemove i) c = Some (removeShapeId i c)"
| "canvas_call_step inpath CReset c = Some (reset c)"
| "canvas_call_step inpath CRender c = render inpath c"
| "canvas_call_step inpath (CShapeAt x y) c = map_option snd (getShapeAt inpath x y c)"
| "canvas_call_step inpath (COthers n) c = Some (c\<lparr>shapeCount := shapeCount c + n\<rparr>)"

definition canvas_step ::
  "(drawing \<Rightarrow> jsnum \<Rightarrow> jsnum \<Rightarrow> bool) \<Rightarrow> canvas_call \<Rightarrow> canvas option \<Rightarrow> canvas option" where
  "canvas_step inpath e s = Option.bind s (canvas_call_step inpath e)"

definition canvas_ok :: "canvas option \<Rightarrow> bool" where
  "canvas_ok s = (case s of None \<Rightarrow> False | Some c \<Rightarrow> canvas_wf c)"

lemma canvas_call_step_wf:
  assumes wf: "canvas_wf c" and ok: "call_ok e"
  shows "canvas_ok (canvas_call_step inpath e c)"
proof (cases e)
  case (CAppend d)
  then show ?thesis using vcanvas.append_new [OF wf] ok by (auto simp: canvas_ok_def split: prod.splits)
next
  case (CReplace i d)
  obtain sh c' where g: "genShape d c = (sh, c')" by force
  show ?thesis
    using replaceWithShape_spec(2) [of c' sh i] genShape_spec(1,5,6) [OF g] wf ok CReplace g
    by (simp add: canvas_ok_def)
next
  case (CReplaces "is" ds)
  obtain shs c' where g: "gen_all genShape ds c = (shs, c')" by force
  have "\<forall>d \<in> set ds. drawable d" using ok CReplaces by (simp add: list_all_iff)
  moreover have "canvas_wf c'" "distinct (map sh_id shs)" "map sh_draw shs = ds"
    "\<forall>sh \<in> set shs. fresh_id (sh_id sh) c'" using vcanvas.gen_all_law [OF wf g] by auto
  ultimately have "canvas_wf (replaceWithShapes is shs c')" by (intro replaceWithShapes_wf) auto
  then show ?thesis using CReplaces g by (simp add: canvas_ok_def)
next
  case (CInsertAfter t d)
  obtain sh c' where g: "genShape d c = (sh, c')" by force
  show ?thesis
    using insertAfterShape_spec(1) [of c' sh t] genShape_spec(1,5,6) [OF g] wf ok CInsertAfter g
    by (simp add: canvas_ok_def)
next
  case (CRemove i)
  then show ?thesis using removeShapeId_spec(2) [OF wf] by (simp add: canvas_ok_def)
next
  case CReset
  then show ?thesis using reset_spec(2) by (simp add: canvas_ok_def)
next
  case CRender
  then show ?thesis by (simp add: canvas_ok_def) (metis render_spec [OF wf] option.simps(5))
next
  case (CShapeAt x y)
  obtain r c' where "getShapeAt inpath x y c = Some (r, c')" "canvas_wf c'"
    using getShapeAt_spec [OF wf] by metis
  then show ?thesis using CShapeAt by (simp add: canvas_ok_def)
next
  case (COthers n)
  then show ?thesis using canvas_wf_counter [OF wf, of "shapeCount c + n"] by (simp add: canvas_ok_def)
qed

interpretation vcanvas_page: event_machine "canvas_step inpath" canvas_ok call_ok
proof
  show "canvas_ok (canvas_step inpath e s)" if "canvas_ok s" "call_ok e" for s e
    using that canvas_call_step_wf [of _ e inpath] by (cases s) (simp_all add: canvas_ok_def canvas_step_def)
qed

text \<open>The size of a canvas and whether it keeps its shapes never change.\<close>

definition canvas_config :: "canvas option \<Rightarrow> (bool \<times> jsnum \<times> jsnum) option" where
  "canvas_config s = map_option (\<lambda>c. (interact c, pixelWidth c, pixelHeight c)) s"

lemma canvas_call_config:
  "canvas_call_step inpath e c = Some c' \<Longrightarrow> canvas_wf c \<Longrightarrow>
   interact c' = interact c \<and> pixelWidth c' = pixelWidth c \<and> pixelHeight c' = pixelHeight c"
proof (cases e)
  case (CReplaces "is" ds)
  have g: "gen_all genShape ds c = (shs, k) \<Longrightarrow>
      interact k = interact c \<and> pixelWidth k = pixelWidth c \<and> pixelHeight k = pixelHeight c" for shs k
    by (induction ds arbitrary: c shs) (auto simp: genShape_def Let_def split: prod.splits)
  assume "canvas_call_step inpath e c = Some c'"
  then show ?thesis using CReplaces g by (auto simp: replaceWithShapes_def Let_def split: prod.splits)
next
  case CRender
  assume "canvas_call_step inpath e c = Some c'" "canvas_wf c"
  then show ?thesis using CRender render_eq [of c inpath] by (auto simp: Let_def split: if_splits)
next
  case (CShapeAt x y)
  assume a: "canvas_call_step inpath e c = Some c'" "canvas_wf c"
  obtain r k where "getShapeAt inpath x y c = Some (r, k)" "interact k = interact c"
    "pixelWidth k = pixelWidth c" "pixelHeight k = pixelHeight c"
    using getShapeAt_spec [OF a(2)] by metis
  then show ?thesis using a(1) CShapeAt by auto
qed (auto simp: genShape_def appendShape_def replaceWithShape_def insertAfterShape_def removeShapeId_def
    reset_def split: option.splits)

interpretation vcanvas_frame: framed_machine "canvas_step inpath" canvas_ok call_ok canvas_config
proof
  show "canvas_config (canvas_step inpath e s) = canvas_config s" if "canvas_ok s" "call_ok e" for s e
  proof -
    note ok = that
    obtain c where c: "s = Some c" "canvas_wf c" using ok(1) by (cases s) (simp_all add: canvas_ok_def)
    have "canvas_ok (canvas_call_step inpath e c)" using c(2) ok(2) by (rule canvas_call_step_wf)
    then obtain c' where "canvas_call_step inpath e c = Some c'" by (auto simp: canvas_ok_def split: option.splits)
    then show ?thesis using c canvas_call_config by (simp add: canvas_config_def canvas_step_def)
  qed
qed

section \<open>Properties\<close>

text \<open>
  C3: in every history of calls on a canvas (appending, replacing one or several shapes, inserting,
  removing, resetting, hit tests, repaints, with ids taken by other canvases in between) no repaint
  meets an id without a shape: no call throws, and a repaint paints exactly the layers, in order.
\<close>

theorem canvas_history_paints:
  assumes "list_all call_ok es"
  obtains c c' where "fold (canvas_step inpath) es (Some (new_canvas w h intr n)) = Some c"
    "canvas_call_step inpath CRender c = Some c'"
    "bitmap c' = ClearRect (pixelWidth c) (pixelHeight c) # ops_of (layers c)"
proof -
  have "canvas_ok (fold (canvas_step inpath) es (Some (new_canvas w h intr n)))"
    by (rule vcanvas_page.run_inv) (use assms in \<open>simp_all add: canvas_ok_def list_all_iff\<close>)
  then obtain c where c: "fold (canvas_step inpath) es (Some (new_canvas w h intr n)) = Some c" "canvas_wf c"
    by (auto simp: canvas_ok_def split: option.splits)
  obtain c' where "render inpath c = Some c'" "bitmap c' = painted c" using render_spec [OF c(2)] by metis
  then show ?thesis using that c(1) by (simp add: painted_def)
qed

lemma canvas_history_paints_witness:
  "\<exists>c. fold (canvas_step (\<lambda>_ _ _. False))
     [CAppend (DRect (Fin 0) (Fin 0) (Fin 4) (Fin 4) (Some ''#fff'') None), CReplace 0 (DShape [(Fin 1, Fin 1)] None None None),
      CRender, CRemove 1, CReset] (Some (new_canvas (Fin 9) (Fin 9) True 0)) = Some c"
  by (rule canvas_history_paints [of "[CAppend (DRect (Fin 0) (Fin 0) (Fin 4) (Fin 4) (Some ''#fff'') None),
        CReplace 0 (DShape [(Fin 1, Fin 1)] None None None), CRender, CRemove 1, CReset]"
        "\<lambda>_ _ _. False" "Fin 9" "Fin 9" True 0]) (simp_all add: drawable_def)

text \<open>
  A hit test answers the topmost shape under the pointer; where there is none it answers the
  answer of the test before, because nothing resets \<open>currentTargetShapeId\<close>.
\<close>

theorem getShapeAt_topmost_or_stale:
  assumes "canvas_wf c" "interact c"
  shows "map_option fst (getShapeAt inpath x y c) =
    Some (case find (\<lambda>l. inpath (snd l) x y) (rev (layers c)) of
            None \<Rightarrow> currentTargetShapeId c | Some l \<Rightarrow> Some (fst l))"
proof -
  obtain c' where "getShapeAt inpath x y c =
      Some (case topmost inpath x y (layers c) of None \<Rightarrow> currentTargetShapeId c | Some i \<Rightarrow> Some i, c')"
    using getShapeAt_spec [OF assms(1)] by metis
  then show ?thesis by (auto simp: topmost_def split: option.splits)
qed

lemma getShapeAt_topmost_or_stale_witness:
  "map_option fst (getShapeAt (\<lambda>_ x y. x = Fin 1) (Fin 1) (Fin 2)
     (appendShape \<lparr>sh_id = 3, sh_draw = DRect (Fin 0) (Fin 0) (Fin 4) (Fin 4) None None\<rparr>
        (new_canvas (Fin 9) (Fin 9) True 5))) = Some (Some 3)"
proof -
  let ?c = "new_canvas (Fin 9) (Fin 9) True 5" and ?s = "\<lparr>sh_id = 3, sh_draw = DRect (Fin 0) (Fin 0) (Fin 4) (Fin 4) None None\<rparr>"
  have f: "fresh_id (sh_id ?s) ?c" "drawable (sh_draw ?s)" "interact (appendShape ?s ?c)"
    by (simp_all add: fresh_id_def new_canvas_def drawable_def appendShape_def)
  note a = appendShape_spec [of ?c ?s, OF canvas_wf_new f(1,2)]
  show ?thesis using getShapeAt_topmost_or_stale [OF a(2) f(3), of "\<lambda>_ x y. x = Fin 1" "Fin 1" "Fin 2"]
    by (simp add: a(1) layer_def)
qed

end
