(* ===== verification/Spark_Base.thy ===== *)
theory Spark_Base
  imports Spark_Util Spark_Store
begin

text \<open>
  The base class of the charts (\<open>_base\<close> in \<open>js/jquery.sparkline.js\<close>): the current region, the
  highlight of the region under the mouse and the highlight colour.

  A chart class overrides \<open>getRegion\<close> and \<open>changeHighlight\<close> (or \<open>renderHighlight\<close> and
  \<open>removeHighlight\<close>); the base operations take them as arguments, as the dynamic dispatch does. A
  call that throws is \<open>None\<close>. The locale \<open>highlighter\<close> is the contract of a chart class: a hit test
  leaves the picture alone, and highlighting changes the picture of the current region only. From it
  follows, once for all charts, that the picture on the canvas always has exactly the current region
  highlighted.
\<close>

section \<open>The highlight colour\<close>

record hl_options =
  disableHighlight :: bool
  highlightColor :: colour
  highlightLighten :: rat

definition hex2 :: "char \<Rightarrow> char \<Rightarrow> int option" where
  "hex2 a b = (case (hex_of a, hex_of b) of (Some x, Some y) \<Rightarrow> Some (int (16 * x + y)) | _ \<Rightarrow> None)"

text \<open>\<open>#rgb\<close> or \<open>#rrggbb\<close>: the three numbers and the factor the code multiplies them with.\<close>

definition parse_rgb :: "string \<Rightarrow> (int list \<times> int) option" where
  "parse_rgb color =
     (case color of
        [h, r, g, b] \<Rightarrow>
          (case (hex_of r, hex_of g, hex_of b) of
             (Some x, Some y, Some z) \<Rightarrow> if h = CHR ''#'' then Some ([int x, int y, int z], 16) else None
           | _ \<Rightarrow> None)
      | [h, r, r', g, g', b, b'] \<Rightarrow>
          (case (hex2 r r', hex2 g g', hex2 b b') of
             (Some x, Some y, Some z) \<Rightarrow> if h = CHR ''#'' then Some ([x, y, z], 1) else None
           | _ \<Rightarrow> None)
      | _ \<Rightarrow> None)"

definition lightened :: "rat \<Rightarrow> int list \<times> int \<Rightarrow> int list" where
  "lightened lighten p =
     map (\<lambda>v. clipval (js_round (of_int v * of_int (snd p) * lighten)) 0 255) (fst p)"

definition rgb_text :: "int list \<Rightarrow> string" where
  "rgb_text vs = ''rgb('' @ join '','' (map show_int vs) @ '')''"

definition calcHighlightColor :: "colour \<Rightarrow> hl_options \<Rightarrow> colour" where
  "calcHighlightColor color options =
     (if highlightColor options \<noteq> None \<and> highlightColor options \<noteq> Some [] then highlightColor options
      else if highlightLighten options \<noteq> 0 then
        (case color of
           None \<Rightarrow> color
         | Some s \<Rightarrow>
             (case parse_rgb s of
                None \<Rightarrow> color
              | Some p \<Rightarrow> Some (rgb_text (lightened (highlightLighten options) p))))
      else color)"

section \<open>The current region\<close>

record 'r spark_base =
  currentRegion :: "'r option"
  canvasWidth :: jsnum
  canvasHeight :: jsnum
  vtarget :: canvas

definition setRegionHighlight ::
  "bool \<Rightarrow> (jsnum \<Rightarrow> jsnum \<Rightarrow> ('r, 'a) spark_base_scheme \<Rightarrow> ('r option \<times> ('r, 'a) spark_base_scheme) option) \<Rightarrow>
   (bool \<Rightarrow> ('r, 'a) spark_base_scheme \<Rightarrow> ('r, 'a) spark_base_scheme option) \<Rightarrow>
   jsnum \<Rightarrow> jsnum \<Rightarrow> ('r, 'a) spark_base_scheme \<Rightarrow> (bool option \<times> ('r, 'a) spark_base_scheme) option" where
  "setRegionHighlight disabled getRegion changeHighlight x y s =
     (let cur = currentRegion s; highlightEnabled = (\<not> disabled) in
      if x > canvasWidth s \<or> y > canvasHeight s \<or> x < Fin 0 \<or> y < Fin 0 then Some (None, s)
      else
        (case getRegion x y s of
           None \<Rightarrow> None
         | Some (newRegion, s) \<Rightarrow>
             if cur \<noteq> newRegion then
               (case (if cur \<noteq> None \<and> highlightEnabled then changeHighlight False s else Some s) of
                  None \<Rightarrow> None
                | Some s \<Rightarrow>
                    let s = s\<lparr>currentRegion := newRegion\<rparr> in
                    (case (if newRegion \<noteq> None \<and> highlightEnabled then changeHighlight True s else Some s) of
                       None \<Rightarrow> None
                     | Some s \<Rightarrow> Some (Some True, s)))
             else Some (Some False, s)))"

definition clearRegionHighlight ::
  "(bool \<Rightarrow> ('r, 'a) spark_base_scheme \<Rightarrow> ('r, 'a) spark_base_scheme option) \<Rightarrow>
   ('r, 'a) spark_base_scheme \<Rightarrow> (bool \<times> ('r, 'a) spark_base_scheme) option" where
  "clearRegionHighlight changeHighlight s =
     (if currentRegion s \<noteq> None then
        (case changeHighlight False s of
           None \<Rightarrow> None
         | Some s \<Rightarrow> Some (True, s\<lparr>currentRegion := None\<rparr>))
      else Some (False, s))"

definition repaint ::
  "(drawing \<Rightarrow> jsnum \<Rightarrow> jsnum \<Rightarrow> bool) \<Rightarrow> ('r, 'a) spark_base_scheme \<Rightarrow> ('r, 'a) spark_base_scheme option" where
  "repaint inpath s = map_option (\<lambda>c. s\<lparr>vtarget := c\<rparr>) (render inpath (vtarget s))"

text \<open>What happens to a chart once it is drawn.\<close>

datatype spark_event = Hover jsnum jsnum | Leave | Repaint | OtherShapes nat

fun spark_react ::
  "(drawing \<Rightarrow> jsnum \<Rightarrow> jsnum \<Rightarrow> bool) \<Rightarrow> bool \<Rightarrow>
   (jsnum \<Rightarrow> jsnum \<Rightarrow> ('r, 'a) spark_base_scheme \<Rightarrow> ('r option \<times> ('r, 'a) spark_base_scheme) option) \<Rightarrow>
   (bool \<Rightarrow> ('r, 'a) spark_base_scheme \<Rightarrow> ('r, 'a) spark_base_scheme option) \<Rightarrow>
   spark_event \<Rightarrow> ('r, 'a) spark_base_scheme \<Rightarrow> ('r, 'a) spark_base_scheme option" where
  "spark_react inpath disabled gr ch (Hover x y) s = map_option snd (setRegionHighlight disabled gr ch x y s)"
| "spark_react inpath disabled gr ch Leave s = map_option snd (clearRegionHighlight ch s)"
| "spark_react inpath disabled gr ch Repaint s = repaint inpath s"
| "spark_react inpath disabled gr ch (OtherShapes n) s =
     Some (s\<lparr>vtarget := (vtarget s)\<lparr>shapeCount := shapeCount (vtarget s) + n\<rparr>\<rparr>)"

definition spark_step where
  "spark_step inpath disabled gr ch e s = Option.bind s (spark_react inpath disabled gr ch e)"

definition highlighted_region :: "bool \<Rightarrow> ('r, 'a) spark_base_scheme \<Rightarrow> 'r \<Rightarrow> bool" where
  "highlighted_region disabled s r \<longleftrightarrow> \<not> disabled \<and> currentRegion s = Some r"

section \<open>The contract of a chart class\<close>

text \<open>
  \<open>shows h s\<close>: the canvas of \<open>s\<close> shows the chart with exactly the regions of \<open>h\<close> highlighted.
\<close>

locale highlighter =
  fixes valid :: "'r \<Rightarrow> bool"
    and shows_hl :: "('r \<Rightarrow> bool) \<Rightarrow> ('r, 'a) spark_base_scheme \<Rightarrow> bool"
    and region :: "jsnum \<Rightarrow> jsnum \<Rightarrow> ('r, 'a) spark_base_scheme \<Rightarrow>
      ('r option \<times> ('r, 'a) spark_base_scheme) option"
    and change :: "bool \<Rightarrow> ('r, 'a) spark_base_scheme \<Rightarrow> ('r, 'a) spark_base_scheme option"
    and inpath :: "drawing \<Rightarrow> jsnum \<Rightarrow> jsnum \<Rightarrow> bool"
    and disabled :: bool
  assumes region_law: "shows_hl h s \<Longrightarrow>
      \<exists>r s'. region x y s = Some (r, s') \<and> shows_hl h s' \<and> currentRegion s' = currentRegion s \<and>
        (\<forall>q. r = Some q \<longrightarrow> valid q)"
    and change_law: "shows_hl h s \<Longrightarrow> currentRegion s = Some r \<Longrightarrow> valid r \<Longrightarrow>
      \<forall>q. h q \<longrightarrow> q = r \<and> \<not> b \<Longrightarrow>
      \<exists>s'. change b s = Some s' \<and> shows_hl (h(r := b)) s' \<and> currentRegion s' = currentRegion s"
    and current_law: "shows_hl h (s\<lparr>currentRegion := c\<rparr>) = shows_hl h s"
    and canvas_law: "shows_hl h s \<Longrightarrow> canvas_wf (vtarget s) \<and> interact (vtarget s)"
    and layers_law: "shows_hl h s \<Longrightarrow> canvas_wf k \<Longrightarrow> interact k \<Longrightarrow> layers k = layers (vtarget s) \<Longrightarrow>
      shapeCount (vtarget s) \<le> shapeCount k \<Longrightarrow> pixelWidth k = pixelWidth (vtarget s) \<Longrightarrow>
      pixelHeight k = pixelHeight (vtarget s) \<Longrightarrow> shows_hl h (s\<lparr>vtarget := k\<rparr>)"
begin

definition good :: "('r, 'a) spark_base_scheme \<Rightarrow> bool" where
  "good s \<longleftrightarrow> shows_hl (highlighted_region disabled s) s \<and> (\<forall>r. currentRegion s = Some r \<longrightarrow> valid r)"

lemma hl_cong: "currentRegion s' = currentRegion s \<Longrightarrow>
    highlighted_region disabled s' = highlighted_region disabled s"
  by (simp add: highlighted_region_def fun_eq_iff)

lemma set_good:
  assumes g: "good s"
  obtains res s' where "setRegionHighlight disabled region change x y s = Some (res, s')" "good s'"
    "res = None \<Longrightarrow> s' = s"
    "res \<noteq> None \<Longrightarrow> \<exists>q t. region x y s = Some (q, t) \<and> currentRegion s' = q \<and>
       (res = Some True \<longleftrightarrow> q \<noteq> currentRegion s)"
proof (cases "x > canvasWidth s \<or> y > canvasHeight s \<or> x < Fin 0 \<or> y < Fin 0")
  case True
  then show ?thesis using that [of None s] g by (simp add: setRegionHighlight_def)
next
  case False
  have sh: "shows_hl (highlighted_region disabled s) s" using g by (simp add: good_def)
  obtain q t where t: "region x y s = Some (q, t)" "shows_hl (highlighted_region disabled s) t"
    "currentRegion t = currentRegion s" "\<And>r. q = Some r \<Longrightarrow> valid r"
    using region_law [OF sh] by metis
  have vc: "valid r" if "currentRegion s = Some r" for r using g that by (simp add: good_def)
  let ?off = "\<lambda>_. False"
  show ?thesis
  proof (cases "currentRegion s = q")
    case True
    then have "good t" using t(2,4) vc t(3) by (simp add: good_def hl_cong [OF t(3)])
    then show ?thesis
      using that [of "Some False" t] True False t by (simp add: setRegionHighlight_def)
  next
    case ne: False
    obtain u where u: "(if currentRegion s \<noteq> None \<and> \<not> disabled then change False t else Some t) = Some u"
      "shows_hl ?off u"
    proof (cases "currentRegion s \<noteq> None \<and> \<not> disabled")
      case True
      then obtain r where r: "currentRegion s = Some r" by auto
      obtain u where "change False t = Some u"
        "shows_hl ((highlighted_region disabled s)(r := False)) u"
        using change_law [OF t(2), of r False] t(3) r vc by (auto simp: highlighted_region_def)
      moreover have "(highlighted_region disabled s)(r := False) = ?off"
        using r by (auto simp: highlighted_region_def fun_eq_iff)
      ultimately show ?thesis using that True by auto
    next
      case False
      then have "highlighted_region disabled s = ?off" by (auto simp: highlighted_region_def fun_eq_iff)
      then show ?thesis using that t(2) False by auto
    qed
    let ?w = "u\<lparr>currentRegion := q\<rparr>"
    have w: "shows_hl ?off ?w" using u(2) by (simp add: current_law)
    obtain v where v: "(if q \<noteq> None \<and> \<not> disabled then change True ?w else Some ?w) = Some v"
      "shows_hl (highlighted_region disabled v) v" "currentRegion v = q"
    proof (cases "q \<noteq> None \<and> \<not> disabled")
      case True
      then obtain r where r: "q = Some r" by auto
      obtain v where "change True ?w = Some v" "shows_hl (?off(r := True)) v" "currentRegion v = q"
        using change_law [OF w, of r True] r t(4) by auto
      moreover have "?off(r := True) = highlighted_region disabled v"
        using r \<open>currentRegion v = q\<close> True by (auto simp: highlighted_region_def fun_eq_iff)
      ultimately show ?thesis using that [of v] True by simp
    next
      case False
      then have "highlighted_region disabled ?w = ?off" by (auto simp: highlighted_region_def fun_eq_iff)
      then show ?thesis using that w False by auto
    qed
    have "good v" using v t(4) by (simp add: good_def)
    moreover have "setRegionHighlight disabled region change x y s = Some (Some True, v)"
      using False ne t(1) u(1) v(1) by (simp add: setRegionHighlight_def Let_def)
    ultimately show ?thesis using that [of "Some True" v] t(1) v(3) ne by auto
  qed
qed

lemma clear_good:
  assumes g: "good s"
  obtains s' where "clearRegionHighlight change s = Some (currentRegion s \<noteq> None, s')" "good s'"
    "currentRegion s' = None"
proof (cases "currentRegion s")
  case None
  then show ?thesis using that [of s] g by (simp add: clearRegionHighlight_def)
next
  case (Some r)
  have sh: "shows_hl (highlighted_region disabled s) s" "valid r" using g Some by (auto simp: good_def)
  obtain u where u: "change False s = Some u" "shows_hl ((highlighted_region disabled s)(r := False)) u"
    using change_law [OF sh(1) Some sh(2)] Some by (auto simp: highlighted_region_def)
  have "(highlighted_region disabled s)(r := False) =
      highlighted_region disabled (u\<lparr>currentRegion := None\<rparr>)"
    using Some by (auto simp: highlighted_region_def fun_eq_iff)
  then have "good (u\<lparr>currentRegion := None\<rparr>)" using u(2) by (simp add: good_def current_law)
  then show ?thesis using that [of "u\<lparr>currentRegion := None\<rparr>"] Some u by (simp add: clearRegionHighlight_def)
qed

lemma repaint_good:
  assumes g: "good s"
  obtains s' where "repaint inpath s = Some s'" "good s'"
proof -
  have sh: "shows_hl (highlighted_region disabled s) s" using g by (simp add: good_def)
  note c = canvas_law [OF sh]
  obtain c' where c': "render inpath (vtarget s) = Some c'" "canvas_wf c'" "shapeCount c' = shapeCount (vtarget s)"
    "interact c' = interact (vtarget s)" "layers c' = layers (vtarget s)"
    "pixelWidth c' = pixelWidth (vtarget s)" "pixelHeight c' = pixelHeight (vtarget s)"
    using c render_spec [of "vtarget s" inpath] by metis
  have "shows_hl (highlighted_region disabled s) (s\<lparr>vtarget := c'\<rparr>)"
    by (rule layers_law [OF sh]) (use c' c in simp_all)
  then have "good (s\<lparr>vtarget := c'\<rparr>)"
    using g by (simp add: good_def hl_cong [of "s\<lparr>vtarget := c'\<rparr>" s])
  then show ?thesis using that [of "s\<lparr>vtarget := c'\<rparr>"] c'(1) by (simp add: repaint_def)
qed

lemma react_good:
  assumes g: "good s"
  obtains s' where "spark_react inpath disabled region change e s = Some s'" "good s'"
proof (cases e)
  case (Hover x y)
  then show ?thesis using that set_good [OF g, of x y] by (metis map_option_eq_Some spark_react.simps(1) snd_conv)
next
  case Leave
  then show ?thesis using that clear_good [OF g] by (metis map_option_eq_Some spark_react.simps(2) snd_conv)
next
  case Repaint
  then show ?thesis using that repaint_good [OF g] by (metis spark_react.simps(3))
next
  case (OtherShapes n)
  let ?c = "(vtarget s)\<lparr>shapeCount := shapeCount (vtarget s) + n\<rparr>"
  have sh: "shows_hl (highlighted_region disabled s) s" using g by (simp add: good_def)
  note c = canvas_law [OF sh]
  have "shows_hl (highlighted_region disabled s) (s\<lparr>vtarget := ?c\<rparr>)"
    by (rule layers_law [OF sh]) (use c canvas_wf_counter [of "vtarget s"] in \<open>simp_all add: layers_def\<close>)
  then have "good (s\<lparr>vtarget := ?c\<rparr>)"
    using g by (simp add: good_def hl_cong [of "s\<lparr>vtarget := ?c\<rparr>" s])
  then show ?thesis using that [of "s\<lparr>vtarget := ?c\<rparr>"] OtherShapes by simp
qed

definition good_opt :: "('r, 'a) spark_base_scheme option \<Rightarrow> bool" where
  "good_opt s \<longleftrightarrow> (\<exists>t. s = Some t \<and> good t)"

end

sublocale highlighter \<subseteq> life: event_machine "spark_step inpath disabled region change" good_opt "\<lambda>_. True"
proof
  show "good_opt (spark_step inpath disabled region change e s)" if "good_opt s" for s e
    using that react_good by (auto simp: good_opt_def spark_step_def) metis
qed

context highlighter
begin

lemma history_shows:
  assumes "good s"
  obtains t where "fold (spark_step inpath disabled region change) es (Some s) = Some t"
    "shows_hl (highlighted_region disabled t) t" "\<And>r. currentRegion t = Some r \<Longrightarrow> valid r"
proof -
  have "good_opt (fold (spark_step inpath disabled region change) es (Some s))"
    by (rule life.run_inv) (use assms in \<open>auto simp: good_opt_def\<close>)
  then show ?thesis using that by (auto simp: good_opt_def good_def)
qed

end

section \<open>Highlight colours\<close>

text \<open>
  Lightening a hex colour gives an \<open>rgb\<close> triple whose parts are clipped to 0..255, whatever the
  factor; a factor of 1 reads \<open>#rgb\<close> digits as multiples of 16.
\<close>

theorem calcHighlightColor_rgb:
  assumes "highlightColor opts = None" "highlightLighten opts \<noteq> 0" "parse_rgb s = Some p"
  obtains r g b where "calcHighlightColor (Some s) opts = Some (rgb_text [r, g, b])"
    "{r, g, b} \<subseteq> {0..255}"
proof -
  obtain x y z m where p: "p = ([x, y, z], m)"
    using assms(3) by (auto simp: parse_rgb_def split: list.splits option.splits if_splits)
  let ?f = "\<lambda>v. clipval (js_round (of_int v * of_int m * highlightLighten opts)) 0 255"
  have "?f v \<in> {0..255}" for v using clipval_range [of 0 "255::int"] by auto
  then show ?thesis
    using that [of "?f x" "?f y" "?f z"] assms p by (simp add: calcHighlightColor_def lightened_def)
qed

lemma calcHighlightColor_rgb_witness:
  "\<exists>r g b. calcHighlightColor (Some ''#f80'')
     \<lparr>disableHighlight = False, highlightColor = None, highlightLighten = 7 / 5\<rparr> =
     Some (rgb_text [r, g, b]) \<and> {r, g, b} \<subseteq> {0..255}"
proof -
  have p: "parse_rgb ''#f80'' = Some ([15, 8, 0], 16)" by code_simp
  obtain r g b where "calcHighlightColor (Some ''#f80'')
     \<lparr>disableHighlight = False, highlightColor = None, highlightLighten = 7 / 5\<rparr> =
     Some (rgb_text [r, g, b])" "{r, g, b} \<subseteq> {0..255}"
    by (rule calcHighlightColor_rgb [OF _ _ p,
          of "\<lparr>disableHighlight = False, highlightColor = None, highlightLighten = 7 / 5\<rparr>"]) simp_all
  then show ?thesis by blast
qed

end
