(* ===== verification/Spark_Mixin.thy ===== *)
theory Spark_Mixin
  imports Spark_Base "HOL-Library.Multiset"
begin

text \<open>
  \<open>barHighlightMixin\<close> of \<open>js/jquery.sparkline.js\<close>, shared by the bar, tristate and discrete charts:
  drawing the regions, remembering the shape ids of each region, and swapping the shapes of a region
  for highlighted ones.

  The chart's \<open>renderRegion\<close> is an argument: it gives the drawings of a region, plain or highlighted,
  and the shapes get their ids when they are generated. The locale \<open>region_chart\<close> states what the
  mixin relies on and is a \<open>highlighter\<close>.
\<close>

section \<open>State and operations\<close>

text \<open>\<open>renderRegion\<close> answers \<open>undefined\<close>, one shape or an array of shapes.\<close>

datatype rendered = Nothing | Single drawing | Several "drawing list"

text \<open>The entries of \<open>regionShapes\<close>: absent, \<open>null\<close>, an id, an array of ids.\<close>

datatype region_ref = NoRef | NullRef | OneRef nat | ManyRefs "nat list"

record bar_chart = "int spark_base" +
  regionShapes :: "int \<Rightarrow> region_ref"

definition append_all :: "vshape list \<Rightarrow> canvas \<Rightarrow> canvas" where
  "append_all shs c = fold appendShape shs c"

text \<open>
  The test \<open>if (shapeids)\<close> is false for \<open>undefined\<close>, \<open>null\<close> and the id 0. The two mixed cases (an
  id and an array) cannot occur: the number of shapes of a region does not depend on the highlight;
  with \<open>undefined\<close> for the new shape the access to its id throws.
\<close>

definition bar_changeHighlight ::
  "(int \<Rightarrow> bool \<Rightarrow> rendered) \<Rightarrow> bool \<Rightarrow> bar_chart \<Rightarrow> bar_chart option" where
  "bar_changeHighlight renderRegion hl s =
     (case currentRegion s of
        None \<Rightarrow> Some s
      | Some r \<Rightarrow>
          (case regionShapes s r of
             NoRef \<Rightarrow> Some s
           | NullRef \<Rightarrow> Some s
           | OneRef i \<Rightarrow>
               if i = 0 then Some s
               else (case renderRegion r hl of
                       Single d \<Rightarrow>
                         (let (sh, c) = genShape d (vtarget s) in
                          Some (s\<lparr>vtarget := replaceWithShape i sh c,
                                  regionShapes := (regionShapes s)(r := OneRef (sh_id sh))\<rparr>))
                     | _ \<Rightarrow> None)
           | ManyRefs is \<Rightarrow>
               (case renderRegion r hl of
                  Several ds \<Rightarrow>
                    (let (shs, c) = gen_all genShape ds (vtarget s) in
                     Some (s\<lparr>vtarget := replaceWithShapes is shs c,
                             regionShapes := (regionShapes s)(r := ManyRefs (map sh_id shs))\<rparr>))
                | _ \<Rightarrow> None)))"

definition bar_render_region :: "(int \<Rightarrow> bool \<Rightarrow> rendered) \<Rightarrow> int \<Rightarrow> bar_chart \<Rightarrow> bar_chart" where
  "bar_render_region renderRegion i s =
     (case renderRegion i False of
        Nothing \<Rightarrow> s\<lparr>regionShapes := (regionShapes s)(i := NullRef)\<rparr>
      | Single d \<Rightarrow>
          (let (sh, c) = genShape d (vtarget s) in
           s\<lparr>vtarget := appendShape sh c, regionShapes := (regionShapes s)(i := OneRef (sh_id sh))\<rparr>)
      | Several ds \<Rightarrow>
          (let (shs, c) = gen_all genShape ds (vtarget s) in
           s\<lparr>vtarget := append_all (rev shs) c,
             regionShapes := (regionShapes s)(i := ManyRefs (map sh_id (rev shs)))\<rparr>))"

fun bar_render_loop :: "(int \<Rightarrow> bool \<Rightarrow> rendered) \<Rightarrow> nat \<Rightarrow> bar_chart \<Rightarrow> bar_chart" where
  "bar_render_loop renderRegion 0 s = s"
| "bar_render_loop renderRegion (Suc i) s =
     bar_render_loop renderRegion i (bar_render_region renderRegion (int i) s)"

definition bar_render ::
  "(drawing \<Rightarrow> jsnum \<Rightarrow> jsnum \<Rightarrow> bool) \<Rightarrow> (int \<Rightarrow> bool \<Rightarrow> rendered) \<Rightarrow> nat \<Rightarrow> bar_chart \<Rightarrow>
   bar_chart option" where
  "bar_render inpath renderRegion n s = repaint inpath (bar_render_loop renderRegion n s)"

text \<open>A chart object on a canvas, before it is rendered.\<close>

definition new_bar_chart :: "canvas \<Rightarrow> bar_chart" where
  "new_bar_chart c =
     \<lparr>currentRegion = None, canvasWidth = pixelWidth c, canvasHeight = pixelHeight c, vtarget = c,
      regionShapes = (\<lambda>_. NoRef)\<rparr>"

text \<open>
  \<open>Math.floor(x / itemWidth)\<close>; the infinities and \<open>NaN\<close>, at which no chart has a value, are
  \<open>undefined\<close> here.
\<close>

definition floor_region :: "jsnum \<Rightarrow> jsnum \<Rightarrow> int option" where
  "floor_region x w = (case num_floor (x / w) of Fin q \<Rightarrow> Some \<lfloor>q\<rfloor> | _ \<Rightarrow> None)"

section \<open>What the canvas shows\<close>

fun drawings :: "rendered \<Rightarrow> drawing list" where
  "drawings Nothing = []"
| "drawings (Single d) = [d]"
| "drawings (Several ds) = ds"

fun same_kind :: "rendered \<Rightarrow> rendered \<Rightarrow> bool" where
  "same_kind Nothing Nothing = True"
| "same_kind (Single _) (Single _) = True"
| "same_kind (Several _) (Several _) = True"
| "same_kind _ _ = False"

text \<open>
  The layers \<open>ls\<close> of a region whose entry is \<open>ref\<close>, when it is shown highlighted or not. A region
  whose shape has the id 0 is never highlighted. The layers of a stacked region change their order
  when they are replaced.
\<close>

fun block_ok :: "(bool \<Rightarrow> rendered) \<Rightarrow> bool \<Rightarrow> region_ref \<Rightarrow> (nat \<times> drawing) list \<Rightarrow> bool" where
  "block_ok rr hl NoRef ls = False"
| "block_ok rr hl NullRef ls = (rr hl = Nothing \<and> ls = [])"
| "block_ok rr hl (OneRef i) ls = (\<exists>d. rr (hl \<and> i \<noteq> 0) = Single d \<and> ls = [(i, d)])"
| "block_ok rr hl (ManyRefs is) ls =
     (\<exists>ds. rr hl = Several ds \<and> mset (map snd ls) = mset ds \<and> set is = fst ` set ls)"

definition bar_shows ::
  "(int \<Rightarrow> bool \<Rightarrow> rendered) \<Rightarrow> nat \<Rightarrow> (nat \<times> drawing) list \<Rightarrow> nat \<Rightarrow> (int \<Rightarrow> bool) \<Rightarrow> bar_chart \<Rightarrow> bool" where
  "bar_shows rr n P k h s \<longleftrightarrow>
     canvas_wf (vtarget s) \<and> interact (vtarget s) \<and> k \<le> shapeCount (vtarget s) \<and>
     (\<forall>r. r < 0 \<or> int n \<le> r \<longrightarrow> regionShapes s r = NoRef) \<and>
     (\<exists>blocks. layers (vtarget s) = P @ concat (map blocks (rev [0..<n])) \<and>
        (\<forall>r < n. block_ok (rr (int r)) (h (int r)) (regionShapes s (int r)) (blocks r) \<and>
           (\<forall>l \<in> set (blocks r). k \<le> fst l)))"

lemma gen_all_count:
  "gen_all genShape ds c = (shs, c') \<Longrightarrow>
   shapeCount c' = shapeCount c + length ds \<and> interact c' = interact c \<and> length shs = length ds \<and>
   (\<forall>sh \<in> set shs. shapeCount c \<le> sh_id sh)"
proof (induction ds arbitrary: c shs c')
  case (Cons d ds)
  obtain sh c1 where g: "genShape d c = (sh, c1)" by force
  obtain rest c2 where r: "gen_all genShape ds c1 = (rest, c2)" by force
  have e: "shs = sh # rest" "c' = c2" using Cons.prems g r by auto
  show ?case using Cons.IH [OF r] genShape_spec(9,10,11) [OF g] by (auto simp: e)
qed simp

lemma replace_keeps:
  "shapeCount (replaceWithShape i sh c) = shapeCount c" "interact (replaceWithShape i sh c) = interact c"
  "shapeCount (replaceWithShapes is shs c) = shapeCount c"
  "interact (replaceWithShapes is shs c) = interact c"
  "shapeCount (appendShape sh c) = shapeCount c" "interact (appendShape sh c) = interact c"
  by (simp_all add: replaceWithShape_def replaceWithShapes_def appendShape_def split: prod.splits)

lemma region_split:
  assumes "r < n"
  obtains as bs where "rev [0..<n] = as @ r # bs" "r \<notin> set as" "r \<notin> set bs"
    "\<And>q. q \<in> set as \<union> set bs \<Longrightarrow> q < n"
proof -
  have "r \<in> set (rev [0..<n])" using assms by simp
  then obtain as bs where ab: "rev [0..<n] = as @ r # bs" by (meson split_list)
  have "distinct (as @ r # bs)" using ab [symmetric] by (simp add: distinct_rev)
  moreover have "set (as @ r # bs) = {0..<n}" unfolding ab [symmetric] by simp
  then have "q < n" if "q \<in> set as \<union> set bs" for q using that by auto
  ultimately show ?thesis using that [OF ab] by auto
qed

lemma blocks_upd:
  "r \<notin> set as \<Longrightarrow> r \<notin> set bs \<Longrightarrow>
   concat (map (blocks(r := b)) (as @ r # bs)) = concat (map blocks as) @ b @ concat (map blocks bs)"
proof -
  assume "r \<notin> set as" "r \<notin> set bs"
  then have "map (blocks(r := b)) as = map blocks as" "map (blocks(r := b)) bs = map blocks bs" by auto
  then show ?thesis by (simp only: map_append list.map concat_append concat.simps fun_upd_same append_assoc)
qed

section \<open>The mixin is a highlighter\<close>

locale region_chart =
  fixes rr :: "int \<Rightarrow> bool \<Rightarrow> rendered"
    and n :: nat
    and gr :: "jsnum \<Rightarrow> jsnum \<Rightarrow> int option"
    and P :: "(nat \<times> drawing) list"
    and k :: nat
    and inpath :: "drawing \<Rightarrow> jsnum \<Rightarrow> jsnum \<Rightarrow> bool"
    and disabled :: bool
  assumes rr_kind: "same_kind (rr r b) (rr r False)"
    and rr_drawable: "d \<in> set (drawings (rr r b)) \<Longrightarrow> drawable d"
    and rr_some: "rr r b \<noteq> Several []"
begin

lemma change_shows:
  assumes sh: "bar_shows rr n P k h s" and cur: "currentRegion s = Some r"
  obtains s' where "bar_changeHighlight rr b s = Some s'" "bar_shows rr n P k (h(r := b)) s'"
    "currentRegion s' = currentRegion s"
proof (cases "0 \<le> r \<and> r < int n")
  case False
  then have "regionShapes s r = NoRef" using sh by (auto simp: bar_shows_def)
  moreover have "bar_shows rr n P k (h(r := b)) s"
  proof -
    have "(h(r := b)) (int q) = h (int q)" if "q < n" for q using False that by auto
    then show ?thesis using sh unfolding bar_shows_def by simp
  qed
  ultimately show ?thesis using that [of s] cur by (simp add: bar_changeHighlight_def)
next
  case True
  define q where "q = nat r"
  have q: "q < n" "int q = r" using True by (auto simp: q_def)
  obtain blocks where bl: "layers (vtarget s) = P @ concat (map blocks (rev [0..<n]))"
    "\<And>r. r < n \<Longrightarrow> block_ok (rr (int r)) (h (int r)) (regionShapes s (int r)) (blocks r)"
    "\<And>r l. r < n \<Longrightarrow> l \<in> set (blocks r) \<Longrightarrow> k \<le> fst l"
    and wf: "canvas_wf (vtarget s)" "interact (vtarget s)" "k \<le> shapeCount (vtarget s)"
    and out: "\<forall>r. r < 0 \<or> int n \<le> r \<longrightarrow> regionShapes s r = NoRef"
    using sh unfolding bar_shows_def by auto
  obtain as bs where ab: "rev [0..<n] = as @ q # bs" "q \<notin> set as" "q \<notin> set bs"
    by (rule region_split [OF q(1)])
  let ?A = "P @ concat (map blocks as)" and ?C = "concat (map blocks bs)"
  have lay: "layers (vtarget s) = ?A @ blocks q @ ?C" using bl(1) ab(1) by simp
  have shows_upd: "bar_shows rr n P k (h(r := b)) s'"
    if "layers (vtarget s') = ?A @ ls @ ?C" "block_ok (rr r) b (regionShapes s' r) ls"
      "\<forall>l \<in> set ls. k \<le> fst l" "canvas_wf (vtarget s')" "interact (vtarget s')"
      "k \<le> shapeCount (vtarget s')" "\<And>x. x \<noteq> r \<Longrightarrow> regionShapes s' x = regionShapes s x" for s' ls
    unfolding bar_shows_def
  proof (intro conjI exI [of _ "blocks(q := ls)"])
    show "layers (vtarget s') = P @ concat (map (blocks(q := ls)) (rev [0..<n]))"
      using that(1) blocks_upd [OF ab(2,3), of blocks ls] ab(1) by simp
    show "\<forall>x<n. block_ok (rr (int x)) ((h(r := b)) (int x)) (regionShapes s' (int x)) ((blocks(q := ls)) x) \<and>
        (\<forall>l\<in>set ((blocks(q := ls)) x). k \<le> fst l)"
      using that bl(2,3) q by auto
    show "\<forall>x. x < 0 \<or> int n \<le> x \<longrightarrow> regionShapes s' x = NoRef" using that(7) out True by auto
  qed (use that in auto)
  have ok: "block_ok (rr r) (h r) (regionShapes s r) (blocks q)" using bl(2) [OF q(1)] q(2) by simp
  show ?thesis
  proof (cases "regionShapes s r")
    case NoRef
    then show ?thesis using ok by simp
  next
    case NullRef
    then have "block_ok (rr r) b (regionShapes s r) (blocks q)"
      using ok rr_kind [of r b] rr_kind [of r "h r"] by (cases "rr r b"; cases "rr r False"; auto)
    then have "bar_shows rr n P k (h(r := b)) s"
      using lay wf bl(3) [OF q(1)] by (intro shows_upd [of s "blocks q"]) auto
    then show ?thesis using that [of s] cur NullRef by (simp add: bar_changeHighlight_def)
  next
    case (OneRef i)
    obtain d0 where d0: "rr r (h r \<and> i \<noteq> 0) = Single d0" "blocks q = [(i, d0)]" using ok OneRef by auto
    show ?thesis
    proof (cases "i = 0")
      case True
      then have "block_ok (rr r) b (regionShapes s r) (blocks q)" using d0 OneRef by simp
      then have "bar_shows rr n P k (h(r := b)) s"
        using lay wf bl(3) [OF q(1)] by (intro shows_upd [of s "blocks q"]) auto
      then show ?thesis using that [of s] cur OneRef True by (simp add: bar_changeHighlight_def)
    next
      case False
      obtain d where d: "rr r b = Single d" using rr_kind [of r b] rr_kind [of r "h r \<and> i \<noteq> 0"] d0(1)
        by (cases "rr r b"; cases "rr r False"; auto)
      obtain sh c where g: "genShape d (vtarget s) = (sh, c)" by force
      have dr: "drawable d" using rr_drawable [of d r b] d by simp
      let ?s = "s\<lparr>vtarget := replaceWithShape i sh c,
        regionShapes := (regionShapes s)(r := OneRef (sh_id sh))\<rparr>"
      have new: "canvas_wf (replaceWithShape i sh c)"
        "layers (replaceWithShape i sh c) = ?A @ [(sh_id sh, d)] @ ?C"
        using vcanvas.replace_new [OF wf(1) dr g, of ?A i d0 ?C] lay d0(2) by simp_all
      have id: "sh_id sh = shapeCount (vtarget s)" "shapeCount c = Suc (shapeCount (vtarget s))"
        "interact c" using genShape_spec(9,10,11) [OF g] wf(2) by simp_all
      have "0 < sh_id sh" using False wf(1) lay d0(2) canvas_wfD [OF wf(1), of i] id(1)
        by (metis append_is_Nil_conv fst_conv fst_layers gr0I in_set_conv_decomp less_nat_zero_code
            list.set_map map_append append_Cons image_eqI)
      then have "bar_shows rr n P k (h(r := b)) ?s"
        using new id wf d by (intro shows_upd [of ?s "[(sh_id sh, d)]"]) (auto simp: replace_keeps)
      then show ?thesis
        using that [of ?s] cur OneRef False d g by (simp add: bar_changeHighlight_def)
    qed
  next
    case (ManyRefs ids)
    obtain ds0 where ds0: "rr r (h r) = Several ds0" "mset (map snd (blocks q)) = mset ds0"
      "set ids = fst ` set (blocks q)" using ok ManyRefs by auto
    obtain ds where ds: "rr r b = Several ds" using rr_kind [of r b] rr_kind [of r "h r"] ds0(1)
      by (cases "rr r b"; cases "rr r False"; auto)
    have ne: "ds \<noteq> []" "blocks q \<noteq> []" using rr_some [of r b] rr_some [of r "h r"] ds ds0 by auto
    obtain shs c where g: "gen_all genShape ds (vtarget s) = (shs, c)" by force
    have dr: "\<forall>d \<in> set ds. drawable d" using rr_drawable [of _ r b] ds by simp
    let ?s = "s\<lparr>vtarget := replaceWithShapes ids shs c,
      regionShapes := (regionShapes s)(r := ManyRefs (map sh_id shs))\<rparr>"
    let ?ls = "zip (map sh_id shs) ds"
    have new: "canvas_wf (replaceWithShapes ids shs c)"
      "layers (replaceWithShapes ids shs c) = ?A @ ?ls @ ?C"
      by (rule vcanvas.replaces_new [OF wf(1) dr g lay ne(2) ds0(3) ne(1)])+
    note cnt = gen_all_count [OF g]
    have z: "map snd ?ls = ds" "map fst ?ls = map sh_id shs" using cnt by simp_all
    have "fst ` set ?ls = sh_id ` set shs" using z(2) by (metis list.set_map)
    moreover have "\<forall>l \<in> set ?ls. k \<le> fst l"
      using cnt wf(3) by (fastforce dest!: set_zip_leftD)
    ultimately have "bar_shows rr n P k (h(r := b)) ?s"
      using new wf cnt ds z(1) by (intro shows_upd [of ?s ?ls]) (auto simp: replace_keeps)
    then show ?thesis
      using that [of ?s] cur ManyRefs ds g by (simp add: bar_changeHighlight_def)
  qed
qed

end

sublocale region_chart \<subseteq> hl: highlighter "\<lambda>_. True" "bar_shows rr n P k"
  "\<lambda>x y s. Some (gr x y, s)" "bar_changeHighlight rr" inpath disabled
proof
  fix h and s :: bar_chart and r b
  assume "bar_shows rr n P k h s" "currentRegion s = Some r"
  then show "\<exists>s'. bar_changeHighlight rr b s = Some s' \<and> bar_shows rr n P k (h(r := b)) s' \<and>
      currentRegion s' = currentRegion s"
    using change_shows by metis
qed (auto simp: bar_shows_def)

text \<open>While the chart is drawn, the regions from \<open>i\<close> on are on the canvas.\<close>

definition bar_drawn_from ::
  "(int \<Rightarrow> bool \<Rightarrow> rendered) \<Rightarrow> nat \<Rightarrow> (nat \<times> drawing) list \<Rightarrow> nat \<Rightarrow> nat \<Rightarrow> bar_chart \<Rightarrow> bool" where
  "bar_drawn_from rr n P k i s \<longleftrightarrow>
     canvas_wf (vtarget s) \<and> interact (vtarget s) \<and> k \<le> shapeCount (vtarget s) \<and>
     currentRegion s = None \<and>
     (\<forall>r. r < int i \<or> int n \<le> r \<longrightarrow> regionShapes s r = NoRef) \<and>
     (\<exists>blocks. layers (vtarget s) = P @ concat (map blocks (rev [i..<n])) \<and>
        (\<forall>r. i \<le> r \<and> r < n \<longrightarrow> block_ok (rr (int r)) False (regionShapes s (int r)) (blocks r) \<and>
           (\<forall>l \<in> set (blocks r). k \<le> fst l)))"

lemma append_all_spec:
  "canvas_wf c \<Longrightarrow> distinct (map sh_id shs) \<Longrightarrow>
   \<forall>sh \<in> set shs. fresh_id (sh_id sh) c \<and> drawable (sh_draw sh) \<Longrightarrow>
   canvas_wf (append_all shs c) \<and> layers (append_all shs c) = layers c @ map layer shs \<and>
   shapeCount (append_all shs c) = shapeCount c \<and> interact (append_all shs c) = interact c"
proof (induction shs arbitrary: c)
  case (Cons sh shs)
  have a: "canvas_wf (appendShape sh c)" "layers (appendShape sh c) = layers c @ [layer sh]"
    using appendShape_spec [of c sh] Cons.prems by auto
  have "fresh_id (sh_id x) (appendShape sh c)" if "x \<in> set shs" for x
  proof -
    have "sh_id x \<noteq> sh_id sh" using Cons.prems(2) that by simp (metis imageI)
    then show ?thesis using Cons.prems(3) that by (simp add: fresh_id_def appendShape_def)
  qed
  then show ?case using Cons.IH [OF a(1)] Cons.prems a by (simp add: append_all_def replace_keeps)
qed (simp add: append_all_def)

context region_chart
begin

lemma drawn_step:
  assumes "bar_drawn_from rr n P k (Suc i) s" "i < n"
  shows "bar_drawn_from rr n P k i (bar_render_region rr (int i) s)"
proof -
  obtain blocks where bl: "layers (vtarget s) = P @ concat (map blocks (rev [Suc i..<n]))"
    "\<And>r. Suc i \<le> r \<Longrightarrow> r < n \<Longrightarrow> block_ok (rr (int r)) False (regionShapes s (int r)) (blocks r)"
    "\<And>r l. Suc i \<le> r \<Longrightarrow> r < n \<Longrightarrow> l \<in> set (blocks r) \<Longrightarrow> k \<le> fst l"
    and wf: "canvas_wf (vtarget s)" "interact (vtarget s)" "k \<le> shapeCount (vtarget s)"
    and out: "\<forall>r. r < int (Suc i) \<or> int n \<le> r \<longrightarrow> regionShapes s r = NoRef"
    and cur: "currentRegion s = None"
    using assms(1) unfolding bar_drawn_from_def by auto
  have list: "rev [i..<n] = rev [Suc i..<n] @ [i]" using assms(2) by (simp add: upt_conv_Cons)
  have next_ok: "bar_drawn_from rr n P k i s'"
    if "layers (vtarget s') = layers (vtarget s) @ ls" "canvas_wf (vtarget s')" "interact (vtarget s')"
      "k \<le> shapeCount (vtarget s')" "currentRegion s' = None"
      "regionShapes s' = (regionShapes s)(int i := ref)" "block_ok (rr (int i)) False ref ls"
      "\<forall>l \<in> set ls. k \<le> fst l" for s' ls ref
    unfolding bar_drawn_from_def
  proof (intro conjI exI [of _ "blocks(i := ls)"])
    show "layers (vtarget s') = P @ concat (map (blocks(i := ls)) (rev [i..<n]))"
      using that(1) bl(1) blocks_upd [of i "rev [Suc i..<n]" "[]" blocks ls] unfolding list by simp
    show "\<forall>r. r < int i \<or> int n \<le> r \<longrightarrow> regionShapes s' r = NoRef" using that(6) out assms(2) by auto
    show "\<forall>r. i \<le> r \<and> r < n \<longrightarrow>
        block_ok (rr (int r)) False (regionShapes s' (int r)) ((blocks(i := ls)) r) \<and>
        (\<forall>l\<in>set ((blocks(i := ls)) r). k \<le> fst l)"
    proof (intro allI impI)
      fix r assume "i \<le> r \<and> r < n"
      then show "block_ok (rr (int r)) False (regionShapes s' (int r)) ((blocks(i := ls)) r) \<and>
        (\<forall>l\<in>set ((blocks(i := ls)) r). k \<le> fst l)"
        using that(6,7,8) bl(2,3) [of r] by (cases "r = i") simp_all
    qed
  qed (use that in auto)
  show ?thesis
  proof (cases "rr (int i) False")
    case Nothing
    then show ?thesis
      by (intro next_ok [of _ "[]" NullRef]) (use wf cur in \<open>simp_all add: bar_render_region_def\<close>)
  next
    case (Single d)
    obtain sh c where g: "genShape d (vtarget s) = (sh, c)" by force
    have dr: "drawable d" using rr_drawable [of d "int i" False] Single by simp
    note new = vcanvas.append_new [OF wf(1) dr g] and gs = genShape_spec(9,10,11) [OF g]
    show ?thesis
      by (rule next_ok [of _ "[(sh_id sh, d)]" "OneRef (sh_id sh)"])
        (use wf cur new gs Single g in \<open>simp_all add: bar_render_region_def replace_keeps\<close>)
  next
    case (Several ds)
    obtain shs c where g: "gen_all genShape ds (vtarget s) = (shs, c)" by force
    have dr: "\<forall>d \<in> set ds. drawable d" using rr_drawable [of _ "int i" False] Several by simp
    note ga = vcanvas.gen_all_law [OF wf(1) g] and cnt = gen_all_count [OF g]
    define ls where "ls = map layer (rev shs)"
    have ap: "canvas_wf (append_all (rev shs) c)" "layers (append_all (rev shs) c) = layers c @ ls"
      "shapeCount (append_all (rev shs) c) = shapeCount c"
      "interact (append_all (rev shs) c) = interact c"
      using append_all_spec [of c "rev shs"] ga dr by (auto simp: rev_map [symmetric] ls_def)
    have "map snd ls = rev ds" using ga by (auto simp: ls_def layer_def o_def rev_map)
    then have m: "mset (map snd ls) = mset ds" by (simp only: mset_rev)
    have ids: "fst ` set ls = set (map sh_id (rev shs))" by (simp add: ls_def image_image layer_def)
    have lb: "\<forall>l \<in> set ls. k \<le> fst l" using cnt wf(3) by (fastforce simp: ls_def layer_def)
    have e: "bar_render_region rr (int i) s = s\<lparr>vtarget := append_all (rev shs) c,
        regionShapes := (regionShapes s)(int i := ManyRefs (map sh_id (rev shs)))\<rparr>"
      using Several g by (simp add: bar_render_region_def)
    have ok: "block_ok (rr (int i)) False (ManyRefs (map sh_id (rev shs))) ls"
      unfolding block_ok.simps using Several m ids by blast
    show ?thesis
      unfolding e by (rule next_ok [OF _ _ _ _ _ _ ok lb]) (use ap ga cnt wf cur in simp_all)
  qed
qed

lemma drawn_loop:
  "bar_drawn_from rr n P k i s \<Longrightarrow> i \<le> n \<Longrightarrow> bar_drawn_from rr n P k 0 (bar_render_loop rr i s)"
proof (induction i arbitrary: s)
  case (Suc i)
  then have "bar_drawn_from rr n P k i (bar_render_region rr (int i) s)" by (intro drawn_step) simp_all
  then show ?case using Suc.IH Suc.prems(2) by simp
qed simp

lemma render_shows:
  assumes "canvas_wf c" "interact c" "layers c = P" "k \<le> shapeCount c"
  obtains s where "bar_render inpath rr n (new_bar_chart c) = Some s" "hl.good s" "currentRegion s = None"
proof -
  let ?t = "bar_render_loop rr n (new_bar_chart c)"
  have "bar_drawn_from rr n P k n (new_bar_chart c)"
    using assms by (auto simp: bar_drawn_from_def new_bar_chart_def)
  then have d: "bar_drawn_from rr n P k 0 ?t" by (rule drawn_loop) simp
  have "bar_shows rr n P k (\<lambda>_. False) ?t"
    using d unfolding bar_drawn_from_def bar_shows_def by simp
  moreover have none: "currentRegion ?t = None" using d by (simp add: bar_drawn_from_def)
  moreover have "highlighted_region disabled ?t = (\<lambda>_. False)"
    using none by (simp add: highlighted_region_def fun_eq_iff)
  ultimately have g: "hl.good ?t" by (simp add: hl.good_def)
  obtain s where s: "repaint inpath ?t = Some s" "hl.good s" by (rule hl.repaint_good [OF g])
  have "currentRegion s = currentRegion ?t" using s(1) by (auto simp: repaint_def)
  then show ?thesis using that [of s] s none by (simp add: bar_render_def)
qed

text \<open>
  The life of a chart: drawn on a canvas and then exposed to any sequence of mouse movements,
  repaints and shapes of other charts, it never throws and shows the current region highlighted.
\<close>

lemma life_shows:
  assumes "canvas_wf c" "interact c" "layers c = P" "k \<le> shapeCount c"
  obtains s t where "bar_render inpath rr n (new_bar_chart c) = Some s"
    "fold (spark_step inpath disabled (\<lambda>x y s. Some (gr x y, s)) (bar_changeHighlight rr)) es (Some s) = Some t"
    "bar_shows rr n P k (highlighted_region disabled t) t"
proof -
  obtain s where s: "bar_render inpath rr n (new_bar_chart c) = Some s" "hl.good s"
    by (rule render_shows [OF assms])
  obtain t where "fold (spark_step inpath disabled (\<lambda>x y s. Some (gr x y, s)) (bar_changeHighlight rr)) es (Some s) = Some t"
    "bar_shows rr n P k (highlighted_region disabled t) t"
    using hl.history_shows [OF s(2)] by metis
  then show ?thesis using that s(1) by metis
qed

end

section \<open>The picture of a chart\<close>

definition chart_picture :: "(int \<Rightarrow> bool \<Rightarrow> rendered) \<Rightarrow> nat \<Rightarrow> (int \<Rightarrow> bool) \<Rightarrow> drawing list" where
  "chart_picture rr n h = concat (map (\<lambda>r. drawings (rr (int r) (h (int r)))) (rev [0..<n]))"

lemma block_ok_drawings:
  "block_ok rr hl ref ls \<Longrightarrow> \<forall>l \<in> set ls. 0 < fst l \<Longrightarrow> mset (map snd ls) = mset (drawings (rr hl))"
  by (cases ref) auto

lemma block_ok_drawings_eq:
  "block_ok rr hl ref ls \<Longrightarrow> \<forall>l \<in> set ls. 0 < fst l \<Longrightarrow> \<forall>ds. rr hl \<noteq> Several ds \<Longrightarrow>
   map snd ls = drawings (rr hl)"
  by (cases ref) auto

lemma mset_concat_cong:
  "(\<And>x. x \<in> set xs \<Longrightarrow> mset (f x) = mset (g x)) \<Longrightarrow> mset (concat (map f xs)) = mset (concat (map g xs))"
  by (induction xs) auto

lemma bar_shows_picture:
  assumes "bar_shows rr n P k h s" "0 < k"
  shows "mset (map snd (layers (vtarget s))) = mset (map snd P) + mset (chart_picture rr n h)"
proof -
  obtain blocks where bl: "layers (vtarget s) = P @ concat (map blocks (rev [0..<n]))"
    "\<And>r. r < n \<Longrightarrow> block_ok (rr (int r)) (h (int r)) (regionShapes s (int r)) (blocks r)"
    "\<And>r l. r < n \<Longrightarrow> l \<in> set (blocks r) \<Longrightarrow> k \<le> fst l"
    using assms(1) unfolding bar_shows_def by auto
  have "mset (map snd (blocks r)) = mset (drawings (rr (int r) (h (int r))))" if "r < n" for r
    using bl(2,3) [OF that] assms(2) by (intro block_ok_drawings) fastforce+
  then have "mset (concat (map (\<lambda>r. map snd (blocks r)) (rev [0..<n]))) = mset (chart_picture rr n h)"
    unfolding chart_picture_def by (intro mset_concat_cong) simp
  then show ?thesis by (simp add: bl(1) map_concat o_def)
qed

lemma bar_shows_picture_eq:
  assumes "bar_shows rr n P k h s" "0 < k" "\<And>r b ds. rr r b \<noteq> Several ds"
  shows "map snd (layers (vtarget s)) = map snd P @ chart_picture rr n h"
proof -
  obtain blocks where bl: "layers (vtarget s) = P @ concat (map blocks (rev [0..<n]))"
    "\<And>r. r < n \<Longrightarrow> block_ok (rr (int r)) (h (int r)) (regionShapes s (int r)) (blocks r)"
    "\<And>r l. r < n \<Longrightarrow> l \<in> set (blocks r) \<Longrightarrow> k \<le> fst l"
    using assms(1) unfolding bar_shows_def by auto
  have "map snd (blocks r) = drawings (rr (int r) (h (int r)))" if "r < n" for r
    using bl(2,3) [OF that] assms(2,3) by (intro block_ok_drawings_eq) fastforce+
  then have "map (\<lambda>r. map snd (blocks r)) (rev [0..<n]) = map (\<lambda>r. drawings (rr (int r) (h (int r)))) (rev [0..<n])"
    by simp
  from arg_cong [OF this, of concat] show ?thesis by (simp add: bl(1) map_concat o_def chart_picture_def)
qed

end
