(* ===== verification/Spark_Bars.thy ===== *)
theory Spark_Bars
  imports Spark_Mixin
begin

text \<open>
  The three charts of \<open>js/jquery.sparkline.js\<close> that use the mixin: tristate, discrete and bar. Each
  has its configuration (what \<open>init\<close> computes from the options and the values), its \<open>renderRegion\<close>
  and its \<open>getRegion\<close>, and an interpretation of \<open>region_chart\<close> on them.

  The pixel sizes of the canvas are numbers here (the code may hold their decimal text and only
  subtracts, multiplies and compares them).
\<close>

section \<open>Colours by index or value\<close>

text \<open>\<open>ByValue\<close> is the \<open>get\<close> of a range map, or of the object the user passed instead.\<close>

datatype color_map = NoColorMap | ByIndex "colour list" | ByValue "jsnum \<Rightarrow> colour"

definition truthy_colour :: "colour \<Rightarrow> bool" where
  "truthy_colour c \<longleftrightarrow> c \<noteq> None \<and> c \<noteq> Some []"

definition mapped_colour :: "color_map \<Rightarrow> jsnum \<Rightarrow> int \<Rightarrow> colour option" where
  "mapped_colour m value valuenum =
     (case m of
        NoColorMap \<Rightarrow> None
      | ByValue get \<Rightarrow> if truthy_colour (get value) then Some (get value) else None
      | ByIndex cs \<Rightarrow>
          if int (length cs) > valuenum
          then Some (case js_nth cs valuenum of None \<Rightarrow> None | Some c \<Rightarrow> c) else None)"

definition hl_colour :: "bool \<Rightarrow> hl_options \<Rightarrow> colour \<Rightarrow> colour" where
  "hl_colour highlight opts color = (if highlight then calcHighlightColor color opts else color)"

section \<open>Tristate charts\<close>

text \<open>A colour of the options may be \<open>null\<close> (\<open>None\<close>): the region is then not drawn.\<close>

record tristate_cfg =
  ts_values :: "jsnum list"
  ts_barWidth :: jsnum
  ts_totalBarWidth :: jsnum
  ts_colorMap :: color_map
  posBarColor :: "colour option"
  negBarColor :: "colour option"
  zeroBarColor :: "colour option"
  ts_hl :: hl_options

definition tristate_init ::
  "jsval list \<Rightarrow> jsnum \<Rightarrow> jsnum \<Rightarrow> color_map \<Rightarrow> colour option \<Rightarrow> colour option \<Rightarrow> colour option \<Rightarrow> hl_options \<Rightarrow>
   tristate_cfg" where
  "tristate_init values barWidth barSpacing cm pos neg zero hl =
     \<lparr>ts_values = map to_num values, ts_barWidth = barWidth, ts_totalBarWidth = barWidth + barSpacing,
      ts_colorMap = cm, posBarColor = pos, negBarColor = neg, zeroBarColor = zero, ts_hl = hl\<rparr>"

definition tristate_calcColor :: "tristate_cfg \<Rightarrow> jsnum \<Rightarrow> int \<Rightarrow> colour option" where
  "tristate_calcColor t value valuenum =
     (case mapped_colour (ts_colorMap t) value valuenum of
        Some c \<Rightarrow> Some c
      | None \<Rightarrow>
          if num_at (ts_values t) valuenum < Fin 0 then negBarColor t
          else if num_at (ts_values t) valuenum > Fin 0 then posBarColor t
          else zeroBarColor t)"

definition tristate_renderRegion :: "tristate_cfg \<Rightarrow> jsnum \<Rightarrow> int \<Rightarrow> bool \<Rightarrow> rendered" where
  "tristate_renderRegion t cheight valuenum highlight =
     (let v = num_at (ts_values t) valuenum;
          halfHeight = num_round (cheight / Fin 2);
          x = Fin (of_int valuenum) * ts_totalBarWidth t;
          (y, height) =
            (if v < Fin 0 then (halfHeight, halfHeight - Fin 1)
             else if v > Fin 0 then (Fin 0, halfHeight - Fin 1)
             else (halfHeight - Fin 1, Fin 2))
      in case tristate_calcColor t v valuenum of
           None \<Rightarrow> Nothing
         | Some c \<Rightarrow>
             (let color = hl_colour highlight (ts_hl t) c in
              Single (drawRect x y (ts_barWidth t - Fin 1) (height - Fin 1) color color)))"

definition tristate_getRegion :: "tristate_cfg \<Rightarrow> jsnum \<Rightarrow> jsnum \<Rightarrow> int option" where
  "tristate_getRegion t x y = floor_region x (ts_totalBarWidth t)"

section \<open>Discrete charts\<close>

record range_opts =
  chartRangeMin :: "jsnum option"
  chartRangeMax :: "jsnum option"
  chartRangeClip :: bool

definition range_min :: "range_opts \<Rightarrow> jsnum \<Rightarrow> jsnum" where
  "range_min ro m =
     (case chartRangeMin ro of None \<Rightarrow> m | Some r \<Rightarrow> if chartRangeClip ro \<or> r < m then r else m)"

definition range_max :: "range_opts \<Rightarrow> jsnum \<Rightarrow> jsnum" where
  "range_max ro m =
     (case chartRangeMax ro of None \<Rightarrow> m | Some r \<Rightarrow> if chartRangeClip ro \<or> r > m then r else m)"

record discrete_cfg =
  dc_values :: "jsnum list"
  dc_min :: jsnum
  dc_max :: jsnum
  dc_range :: jsnum
  dc_interval :: jsnum
  dc_itemWidth :: jsnum
  dc_canvasHeight :: jsnum
  dc_lineHeight :: jsnum
  dc_lineColor :: colour
  thresholdColor :: colour
  thresholdValue :: jsnum
  dc_hl :: hl_options

text \<open>\<open>width\<close> is \<open>None\<close> for \<open>'auto'\<close>, and so is \<open>lineHeight\<close>.\<close>

definition discrete_init ::
  "jsval list \<Rightarrow> jsnum option \<Rightarrow> range_opts \<Rightarrow> jsnum \<Rightarrow> jsnum option \<Rightarrow> colour \<Rightarrow> colour \<Rightarrow> jsnum \<Rightarrow>
   hl_options \<Rightarrow> discrete_cfg" where
  "discrete_init vals width ro cheight lineHeight lineColor tc tv hl =
     (let values = map to_num vals;
          mn = math_min values;
          mx = math_max values;
          w = (case width of None \<Rightarrow> Fin (of_nat (length values) * 2) | Some w \<Rightarrow> w)
      in \<lparr>dc_values = values, dc_min = range_min ro mn, dc_max = range_max ro mx, dc_range = mx - mn,
          dc_interval = num_floor (w / Fin (of_nat (length values))),
          dc_itemWidth = w / Fin (of_nat (length values)), dc_canvasHeight = cheight,
          dc_lineHeight = (case lineHeight of None \<Rightarrow> num_round (cheight * Fin (3 / 10)) | Some l \<Rightarrow> l),
          dc_lineColor = lineColor, thresholdColor = tc, thresholdValue = tv, dc_hl = hl\<rparr>)"

definition discrete_renderRegion :: "discrete_cfg \<Rightarrow> int \<Rightarrow> bool \<Rightarrow> rendered" where
  "discrete_renderRegion d valuenum highlight =
     (let pheight = dc_canvasHeight d - dc_lineHeight d;
          val = clipval (num_at (dc_values d) valuenum) (dc_min d) (dc_max d);
          x = Fin (of_int valuenum) * dc_interval d;
          ytop = num_round (pheight - pheight * ((val - dc_min d) / dc_range d));
          color = (if truthy_colour (thresholdColor d) \<and> val < thresholdValue d
                   then thresholdColor d else dc_lineColor d);
          color = hl_colour highlight (dc_hl d) color
      in Single (drawLine x ytop x (ytop + dc_lineHeight d) color None))"

definition discrete_getRegion :: "discrete_cfg \<Rightarrow> jsnum \<Rightarrow> jsnum \<Rightarrow> int option" where
  "discrete_getRegion d x y = floor_region x (dc_itemWidth d)"

section \<open>Bar charts\<close>

text \<open>A colour of the options may be an array, from which the position in the stack selects.\<close>

datatype bar_colour = Plain colour | PerStack "colour list"

record bar_opts =
  bo_barWidth :: jsnum
  bo_barSpacing :: jsnum
  bo_range :: range_opts
  zeroAxis :: bool
  bo_barColor :: bar_colour
  bo_negBarColor :: bar_colour
  bo_zeroColor :: "bar_colour option"
  bo_stackedBarColor :: bar_colour
  nullColor :: colour
  bo_colorMap :: color_map
  bo_hl :: hl_options

record bar_cfg =
  bar_values :: "jsval list"
  stacked :: bool
  totalBarWidth :: jsnum
  xaxisOffset :: jsnum
  bar_range :: jsnum
  canvasHeightEf :: jsnum
  yoffset :: jsnum
  bar_options :: bar_opts

text \<open>The first pass of \<open>init\<close>: a value \<open>a:b:c\<close> becomes an array; stacked if there is an array.\<close>

definition scan_value :: "jsval \<Rightarrow> jsval" where
  "scan_value v =
     (case v of
        VStr s \<Rightarrow> if CHR '':'' \<in> set s then VArr (normalizeValues (map VStr (split_colon s))) else v
      | _ \<Rightarrow> v)"

fun stack_of :: "jsval \<Rightarrow> jsval list option" where
  "stack_of (VArr vs) = Some vs"
| "stack_of _ = None"

definition scan_min :: "jsval list \<Rightarrow> jsnum" where
  "scan_min values =
     foldl (\<lambda>m v. case stack_of v of None \<Rightarrow> m
       | Some vs \<Rightarrow> (let g = math_min (map to_num (remove_val vs VNull)) in if g < m then g else m))
       PosInf values"

definition scan_max :: "jsval list \<Rightarrow> jsnum" where
  "scan_max values =
     foldl (\<lambda>m v. case stack_of v of None \<Rightarrow> m
       | Some vs \<Rightarrow> (let g = math_max (map to_num (remove_val vs VNull)) in if g > m then g else m))
       NegInf values"

definition clip_value :: "range_opts \<Rightarrow> jsval \<Rightarrow> jsval" where
  "clip_value ro v =
     (if chartRangeClip ro then
        (let lo = (case chartRangeMin ro of None \<Rightarrow> NegInf | Some r \<Rightarrow> r);
             hi = (case chartRangeMax ro of None \<Rightarrow> PosInf | Some r \<Rightarrow> r)
         in if to_num v < lo then VNum lo else if to_num v > hi then VNum hi else v)
      else v)"

text \<open>The parts of a stack; a plain number has no \<open>length\<close> and counts as an empty stack.\<close>

definition stack_parts :: "range_opts \<Rightarrow> jsval \<Rightarrow> jsval list" where
  "stack_parts ro v = (case stack_of v of None \<Rightarrow> [] | Some vs \<Rightarrow> map (clip_value ro) vs)"

definition num_sum :: "jsnum list \<Rightarrow> jsnum" where
  "num_sum xs = foldl (+) (Fin 0) xs"

definition stack_total :: "jsval list \<Rightarrow> jsnum" where
  "stack_total vs = num_sum (filter (\<lambda>x. x > Fin 0) (map to_num (filter (\<lambda>v. v \<noteq> VNull) vs)))"

definition stack_range :: "jsnum \<Rightarrow> jsnum \<Rightarrow> jsval list \<Rightarrow> jsnum" where
  "stack_range stackMin stackMax vs =
     (let xs = map to_num (filter (\<lambda>v. v \<noteq> VNull) vs) in
      if stackMin < Fin 0 \<and> stackMax > Fin 0
      then num_sum (filter (\<lambda>x. \<not> x < Fin 0) xs)
      else num_sum (map (\<lambda>x. num_abs (x - (if x < Fin 0 then stackMax else stackMin))) xs))"

definition stack_range_neg :: "jsnum \<Rightarrow> jsnum \<Rightarrow> jsval list \<Rightarrow> jsnum" where
  "stack_range_neg stackMin stackMax vs =
     (let xs = map to_num (filter (\<lambda>v. v \<noteq> VNull) vs) in
      if stackMin < Fin 0 \<and> stackMax > Fin 0
      then num_sum (map num_abs (filter (\<lambda>x. x < Fin 0) xs)) else Fin 0)"

definition is_stacked :: "jsval list \<Rightarrow> bool" where
  "is_stacked values \<longleftrightarrow> (\<exists>v \<in> set values. stack_of v \<noteq> None)"

text \<open>The values as the chart keeps them, and the numbers among them.\<close>

definition bar_kept :: "range_opts \<Rightarrow> jsval list \<Rightarrow> jsval list" where
  "bar_kept ro values =
     (if is_stacked values then map (\<lambda>v. VArr (stack_parts ro v)) values
      else map (\<lambda>v. normalizeValue (clip_value ro v)) values)"

definition bar_numbers :: "jsval list \<Rightarrow> jsnum list" where
  "bar_numbers kept =
     map to_num (filter (\<lambda>v. v \<noteq> VNull)
       (concat (map (\<lambda>v. case stack_of v of Some vs \<Rightarrow> vs | None \<Rightarrow> [v]) kept)))"

definition axis_offset :: "bool \<Rightarrow> jsnum \<Rightarrow> jsnum \<Rightarrow> jsnum" where
  "axis_offset za mn mx =
     (if mn \<le> Fin 0 \<and> mx \<ge> Fin 0 \<and> za then Fin 0
      else if \<not> za then mn
      else if mn > Fin 0 then mn else mx)"

definition bar_init :: "bar_opts \<Rightarrow> jsval list \<Rightarrow> jsnum \<Rightarrow> bar_cfg" where
  "bar_init opts vals cheight =
     (let values = map scan_value vals;
          st = is_stacked values;
          sMin = scan_min values;
          sMax = scan_max values;
          kept = bar_kept (bo_range opts) values;
          numValues = bar_numbers kept;
          stacks = map (\<lambda>v. case stack_of v of Some vs \<Rightarrow> vs | None \<Rightarrow> [v]) kept;
          mx0 = math_max numValues;
          mn0 = math_min numValues;
          stackMax = (if st then math_max (map stack_total stacks) else mx0);
          mn = range_min (bo_range opts) mn0;
          mx = range_max (bo_range opts) mx0;
          za = zeroAxis opts;
          xo = axis_offset za mn mx;
          rng = (if st then math_max (map (stack_range sMin sMax) stacks) +
                              math_max (map (stack_range_neg sMin sMax) stacks)
                   else mx - mn);
          ef = (if za \<and> mn < Fin 0 then cheight - Fin 2 else cheight - Fin 1);
          yo = ((if st \<and> mx \<ge> Fin 0 then stackMax else mx) - xo) / rng * cheight
      in \<lparr>bar_values = kept, stacked = st, totalBarWidth = bo_barWidth opts + bo_barSpacing opts,
          xaxisOffset = xo, bar_range = rng,
          canvasHeightEf = (if mn < xo \<and> \<not> js_eq yo (num_ceil yo) then ef - Fin 2 else ef),
          yoffset = (if mn < xo then num_ceil yo else cheight),
          bar_options = opts\<rparr>)"

text \<open>The width that \<open>init\<close> asks for: bars and the spaces between them.\<close>

definition bar_width :: "bar_opts \<Rightarrow> nat \<Rightarrow> jsnum" where
  "bar_width opts n = Fin (of_nat n) * bo_barWidth opts + (Fin (of_nat n) - Fin 1) * bo_barSpacing opts"

definition bar_calcColor :: "bar_cfg \<Rightarrow> nat \<Rightarrow> jsnum \<Rightarrow> int \<Rightarrow> colour" where
  "bar_calcColor b stacknum value valuenum =
     (let opts = bar_options b;
          color = (if stacked b then bo_stackedBarColor opts
                   else if value < Fin 0 then bo_negBarColor opts else bo_barColor opts);
          color = (case bo_zeroColor opts of
                     Some z \<Rightarrow> if js_eq value (Fin 0) then z else color
                   | None \<Rightarrow> color);
          color = (case mapped_colour (bo_colorMap opts) value valuenum of Some c \<Rightarrow> Plain c | None \<Rightarrow> color)
      in case color of
           Plain c \<Rightarrow> c
         | PerStack cs \<Rightarrow> if cs = [] then None else cs ! (stacknum mod length cs))"

text \<open>The loop of \<open>renderRegion\<close> over the parts of a bar.\<close>

fun bar_parts ::
  "bar_cfg \<Rightarrow> int \<Rightarrow> bool \<Rightarrow> bool \<Rightarrow> nat \<Rightarrow> jsval list \<Rightarrow> bool \<Rightarrow> jsnum \<Rightarrow> jsnum \<Rightarrow> drawing list" where
  "bar_parts b valuenum highlight allMin i [] minPlotted yoff yoffNeg = []"
| "bar_parts b valuenum highlight allMin i (v # vs) minPlotted yoff yoffNeg =
     (let at_axis = strict_eq v (VNum (xaxisOffset b)); val = to_num v in
      if stacked b \<and> at_axis \<and> (\<not> allMin \<or> minPlotted)
      then bar_parts b valuenum highlight allMin (Suc i) vs minPlotted yoff yoffNeg
      else
        (let minPlotted = (minPlotted \<or> stacked b \<and> at_axis);
             height = (if bar_range b > Fin 0
                       then num_floor (canvasHeightEf b * (num_abs (val - xaxisOffset b) / bar_range b)) + Fin 1
                       else Fin 1);
             below = (val < xaxisOffset b \<or> at_axis \<and> js_eq yoff (Fin 0));
             y = (if below then yoffNeg else yoff - height);
             color = hl_colour highlight (bo_hl (bar_options b)) (bar_calcColor b i val valuenum);
             x = Fin (of_int valuenum) * totalBarWidth b
         in drawRect x y (bo_barWidth (bar_options b) - Fin 1) (height - Fin 1) color color #
            bar_parts b valuenum highlight allMin (Suc i) vs minPlotted
              (if below then yoff else yoff - height) (if below then yoffNeg + height else yoffNeg)))"

definition one_or_several :: "drawing list \<Rightarrow> rendered" where
  "one_or_several ds = (case ds of [d] \<Rightarrow> Single d | _ \<Rightarrow> Several ds)"

lemma one_or_several:
  "drawings (one_or_several ds) = ds" "ds \<noteq> [] \<Longrightarrow> one_or_several ds \<noteq> Several []"
  "length ds = length es \<Longrightarrow> same_kind (one_or_several ds) (one_or_several es)"
  by (cases ds; cases es; auto simp: one_or_several_def split: list.splits)+

definition bar_renderRegion :: "bar_cfg \<Rightarrow> int \<Rightarrow> bool \<Rightarrow> rendered" where
  "bar_renderRegion b valuenum highlight =
     (let opts = bar_options b;
          vals = (case js_nth (bar_values b) valuenum of None \<Rightarrow> [VUndef] | Some v \<Rightarrow> ensureArray v);
          allMin = all_val (VNum (xaxisOffset b)) vals True
      in if all_val VNull vals False then
           (if truthy_colour (nullColor opts) then
              (let color = (if highlight then nullColor opts else calcHighlightColor (nullColor opts) (bo_hl opts));
                   y = (if yoffset b > Fin 0 then yoffset b - Fin 1 else yoffset b);
                   x = Fin (of_int valuenum) * totalBarWidth b
               in Single (drawRect x y (bo_barWidth opts - Fin 1) (Fin 0) color color))
            else Nothing)
         else
           one_or_several (bar_parts b valuenum highlight allMin 0 vals False (yoffset b) (yoffset b)))"

definition bar_getRegion :: "bar_cfg \<Rightarrow> jsnum \<Rightarrow> jsnum \<Rightarrow> int option" where
  "bar_getRegion b x y =
     (case floor_region x (totalBarWidth b) of
        None \<Rightarrow> None
      | Some r \<Rightarrow> if r < 0 \<or> r \<ge> int (length (bar_values b)) then None else Some r)"

section \<open>The three charts are region charts\<close>

lemma drawable_rect [simp]: "drawable (drawRect x y w h lc fc)"
  by (simp add: drawable_def drawRect_def)

lemma drawable_line [simp]: "drawable (drawLine x1 y1 x2 y2 lc lw)"
  by (simp add: drawable_def drawLine_def drawShape_def)

interpretation tristate: region_chart "tristate_renderRegion t hgt" "length (ts_values t)"
  "tristate_getRegion t" P k inpath "disableHighlight (ts_hl t)"
  for t hgt P k inpath
  by unfold_locales
    (auto simp: tristate_renderRegion_def Let_def split: option.splits prod.splits if_splits)

interpretation discrete: region_chart "discrete_renderRegion d" "length (dc_values d)"
  "discrete_getRegion d" P k inpath "disableHighlight (dc_hl d)"
  for d P k inpath
  by unfold_locales (auto simp: discrete_renderRegion_def Let_def)

lemma bar_parts_length:
  "length (bar_parts b n hl am i vs mp yo yn) = length (bar_parts b n False am i vs mp yo yn)"
proof (induction vs arbitrary: i mp yo yn)
  case (Cons v vs)
  then show ?case by (simp only: bar_parts.simps Let_def list.size if_distrib [of length])
qed simp

lemma bar_parts_drawable: "d \<in> set (bar_parts b n hl am i vs mp yo yn) \<Longrightarrow> drawable d"
  by (induction vs arbitrary: i mp yo yn) (auto simp: Let_def split: if_splits)

text \<open>A bar with a value that is not null has a part: if all are on the axis, the first is drawn.\<close>

lemma bar_parts_ne:
  "\<not> all_val VNull vs False \<Longrightarrow> am = all_val (VNum (xaxisOffset b)) vs True \<Longrightarrow>
   bar_parts b n hl am i vs False yo yn \<noteq> []"
proof -
  have off: "bar_parts b n hl False i vs mp yo yn \<noteq> []"
    if "\<not> all_val (VNum (xaxisOffset b)) vs True" for i mp yo yn
    using that
  proof (induction vs arbitrary: i mp yo yn)
    case (Cons v vs)
    then show ?case by (cases v) (auto simp: Let_def split: if_splits)
  qed simp
  assume "\<not> all_val VNull vs False" and am: "am = all_val (VNum (xaxisOffset b)) vs True"
  then have "vs \<noteq> []" by auto
  show ?thesis
  proof (cases am)
    case True
    then show ?thesis using \<open>vs \<noteq> []\<close> by (cases vs) (simp_all add: Let_def)
  next
    case False
    then show ?thesis using off am by simp
  qed
qed

lemma bar_render_kind: "same_kind (bar_renderRegion b n hl) (bar_renderRegion b n False)"
  using bar_parts_length [of b n hl] by (simp add: bar_renderRegion_def Let_def one_or_several)

interpretation bar: region_chart "bar_renderRegion b" "length (bar_values b)"
  "bar_getRegion b" P k inpath "disableHighlight (bo_hl (bar_options b))"
  for b P k inpath
proof unfold_locales
  show "same_kind (bar_renderRegion b r hl) (bar_renderRegion b r False)" for r hl
    by (rule bar_render_kind)
  show "drawable d" if "d \<in> set (drawings (bar_renderRegion b r hl))" for d r hl
    using that bar_parts_drawable
    by (auto simp: bar_renderRegion_def Let_def one_or_several split: if_splits)
  show "bar_renderRegion b r hl \<noteq> Several []" for r hl
    using bar_parts_ne by (auto simp: bar_renderRegion_def Let_def one_or_several)
qed

end
