(* ===== verification/Spark_Bar_Props.thy ===== *)
theory Spark_Bar_Props
  imports Spark_Bars
begin

text \<open>
  Properties of the bar, tristate and discrete charts. The history properties come from the
  interpretations of \<open>region_chart\<close>; the geometric ones from the arithmetic of \<open>init\<close> and
  \<open>renderRegion\<close>.
\<close>

section \<open>Histories\<close>

text \<open>What the page shows of a chart: the drawings on its canvas, in order.\<close>

abbreviation picture :: "('r, 'a) spark_base_scheme \<Rightarrow> drawing list" where
  "picture s \<equiv> map snd (layers (vtarget s))"

abbreviation bar_step where
  "bar_step inpath b \<equiv> spark_step inpath (disableHighlight (bo_hl (bar_options b)))
     (\<lambda>x y s. Some (bar_getRegion b x y, s)) (bar_changeHighlight (bar_renderRegion b))"

abbreviation tristate_step where
  "tristate_step inpath t H \<equiv> spark_step inpath (disableHighlight (ts_hl t))
     (\<lambda>x y s. Some (tristate_getRegion t x y, s)) (bar_changeHighlight (tristate_renderRegion t H))"

abbreviation discrete_step where
  "discrete_step inpath d \<equiv> spark_step inpath (disableHighlight (dc_hl d))
     (\<lambda>x y s. Some (discrete_getRegion d x y, s)) (bar_changeHighlight (discrete_renderRegion d))"

text \<open>A chart of three bars, for the witnesses.\<close>

definition demo_hl :: hl_options where
  "demo_hl = \<lparr>disableHighlight = False, highlightColor = None, highlightLighten = 7 / 5\<rparr>"

definition demo_bar_opts :: bar_opts where
  "demo_bar_opts =
     \<lparr>bo_barWidth = Fin 4, bo_barSpacing = Fin 1,
      bo_range = \<lparr>chartRangeMin = None, chartRangeMax = None, chartRangeClip = False\<rparr>, zeroAxis = True,
      bo_barColor = Plain (Some ''#3366cc''), bo_negBarColor = Plain (Some ''#f44''), bo_zeroColor = None,
      bo_stackedBarColor = PerStack [Some ''#3366cc'', Some ''#dc3912''], nullColor = None,
      bo_colorMap = NoColorMap, bo_hl = demo_hl\<rparr>"

definition demo_canvas :: canvas where
  "demo_canvas = new_canvas (Fin 15) (Fin 20) True 1"

definition demo_bar :: bar_cfg where
  "demo_bar = bar_init demo_bar_opts [VNum (Fin 3), VNum (Fin (-2)), VNum (Fin 5)] (Fin 20)"

definition demo_tristate :: tristate_cfg where
  "demo_tristate = tristate_init [VNum (Fin 1), VNum (Fin (-1)), VNum (Fin 0)] (Fin 4) (Fin 1) NoColorMap
     (Some (Some ''#6f6'')) (Some (Some ''#f44'')) (Some (Some ''#999'')) demo_hl"

definition demo_discrete :: discrete_cfg where
  "demo_discrete = discrete_init [VNum (Fin 5), VNum (Fin 10)] None
     \<lparr>chartRangeMin = None, chartRangeMax = None, chartRangeClip = False\<rparr> (Fin 20) None
     (Some ''#00f'') None (Fin 0) demo_hl"

lemma demo_canvas_ok: "canvas_wf demo_canvas" "interact demo_canvas" "0 < shapeCount demo_canvas"
  by (simp_all add: demo_canvas_def) (simp_all add: new_canvas_def)

text \<open>
  C4: a bar chart that is not the first drawing of the page (the shape counter is past 0), once drawn on a
  canvas, survives every history of mouse movements, repaints and shapes drawn elsewhere on the page
  without a thrown error, and its canvas then holds the drawings that were there before it and, of its own,
  exactly those of its bars, the current one highlighted and all others plain. The order within a stack may
  change. (The bar whose shape has the id 0 is never highlighted: \<open>discrete_first_shape_plain\<close>.)
\<close>

theorem bar_history_picture:
  assumes "canvas_wf c" "interact c" "0 < shapeCount c"
  obtains s t where "bar_render inpath (bar_renderRegion b) (length (bar_values b)) (new_bar_chart c) = Some s"
    "fold (bar_step inpath b) es (Some s) = Some t"
    "mset (picture t) = mset (map snd (layers c)) +
       mset (chart_picture (bar_renderRegion b) (length (bar_values b))
         (highlighted_region (disableHighlight (bo_hl (bar_options b))) t))"
proof -
  obtain s t where st: "bar_render inpath (bar_renderRegion b) (length (bar_values b)) (new_bar_chart c) = Some s"
    "fold (bar_step inpath b) es (Some s) = Some t"
    "bar_shows (bar_renderRegion b) (length (bar_values b)) (layers c) (shapeCount c)
      (highlighted_region (disableHighlight (bo_hl (bar_options b))) t) t"
    by (rule bar.life_shows [OF assms(1,2) refl order_refl, of inpath b es])
  show ?thesis using that [OF st(1,2)] bar_shows_picture [OF st(3) assms(3)] by simp
qed

lemma bar_history_picture_witness:
  "\<exists>s t. bar_render (\<lambda>_ _ _. False) (bar_renderRegion demo_bar) (length (bar_values demo_bar))
       (new_bar_chart demo_canvas) = Some s \<and>
     fold (bar_step (\<lambda>_ _ _. False) demo_bar) [Hover (Fin 3) (Fin 2), Repaint, Leave] (Some s) = Some t"
  by (rule bar_history_picture [OF demo_canvas_ok, of "\<lambda>_ _ _. False" demo_bar
        "[Hover (Fin 3) (Fin 2), Repaint, Leave]"]) blast

text \<open>
  A tristate chart shows, after every history, exactly the drawings of its regions in order, the
  current one highlighted.
\<close>

theorem tristate_history_picture:
  assumes "canvas_wf c" "interact c" "0 < shapeCount c"
  obtains s u where "bar_render inpath (tristate_renderRegion t H) (length (ts_values t)) (new_bar_chart c) = Some s"
    "fold (tristate_step inpath t H) es (Some s) = Some u"
    "picture u = map snd (layers c) @
       chart_picture (tristate_renderRegion t H) (length (ts_values t))
         (highlighted_region (disableHighlight (ts_hl t)) u)"
proof -
  obtain s u where su: "bar_render inpath (tristate_renderRegion t H) (length (ts_values t)) (new_bar_chart c) = Some s"
    "fold (tristate_step inpath t H) es (Some s) = Some u"
    "bar_shows (tristate_renderRegion t H) (length (ts_values t)) (layers c) (shapeCount c)
      (highlighted_region (disableHighlight (ts_hl t)) u) u"
    by (rule tristate.life_shows [OF assms(1,2) refl order_refl, of inpath t H es])
  have "tristate_renderRegion t H r hl \<noteq> Several ds" for r hl ds
    by (auto simp: tristate_renderRegion_def Let_def split: option.splits prod.splits if_splits)
  then show ?thesis using that [OF su(1,2)] bar_shows_picture_eq [OF su(3) assms(3)] by simp
qed

lemma tristate_history_picture_witness:
  "\<exists>s u. bar_render (\<lambda>_ _ _. False) (tristate_renderRegion demo_tristate (Fin 20))
       (length (ts_values demo_tristate)) (new_bar_chart demo_canvas) = Some s \<and>
     fold (tristate_step (\<lambda>_ _ _. False) demo_tristate (Fin 20)) [Hover (Fin 3) (Fin 2)] (Some s) = Some u"
  by (rule tristate_history_picture [OF demo_canvas_ok, of "\<lambda>_ _ _. False" demo_tristate "Fin 20"
        "[Hover (Fin 3) (Fin 2)]"]) blast

text \<open>The same for a discrete chart.\<close>

theorem discrete_history_picture:
  assumes "canvas_wf c" "interact c" "0 < shapeCount c"
  obtains s u where "bar_render inpath (discrete_renderRegion d) (length (dc_values d)) (new_bar_chart c) = Some s"
    "fold (discrete_step inpath d) es (Some s) = Some u"
    "picture u = map snd (layers c) @
       chart_picture (discrete_renderRegion d) (length (dc_values d))
         (highlighted_region (disableHighlight (dc_hl d)) u)"
proof -
  obtain s u where su: "bar_render inpath (discrete_renderRegion d) (length (dc_values d)) (new_bar_chart c) = Some s"
    "fold (discrete_step inpath d) es (Some s) = Some u"
    "bar_shows (discrete_renderRegion d) (length (dc_values d)) (layers c) (shapeCount c)
      (highlighted_region (disableHighlight (dc_hl d)) u) u"
    by (rule discrete.life_shows [OF assms(1,2) refl order_refl, of inpath d es])
  have "discrete_renderRegion d r hl \<noteq> Several ds" for r hl ds
    by (auto simp: discrete_renderRegion_def Let_def)
  then show ?thesis using that [OF su(1,2)] bar_shows_picture_eq [OF su(3) assms(3)] by simp
qed

lemma discrete_history_picture_witness:
  "\<exists>s u. bar_render (\<lambda>_ _ _. False) (discrete_renderRegion demo_discrete)
       (length (dc_values demo_discrete)) (new_bar_chart demo_canvas) = Some s \<and>
     fold (discrete_step (\<lambda>_ _ _. False) demo_discrete) [Hover (Fin 3) (Fin 2)] (Some s) = Some u"
  by (rule discrete_history_picture [OF demo_canvas_ok, of "\<lambda>_ _ _. False" demo_discrete
        "[Hover (Fin 3) (Fin 2)]"]) blast

section \<open>The shape with the id 0\<close>

lemma id0_change:
  "regionShapes s r = OneRef 0 \<Longrightarrow> bar_changeHighlight rr b s = Some s' \<Longrightarrow> regionShapes s' r = OneRef 0"
  by (auto simp: bar_changeHighlight_def Let_def
      split: option.splits region_ref.splits if_splits rendered.splits prod.splits)

lemma id0_react:
  assumes "regionShapes s r = OneRef 0"
    "spark_react inpath dis (\<lambda>x y s. Some (gr x y, s)) (bar_changeHighlight rr) e s = Some s'"
  shows "regionShapes s' r = OneRef 0"
proof (cases e)
  case (Hover x y)
  have set_cur: "regionShapes (t\<lparr>currentRegion := q\<rparr>) = regionShapes t" for t :: bar_chart and q by simp
  show ?thesis
    using assms id0_change Hover
    by (auto simp: setRegionHighlight_def Let_def split: if_splits option.splits) (metis set_cur id0_change)+
next
  case Leave
  then show ?thesis
    using assms id0_change by (auto simp: clearRegionHighlight_def split: if_splits option.splits)
next
  case Repaint
  then show ?thesis using assms by (auto simp: repaint_def)
next
  case (OtherShapes m)
  then show ?thesis using assms by auto
qed

lemma id0_history:
  "regionShapes s r = OneRef 0 \<Longrightarrow>
   fold (spark_step inpath dis (\<lambda>x y s. Some (gr x y, s)) (bar_changeHighlight rr)) es (Some s) = Some t \<Longrightarrow>
   regionShapes t r = OneRef 0"
proof (induction es arbitrary: s)
  case (Cons e es)
  let ?f = "spark_step inpath dis (\<lambda>x y s. Some (gr x y, s)) (bar_changeHighlight rr)"
  have none: "fold ?f es None = None" for es by (induction es) (simp_all add: spark_step_def)
  let ?r = "spark_react inpath dis (\<lambda>x y s. Some (gr x y, s)) (bar_changeHighlight rr) e s"
  have st: "?f e (Some s) = ?r" by (simp add: spark_step_def)
  have run: "fold ?f es ?r = Some t" using Cons.prems(2) by (simp add: st)
  then obtain u where u: "?r = Some u" using none by (cases ?r) simp_all
  then have "fold ?f es (Some u) = Some t" using run by simp
  then show ?case using Cons.IH [OF id0_react [OF Cons.prems(1) u]] by simp
qed simp

lemma render_loop_keeps:
  "int n \<le> r \<Longrightarrow> regionShapes (bar_render_loop rr n s) r = regionShapes s r"
proof (induction n arbitrary: s)
  case (Suc n)
  have "regionShapes (bar_render_region rr (int n) s) r = regionShapes s r"
    using Suc.prems by (auto simp: bar_render_region_def Let_def split: rendered.splits prod.splits)
  then show ?case using Suc by simp
qed simp

text \<open>
  The ids of a page start at 0 and the mixin takes an id of 0 for no shape: the last region of the
  first discrete chart of a page stays plain under every history, also while the mouse is over it.
\<close>

theorem discrete_first_shape_plain:
  assumes "dc_values d \<noteq> []"
  obtains s t where "bar_render inpath (discrete_renderRegion d) (length (dc_values d))
      (new_bar_chart (new_canvas w h True 0)) = Some s"
    "fold (discrete_step inpath d) es (Some s) = Some t"
    "(0, hd (drawings (discrete_renderRegion d (int (length (dc_values d)) - 1) False)))
       \<in> set (layers (vtarget t))"
proof -
  let ?c = "new_canvas w h True 0" and ?rr = "discrete_renderRegion d" and ?n = "length (dc_values d)"
  have c: "canvas_wf ?c" "interact ?c" "layers ?c = []" "0 \<le> shapeCount ?c"
    by (simp_all add: new_canvas_def layers_def)
  obtain s t where st: "bar_render inpath ?rr ?n (new_bar_chart ?c) = Some s"
    "fold (discrete_step inpath d) es (Some s) = Some t"
    "bar_shows ?rr ?n [] 0 (highlighted_region (disableHighlight (dc_hl d)) t) t"
    by (rule discrete.life_shows [OF c(1,2,3,4), of inpath d es])
  obtain m where m: "?n = Suc m" using assms by (cases ?n) auto
  have single: "\<exists>dr. ?rr r hl = Single dr" for r hl by (simp add: discrete_renderRegion_def Let_def)
  have "regionShapes (bar_render_loop ?rr ?n (new_bar_chart ?c)) (int m) = OneRef 0"
    using single [of "int m" False] unfolding m
    by (auto simp: render_loop_keeps bar_render_region_def Let_def genShape_def new_bar_chart_def new_canvas_def)
  then have "regionShapes s (int m) = OneRef 0" using st(1) by (auto simp: bar_render_def repaint_def)
  then have ref: "regionShapes t (int m) = OneRef 0" using id0_history st(2) by blast
  obtain blocks where bl: "layers (vtarget t) = concat (map blocks (rev [0..<?n]))"
    "block_ok (?rr (int m)) (highlighted_region (disableHighlight (dc_hl d)) t (int m))
      (regionShapes t (int m)) (blocks m)"
    using st(3) m unfolding bar_shows_def by auto
  have "blocks m = [(0, hd (drawings (?rr (int m) False)))]" using bl(2) ref by auto
  then have "(0, hd (drawings (?rr (int m) False))) \<in> set (layers (vtarget t))"
    unfolding bl(1) using m by force
  then show ?thesis using that [OF st(1,2)] m by simp
qed

lemma discrete_first_shape_plain_witness:
  "\<exists>s t. bar_render (\<lambda>_ _ _. False) (discrete_renderRegion demo_discrete) (length (dc_values demo_discrete))
       (new_bar_chart (new_canvas (Fin 4) (Fin 20) True 0)) = Some s \<and>
     fold (discrete_step (\<lambda>_ _ _. False) demo_discrete) [Hover (Fin 3) (Fin 2)] (Some s) = Some t \<and>
     0 \<in> fst ` set (layers (vtarget t))"
proof -
  have ne: "dc_values demo_discrete \<noteq> []" by (simp add: demo_discrete_def discrete_init_def Let_def)
  show ?thesis
    by (rule discrete_first_shape_plain [OF ne, of "\<lambda>_ _ _. False" "Fin 4" "Fin 20" "[Hover (Fin 3) (Fin 2)]"])
      (metis fst_conv image_eqI)
qed

section \<open>Hit testing\<close>

lemma floor_region_eq:
  assumes "0 < w" "of_int r * w \<le> x" "x < of_int (r + 1) * w"
  shows "floor_region (Fin x) (Fin w) = Some r"
proof -
  have "\<lfloor>x / w\<rfloor> = r" using assms by (simp add: floor_eq_iff field_simps)
  then show ?thesis using assms(1) by (simp add: floor_region_def)
qed

text \<open>
  A point over the column of bar \<open>r\<close> (the bar or the gap to its right) belongs to region \<open>r\<close>, and
  the bar that \<open>renderRegion\<close> draws for \<open>r\<close> starts at that column: hit test and drawing agree.
\<close>

theorem bar_region_of_column:
  assumes "totalBarWidth b = Fin w" "0 < w" "0 \<le> r" "r < int (length (bar_values b))"
    "of_int r * w \<le> x" "x < of_int (r + 1) * w"
  shows "bar_getRegion b (Fin x) y = Some r \<and>
    (\<forall>d \<in> set (drawings (bar_renderRegion b r hl)). \<exists>dy dw dh c1 c2. d = DRect (Fin (of_int r * w)) dy dw dh c1 c2)"
proof -
  have "bar_getRegion b (Fin x) y = Some r"
    using floor_region_eq [OF assms(2,5,6)] assms(1,3,4) by (simp add: bar_getRegion_def)
  moreover have "\<exists>dy dw dh c1 c2. d = DRect (Fin (of_int r * w)) dy dw dh c1 c2"
    if "d \<in> set (bar_parts b r hl am i vs mp yo yn)" for d am i vs mp yo yn
    using that
  proof (induction vs arbitrary: i mp yo yn)
    case (Cons v vs)
    then show ?case using assms(1) by (auto simp: Let_def drawRect_def split: if_splits)
  qed simp
  ultimately show ?thesis
    using assms(1) by (auto simp: bar_renderRegion_def Let_def one_or_several drawRect_def)
qed

lemma bar_region_of_column_witness: "bar_getRegion demo_bar (Fin 7) (Fin 1) = Some 1"
proof -
  have b: "totalBarWidth demo_bar = Fin 5" "bar_values demo_bar = [VNum (Fin 3), VNum (Fin (-2)), VNum (Fin 5)]"
    by code_simp+
  show ?thesis using bar_region_of_column [OF b(1), of 1 7 "Fin 1"] b(2) by simp
qed

section \<open>Bars stay inside the canvas\<close>

lemma floor_scaled_le:
  fixes e :: int and q :: rat
  assumes "0 \<le> e" "q \<le> 1"
  shows "\<lfloor>of_int e * q\<rfloor> \<le> e"
proof -
  have "of_int e * q \<le> of_int e" using assms by (simp add: mult_left_le)
  then show ?thesis by linarith
qed

lemma floor_nonneg: "0 \<le> x \<Longrightarrow> 0 \<le> \<lfloor>x\<rfloor>" for x :: rat
  by simp

text \<open>The arithmetic of a bar on the far side of an axis inside the chart: the axis is \<open>p * h\<close> down.\<close>

lemma axis_below:
  fixes p q :: rat and h :: int
  assumes p: "0 \<le> p" "p < 1" and q: "0 \<le> q" "q \<le> 1 - p" and h: "4 \<le> h"
  shows "\<lceil>p * of_int h\<rceil> +
    \<lfloor>of_int (if p * of_int h \<noteq> of_int \<lceil>p * of_int h\<rceil> then h - 4 else h - 2) * q\<rfloor> \<le> h"
proof -
  let ?c = "\<lceil>p * of_int h\<rceil>" and ?e = "if p * of_int h \<noteq> of_int \<lceil>p * of_int h\<rceil> then h - 4 else h - 2"
  have e: "0 \<le> ?e" using h by simp
  have "of_int ?e * q \<le> of_int ?e * (1 - p)" using q e by (intro mult_left_mono) auto
  moreover have "of_int ?c + of_int ?e * (1 - p) < of_int (h + 1)"
  proof (cases "p * of_int h = of_int ?c")
    case True
    then have "of_int ?c + of_int ?e * (1 - p) = of_int h - 2 + 2 * p" by (simp add: algebra_simps)
    then show ?thesis using p by simp
  next
    case False
    have "of_int ?c < p * of_int h + 1" by linarith
    moreover have "of_int ?e * (1 - p) = of_int h - 4 - p * of_int h + 4 * p"
      using False by (simp add: algebra_simps)
    ultimately show ?thesis using p by simp
  qed
  ultimately have "of_int ?c + of_int ?e * q < of_int (h + 1)" by linarith
  then have "of_int (?c + \<lfloor>of_int ?e * q\<rfloor>) < (of_int (h + 1) :: rat)"
    using of_int_floor_le [of "of_int ?e * q"] unfolding of_int_add by linarith
  then show ?thesis by linarith
qed

lemma axis_above:
  fixes p q :: rat and h :: int
  assumes p: "0 < p" "p < 1" and q: "0 \<le> q" "q \<le> p" and h: "4 \<le> h"
  shows "\<lfloor>of_int (if p * of_int h \<noteq> of_int \<lceil>p * of_int h\<rceil> then h - 4 else h - 2) * q\<rfloor> + 1 \<le> \<lceil>p * of_int h\<rceil>"
proof -
  let ?e = "if p * of_int h \<noteq> of_int \<lceil>p * of_int h\<rceil> then h - 4 else h - 2"
  have "0 \<le> ?e" "?e \<le> h - 2" using h by auto
  then have "of_int ?e * q \<le> of_int (h - 2) * p" using q p by (intro mult_mono) auto
  also have "\<dots> < p * of_int h" using p by (simp add: algebra_simps)
  also have "\<dots> \<le> of_int \<lceil>p * of_int h\<rceil>" by simp
  finally have "\<lfloor>of_int ?e * q\<rfloor> < \<lceil>p * of_int h\<rceil>" by (simp only: floor_less_iff)
  then show ?thesis by simp
qed

lemma ceiling_scaled_le: "0 \<le> p \<Longrightarrow> p \<le> 1 \<Longrightarrow> 0 \<le> h \<Longrightarrow> \<lceil>p * of_int h\<rceil> \<le> h" for p :: rat
  by (simp add: ceiling_le_iff mult_left_le_one_le)

text \<open>What \<open>init\<close> computes for an unstacked chart of finite values between \<open>lo\<close> and \<open>hi\<close>.\<close>

definition bar_layout_ok :: "bar_cfg \<Rightarrow> rat \<Rightarrow> rat \<Rightarrow> int \<Rightarrow> bool" where
  "bar_layout_ok b lo hi h \<longleftrightarrow>
     \<not> stacked b \<and> bar_range b = Fin (hi - lo) \<and>
     (xaxisOffset b = Fin lo \<and> yoffset b = Fin (of_int h) \<and>
        (canvasHeightEf b = Fin (of_int (h - 1)) \<or> canvasHeightEf b = Fin (of_int (h - 2))) \<or>
      (\<exists>xo. xaxisOffset b = Fin xo \<and> lo < xo \<and> xo \<le> hi \<and>
         (let ph = (hi - xo) / (hi - lo) * of_int h in
          yoffset b = Fin (of_int \<lceil>ph\<rceil>) \<and>
          canvasHeightEf b = Fin (of_int (if ph \<noteq> of_int \<lceil>ph\<rceil> then h - 4 else h - 2)))))"

lemma bar_part_inside:
  assumes ok: "bar_layout_ok b lo hi h" and v: "lo \<le> v" "v \<le> hi" and h: "4 \<le> h"
    and d: "bar_parts b r hl am 0 [VNum (Fin v)] False (yoffset b) (yoffset b) = ds"
  obtains top ht c where
    "ds = [DRect (Fin (of_int r) * totalBarWidth b) (Fin (of_int top)) (bo_barWidth (bar_options b) - Fin 1) (Fin (of_int ht)) c c]"
    "0 \<le> top" "0 \<le> ht" "top + ht \<le> h"
proof -
  let ?x = "Fin (of_int r) * totalBarWidth b" and ?w = "bo_barWidth (bar_options b) - Fin 1"
    and ?c = "hl_colour hl (bo_hl (bar_options b)) (bar_calcColor b 0 (Fin v) r)"
  have st: "\<not> stacked b" using ok by (simp add: bar_layout_ok_def)
  have rng: "bar_range b = Fin (hi - lo)" using ok by (simp add: bar_layout_ok_def)
  consider (A) e where "xaxisOffset b = Fin lo" "yoffset b = Fin (of_int h)"
      "canvasHeightEf b = Fin (of_int e)" "0 \<le> e" "e \<le> h - 1"
    | (B) xo where "xaxisOffset b = Fin xo" "lo < xo" "xo \<le> hi"
      "yoffset b = Fin (of_int \<lceil>(hi - xo) / (hi - lo) * of_int h\<rceil>)"
      "canvasHeightEf b = Fin (of_int (if (hi - xo) / (hi - lo) * of_int h \<noteq>
          of_int \<lceil>(hi - xo) / (hi - lo) * of_int h\<rceil> then h - 4 else h - 2))"
  proof -
    from ok consider (A) "xaxisOffset b = Fin lo" "yoffset b = Fin (of_int h)"
        "canvasHeightEf b = Fin (of_int (h - 1)) \<or> canvasHeightEf b = Fin (of_int (h - 2))"
      | (B) xo where "xaxisOffset b = Fin xo" "lo < xo" "xo \<le> hi"
        "yoffset b = Fin (of_int \<lceil>(hi - xo) / (hi - lo) * of_int h\<rceil>)"
        "canvasHeightEf b = Fin (of_int (if (hi - xo) / (hi - lo) * of_int h \<noteq>
            of_int \<lceil>(hi - xo) / (hi - lo) * of_int h\<rceil> then h - 4 else h - 2))"
      unfolding bar_layout_ok_def Let_def by blast
    then show ?thesis
    proof cases
      case A
      then show ?thesis using that(1) [of "h - 1"] that(1) [of "h - 2"] h by auto
    next
      case B
      then show ?thesis by (rule that(2))
    qed
  qed
  then show ?thesis
  proof cases
    case A
    let ?g = "if lo < hi then \<lfloor>of_int e * ((v - lo) / (hi - lo))\<rfloor> else 0"
    have g: "0 \<le> ?g" "?g \<le> h - 1"
    proof -
      have q: "(v - lo) / (hi - lo) \<le> 1" "0 \<le> (v - lo) / (hi - lo)" if "lo < hi" using v that by auto
      have "0 \<le> of_int e * ((v - lo) / (hi - lo))" if "lo < hi"
        using q(2) [OF that] A(4) by (intro mult_nonneg_nonneg) simp_all
      then show "0 \<le> ?g" by simp
      show "?g \<le> h - 1"
        using q(1) floor_scaled_le [OF A(4), of "(v - lo) / (hi - lo)"] A(4,5) h by auto
    qed
    have "ds = [DRect ?x (Fin (of_int (h - (?g + 1)))) ?w (Fin (of_int ?g)) ?c ?c]"
      using d st rng A v h by (auto simp: Let_def drawRect_def)
    then show ?thesis by (rule that) (use g in auto)
  next
    case B
    define p where "p = (hi - xo) / (hi - lo)"
    let ?e = "if p * of_int h \<noteq> of_int \<lceil>p * of_int h\<rceil> then h - 4 else h - 2"
    let ?y = "\<lceil>p * of_int h\<rceil>"
    have p: "0 \<le> p" "p < 1" using B by (auto simp: p_def)
    have "0 \<le> p * of_int h" using p h by (intro mult_nonneg_nonneg) auto
    from ceiling_mono [OF this] have y0: "0 \<le> ?y" by (simp only: ceiling_zero)
    have y: "0 \<le> ?y" "?y \<le> h" using y0 ceiling_scaled_le [of p h] p h by simp_all
    let ?q = "\<bar>v - xo\<bar> / (hi - lo)"
    let ?g = "\<lfloor>of_int ?e * ?q\<rfloor>"
    have q0: "0 \<le> ?q" using B by simp
    have g0: "0 \<le> ?g" using q0 h by (intro floor_nonneg mult_nonneg_nonneg) auto
    have pos: "lo < hi" using B by simp
    show ?thesis
    proof (cases "v < xo \<or> v = xo \<and> ?y = 0")
      case True
      have eq: "ds = [DRect ?x (Fin (of_int ?y)) ?w (Fin (of_int ?g)) ?c ?c]"
        using d st rng B pos True by (auto simp: Let_def drawRect_def p_def)
      have "1 - p = (xo - lo) / (hi - lo)" using pos by (simp add: p_def field_simps)
      moreover have "?q \<le> (xo - lo) / (hi - lo)" using True v B pos by (intro divide_right_mono) auto
      ultimately have "?q \<le> 1 - p" by simp
      then have "?y + ?g \<le> h" by (intro axis_below p q0 h)
      then show ?thesis by (intro that [OF eq]) (use g0 y in auto)
    next
      case False
      have eq: "ds = [DRect ?x (Fin (of_int (?y - (?g + 1)))) ?w (Fin (of_int ?g)) ?c ?c]"
        using d st rng B pos False by (auto simp: Let_def drawRect_def p_def)
      have "p \<noteq> 0" using False v B pos by (auto simp: p_def)
      moreover have "?q \<le> p" using False v pos by (auto simp: p_def divide_right_mono)
      ultimately have "?g + 1 \<le> ?y" using p by (intro axis_above q0 h) auto
      then show ?thesis by (intro that [OF eq]) (use g0 y in auto)
    qed
  qed
qed

lemma bar_renderRegion_number:
  "js_nth (bar_values b) r = Some (VNum x) \<Longrightarrow>
   bar_renderRegion b r hl = one_or_several (bar_parts b r hl (all_val (VNum (xaxisOffset b)) [VNum x] True) 0
     [VNum x] False (yoffset b) (yoffset b))"
  by (simp add: bar_renderRegion_def ensureArray_def Let_def del: bar_parts.simps)

lemma axis_offset_fin:
  "axis_offset za (Fin lo) (Fin hi) = Fin (if lo \<le> 0 \<and> 0 \<le> hi \<and> za then 0 else if \<not> za \<or> lo > 0 then lo else hi)"
  by (auto simp: axis_offset_def)

lemma bar_layout:
  assumes v: "\<forall>v \<in> set vals. v = VNull \<or> (\<exists>x. v = VNum (Fin x) \<and> lo0 \<le> x \<and> x \<le> hi0)"
    and lo0: "VNum (Fin lo0) \<in> set vals" and hi0: "VNum (Fin hi0) \<in> set vals"
    and opt: "\<not> chartRangeClip (bo_range opts)"
    and lo: "range_min (bo_range opts) (Fin lo0) = Fin lo" and hi: "range_max (bo_range opts) (Fin hi0) = Fin hi"
    and h: "4 \<le> h"
  shows "bar_layout_ok (bar_init opts vals (Fin (of_int h))) lo hi h"
    and "bar_values (bar_init opts vals (Fin (of_int h))) = vals"
    and "lo \<le> lo0" "hi0 \<le> hi"
proof -
  let ?b = "bar_init opts vals (Fin (of_int h))"
  show le: "lo \<le> lo0" "hi0 \<le> hi"
    using lo hi opt by (auto simp: range_min_def range_max_def split: option.splits if_splits)
  have scan: "map scan_value vals = vals"
    using v by (intro map_idI) (auto simp: scan_value_def)
  have ns: "\<not> is_stacked vals" using v by (auto simp: is_stacked_def)
  have kept: "bar_kept (bo_range opts) vals = vals"
    using v opt ns by (auto simp: bar_kept_def clip_value_def normalizeValue_def intro!: map_idI)
  have parts: "concat (map (\<lambda>v. case stack_of v of Some vs \<Rightarrow> vs | None \<Rightarrow> [v]) vs) = vs"
    if "\<forall>v \<in> set vs. stack_of v = None" for vs
    using that by (induction vs) auto
  have "\<forall>v \<in> set vals. stack_of v = None" using ns by (auto simp: is_stacked_def)
  then have nums: "bar_numbers vals = map to_num (filter (\<lambda>v. v \<noteq> VNull) vals)"
    by (simp add: bar_numbers_def parts)
  define xs where "xs = map (\<lambda>v. case v of VNum (Fin x) \<Rightarrow> x | _ \<Rightarrow> 0) (filter (\<lambda>v. v \<noteq> VNull) vals)"
  have fin: "bar_numbers vals = map Fin xs"
    unfolding nums xs_def using v by (induction vals) auto
  have xs: "lo0 \<in> set xs" "hi0 \<in> set xs" "\<forall>x \<in> set xs. lo0 \<le> x \<and> x \<le> hi0"
  proof -
    show "lo0 \<in> set xs" "hi0 \<in> set xs" using lo0 hi0 by (force simp: xs_def)+
    show "\<forall>x \<in> set xs. lo0 \<le> x \<and> x \<le> hi0" using v by (fastforce simp: xs_def)
  qed
  have "xs \<noteq> []" using xs(1) by auto
  have mm: "Min (set xs) = lo0" "Max (set xs) = hi0"
    using xs by (auto intro: Min_eqI Max_eqI)
  have minmax: "math_min (bar_numbers vals) = Fin lo0" "math_max (bar_numbers vals) = Fin hi0"
    unfolding fin math_min_fin [OF \<open>xs \<noteq> []\<close>] math_max_fin [OF \<open>xs \<noteq> []\<close>] mm by simp_all
  have order: "lo \<le> hi" using le xs(1,3) by force
  let ?xo = "if lo \<le> 0 \<and> 0 \<le> hi \<and> zeroAxis opts then 0 else if \<not> zeroAxis opts \<or> lo > 0 then lo else hi"
  show "bar_values ?b = vals" by (simp add: bar_init_def Let_def scan kept)
  note e = bar_init_def Let_def scan kept ns minmax lo hi axis_offset_fin
  show "bar_layout_ok ?b lo hi h"
  proof (cases "lo < ?xo")
    case True
    then have za: "zeroAxis opts" "lo < 0" and "lo < hi" "?xo \<le> hi" using order by (auto split: if_splits)
    let ?ph = "(hi - ?xo) / (hi - lo) * of_int h"
    have "xaxisOffset ?b = Fin ?xo" "bar_range ?b = Fin (hi - lo)" "\<not> stacked ?b" by (simp_all add: e)
    moreover have "yoffset ?b = Fin (of_int \<lceil>?ph\<rceil>)"
      using True \<open>lo < hi\<close> by (simp add: e)
    moreover have "canvasHeightEf ?b = Fin (of_int (if ?ph \<noteq> of_int \<lceil>?ph\<rceil> then h - 4 else h - 2))"
      using True \<open>lo < hi\<close> za by (simp add: e)
    ultimately show ?thesis
      using True \<open>?xo \<le> hi\<close> unfolding bar_layout_ok_def Let_def by blast
  next
    case False
    then have xo: "?xo = lo" using order by (auto split: if_splits)
    have "xaxisOffset ?b = Fin lo" "bar_range ?b = Fin (hi - lo)" "\<not> stacked ?b"
      "yoffset ?b = Fin (of_int h)"
      "canvasHeightEf ?b = Fin (of_int (h - 1)) \<or> canvasHeightEf ?b = Fin (of_int (h - 2))"
      using xo by (simp_all add: e)
    then show ?thesis unfolding bar_layout_ok_def by blast
  qed
qed

text \<open>
  C7: in an unstacked bar chart of finite values, with bars and spaces of whole pixels, any axis and any chart
  range that is not clipped, on a canvas of at least 4 pixels height and the width that the chart asks for,
  every bar lies inside the canvas: in its own column, one of as many as there are values side by side, its
  top at or below the top edge and its bottom at or above the bottom edge.
\<close>

theorem bar_inside_canvas:
  assumes "\<forall>v \<in> set vals. v = VNull \<or> (\<exists>x. v = VNum (Fin x) \<and> lo0 \<le> x \<and> x \<le> hi0)"
    and "VNum (Fin lo0) \<in> set vals" "VNum (Fin hi0) \<in> set vals"
    and "\<not> chartRangeClip (bo_range opts)"
    and "range_min (bo_range opts) (Fin lo0) = Fin lo" "range_max (bo_range opts) (Fin hi0) = Fin hi"
    and h: "4 \<le> h" and r: "r < length vals" "vals ! r \<noteq> VNull"
    and bw: "bo_barWidth opts = Fin (of_int bw)" "bo_barSpacing opts = Fin (of_int sp)" "1 \<le> bw" "0 \<le> sp"
  obtains left top wd ht c total where
    "bar_renderRegion (bar_init opts vals (Fin (of_int h))) (int r) hl =
       Single (DRect (Fin (of_int left)) (Fin (of_int top)) (Fin (of_int wd)) (Fin (of_int ht)) c c)"
    "bar_width opts (length vals) = Fin (of_int total)"
    "left = int r * (bw + sp)" "wd = bw - 1" "0 \<le> left" "left + wd < total"
    "0 \<le> top" "0 \<le> ht" "top + ht \<le> h"
proof -
  let ?b = "bar_init opts vals (Fin (of_int h))"
  note lay = bar_layout [OF assms(1,2,3,4,5,6) h]
  obtain x where x: "vals ! r = VNum (Fin x)" "lo0 \<le> x" "x \<le> hi0"
    using assms(1) r nth_mem [OF r(1)] by fastforce
  have nth: "js_nth (bar_values ?b) (int r) = Some (VNum (Fin x))" using lay(2) r(1) x(1) by simp
  have v: "lo \<le> x" "x \<le> hi" using x lay(3,4) by auto
  have o: "totalBarWidth ?b = Fin (of_int (bw + sp))" "bar_options ?b = opts"
    using bw by (simp_all add: bar_init_def Let_def)
  obtain top ht c where
    d: "bar_parts ?b (int r) hl (all_val (VNum (xaxisOffset ?b)) [VNum (Fin x)] True) 0 [VNum (Fin x)] False
          (yoffset ?b) (yoffset ?b) =
        [DRect (Fin (of_int (int r)) * totalBarWidth ?b) (Fin (of_int top)) (bo_barWidth (bar_options ?b) - Fin 1) (Fin (of_int ht)) c c]"
    "0 \<le> top" "0 \<le> ht" "top + ht \<le> h"
    using bar_part_inside [OF lay(1) v h refl] by metis
  have "bar_renderRegion ?b (int r) hl =
      Single (DRect (Fin (of_int (int r * (bw + sp)))) (Fin (of_int top)) (Fin (of_int (bw - 1))) (Fin (of_int ht)) c c)"
    unfolding bar_renderRegion_number [OF nth] d(1) using o bw by (simp add: one_or_several_def)
  moreover have "bar_width opts (length vals) = Fin (of_int (int (length vals) * bw + (int (length vals) - 1) * sp))"
    using bw by (simp add: bar_width_def)
  moreover have "int r * (bw + sp) + (bw - 1) < int (length vals) * bw + (int (length vals) - 1) * sp"
  proof -
    have "int r * sp \<le> (int (length vals) - 1) * sp" "(int r + 1) * bw \<le> int (length vals) * bw"
      using r(1) bw(3,4) by (intro mult_right_mono; simp)+
    then show ?thesis by (simp add: algebra_simps)
  qed
  moreover have "0 \<le> int r * (bw + sp)" using bw(3,4) by simp
  ultimately show ?thesis using that d(2,3,4) by blast
qed

lemma bar_inside_canvas_witness:
  "\<exists>top ht c. bar_renderRegion demo_bar 1 True =
     Single (DRect (Fin 5) (Fin (of_int top)) (Fin 3) (Fin (of_int ht)) c c) \<and> 0 \<le> top \<and> top + ht \<le> 20"
proof -
  let ?v = "[VNum (Fin 3), VNum (Fin (-2)), VNum (Fin 5)]"
  obtain left top wd ht c total where "bar_renderRegion (bar_init demo_bar_opts ?v (Fin (of_int 20))) (int 1) True =
      Single (DRect (Fin (of_int left)) (Fin (of_int top)) (Fin (of_int wd)) (Fin (of_int ht)) c c)"
    "left = int 1 * (4 + 1)" "wd = 4 - 1" "0 \<le> top" "0 \<le> ht" "top + ht \<le> 20"
    by (rule bar_inside_canvas [of ?v "-2" 5 demo_bar_opts "-2" 5 20 1 4 1 True])
      (simp_all add: demo_bar_opts_def range_min_def range_max_def)
  then show ?thesis by (auto simp: demo_bar_def)
qed

section \<open>The null colour\<close>

text \<open>
  The bar of a null value has the plain null colour while it is highlighted and the highlight
  colour while it is not: the two are exchanged.
\<close>

theorem bar_null_colour_exchanged:
  assumes "js_nth (bar_values b) r = Some VNull" "truthy_colour (nullColor (bar_options b))"
  shows "\<exists>x y w. bar_renderRegion b r highlight =
    Single (DRect x y w (Fin 0)
      (hl_colour (\<not> highlight) (bo_hl (bar_options b)) (nullColor (bar_options b)))
      (hl_colour (\<not> highlight) (bo_hl (bar_options b)) (nullColor (bar_options b))))"
  using assms
  by (auto simp: bar_renderRegion_def ensureArray_def drawRect_def hl_colour_def Let_def)

lemma bar_null_colour_exchanged_witness:
  "\<exists>x y w. bar_renderRegion (bar_init (demo_bar_opts\<lparr>nullColor := Some ''#ccc''\<rparr>) [VNull, VNum (Fin 1)] (Fin 20)) 0 False =
     Single (DRect x y w (Fin 0) (calcHighlightColor (Some ''#ccc'') demo_hl) (calcHighlightColor (Some ''#ccc'') demo_hl))"
proof -
  let ?b = "bar_init (demo_bar_opts\<lparr>nullColor := Some ''#ccc''\<rparr>) [VNull, VNum (Fin 1)] (Fin 20)"
  have "js_nth (bar_values ?b) 0 = Some VNull" by code_simp
  moreover have "nullColor (bar_options ?b) = Some ''#ccc''" "bo_hl (bar_options ?b) = demo_hl"
    by (simp_all add: bar_init_def demo_bar_opts_def Let_def)
  ultimately show ?thesis
    using bar_null_colour_exchanged [of ?b 0 False] by (simp add: truthy_colour_def hl_colour_def)
qed

end
