(* ===== verification/Spark_Discrete_Props.thy ===== *)
theory Spark_Discrete_Props
  imports Spark_Bar_Props
begin

text \<open>
  The geometry of the tristate and discrete charts: where their bars and lines lie on the canvas, and
  the two inputs for which the discrete chart leaves it.
\<close>

section \<open>Tristate charts\<close>

text \<open>
  A tristate bar lies inside the canvas, the bars of positive values above those of negative
  values, for every canvas of at least 4 pixels.
\<close>

theorem tristate_inside_canvas:
  assumes h: "4 \<le> h" and r: "num_at (ts_values t) r = Fin v"
    and s: "tristate_renderRegion t (Fin (of_int h)) r hl = Single d"
  obtains x w top ht c where "d = DRect x (Fin (of_int top)) w (Fin (of_int ht)) c c"
    "0 \<le> top" "0 \<le> ht" "top + ht \<le> h" "0 < v \<Longrightarrow> top + ht < js_round (of_int h / 2)"
    "v < 0 \<Longrightarrow> js_round (of_int h / 2) \<le> top"
proof -
  let ?m = "js_round (of_int h / 2)"
  have m: "?m = (h + 1) div 2" by (rule js_round_numeral_half)
  have half: "2 \<le> ?m" "2 * ?m \<le> h + 1" using h unfolding m by auto
  let ?c = "hl_colour hl (ts_hl t) (the (tristate_calcColor t (Fin v) r))"
  let ?d = "\<lambda>top ht. DRect (Fin (of_int r) * ts_totalBarWidth t) (Fin (of_int top)) (ts_barWidth t - Fin 1)
    (Fin (of_int ht)) ?c ?c"
  note e = tristate_renderRegion_def drawRect_def Let_def
  consider "v < 0" | "0 < v" | "v = 0" by linarith
  then show ?thesis
  proof cases
    case 1
    then have "d = ?d ?m (?m - 2)" using r s by (auto simp: e split: option.splits)
    then show ?thesis by (rule that) (use 1 half in auto)
  next
    case 2
    then have "d = ?d 0 (?m - 2)" using r s by (auto simp: e split: option.splits)
    then show ?thesis by (rule that) (use 2 half in auto)
  next
    case 3
    then have "d = ?d (?m - 1) 1" using r s by (auto simp: e split: option.splits)
    then show ?thesis by (rule that) (use 3 half in auto)
  qed
qed

lemma tristate_inside_canvas_witness:
  "\<exists>x w top ht c. tristate_renderRegion demo_tristate (Fin (of_int 20)) 1 False =
     Single (DRect x (Fin (of_int top)) w (Fin (of_int ht)) c c) \<and> 10 \<le> top \<and> top + ht \<le> 20"
proof -
  have v: "num_at (ts_values demo_tristate) 1 = Fin (-1)"
    by (simp add: demo_tristate_def tristate_init_def num_at_def js_nth_def)
  then obtain d where d: "tristate_renderRegion demo_tristate (Fin (of_int 20)) 1 False = Single d"
    by (auto simp: tristate_renderRegion_def tristate_calcColor_def mapped_colour_def demo_tristate_def
        tristate_init_def Let_def split: option.splits)
  have m: "js_round (of_int 20 / 2) = 10" unfolding js_round_numeral_half by simp
  show ?thesis by (rule tristate_inside_canvas [OF _ v d]) (use d m in auto)
qed

section \<open>Discrete charts\<close>

lemma num_at_vals: "0 \<le> r \<Longrightarrow> r < int (length xs) \<Longrightarrow> num_at (map Fin xs) r = Fin (xs ! nat r)"
  by (simp add: num_at_fin)

definition no_range :: range_opts where
  "no_range = \<lparr>chartRangeMin = None, chartRangeMax = None, chartRangeClip = False\<rparr>"

text \<open>A discrete chart of finite values.\<close>

definition discrete_of ::
  "rat list \<Rightarrow> jsnum option \<Rightarrow> range_opts \<Rightarrow> jsnum \<Rightarrow> jsnum option \<Rightarrow> colour \<Rightarrow> colour \<Rightarrow> jsnum \<Rightarrow> hl_options \<Rightarrow>
   discrete_cfg" where
  "discrete_of xs w ro ch lh lc tc tv hl = discrete_init (map (\<lambda>x. VNum (Fin x)) xs) w ro ch lh lc tc tv hl"

lemma discrete_fields:
  assumes "xs \<noteq> []"
  shows "dc_values (discrete_of xs w ro ch lh lc tc tv hl) = map Fin xs"
    "dc_range (discrete_of xs w ro ch lh lc tc tv hl) = Fin (Max (set xs) - Min (set xs))"
    "dc_min (discrete_of xs w ro ch lh lc tc tv hl) = range_min ro (Fin (Min (set xs)))"
    "dc_max (discrete_of xs w ro ch lh lc tc tv hl) = range_max ro (Fin (Max (set xs)))"
    "dc_canvasHeight (discrete_of xs w ro ch lh lc tc tv hl) = ch"
    "dc_lineHeight (discrete_of xs w ro ch (Some l) lc tc tv hl) = l"
proof -
  have v: "map to_num (map (\<lambda>x. VNum (Fin x)) xs) = map Fin xs" by simp
  note e = discrete_of_def discrete_init_def Let_def v math_min_fin [OF assms] math_max_fin [OF assms]
  show "dc_values (discrete_of xs w ro ch lh lc tc tv hl) = map Fin xs"
    "dc_range (discrete_of xs w ro ch lh lc tc tv hl) = Fin (Max (set xs) - Min (set xs))"
    "dc_min (discrete_of xs w ro ch lh lc tc tv hl) = range_min ro (Fin (Min (set xs)))"
    "dc_max (discrete_of xs w ro ch lh lc tc tv hl) = range_max ro (Fin (Max (set xs)))"
    "dc_canvasHeight (discrete_of xs w ro ch lh lc tc tv hl) = ch"
    "dc_lineHeight (discrete_of xs w ro ch (Some l) lc tc tv hl) = l"
    unfolding e by simp_all
qed

text \<open>The two ends of the line of a region.\<close>

definition line_ends :: "rendered \<Rightarrow> (jsnum \<times> jsnum) option" where
  "line_ends rd =
     (case rd of Single (DShape [(x1, y1), (x2, y2)] lc fc lw) \<Rightarrow> Some (y1, y2) | _ \<Rightarrow> None)"

lemma line_ends_discrete:
  "line_ends (discrete_renderRegion d r hl) =
     (let ph = dc_canvasHeight d - dc_lineHeight d;
          val = clipval (num_at (dc_values d) r) (dc_min d) (dc_max d);
          top = num_round (ph - ph * ((val - dc_min d) / dc_range d))
      in Some (top, top + dc_lineHeight d))"
  by (simp add: line_ends_def discrete_renderRegion_def drawLine_def drawShape_def Let_def)

text \<open>
  Without a chart range the line of every value of a discrete chart lies inside the canvas, that
  of the least value at the bottom and that of the greatest at the top.
\<close>

theorem discrete_inside_canvas:
  assumes r: "0 \<le> r" "r < int (length xs)" and ne: "Min (set xs) < Max (set xs)" and l: "0 \<le> l" "l \<le> h"
  shows "\<exists>top. line_ends (discrete_renderRegion
       (discrete_of xs w no_range (Fin (of_int h)) (Some (Fin (of_int l))) lc tc tv hlo) r hl) =
       Some (Fin (of_int top), Fin (of_int (top + l))) \<and>
    0 \<le> top \<and> top + l \<le> h \<and> (xs ! nat r = Min (set xs) \<longrightarrow> top = h - l) \<and>
    (xs ! nat r = Max (set xs) \<longrightarrow> top = 0)"
proof -
  let ?lo = "Min (set xs)" and ?hi = "Max (set xs)" and ?x = "xs ! nat r"
  have xs: "xs \<noteq> []" using r by auto
  note f = discrete_fields [OF xs]
  let ?D = "discrete_of xs w no_range (Fin (of_int h)) (Some (Fin (of_int l))) lc tc tv hlo"
  have x: "?lo \<le> ?x" "?x \<le> ?hi" using r by (auto intro!: Min_le Max_ge nth_mem)
  let ?q = "(?x - ?lo) / (?hi - ?lo)"
  let ?t = "of_int (h - l) - of_int (h - l) * ?q"
  have q: "0 \<le> ?q" "?q \<le> 1" using x ne by auto
  have e: "line_ends (discrete_renderRegion ?D r hl) =
      Some (Fin (of_int (js_round ?t)), Fin (of_int (js_round ?t + l)))"
    using x ne r by (simp add: line_ends_discrete f no_range_def range_min_def range_max_def num_at_vals
        clipval_id Let_def)
  have "of_int (h - l) * ?q \<le> of_int (h - l)" "0 \<le> of_int (h - l) * ?q"
    using mult_left_le [OF q(2), of "of_int (h - l)"] mult_nonneg_nonneg [OF _ q(1), of "of_int (h - l)"] l
    by (simp_all only: of_int_0_le_iff diff_ge_0_iff_ge)
  then have t: "0 \<le> ?t" "?t \<le> of_int (h - l)" by auto
  have "0 \<le> js_round ?t" "js_round ?t \<le> h - l"
    using js_round_nonneg [OF t(1)] js_round_le [OF t(2)] by auto
  moreover have "js_round ?t = h - l" if "?x = ?lo"
  proof -
    have "?t = of_int (h - l)" using that by simp
    then show ?thesis by (simp only: js_round_of_int)
  qed
  moreover have "js_round ?t = 0" if "?x = ?hi"
  proof -
    have "?t = of_int 0" using that ne by simp
    then show ?thesis by (simp only: js_round_of_int)
  qed
  ultimately show ?thesis by (intro exI [of _ "js_round ?t"]) (simp add: e)
qed

lemma discrete_inside_canvas_witness:
  "\<exists>top. line_ends (discrete_renderRegion
      (discrete_of [5, 10, 7] None no_range (Fin (of_int 20)) (Some (Fin (of_int 6)))
        (Some ''#00f'') None (Fin 0) demo_hl) 1 False) = Some (Fin (of_int top), Fin (of_int (top + 6))) \<and>
     0 \<le> top \<and> top + 6 \<le> 20 \<and> top = 0"
  using discrete_inside_canvas [of 1 "[5, 10, 7]" 6 20 None "Some ''#00f''" None "Fin 0" demo_hl False] by auto

text \<open>
  \<open>chartRangeMin\<close> moves the minimum but not the range it is divided by: with a minimum \<open>m\<close> below
  the data the line of the greatest value is drawn above the canvas.
\<close>

theorem discrete_chartRangeMin_overflows:
  assumes r: "0 \<le> r" "r < int (length xs)" and x: "xs ! nat r = Max (set xs)"
    and ne: "Min (set xs) < Max (set xs)" and m: "m < Min (set xs)"
    and big: "1 / 2 < of_int (h - l) * ((Min (set xs) - m) / (Max (set xs) - Min (set xs)))"
  shows "\<exists>top. top < 0 \<and> line_ends (discrete_renderRegion
     (discrete_of xs w (no_range\<lparr>chartRangeMin := Some (Fin m)\<rparr>) (Fin (of_int h))
       (Some (Fin (of_int l))) lc tc tv hlo) r hl) = Some (Fin (of_int top), Fin (of_int (top + l)))"
proof -
  let ?lo = "Min (set xs)" and ?hi = "Max (set xs)"
  have xs: "xs \<noteq> []" using r by auto
  note f = discrete_fields [OF xs]
  let ?t = "of_int (h - l) - of_int (h - l) * ((?hi - m) / (?hi - ?lo))"
  have "(?hi - m) / (?hi - ?lo) = 1 + (?lo - m) / (?hi - ?lo)" using ne by (simp add: field_simps)
  then have t: "?t < - (1 / 2)" using big by (simp add: algebra_simps)
  have "js_round ?t < 0" using t unfolding js_round_def by linarith
  moreover have "line_ends (discrete_renderRegion
     (discrete_of xs w (no_range\<lparr>chartRangeMin := Some (Fin m)\<rparr>) (Fin (of_int h))
       (Some (Fin (of_int l))) lc tc tv hlo) r hl) = Some (Fin (of_int (js_round ?t)), Fin (of_int (js_round ?t + l)))"
    using x ne r m by (simp add: line_ends_discrete f no_range_def range_min_def range_max_def num_at_vals
        clipval_id Let_def)
  ultimately show ?thesis by blast
qed

lemma discrete_chartRangeMin_overflows_witness:
  "\<exists>top. top < 0 \<and> line_ends (discrete_renderRegion
     (discrete_of [5, 10] None (no_range\<lparr>chartRangeMin := Some (Fin 0)\<rparr>)
       (Fin (of_int 20)) (Some (Fin (of_int 6))) (Some ''#00f'') None (Fin 0) demo_hl) 1 False) =
     Some (Fin (of_int top), Fin (of_int (top + 6)))"
  by (rule discrete_chartRangeMin_overflows) auto

text \<open>When all values are equal the range is 0 and both ends of every line are \<open>NaN\<close>.\<close>

theorem discrete_constant_nan:
  assumes "0 \<le> r" "r < int n"
  shows "line_ends (discrete_renderRegion
     (discrete_init (replicate n (VNum (Fin x))) w no_range ch lh lc tc tv hlo) r hl) = Some (NaN, NaN)"
proof -
  have n: "replicate n x \<noteq> []" using assms by auto
  have set: "set (replicate n x) = {x}" using assms by auto
  have vals: "replicate n (VNum (Fin x)) = map (\<lambda>x. VNum (Fin x)) (replicate n x)" by simp
  note f = discrete_fields [OF n, unfolded set]
  have v: "num_at (replicate n (Fin x)) r = Fin x" using assms by (auto simp: num_at_def js_nth_def)
  show ?thesis
    unfolding vals discrete_of_def [symmetric] using assms
    by (simp add: line_ends_discrete f(1-5) no_range_def range_min_def range_max_def v clipval_id Let_def)
qed

lemma discrete_constant_nan_witness:
  "line_ends (discrete_renderRegion
     (discrete_init (replicate 3 (VNum (Fin 4))) None no_range (Fin 20) None (Some ''#00f'') None (Fin 0) demo_hl) 1 True) =
   Some (NaN, NaN)"
  by (rule discrete_constant_nan) auto

end
