(* ===== verification/Spark_Line.thy ===== *)
theory Spark_Line
  imports Spark_Bars
begin

text \<open>
  The line charts of \<open>js/jquery.sparkline.js\<close>: reading the values, the value range, the room for the
  spots, the loop that turns values into vertices, paths and mouse regions, the shapes, and the
  highlight (a spot and a vertical line inserted behind the last shape).
\<close>

record line_opts =
  spotRadius :: jsnum
  highlightSpotColor :: colour
  highlightLineColor :: colour
  minSpotColor :: colour
  maxSpotColor :: colour
  spotColor :: colour
  fillColor :: colour
  lineColor :: colour
  lineWidth :: "jsnum option"
  normalRangeMin :: "jsnum option"
  normalRangeMax :: jsnum
  normalRangeColor :: colour
  drawNormalOnTop :: bool
  rangeY :: range_opts
  rangeX :: range_opts
  disableInteraction :: bool
  valueSpots :: "(jsnum option \<Rightarrow> colour) option"
  user_xvalues :: "jsnum list option"
  ln_disableHighlight :: bool
  ln_widthText :: "string option"
  ln_heightText :: "string option"

text \<open>
  The last two are the texts of the width and the height of the canvas (\<open>match[1]\<close> of
  \<open>_calculatePixelDims\<close>), where these were given in pixels; else the browser measures numbers.
  \<open>+\<close> of a number and such a text is a text again, and so is that with the half pixel which the canvas adds
  to every coordinate (\<open>2 + '20' + 0.5\<close> is \<open>'2200.5'\<close>), before it becomes a number. The coordinate of a
  drawing is here the number that half a pixel is added to.
\<close>

definition text_sum :: "jsnum \<Rightarrow> string \<Rightarrow> jsnum" where
  "text_sum x t =
     string_to_num ((case x of Fin q \<Rightarrow> show_int \<lfloor>q\<rfloor> | _ \<Rightarrow> ''NaN'') @ t @ ''0.5'') - Fin (1 / 2)"

definition coord_sum :: "jsnum \<Rightarrow> jsnum \<Rightarrow> string option \<Rightarrow> jsnum" where
  "coord_sum x h txt = (case txt of None \<Rightarrow> x + h | Some t \<Rightarrow> text_sum x t)"

section \<open>Values\<close>

text \<open>\<open>null\<close> among the y values is \<open>None\<close>; in \<open>Math.min\<close> and \<open>Math.max\<close> it counts as 0.\<close>

definition y_of :: "jsval \<Rightarrow> jsnum option" where
  "y_of v = (if v = VNull then None else Some (to_num v))"

definition at_val :: "jsval list \<Rightarrow> nat \<Rightarrow> jsval" where
  "at_val vs i = (if i < length vs then vs ! i else VUndef)"

text \<open>One value: its x, its y, and what it adds to \<open>yminmax\<close>.\<close>

definition scan_one :: "nat \<Rightarrow> jsval \<Rightarrow> jsnum \<times> jsnum option \<times> jsnum list" where
  "scan_one i val =
     (let plain = (Fin (of_nat i),
                   (if val = VNull \<or> val = VStr ''null'' then (None, []) else (Some (to_num val), [to_num val])))
      in case val of
           VStr s \<Rightarrow>
             (case split_colon s of
                [a, b] \<Rightarrow> (string_to_num a, Some (string_to_num b), [string_to_num b])
              | _ \<Rightarrow> plain)
         | VArr vs \<Rightarrow> (to_num (at_val vs 0), y_of (at_val vs 1), [to_num (at_val vs 1)])
         | _ \<Rightarrow> plain)"

record scanned =
  xvalues :: "jsnum list"
  yvalues :: "jsnum option list"
  yminmax :: "jsnum list"

definition scanValues :: "line_opts \<Rightarrow> jsval list \<Rightarrow> scanned" where
  "scanValues opts values =
     (let sc = map_index scan_one values in
      \<lparr>xvalues = (case user_xvalues opts of None \<Rightarrow> map fst sc | Some xs \<Rightarrow> xs),
       yvalues = map (fst \<circ> snd) sc, yminmax = concat (map (snd \<circ> snd) sc)\<rparr>)"

section \<open>Ranges and room\<close>

record line_frame =
  minx :: jsnum
  maxx :: jsnum
  miny :: jsnum
  maxy :: jsnum
  minyorg :: jsnum
  maxyorg :: jsnum

definition processRangeOptions :: "line_opts \<Rightarrow> scanned \<Rightarrow> line_frame" where
  "processRangeOptions opts sc =
     (let ymx = math_max (yminmax sc); ymn = math_min (yminmax sc);
          nmn = (case normalRangeMin opts of None \<Rightarrow> ymn | Some r \<Rightarrow> if r < ymn then r else ymn);
          nmx = (if normalRangeMin opts \<noteq> None \<and> normalRangeMax opts > ymx then normalRangeMax opts else ymx)
      in \<lparr>minx = range_min (rangeX opts) (math_min (xvalues sc)),
          maxx = range_max (rangeX opts) (math_max (xvalues sc)),
          miny = range_min (rangeY opts) nmn, maxy = range_max (rangeY opts) nmx,
          minyorg = ymn, maxyorg = ymx\<rparr>)"

text \<open>The area left for the line: left, top, width and height, and the spot radius in use.\<close>

record line_area =
  areaLeft :: jsnum
  areaTop :: jsnum
  areaWidth :: jsnum
  areaHeight :: jsnum
  radius :: jsnum
  areaWidthText :: "string option"   \<comment> \<open>the text that the width still is when nothing was subtracted\<close>

definition used_radius :: "line_opts \<Rightarrow> jsnum \<Rightarrow> jsnum \<Rightarrow> jsnum" where
  "used_radius opts w h =
     (let r = spotRadius opts in
      if r \<noteq> Fin 0 \<and> r \<noteq> NaN \<and> (w < r * Fin 4 \<or> h < r * Fin 4) then Fin 0 else r)"

definition y_is :: "jsnum option \<Rightarrow> jsnum \<Rightarrow> bool" where
  "y_is y v = (case y of None \<Rightarrow> False | Some x \<Rightarrow> js_eq x v)"

definition line_area_of :: "line_opts \<Rightarrow> line_frame \<Rightarrow> jsnum option list \<Rightarrow> jsnum \<Rightarrow> jsnum \<Rightarrow> line_area" where
  "line_area_of opts f ys w h =
     (let r = used_radius opts w h;
          c = num_ceil r;
          first = hd ys;
          final = last ys;
          hlSpots = (truthy_colour (highlightSpotColor opts) \<and> \<not> disableInteraction opts);
          mn = truthy_colour (minSpotColor opts);
          mx = truthy_colour (maxSpotColor opts);
          sp = truthy_colour (spotColor opts);
          below = (hlSpots \<or> mn \<or> sp \<and> y_is final (miny f));
          above = (hlSpots \<or> mx \<or> sp \<and> y_is final (maxy f));
          left = (hlSpots \<or> (mn \<or> mx) \<and> (y_is first (miny f) \<or> y_is first (maxy f)));
          right = (hlSpots \<or> sp \<or> (mn \<or> mx \<and> (y_is final (miny f) \<or> y_is final (maxy f))));
          on = (r \<noteq> Fin 0 \<and> r \<noteq> NaN)
      in \<lparr>areaLeft = (if on \<and> left then c else Fin 0), areaTop = (if on \<and> above then c else Fin 0),
          areaWidth = w - (if on \<and> left then c else Fin 0) - (if on \<and> right then c else Fin 0),
          areaHeight = h - (if on \<and> below then c else Fin 0) - (if on \<and> above then c else Fin 0) - Fin 1,
          radius = r, areaWidthText = (if on \<and> (left \<or> right) then None else ln_widthText opts)\<rparr>)"

definition span_or_one :: "jsnum \<Rightarrow> jsnum \<Rightarrow> jsnum" where
  "span_or_one lo hi = (if js_eq (hi - lo) (Fin 0) then Fin 1 else hi - lo)"

definition x_pos :: "line_area \<Rightarrow> line_frame \<Rightarrow> jsnum \<Rightarrow> jsnum" where
  "x_pos a f x = areaLeft a + num_round ((x - minx f) * (areaWidth a / span_or_one (minx f) (maxx f)))"

definition y_pos :: "line_area \<Rightarrow> line_frame \<Rightarrow> jsnum \<Rightarrow> jsnum" where
  "y_pos a f y =
     areaTop a + num_round (areaHeight a - areaHeight a * ((y - miny f) / span_or_one (miny f) (maxy f)))"

section \<open>The loop over the values\<close>

type_synonym point = "jsnum \<times> jsnum"

record line_state =
  lastx :: "jsnum option"              \<comment> \<open>\<open>last\<close>\<close>
  path :: "point list"                 \<comment> \<open>the path being extended, the last one of \<open>paths\<close>\<close>
  done_paths :: "point list list"      \<comment> \<open>the paths before it\<close>
  vertices :: "point option list"
  regionMap :: "(jsnum \<times> jsnum) list"  \<comment> \<open>the third component is the index\<close>

text \<open>\<open>last || 0\<close>.\<close>

definition or_zero :: "jsnum option \<Rightarrow> jsnum" where
  "or_zero x = (case x of None \<Rightarrow> Fin 0 | Some v \<Rightarrow> if v = NaN then Fin 0 else v)"

definition value_step ::
  "line_area \<Rightarrow> line_frame \<Rightarrow> jsnum list \<Rightarrow> jsnum option list \<Rightarrow> line_state \<Rightarrow> nat \<Rightarrow> line_state" where
  "value_step a f xs ys st i =
     (let x = num_at xs (int i);
          xnext = num_at xs (int i + 1);
          xpos = x_pos a f x;
          xposnext = (if i + 1 < length ys then x_pos a f xnext else areaWidth a);
          nxt = xpos + (xposnext - xpos) / Fin 2;
          st = st\<lparr>regionMap := regionMap st @ [(or_zero (lastx st), nxt)], lastx := Some nxt\<rparr>
      in case ys ! i of
           None \<Rightarrow>
             if i = 0 then st
             else if ys ! (i - 1) \<noteq> None
             then st\<lparr>done_paths := done_paths st @ [path st], path := [], vertices := vertices st @ [None]\<rparr>
             else st\<lparr>vertices := vertices st @ [None]\<rparr>
         | Some y \<Rightarrow>
             (let y1 = (if y < miny f then miny f else y);
                  y2 = (if y1 > maxy f then maxy f else y1);
                  start = (if path st = [] then [(xpos, areaTop a + areaHeight a)] else path st);
                  vertex = (xpos, y_pos a f y2)
              in st\<lparr>path := start @ [vertex], vertices := vertices st @ [Some vertex]\<rparr>))"

definition new_line_state :: line_state where
  "new_line_state = \<lparr>lastx = None, path = [], done_paths = [], vertices = [], regionMap = []\<rparr>"

definition value_loop ::
  "line_area \<Rightarrow> line_frame \<Rightarrow> jsnum list \<Rightarrow> jsnum option list \<Rightarrow> nat \<Rightarrow> line_state" where
  "value_loop a f xs ys n = foldl (value_step a f xs ys) new_line_state [0..<n]"

definition line_paths :: "line_state \<Rightarrow> point list list" where
  "line_paths st = filter (\<lambda>p. p \<noteq> []) (done_paths st @ [path st])"

definition fill_shape :: "line_area \<Rightarrow> point list \<Rightarrow> point list" where
  "fill_shape a p = p @ [(fst (last p), areaTop a + areaHeight a)]"

definition line_shape :: "point list \<Rightarrow> point list" where
  "line_shape p = (if length p > 2 then (fst (p ! 0), snd (p ! 1)) # tl p else p)"

section \<open>The drawings\<close>

text \<open>The width of a rectangle at \<open>areaLeft\<close> (0, where the width is a text), which the canvas adds to that.\<close>

definition rect_width :: "line_area \<Rightarrow> jsnum" where
  "rect_width a = coord_sum (Fin 0) (areaWidth a) (areaWidthText a)"

definition normal_range :: "line_opts \<Rightarrow> line_area \<Rightarrow> line_frame \<Rightarrow> drawing list" where
  "normal_range opts a f =
     (case normalRangeMin opts of
        None \<Rightarrow> []
      | Some lo \<Rightarrow>
          (let hi = normalRangeMax opts; rangey = span_or_one (miny f) (maxy f);
               ytop = y_pos a f hi;
               height = num_round ((areaHeight a * (hi - lo)) / rangey)
           in [drawRect (areaLeft a) ytop (rect_width a) height None (normalRangeColor opts)]))"

text \<open>\<open>$.inArray\<close>: the first index, or -1.\<close>

fun in_array :: "jsnum \<Rightarrow> jsnum option list \<Rightarrow> int" where
  "in_array v [] = -1"
| "in_array v (y # ys) =
     (if y_is y v then 0 else (let i = in_array v ys in if i < 0 then -1 else i + 1))"

definition spot :: "line_area \<Rightarrow> line_frame \<Rightarrow> jsnum \<Rightarrow> jsnum \<Rightarrow> colour \<Rightarrow> drawing" where
  "spot a f x y c = drawCircle (x_pos a f x) (y_pos a f y) (radius a) None c None"

definition spots :: "line_opts \<Rightarrow> line_area \<Rightarrow> line_frame \<Rightarrow> jsnum list \<Rightarrow> jsnum option list \<Rightarrow> drawing list" where
  "spots opts a f xs ys =
     (let on = (radius a \<noteq> Fin 0 \<and> radius a \<noteq> NaN);
          num = (\<lambda>y. case y of None \<Rightarrow> Fin 0 | Some v \<Rightarrow> v)
      in (case valueSpots opts of
            Some get \<Rightarrow>
              if on then
                concat (map (\<lambda>i. if truthy_colour (get (ys ! i))
                                 then [spot a f (num_at xs (int i)) (num (ys ! i)) (get (ys ! i))] else [])
                          [0..<length ys])
              else []
          | None \<Rightarrow> []) @
         (if on \<and> truthy_colour (spotColor opts) \<and> last ys \<noteq> None
          then [spot a f (num_at xs (int (length xs) - 1)) (num (last ys)) (spotColor opts)] else []) @
         (if \<not> js_eq (maxy f) (minyorg f) then
            (if on \<and> truthy_colour (minSpotColor opts)
             then [spot a f (num_at xs (in_array (minyorg f) ys)) (minyorg f) (minSpotColor opts)] else []) @
            (if on \<and> truthy_colour (maxSpotColor opts)
             then [spot a f (num_at xs (in_array (maxyorg f) ys)) (maxyorg f) (maxSpotColor opts)] else [])
          else []))"

definition line_drawings ::
  "line_opts \<Rightarrow> line_area \<Rightarrow> line_frame \<Rightarrow> jsnum list \<Rightarrow> jsnum option list \<Rightarrow> line_state \<Rightarrow> drawing list" where
  "line_drawings opts a f xs ys st =
     (if drawNormalOnTop opts then [] else normal_range opts a f) @
     (if truthy_colour (fillColor opts)
      then map (\<lambda>p. drawShape (fill_shape a p) (fillColor opts) (fillColor opts) None) (line_paths st) else []) @
     (if drawNormalOnTop opts then normal_range opts a f else []) @
     map (\<lambda>p. drawShape (line_shape p) (lineColor opts) None (lineWidth opts)) (line_paths st) @
     spots opts a f xs ys"

section \<open>The chart object\<close>

record line_chart = "nat spark_base" +
  ln_vertices :: "point option list"
  ln_regionMap :: "(jsnum \<times> jsnum) list"
  ln_lastShapeId :: "nat option"
  ln_canvasTop :: jsnum
  highlightSpotId :: "nat option"
  highlightLineId :: "nat option"

definition new_line_chart :: "canvas \<Rightarrow> line_chart" where
  "new_line_chart c =
     \<lparr>currentRegion = None, canvasWidth = pixelWidth c, canvasHeight = pixelHeight c, vtarget = c,
      ln_vertices = [], ln_regionMap = [], ln_lastShapeId = None, ln_canvasTop = Fin 0,
      highlightSpotId = None, highlightLineId = None\<rparr>"

text \<open>\<open>target.draw...(...).append()\<close>, one after the other.\<close>

definition append_drawing :: "drawing \<Rightarrow> canvas \<Rightarrow> canvas" where
  "append_drawing d c = (let (sh, c) = genShape d c in appendShape sh c)"

definition line_render ::
  "(drawing \<Rightarrow> jsnum \<Rightarrow> jsnum \<Rightarrow> bool) \<Rightarrow> line_opts \<Rightarrow> jsval list \<Rightarrow> line_chart \<Rightarrow> line_chart option" where
  "line_render inpath opts values s =
     (let sc = scanValues opts values;
          f = processRangeOptions opts sc;
          xs = xvalues sc; ys = yvalues sc
      in if yminmax sc = [] \<or> length ys < 2 then Some s
         else
           (let a = line_area_of opts f ys (canvasWidth s) (canvasHeight s);
                st = value_loop a f xs ys (length ys);
                c = fold append_drawing (line_drawings opts a f xs ys st) (vtarget s)
            in repaint inpath (s\<lparr>ln_vertices := vertices st, ln_regionMap := regionMap st,
                                 vtarget := c, ln_lastShapeId := lastShapeId c,
                                 ln_canvasTop := areaTop a\<rparr>)))"

text \<open>The regions are searched from the last to the first.\<close>

fun region_search :: "(jsnum \<times> jsnum) list \<Rightarrow> jsnum \<Rightarrow> nat \<Rightarrow> nat option" where
  "region_search rm x 0 = None"
| "region_search rm x (Suc i) =
     (if i < length rm \<and> x \<ge> fst (rm ! i) \<and> x \<le> snd (rm ! i) then Some i else region_search rm x i)"

definition line_getRegion :: "jsnum \<Rightarrow> jsnum \<Rightarrow> line_chart \<Rightarrow> (nat option \<times> line_chart) option" where
  "line_getRegion x y s = Some (region_search (ln_regionMap s) x (length (ln_regionMap s)), s)"

definition line_renderHighlight :: "line_opts \<Rightarrow> line_chart \<Rightarrow> line_chart" where
  "line_renderHighlight opts s =
     (case (case currentRegion s of None \<Rightarrow> None
            | Some r \<Rightarrow> if r < length (ln_vertices s) then ln_vertices s ! r else None) of
        None \<Rightarrow> s
      | Some (vx, vy) \<Rightarrow>
          (let s = (if spotRadius opts \<noteq> Fin 0 \<and> spotRadius opts \<noteq> NaN \<and> truthy_colour (highlightSpotColor opts)
                    then (let (sh, c) = genShape (drawCircle vx vy (spotRadius opts) None
                                                    (highlightSpotColor opts) None) (vtarget s)
                          in s\<lparr>highlightSpotId := Some (sh_id sh),
                               vtarget := insertAfterShape (ln_lastShapeId s) sh c\<rparr>)
                    else s)
           in if truthy_colour (highlightLineColor opts)
              then (let (sh, c) = genShape (drawLine vx (ln_canvasTop s) vx
                                              (coord_sum (ln_canvasTop s) (canvasHeight s) (ln_heightText opts))
                                              (highlightLineColor opts) None) (vtarget s)
                    in s\<lparr>highlightLineId := Some (sh_id sh),
                         vtarget := insertAfterShape (ln_lastShapeId s) sh c\<rparr>)
              else s))"

text \<open>An id of 0 counts as none.\<close>

definition line_removeHighlight :: "line_chart \<Rightarrow> line_chart" where
  "line_removeHighlight s =
     (let s = (case highlightSpotId s of
                 Some (Suc i) \<Rightarrow> s\<lparr>vtarget := removeShapeId (Suc i) (vtarget s), highlightSpotId := None\<rparr>
               | _ \<Rightarrow> s)
      in case highlightLineId s of
           Some (Suc i) \<Rightarrow> s\<lparr>vtarget := removeShapeId (Suc i) (vtarget s), highlightLineId := None\<rparr>
         | _ \<Rightarrow> s)"

definition line_changeHighlight :: "line_opts \<Rightarrow> bool \<Rightarrow> line_chart \<Rightarrow> line_chart option" where
  "line_changeHighlight opts hl s = Some (if hl then line_renderHighlight opts s else line_removeHighlight s)"

end
