(* ===== verification/Spark_Line_Shows.thy ===== *)
theory Spark_Line_Shows
  imports Spark_Line Spark_Bar_Props
begin

text \<open>
  A line chart is a \<open>highlighter\<close>: its canvas shows the chart and behind it, for the current region, a
  vertical line and a spot at the vertex of that region.
\<close>

definition vertex_of :: "line_chart \<Rightarrow> nat \<Rightarrow> point option" where
  "vertex_of s r = (if r < length (ln_vertices s) then ln_vertices s ! r else None)"

lemma vertex_of_cong: "ln_vertices s' = ln_vertices s \<Longrightarrow> vertex_of s' = vertex_of s"
  by (simp add: vertex_of_def fun_eq_iff)

definition spot_on :: "line_opts \<Rightarrow> bool" where
  "spot_on opts \<longleftrightarrow> spotRadius opts \<noteq> Fin 0 \<and> spotRadius opts \<noteq> NaN \<and> truthy_colour (highlightSpotColor opts)"

definition hl_spot :: "line_opts \<Rightarrow> point \<Rightarrow> drawing" where
  "hl_spot opts v = drawCircle (fst v) (snd v) (spotRadius opts) None (highlightSpotColor opts) None"

definition hl_line :: "line_opts \<Rightarrow> line_chart \<Rightarrow> point \<Rightarrow> drawing" where
  "hl_line opts s v =
     drawLine (fst v) (ln_canvasTop s) (fst v) (coord_sum (ln_canvasTop s) (canvasHeight s) (ln_heightText opts))
       (highlightLineColor opts) None"

definition opt_layer :: "nat option \<Rightarrow> drawing \<Rightarrow> (nat \<times> drawing) list" where
  "opt_layer i d = (case i of None \<Rightarrow> [] | Some n \<Rightarrow> [(n, d)])"

definition hl_layers :: "line_opts \<Rightarrow> line_chart \<Rightarrow> point option \<Rightarrow> (nat \<times> drawing) list" where
  "hl_layers opts s w =
     (case w of None \<Rightarrow> []
      | Some v \<Rightarrow> opt_layer (highlightLineId s) (hl_line opts s v) @ opt_layer (highlightSpotId s) (hl_spot opts v))"

text \<open>\<open>w\<close> is the vertex that is shown highlighted.\<close>

definition line_shows_at ::
  "line_opts \<Rightarrow> (nat \<times> drawing) list \<Rightarrow> point option \<Rightarrow> line_chart \<Rightarrow> bool" where
  "line_shows_at opts P w s \<longleftrightarrow>
     canvas_wf (vtarget s) \<and> interact (vtarget s) \<and>
     ((\<exists>r v. vertex_of s r = Some v) \<longrightarrow> P \<noteq> [] \<and> ln_lastShapeId s = Some (fst (last P))) \<and>
     layers (vtarget s) = P @ hl_layers opts s w \<and>
     (highlightSpotId s \<noteq> None \<longleftrightarrow> w \<noteq> None \<and> spot_on opts) \<and>
     (highlightLineId s \<noteq> None \<longleftrightarrow> w \<noteq> None \<and> truthy_colour (highlightLineColor opts)) \<and>
     highlightSpotId s \<noteq> Some 0 \<and> highlightLineId s \<noteq> Some 0"

definition line_shows ::
  "line_opts \<Rightarrow> (nat \<times> drawing) list \<Rightarrow> (nat \<Rightarrow> bool) \<Rightarrow> line_chart \<Rightarrow> bool" where
  "line_shows opts P h s \<longleftrightarrow>
     (\<exists>w. line_shows_at opts P w s \<and> (\<forall>r. h r \<longrightarrow> vertex_of s r = w) \<and> ((\<forall>r. \<not> h r) \<longrightarrow> w = None))"

lemma drawable_spot [simp]: "drawable (hl_spot opts v)" "drawable (hl_line opts s v)"
  by (simp_all add: hl_spot_def hl_line_def drawable_def drawCircle_def drawLine_def drawShape_def)

lemma insert_new:
  assumes wf: "canvas_wf c" and d: "drawable d" and g: "genShape d c = (sh, c')"
    and l: "layers c = A @ l # B"
  shows "canvas_wf (insertAfterShape (Some (fst l)) sh c')"
    "layers (insertAfterShape (Some (fst l)) sh c') = A @ l # (sh_id sh, d) # B"
    "interact (insertAfterShape t sh c') = interact c" "0 < sh_id sh"
proof -
  have gs: "canvas_wf c'" "fresh_id (sh_id sh) c'" "drawable (sh_draw sh)" "layers c' = A @ l # B"
    using genShape_spec [OF g] wf d l by simp_all
  show "canvas_wf (insertAfterShape (Some (fst l)) sh c')"
    by (rule insertAfterShape_spec(1) [OF gs(1-3)])
  show "layers (insertAfterShape (Some (fst l)) sh c') = A @ l # (sh_id sh, d) # B"
    using insertAfterShape_spec(2) [OF gs(1-3) refl gs(4) refl] genShape_spec(1) [OF g] by (simp add: layer_def)
  show "interact (insertAfterShape t sh c') = interact c"
    using genShape_spec(9) [OF g] by (auto simp: insertAfterShape_def split: option.splits)
  have "fst l \<in> set (shapeseq c)" unfolding fst_layers [symmetric] l by simp
  then show "0 < sh_id sh" using canvas_wfD [OF wf] genShape_spec(10) [OF g] by fastforce
qed

lemma line_render_at:
  assumes sh: "line_shows_at opts P None s" and cur: "currentRegion s = Some r"
  shows "line_shows_at opts P (vertex_of s r) (line_renderHighlight opts s)" (is ?thesis1)
    and "currentRegion (line_renderHighlight opts s) = Some r" (is ?thesis2)
    and "vertex_of (line_renderHighlight opts s) = vertex_of s" (is ?thesis3)
proof -
  have wf: "canvas_wf (vtarget s)" "interact (vtarget s)" and lay: "layers (vtarget s) = P"
    and ids: "highlightSpotId s = None" "highlightLineId s = None"
    and lst: "(\<exists>r v. vertex_of s r = Some v) \<Longrightarrow> P \<noteq> [] \<and> ln_lastShapeId s = Some (fst (last P))"
    using sh by (auto simp: line_shows_at_def hl_layers_def)
  have "?thesis1 \<and> ?thesis2 \<and> ?thesis3"
  proof (cases "vertex_of s r")
    case None
    then have "line_renderHighlight opts s = s"
      using cur by (simp add: line_renderHighlight_def vertex_of_def)
    then show ?thesis using sh cur None by simp
  next
    case (Some v)
    have P: "P \<noteq> []" and last: "ln_lastShapeId s = Some (fst (last P))" using lst Some by blast+
    have PA: "P = butlast P @ last P # []" using P by simp
    obtain vx vy where vv: "v = (vx, vy)" by force
    define s1 where "s1 = (if spot_on opts then
        (let (sh, c) = genShape (hl_spot opts v) (vtarget s)
         in s\<lparr>highlightSpotId := Some (sh_id sh), vtarget := insertAfterShape (ln_lastShapeId s) sh c\<rparr>) else s)"
    define s2 where "s2 = (if truthy_colour (highlightLineColor opts) then
        (let (sh, c) = genShape (hl_line opts s1 v) (vtarget s1)
         in s1\<lparr>highlightLineId := Some (sh_id sh), vtarget := insertAfterShape (ln_lastShapeId s1) sh c\<rparr>) else s1)"
    have e: "line_renderHighlight opts s = s2"
      using cur Some unfolding s2_def s1_def
      by (simp add: line_renderHighlight_def vertex_of_def vv spot_on_def hl_spot_def hl_line_def Let_def
          split: prod.splits)
    have lastP: "layers (vtarget s) = butlast P @ last P # []" using lay PA by simp
    have s1: "canvas_wf (vtarget s1)" "interact (vtarget s1)"
      "layers (vtarget s1) = butlast P @ last P # opt_layer (highlightSpotId s1) (hl_spot opts v)"
      "highlightSpotId s1 \<noteq> None \<longleftrightarrow> spot_on opts" "highlightSpotId s1 \<noteq> Some 0" "highlightLineId s1 = None"
      "ln_lastShapeId s1 = Some (fst (last P))" "ln_vertices s1 = ln_vertices s" "currentRegion s1 = currentRegion s"
      "ln_canvasTop s1 = ln_canvasTop s" "canvasHeight s1 = canvasHeight s"
    proof -
      obtain sh c where g: "genShape (hl_spot opts v) (vtarget s) = (sh, c)" by force
      note i = insert_new [OF wf(1) drawable_spot(1) g lastP]
      show "canvas_wf (vtarget s1)" "interact (vtarget s1)"
        "layers (vtarget s1) = butlast P @ last P # opt_layer (highlightSpotId s1) (hl_spot opts v)"
        "highlightSpotId s1 \<noteq> None \<longleftrightarrow> spot_on opts" "highlightSpotId s1 \<noteq> Some 0" "highlightLineId s1 = None"
        "ln_lastShapeId s1 = Some (fst (last P))" "ln_vertices s1 = ln_vertices s" "currentRegion s1 = currentRegion s"
        "ln_canvasTop s1 = ln_canvasTop s" "canvasHeight s1 = canvasHeight s"
        using i wf ids last lastP by (auto simp: s1_def g opt_layer_def)
    qed
    have s2: "canvas_wf (vtarget s2)" "interact (vtarget s2)"
      "layers (vtarget s2) = butlast P @ last P # opt_layer (highlightLineId s2) (hl_line opts s2 v) @
         opt_layer (highlightSpotId s2) (hl_spot opts v)"
      "highlightSpotId s2 = highlightSpotId s1" "highlightLineId s2 \<noteq> Some 0"
      "highlightLineId s2 \<noteq> None \<longleftrightarrow> truthy_colour (highlightLineColor opts)"
      "ln_lastShapeId s2 = Some (fst (last P))" "ln_vertices s2 = ln_vertices s" "currentRegion s2 = currentRegion s"
    proof -
      obtain sh c where g: "genShape (hl_line opts s1 v) (vtarget s1) = (sh, c)" by force
      note i = insert_new [OF s1(1) drawable_spot(2) g s1(3)]
      have hl: "hl_line opts (s1\<lparr>highlightLineId := x, vtarget := y\<rparr>) v = hl_line opts s1 v" for x y
        by (simp add: hl_line_def)
      show "canvas_wf (vtarget s2)" "interact (vtarget s2)"
        "layers (vtarget s2) = butlast P @ last P # opt_layer (highlightLineId s2) (hl_line opts s2 v) @
           opt_layer (highlightSpotId s2) (hl_spot opts v)"
        "highlightSpotId s2 = highlightSpotId s1" "highlightLineId s2 \<noteq> Some 0"
        "highlightLineId s2 \<noteq> None \<longleftrightarrow> truthy_colour (highlightLineColor opts)"
        "ln_lastShapeId s2 = Some (fst (last P))" "ln_vertices s2 = ln_vertices s" "currentRegion s2 = currentRegion s"
        using i s1 by (auto simp: s2_def g opt_layer_def hl)
    qed
    have "P @ xs = butlast P @ last P # xs" for xs using P by simp
    then show ?thesis
      unfolding e using s2 s1(4,5) Some cur P vertex_of_cong [OF s2(8)] by (auto simp: line_shows_at_def hl_layers_def)
  qed
  then show ?thesis1 ?thesis2 ?thesis3 by auto
qed

lemma remove_layer:
  assumes wf: "canvas_wf c" and l: "layers c = A @ opt_layer (Some i) d @ B"
  shows "layers (removeShapeId i c) = A @ B" "canvas_wf (removeShapeId i c)"
    "interact (removeShapeId i c) = interact c"
proof -
  have "distinct (map fst (layers c))" using wf by (simp add: canvas_wf_def)
  then have "i \<notin> fst ` set A" "i \<notin> fst ` set B" by (auto simp: l opt_layer_def)
  then have "filter (\<lambda>l. fst l \<noteq> i) A = A" "filter (\<lambda>l. fst l \<noteq> i) B = B" by (auto intro!: filter_True)
  then show "layers (removeShapeId i c) = A @ B"
    using removeShapeId_spec(1) [OF wf, of i] by (simp add: l opt_layer_def)
  show "canvas_wf (removeShapeId i c)" by (rule removeShapeId_spec(2) [OF wf])
  show "interact (removeShapeId i c) = interact c" by (simp add: removeShapeId_def)
qed

lemma line_remove_at:
  assumes sh: "line_shows_at opts P w s"
  shows "line_shows_at opts P None (line_removeHighlight s)"
    "currentRegion (line_removeHighlight s) = currentRegion s"
    "vertex_of (line_removeHighlight s) = vertex_of s"
proof -
  define s1 where "s1 = (case highlightSpotId s of
      Some (Suc i) \<Rightarrow> s\<lparr>vtarget := removeShapeId (Suc i) (vtarget s), highlightSpotId := None\<rparr> | _ \<Rightarrow> s)"
  have e: "line_removeHighlight s = (case highlightLineId s1 of
      Some (Suc i) \<Rightarrow> s1\<lparr>vtarget := removeShapeId (Suc i) (vtarget s1), highlightLineId := None\<rparr> | _ \<Rightarrow> s1)"
    unfolding line_removeHighlight_def s1_def Let_def ..
  have wf: "canvas_wf (vtarget s)" "interact (vtarget s)" and lay: "layers (vtarget s) = P @ hl_layers opts s w"
    and nz: "highlightSpotId s \<noteq> Some 0" "highlightLineId s \<noteq> Some 0"
    and none: "w = None \<Longrightarrow> highlightSpotId s = None \<and> highlightLineId s = None"
    and lst: "(\<exists>r v. vertex_of s r = Some v) \<Longrightarrow> P \<noteq> [] \<and> ln_lastShapeId s = Some (fst (last P))"
    using sh by (auto simp: line_shows_at_def)
  have s1: "canvas_wf (vtarget s1)" "interact (vtarget s1)"
    "\<exists>d. layers (vtarget s1) = P @ opt_layer (highlightLineId s1) d @ []"
    "highlightSpotId s1 = None" "highlightLineId s1 = highlightLineId s" "ln_vertices s1 = ln_vertices s"
    "currentRegion s1 = currentRegion s" "ln_lastShapeId s1 = ln_lastShapeId s"
  proof -
    have "canvas_wf (vtarget s1) \<and> interact (vtarget s1) \<and>
        (\<exists>d. layers (vtarget s1) = P @ opt_layer (highlightLineId s1) d @ []) \<and> highlightSpotId s1 = None \<and>
        highlightLineId s1 = highlightLineId s \<and> ln_vertices s1 = ln_vertices s \<and>
        currentRegion s1 = currentRegion s \<and> ln_lastShapeId s1 = ln_lastShapeId s"
    proof (cases "highlightSpotId s")
      case None
      have "\<exists>d. layers (vtarget s) = P @ opt_layer (highlightLineId s) d @ []"
        using lay none None by (cases w) (auto simp: hl_layers_def opt_layer_def)
      then show ?thesis using None wf by (simp add: s1_def)
    next
      case (Some j)
      then obtain i where i: "highlightSpotId s = Some (Suc i)" using nz(1) by (cases j) auto
      then obtain v where v: "w = Some v" using none by (cases w) auto
      have "layers (vtarget s) = (P @ opt_layer (highlightLineId s) (hl_line opts s v)) @
          opt_layer (Some (Suc i)) (hl_spot opts v) @ []"
        using lay v i by (simp add: hl_layers_def)
      note rm = remove_layer [OF wf(1) this]
      have e1: "s1 = s\<lparr>vtarget := removeShapeId (Suc i) (vtarget s), highlightSpotId := None\<rparr>"
        by (simp add: s1_def i)
      show ?thesis using rm wf(2) by (auto simp: e1)
    qed
    then show "canvas_wf (vtarget s1)" "interact (vtarget s1)"
      "\<exists>d. layers (vtarget s1) = P @ opt_layer (highlightLineId s1) d @ []"
      "highlightSpotId s1 = None" "highlightLineId s1 = highlightLineId s" "ln_vertices s1 = ln_vertices s"
      "currentRegion s1 = currentRegion s" "ln_lastShapeId s1 = ln_lastShapeId s" by auto
  qed
  have "line_shows_at opts P None (line_removeHighlight s) \<and>
      currentRegion (line_removeHighlight s) = currentRegion s \<and>
      vertex_of (line_removeHighlight s) = vertex_of s"
  proof (cases "highlightLineId s")
    case None
    then show ?thesis
      using s1 lst vertex_of_cong [OF s1(6)] by (simp add: e line_shows_at_def hl_layers_def opt_layer_def)
  next
    case (Some j)
    then obtain i where i: "highlightLineId s1 = Some (Suc i)" using nz(2) s1(5) by (cases j) auto
    obtain d where "layers (vtarget s1) = P @ opt_layer (Some (Suc i)) d @ []" using s1(3) i by auto
    note rm = remove_layer [OF s1(1) this]
    have e2: "line_removeHighlight s = s1\<lparr>vtarget := removeShapeId (Suc i) (vtarget s1), highlightLineId := None\<rparr>"
      by (simp add: e i)
    have v: "vertex_of (s1\<lparr>vtarget := c, highlightLineId := x\<rparr>) = vertex_of s" for c x
      using s1(6) by (intro vertex_of_cong) simp
    show ?thesis
      using rm s1 lst by (simp add: e2 line_shows_at_def hl_layers_def v)
  qed
  then show "line_shows_at opts P None (line_removeHighlight s)"
    "currentRegion (line_removeHighlight s) = currentRegion s"
    "vertex_of (line_removeHighlight s) = vertex_of s" by auto
qed

interpretation line: highlighter "\<lambda>_. True" "line_shows opts P" line_getRegion "line_changeHighlight opts"
  inpath "ln_disableHighlight opts"
  for opts P inpath
proof
  fix h :: "nat \<Rightarrow> bool" and s :: line_chart and r b
  assume sh: "line_shows opts P h s" and cur: "currentRegion s = Some r"
    and h: "\<forall>q. h q \<longrightarrow> q = r \<and> \<not> b"
  obtain w where w: "line_shows_at opts P w s" "\<forall>r. h r \<longrightarrow> vertex_of s r = w" "(\<forall>r. \<not> h r) \<longrightarrow> w = None"
    using sh by (auto simp: line_shows_def)
  show "\<exists>s'. line_changeHighlight opts b s = Some s' \<and> line_shows opts P (h(r := b)) s' \<and>
      currentRegion s' = currentRegion s"
  proof (cases b)
    case True
    then have off: "h = (\<lambda>_. False)" "w = None" using h w(3) by auto
    have "line_shows opts P (h(r := b)) (line_renderHighlight opts s)"
      unfolding line_shows_def using line_render_at [of opts P s r] w(1) off cur True
      by (intro exI [of _ "vertex_of s r"]) auto
    then show ?thesis using True line_render_at(2) [of opts P s r] w(1) off cur
      by (simp add: line_changeHighlight_def)
  next
    case False
    then have "h(r := b) = (\<lambda>_. False)" using h by (auto simp: fun_eq_iff)
    then have "line_shows opts P (h(r := b)) (line_removeHighlight s)"
      unfolding line_shows_def using line_remove_at(1) [OF w(1)] by auto
    then show ?thesis using False line_remove_at(2) [OF w(1)] by (simp add: line_changeHighlight_def)
  qed
next
  fix h :: "nat \<Rightarrow> bool" and s :: line_chart and c
  have v: "vertex_of (s\<lparr>currentRegion := c\<rparr>) = vertex_of s" by (rule vertex_of_cong) simp
  have "hl_layers opts (s\<lparr>currentRegion := c\<rparr>) w = hl_layers opts s w" for w
    by (simp add: hl_layers_def hl_line_def split: option.splits)
  then show "line_shows opts P h (s\<lparr>currentRegion := c\<rparr>) = line_shows opts P h s"
    by (simp add: line_shows_def line_shows_at_def v)
next
  fix h :: "nat \<Rightarrow> bool" and s :: line_chart and k
  assume a: "line_shows opts P h s" "canvas_wf k" "interact k" "layers k = layers (vtarget s)"
  have v: "vertex_of (s\<lparr>vtarget := k\<rparr>) = vertex_of s" by (rule vertex_of_cong) simp
  have "hl_layers opts (s\<lparr>vtarget := k\<rparr>) w = hl_layers opts s w" for w
    by (simp add: hl_layers_def hl_line_def split: option.splits)
  then show "line_shows opts P h (s\<lparr>vtarget := k\<rparr>)"
    using a by (auto simp: line_shows_def line_shows_at_def v)
qed (auto simp: line_getRegion_def line_shows_def line_shows_at_def)

end
