(* ===== verification/Spark_Line_Props.thy ===== *)
theory Spark_Line_Props
  imports Spark_Line_Shows
begin

text \<open>
  Properties of line charts: what the canvas shows after every history, where the vertices lie, and
  how the mouse regions relate to the vertices.
\<close>

section \<open>The value loop\<close>

text \<open>The vertex of value \<open>i\<close>.\<close>

definition value_vertex ::
  "line_area \<Rightarrow> line_frame \<Rightarrow> jsnum list \<Rightarrow> jsnum option list \<Rightarrow> nat \<Rightarrow> point option" where
  "value_vertex a f xs ys i =
     (case ys ! i of None \<Rightarrow> None
      | Some y \<Rightarrow> Some (x_pos a f (num_at xs (int i)), y_pos a f (clipval y (miny f) (maxy f))))"

text \<open>The right end of the region of value \<open>i\<close>.\<close>

definition region_end :: "line_area \<Rightarrow> line_frame \<Rightarrow> jsnum list \<Rightarrow> jsnum option list \<Rightarrow> nat \<Rightarrow> jsnum" where
  "region_end a f xs ys i =
     (let xpos = x_pos a f (num_at xs (int i));
          xposnext = (if i + 1 < length ys then x_pos a f (num_at xs (int i + 1)) else areaWidth a)
      in xpos + (xposnext - xpos) / Fin 2)"

text \<open>Clipping twice is \<open>clipval\<close> when the bounds are in order.\<close>

lemma clip_twice:
  fixes y :: jsnum
  assumes "\<not> mx < mn"
  shows "(let y1 = (if y < mn then mn else y) in if y1 > mx then mx else y1) = clipval y mn mx"
  using assms by (auto simp: clipval_def)

lemma value_loop_Suc: "value_loop a f xs ys (Suc n) = value_step a f xs ys (value_loop a f xs ys n) n"
  by (simp add: value_loop_def)

lemma value_loop_regions:
  "regionMap (value_loop a f xs ys n) =
     map (\<lambda>i. (if i = 0 then Fin 0 else or_zero (Some (region_end a f xs ys (i - 1))), region_end a f xs ys i)) [0..<n] \<and>
   lastx (value_loop a f xs ys n) = (if n = 0 then None else Some (region_end a f xs ys (n - 1)))"
proof (induction n)
  case 0
  then show ?case by (simp add: value_loop_def new_line_state_def)
next
  case (Suc n)
  let ?s = "value_loop a f xs ys n" and ?s' = "value_loop a f xs ys (Suc n)"
  have r: "regionMap ?s' = regionMap ?s @ [(or_zero (lastx ?s), region_end a f xs ys n)]"
    "lastx ?s' = Some (region_end a f xs ys n)"
    unfolding value_loop_Suc by (simp_all add: value_step_def region_end_def Let_def split: option.splits)
  have z: "or_zero None = Fin 0" by (simp add: or_zero_def)
  show ?case using Suc.IH unfolding r by (cases n) (simp_all add: z)
qed

text \<open>A leading \<open>null\<close> adds no entry to the vertices; any other \<open>null\<close> adds one.\<close>

lemma value_loop_vertices:
  assumes mm: "\<not> maxy f < miny f" and ne: "ys \<noteq> []"
  shows "n \<le> length ys \<Longrightarrow> vertices (value_loop a f xs ys n) =
    map (value_vertex a f xs ys) [(if ys ! 0 = None then 1 else 0)..<n]"
proof (induction n)
  case 0
  then show ?case by (simp add: value_loop_def new_line_state_def)
next
  case (Suc n)
  let ?s = "value_loop a f xs ys n" and ?k = "if ys ! 0 = None then 1 else 0 :: nat"
  note cl = clip_twice [OF mm, unfolded Let_def]
  have step: "vertices (value_loop a f xs ys (Suc n)) =
      vertices ?s @ (if n = 0 \<and> ys ! 0 = None then [] else [value_vertex a f xs ys n])"
    unfolding value_loop_Suc
    by (cases "ys ! n") (auto simp: value_step_def value_vertex_def Let_def cl)
  show ?case
  proof (cases "n = 0 \<and> ys ! 0 = None")
    case True
    then show ?thesis using step Suc by (simp add: value_loop_def new_line_state_def)
  next
    case False
    then have "?k \<le> n" by auto
    then have l: "[?k..<Suc n] = [?k..<n] @ [n]" by simp
    have ih: "vertices ?s = map (value_vertex a f xs ys) [?k..<n]" using Suc by simp
    show ?thesis unfolding step ih l using False by simp
  qed
qed

text \<open>A vertex is always on a path.\<close>

lemma value_loop_paths:
  "Some v \<in> set (vertices (value_loop a f xs ys n)) \<Longrightarrow> line_paths (value_loop a f xs ys n) \<noteq> []"
proof -
  have "Some v \<in> set (vertices (value_loop a f xs ys n)) \<Longrightarrow>
      path (value_loop a f xs ys n) \<noteq> [] \<or> (\<exists>p \<in> set (done_paths (value_loop a f xs ys n)). p \<noteq> [])"
  proof (induction n)
    case 0
    then show ?case by (simp add: value_loop_def new_line_state_def)
  next
    case (Suc n)
    then show ?case
      unfolding value_loop_Suc by (auto simp: value_step_def Let_def split: option.splits if_splits)
  qed
  then show "Some v \<in> set (vertices (value_loop a f xs ys n)) \<Longrightarrow> line_paths (value_loop a f xs ys n) \<noteq> []"
    by (auto simp: line_paths_def filter_empty_conv)
qed

section \<open>Appending drawings\<close>

lemma append_drawings_spec:
  assumes "canvas_wf c" "list_all drawable ds"
  shows "canvas_wf (fold append_drawing ds c) \<and> interact (fold append_drawing ds c) = interact c \<and>
    map snd (layers (fold append_drawing ds c)) = map snd (layers c) @ ds \<and>
    (ds \<noteq> [] \<longrightarrow> lastShapeId (fold append_drawing ds c) = Some (fst (last (layers (fold append_drawing ds c)))))"
  using assms(2)
proof (induction ds rule: rev_induct)
  case Nil
  then show ?case using assms(1) by simp
next
  case (snoc d ds)
  let ?c = "fold append_drawing ds c"
  have ih: "canvas_wf ?c" "interact ?c = interact c" "map snd (layers ?c) = map snd (layers c) @ ds"
    using snoc by auto
  obtain sh k where g: "genShape d ?c = (sh, k)" by force
  have dr: "drawable d" using snoc.prems by simp
  note new = vcanvas.append_new [OF ih(1) dr g]
  have "fold append_drawing (ds @ [d]) c = appendShape sh k" by (simp add: append_drawing_def g)
  moreover have "interact (appendShape sh k) = interact c" "lastShapeId (appendShape sh k) = Some (sh_id sh)"
    using genShape_spec(9) [OF g] ih(2) by (simp_all add: appendShape_def)
  ultimately show ?case using new ih(3) by simp
qed

lemma drawable_shape: "drawable (drawShape p c1 c2 w) \<longleftrightarrow> p \<noteq> []"
  by (cases p) (auto simp: drawable_def drawShape_def)

lemma line_drawings_drawable: "list_all drawable (line_drawings opts a f xs ys st)"
proof -
  have l: "drawable (drawShape (line_shape p) c1 c2 w)" if "p \<noteq> []" for p c1 c2 w
    using that by (cases p) (auto simp: drawable_shape line_shape_def)
  have fl: "drawable (drawShape (fill_shape a p) c1 c2 w)" for p c1 c2 w
    by (simp add: drawable_shape fill_shape_def)
  have sp: "drawable (spot a f x y c)" for x y c by (simp add: spot_def drawable_def drawCircle_def)
  have "list_all drawable (spots opts a f xs ys)"
    by (auto simp: spots_def list_all_iff sp Let_def split: option.splits if_splits)
  moreover have "list_all drawable (normal_range opts a f)"
    by (auto simp: normal_range_def Let_def split: option.splits)
  moreover have "\<forall>p \<in> set (line_paths st). p \<noteq> []" by (simp add: line_paths_def)
  ultimately show ?thesis using l fl by (auto simp: line_drawings_def list_all_iff)
qed

text \<open>The drawings of the highlight of a region.\<close>

definition highlight_drawings :: "line_opts \<Rightarrow> line_chart \<Rightarrow> nat option \<Rightarrow> drawing list" where
  "highlight_drawings opts s r =
     (case Option.bind r (vertex_of s) of
        None \<Rightarrow> []
      | Some v \<Rightarrow>
          (if truthy_colour (highlightLineColor opts) then [hl_line opts s v] else []) @
          (if spot_on opts then [hl_spot opts v] else []))"

lemma line_shows_at_picture:
  assumes "line_shows_at opts P (Option.bind r (vertex_of s)) s"
  shows "picture s = map snd P @ highlight_drawings opts s r"
  using assms
  by (cases "Option.bind r (vertex_of s)")
    (auto simp: line_shows_at_def hl_layers_def highlight_drawings_def opt_layer_def split: option.splits)

lemma vertex_of_in: "vertex_of s r = Some v \<Longrightarrow> Some v \<in> set (ln_vertices s)"
  unfolding vertex_of_def by (metis nth_mem option.distinct(1))

text \<open>The drawings of a rendered chart: none when fewer than two values, or only nulls, are given.\<close>

definition line_picture :: "line_opts \<Rightarrow> jsval list \<Rightarrow> canvas \<Rightarrow> drawing list" where
  "line_picture opts values c =
     (let sc = scanValues opts values; f = processRangeOptions opts sc; xs = xvalues sc; ys = yvalues sc;
          a = line_area_of opts f ys (pixelWidth c) (pixelHeight c)
      in if yminmax sc = [] \<or> length ys < 2 then []
         else line_drawings opts a f xs ys (value_loop a f xs ys (length ys)))"

lemma line_render_good:
  assumes c: "canvas_wf c" "interact c"
  obtains s where "line_render inpath opts values (new_line_chart c) = Some s"
    "line.good opts (layers (vtarget s)) s" "picture s = map snd (layers c) @ line_picture opts values c"
proof -
  let ?s = "new_line_chart c" and ?sc = "scanValues opts values"
  let ?f = "processRangeOptions opts ?sc" and ?ys = "yvalues ?sc" and ?xs = "xvalues ?sc"
  let ?a = "line_area_of opts ?f ?ys (pixelWidth c) (pixelHeight c)"
  let ?st = "value_loop ?a ?f ?xs ?ys (length ?ys)"
  let ?ds = "line_drawings opts ?a ?f ?xs ?ys ?st"
  let ?c = "fold append_drawing ?ds c"
  have off: "highlighted_region d s = (\<lambda>_. False)" if "currentRegion s = None" for d and s :: line_chart
    using that by (simp add: highlighted_region_def fun_eq_iff)
  show ?thesis
  proof (cases "yminmax ?sc = [] \<or> length ?ys < 2")
    case True
    have "line_shows opts (layers c) (\<lambda>_. False) ?s"
      using c by (auto simp: line_shows_def line_shows_at_def new_line_chart_def vertex_of_def hl_layers_def)
    then have "line.good opts (layers (vtarget ?s)) ?s"
      using off [of ?s] by (simp add: line.good_def new_line_chart_def)
    then show ?thesis
      using that [of ?s] True by (simp add: line_render_def line_picture_def new_line_chart_def Let_def)
  next
    case False
    let ?t = "?s\<lparr>ln_vertices := vertices ?st, ln_regionMap := regionMap ?st, vtarget := ?c,
        ln_lastShapeId := lastShapeId ?c, ln_canvasTop := areaTop ?a\<rparr>"
    note app = append_drawings_spec [OF c(1) line_drawings_drawable [of opts ?a ?f ?xs ?ys ?st]]
    have ds: "?ds \<noteq> []" if v: "vertex_of ?t r = Some v" for r v
    proof -
      have "Some v \<in> set (vertices ?st)"
        using vertex_of_in [OF v] by simp
      then show ?thesis using value_loop_paths by (auto simp: line_drawings_def)
    qed
    have ne: "layers ?c \<noteq> []" if "?ds \<noteq> []"
    proof
      assume "layers ?c = []"
      then have "map snd (layers c) @ ?ds = []" using app by (metis list.simps(8))
      then show False using that by simp
    qed
    have "line_shows_at opts (layers ?c) None ?t"
      using app c(2) ds ne by (auto simp: line_shows_at_def hl_layers_def new_line_chart_def)
    then have "line_shows opts (layers ?c) (\<lambda>_. False) ?t" by (auto simp: line_shows_def)
    then have "line.good opts (layers ?c) ?t" using off [of ?t] by (simp add: line.good_def new_line_chart_def)
    then obtain u where u: "repaint inpath ?t = Some u" "line.good opts (layers ?c) u"
      by (rule line.repaint_good)
    have cur: "currentRegion u = None" using u(1) by (auto simp: repaint_def new_line_chart_def)
    have "layers (vtarget u) = layers ?c"
      using u(2) off [OF cur]
      by (auto simp: line.good_def line_shows_def line_shows_at_def hl_layers_def)
    moreover have "map snd (layers ?c) = map snd (layers c) @ line_picture opts values c"
      using app False by (simp add: line_picture_def Let_def)
    ultimately show ?thesis
      using that [of u] u cur False by (simp add: line_render_def new_line_chart_def Let_def)
  qed
qed

section \<open>The picture\<close>

text \<open>
  C14: a line chart, once drawn, survives every history of mouse movements, repaints and shapes drawn
  elsewhere, and its canvas then shows what was there before, the chart, and behind it the vertical
  line and the spot of the current region, and nothing else. The line goes from the top of the area to the
  coordinate that the code computes, which is one of the canvas only where the height was measured (see
  \<open>highlight_line_overshoots\<close>).
\<close>

theorem line_history_picture:
  assumes "canvas_wf c" "interact c"
  obtains s t where "line_render inpath opts values (new_line_chart c) = Some s"
    "fold (spark_step inpath (ln_disableHighlight opts) line_getRegion (line_changeHighlight opts)) es (Some s) =
       Some t"
    "picture t = map snd (layers c) @ line_picture opts values c @
       highlight_drawings opts t (if ln_disableHighlight opts then None else currentRegion t)"
proof -
  obtain s where s: "line_render inpath opts values (new_line_chart c) = Some s"
    "line.good opts (layers (vtarget s)) s" "picture s = map snd (layers c) @ line_picture opts values c"
    by (rule line_render_good [OF assms])
  obtain t where t: "fold (spark_step inpath (ln_disableHighlight opts) line_getRegion (line_changeHighlight opts))
      es (Some s) = Some t"
    "line_shows opts (layers (vtarget s)) (highlighted_region (ln_disableHighlight opts) t) t"
    by (rule line.history_shows [OF s(2)])
  let ?r = "if ln_disableHighlight opts then None else currentRegion t"
  have "line_shows_at opts (layers (vtarget s)) (Option.bind ?r (vertex_of t)) t"
    using t(2) by (cases "currentRegion t") (auto simp: line_shows_def highlighted_region_def)
  then show ?thesis using that [OF s(1) t(1)] line_shows_at_picture s(3) by simp
qed

text \<open>The options of a line chart for which the user gives none.\<close>

definition line_defaults :: line_opts where
  "line_defaults =
     \<lparr>spotRadius = Fin (3 / 2), highlightSpotColor = Some ''#5f5'', highlightLineColor = Some ''#f22'',
      minSpotColor = Some ''#f80'', maxSpotColor = Some ''#f80'', spotColor = Some ''#f80'',
      fillColor = Some ''#cdf'', lineColor = Some ''#00f'', lineWidth = Some (Fin 1), normalRangeMin = None,
      normalRangeMax = NaN, normalRangeColor = Some ''#ccc'', drawNormalOnTop = False,
      rangeY = \<lparr>chartRangeMin = None, chartRangeMax = None, chartRangeClip = False\<rparr>,
      rangeX = \<lparr>chartRangeMin = None, chartRangeMax = None, chartRangeClip = False\<rparr>,
      disableInteraction = False, valueSpots = None, user_xvalues = None, ln_disableHighlight = False,
      ln_widthText = None, ln_heightText = None\<rparr>"

definition pixel_line :: line_opts where
  "pixel_line = line_defaults\<lparr>ln_widthText := Some ''15'', ln_heightText := Some ''20''\<rparr>"

lemma line_history_picture_witness:
  "\<exists>s t. line_render (\<lambda>_ _ _. False) pixel_line [VNum (Fin 1), VNull, VNum (Fin 3)] (new_line_chart demo_canvas) =
       Some s \<and>
     fold (spark_step (\<lambda>_ _ _. False) (ln_disableHighlight pixel_line) line_getRegion
       (line_changeHighlight pixel_line)) [Hover (Fin 3) (Fin 3), Repaint, Leave] (Some s) = Some t"
  by (rule line_history_picture [OF demo_canvas_ok(1,2)]) blast

text \<open>
  On a chart of 20 pixels with the default spots the line should end 20 pixels below its top 2; the text
  \<open>'2' + '20'\<close> with the half pixel puts it at 2200. A range of 0 to 15 is drawn 150 pixels wide.
\<close>

lemma digit_chars: "(char_of (50 :: nat) :: char) = CHR ''2''" "(char_of (48 :: nat) :: char) = CHR ''0''"
  by code_simp+

lemma text_sums: "text_sum (Fin 2) ''20'' = Fin 2200" "text_sum (Fin 0) ''15'' = Fin 150"
  by (simp_all add: text_sum_def show_int_def show_nat.simps char_of_digit_def string_to_num_def trim_def trim_left_def
      is_space_def read_decimal_def read_sign_def read_fraction_def read_exponent_def digit_of_def pow10_def digit_chars)

lemma highlight_line_overshoots:
  "hl_line pixel_line ((new_line_chart demo_canvas)\<lparr>ln_canvasTop := Fin 2\<rparr>) (Fin 7, Fin 9) =
     drawLine (Fin 7) (Fin 2) (Fin 7) (Fin 2200) (Some ''#f22'') None"
  by (simp add: hl_line_def pixel_line_def line_defaults_def coord_sum_def text_sums)

lemma normal_range_overshoots:
  "areaWidthText a = Some ''15'' \<Longrightarrow> rect_width a = Fin 150"
  by (simp add: rect_width_def coord_sum_def text_sums)

end
