(* ===== verification/Spark_Line_Geometry.thy ===== *)
theory Spark_Line_Geometry
  imports Spark_Line_Props
begin

text \<open>
  Where the parts of a line chart lie: the area kept for the line, the vertices inside it, and the mouse
  regions between them.
\<close>

section \<open>Charts of numbers and nulls\<close>

definition line_value :: "rat option \<Rightarrow> jsval" where
  "line_value y = (case y of None \<Rightarrow> VNull | Some q \<Rightarrow> VNum (Fin q))"

definition no_range :: range_opts where
  "no_range = \<lparr>chartRangeMin = None, chartRangeMax = None, chartRangeClip = False\<rparr>"

lemma range_none [simp]: "range_min no_range m = m" "range_max no_range m = m"
  by (simp_all add: no_range_def range_min_def range_max_def)

lemma scan_plain:
  assumes "user_xvalues opts = None"
  shows "xvalues (scanValues opts (map line_value ys)) = map (\<lambda>i. Fin (of_nat i)) [0..<length ys]"
    "yvalues (scanValues opts (map line_value ys)) = map (map_option Fin) ys"
proof -
  have s: "fst (scan_one i (line_value y)) = Fin (of_nat i)" "fst (snd (scan_one i (line_value y))) = map_option Fin y"
    for i y by (auto simp: scan_one_def line_value_def split: option.splits)
  show "xvalues (scanValues opts (map line_value ys)) = map (\<lambda>i. Fin (of_nat i)) [0..<length ys]"
    "yvalues (scanValues opts (map line_value ys)) = map (map_option Fin) ys"
    by (rule nth_equalityI; use assms s in \<open>simp add: scanValues_def Let_def\<close>)+
qed

text \<open>What a drawn chart keeps of its values.\<close>

lemma line_render_parts:
  assumes "line_render inpath opts values (new_line_chart c) = Some s"
    "sc = scanValues opts values" "f = processRangeOptions opts sc"
    "a = line_area_of opts f (yvalues sc) (pixelWidth c) (pixelHeight c)"
    "ln_vertices s \<noteq> [] \<or> ln_regionMap s \<noteq> []"
  shows "2 \<le> length (yvalues sc)"
    "ln_vertices s = vertices (value_loop a f (xvalues sc) (yvalues sc) (length (yvalues sc)))"
    "ln_regionMap s = regionMap (value_loop a f (xvalues sc) (yvalues sc) (length (yvalues sc)))"
  using assms
  by (auto simp: line_render_def Let_def repaint_def new_line_chart_def split: if_splits)

section \<open>The area\<close>

text \<open>The room kept for the highlight spot at each edge.\<close>

definition spot_margin :: "line_opts \<Rightarrow> rat \<Rightarrow> int \<Rightarrow> int \<Rightarrow> int" where
  "spot_margin opts r w h =
     (if truthy_colour (highlightSpotColor opts) \<and> \<not> disableInteraction opts \<and>
         4 * r \<le> of_int w \<and> 4 * r \<le> of_int h then \<lceil>r\<rceil> else 0)"

lemma line_area_box:
  assumes r: "spotRadius opts = Fin r" "0 \<le> r" and size: "2 \<le> w" "3 \<le> h"
    and a: "a = line_area_of opts f ys (Fin (of_int w)) (Fin (of_int h))"
  obtains l t aw ah where "areaLeft a = Fin (of_int l)" "areaTop a = Fin (of_int t)"
    "areaWidth a = Fin (of_int aw)" "areaHeight a = Fin (of_int ah)" "0 \<le> aw" "0 \<le> ah"
    "spot_margin opts r w h \<le> l" "l + aw \<le> w - spot_margin opts r w h"
    "spot_margin opts r w h \<le> t" "t + ah \<le> h - 1 - spot_margin opts r w h"
    "spot_margin opts r w h \<noteq> 0 \<longrightarrow> l = spot_margin opts r w h \<and> aw = w - 2 * spot_margin opts r w h"
proof -
  let ?small = "of_int w < r * 4 \<or> of_int h < r * 4"
  define u where "u = (if r \<noteq> 0 \<and> ?small then 0 else r)"
  define k where "k = \<lceil>u\<rceil>"
  have ur: "used_radius opts (Fin (of_int w)) (Fin (of_int h)) = Fin u"
    using r by (auto simp: used_radius_def Let_def u_def)
  have u: "0 \<le> u" "4 * u \<le> of_int w" "4 * u \<le> of_int h"
    using r(2) size by (auto simp: u_def not_less mult.commute)
  have k0: "0 \<le> k" using u(1) by (simp add: k_def)
  have "2 * k \<le> w \<and> 2 * k \<le> h - 1"
  proof (cases "u \<le> 1")
    case True
    then have "k \<le> 1" by (simp add: k_def ceiling_le_iff)
    then show ?thesis using size by linarith
  next
    case False
    have "of_int k < u + 1" using ceiling_correct [of u] by (simp add: k_def)
    then have "of_int (2 * k) < 4 * u" using False by simp
    then have "of_int (2 * k) < (of_int w :: rat)" "of_int (2 * k) < (of_int h :: rat)" using u by linarith+
    then have "2 * k < w" "2 * k < h" by (simp_all only: of_int_less_iff)
    then show ?thesis by simp
  qed
  note kk = this
  define on where "on = (u \<noteq> 0)"
  define hl where "hl = (truthy_colour (highlightSpotColor opts) \<and> \<not> disableInteraction opts)"
  have m: "spot_margin opts r w h = (if hl then k else 0)" using r(2) size u
    by (auto simp: spot_margin_def hl_def k_def u_def mult.commute not_less)
  define side where "side = (\<lambda>b. if on \<and> b then k else 0)"
  have c: "(if on \<and> b then num_ceil (Fin u) else Fin 0) = Fin (of_int (side b))" for b
    by (simp add: side_def k_def)
  have o: "(Fin u \<noteq> Fin 0 \<and> Fin u \<noteq> NaN) = on" by (simp add: on_def)
  define left where "left = (hl \<or> (truthy_colour (minSpotColor opts) \<or> truthy_colour (maxSpotColor opts)) \<and>
      (y_is (hd ys) (miny f) \<or> y_is (hd ys) (maxy f)))"
  define right where "right = (hl \<or> truthy_colour (spotColor opts) \<or>
      (truthy_colour (minSpotColor opts) \<or> truthy_colour (maxSpotColor opts) \<and>
        (y_is (last ys) (miny f) \<or> y_is (last ys) (maxy f))))"
  define above where "above = (hl \<or> truthy_colour (maxSpotColor opts) \<or>
      truthy_colour (spotColor opts) \<and> y_is (last ys) (maxy f))"
  define below where "below = (hl \<or> truthy_colour (minSpotColor opts) \<or>
      truthy_colour (spotColor opts) \<and> y_is (last ys) (miny f))"
  have lr: "areaLeft a = Fin (of_int (side left))" "areaTop a = Fin (of_int (side above))"
    "areaWidth a = Fin (of_int (w - side left - side right))"
    "areaHeight a = Fin (of_int (h - side below - side above - 1))"
    unfolding a line_area_of_def Let_def ur o
      hl_def [symmetric] left_def [symmetric] right_def [symmetric] above_def [symmetric] below_def [symmetric] c
    by simp_all
  have on_hl: "left" "right" "above" "below" if hl using that by (auto simp: left_def right_def above_def below_def)
  have z: "k = 0" if "\<not> on" using that by (simp add: on_def k_def)
  have s: "side b \<le> k" "0 \<le> side b" for b using k0 by (simp_all add: side_def)
  show ?thesis
  proof (cases hl)
    case True
    then have e: "side left = k" "side right = k" "side above = k" "side below = k"
      using on_hl z by (simp_all add: side_def)
    show ?thesis
      by (rule that [of "side left" "side above" "w - side left - side right" "h - side below - side above - 1"])
        (use lr kk m True in \<open>simp_all add: e\<close>)
  next
    case False
    then have "spot_margin opts r w h = 0" using m by simp
    then show ?thesis
      by (intro that [of "side left" "side above" "w - side left - side right" "h - side below - side above - 1"])
        (use lr kk s [of left] s [of right] s [of above] s [of below] in simp_all)
  qed
qed

section \<open>Positions\<close>

definition chart_frame :: "line_opts \<Rightarrow> rat option list \<Rightarrow> line_frame" where
  "chart_frame opts ys = processRangeOptions opts (scanValues opts (map line_value ys))"

definition chart_area :: "line_opts \<Rightarrow> rat option list \<Rightarrow> int \<Rightarrow> int \<Rightarrow> line_area" where
  "chart_area opts ys w h =
     line_area_of opts (chart_frame opts ys) (map (map_option Fin) ys) (Fin (of_int w)) (Fin (of_int h))"

text \<open>The pixel column of value \<open>i\<close> of \<open>n\<close> in an area of width \<open>aw\<close> that starts at \<open>l\<close>.\<close>

definition col :: "int \<Rightarrow> int \<Rightarrow> nat \<Rightarrow> nat \<Rightarrow> int" where
  "col l aw n i = l + js_round (of_nat i * (of_int aw / of_nat (n - 1)))"

lemma col_mono: "0 \<le> aw \<Longrightarrow> i \<le> j \<Longrightarrow> col l aw n i \<le> col l aw n j"
  unfolding col_def by (intro add_left_mono js_round_mono mult_right_mono) auto

lemma col_first: "col l aw n 0 = l"
  using js_round_of_int [of 0] by (simp add: col_def)

lemma col_last: "2 \<le> n \<Longrightarrow> col l aw n (n - 1) = l + aw"
  by (simp add: col_def)

lemma col_inside: "0 \<le> aw \<Longrightarrow> 2 \<le> n \<Longrightarrow> i < n \<Longrightarrow> l \<le> col l aw n i \<and> col l aw n i \<le> l + aw"
  using col_mono [of aw 0 i l n] col_mono [of aw i "n - 1" l n] col_first [of l aw n] col_last [of n l aw] by simp

lemma frame_x:
  assumes "user_xvalues opts = None" "rangeX opts = no_range" "2 \<le> length ys"
  shows "minx (chart_frame opts ys) = Fin 0" "maxx (chart_frame opts ys) = Fin (of_nat (length ys - 1))"
proof -
  let ?q = "map of_nat [0..<length ys] :: rat list"
  have q: "map (\<lambda>i. Fin (of_nat i)) [0..<length ys] = map Fin ?q" "?q \<noteq> []" using assms(3) by auto
  have "Min (set ?q) = 0" by (rule Min_eqI) (use assms(3) in \<open>auto simp: image_iff intro!: bexI [of _ 0]\<close>)
  moreover have "Max (set ?q) = of_nat (length ys - 1)"
    by (rule Max_eqI) (use assms(3) in \<open>auto simp: image_iff intro!: bexI [of _ "length ys - 1"]\<close>)
  ultimately show "minx (chart_frame opts ys) = Fin 0" "maxx (chart_frame opts ys) = Fin (of_nat (length ys - 1))"
    using assms(1,2) math_min_fin [OF q(2)] math_max_fin [OF q(2)]
    by (simp_all add: chart_frame_def processRangeOptions_def scan_plain q(1) Let_def del: map_map)
qed

lemma x_pos_col:
  assumes "minx f = Fin 0" "maxx f = Fin (of_nat (n - 1))" "2 \<le> n"
    "areaLeft a = Fin (of_int l)" "areaWidth a = Fin (of_int aw)"
  shows "x_pos a f (Fin (of_nat i)) = Fin (of_int (col l aw n i))"
  using assms by (simp add: x_pos_def span_or_one_def col_def)

lemma y_pos_row:
  assumes "miny f = Fin lo" "maxy f = Fin hi" "lo \<le> hi" "areaTop a = Fin (of_int t)" "areaHeight a = Fin (of_int ah)"
    "0 \<le> ah"
  obtains j where "y_pos a f (clipval (Fin v) (miny f) (maxy f)) = Fin (of_int j)" "t \<le> j" "j \<le> t + ah"
proof -
  let ?v = "clipval v lo hi" and ?d = "if hi - lo = 0 then 1 else hi - lo"
  have v: "lo \<le> ?v" "?v \<le> hi" using clipval_range [OF assms(3)] by auto
  have d: "0 < ?d" using assms(3) by auto
  let ?q = "(?v - lo) / ?d"
  have q: "0 \<le> ?q" "?q \<le> 1" using v d by (auto simp: divide_le_eq)
  let ?y = "of_int ah - of_int ah * ?q"
  have "0 \<le> of_int ah * ?q" using q(1) assms(6) by (intro mult_nonneg_nonneg) simp_all
  moreover have "of_int ah * ?q \<le> of_int ah" using q(2) assms(6) by (intro mult_left_le) simp_all
  ultimately have "0 \<le> ?y" "?y \<le> of_int ah" by linarith+
  then have j: "0 \<le> js_round ?y" "js_round ?y \<le> ah" by (auto intro: js_round_le js_round_nonneg)
  have "span_or_one (miny f) (maxy f) = Fin ?d" using assms by (simp add: span_or_one_def)
  then have "y_pos a f (clipval (Fin v) (miny f) (maxy f)) = Fin (of_int (t + js_round ?y))"
    using assms d by (simp add: y_pos_def del: of_int_add)
  then show ?thesis by (rule that) (use j in simp_all)
qed

section \<open>The drawn chart\<close>

text \<open>The right end of the mouse region of value \<open>i\<close>.\<close>

definition region_right :: "int \<Rightarrow> int \<Rightarrow> nat \<Rightarrow> nat \<Rightarrow> rat" where
  "region_right l aw n i = of_int (col l aw n i + (if i + 1 < n then col l aw n (i + 1) else aw)) / 2"

lemma region_search_Some:
  "region_search rm x k = Some i \<Longrightarrow> i < k \<and> i < length rm \<and> fst (rm ! i) \<le> x \<and> x \<le> snd (rm ! i)"
  by (induction k) (auto split: if_splits)

lemma region_search_None:
  "region_search rm x k = None \<longleftrightarrow> (\<forall>i < k. i < length rm \<longrightarrow> \<not> (fst (rm ! i) \<le> x \<and> x \<le> snd (rm ! i)))"
  by (induction k) (auto simp: less_Suc_eq split: if_splits)

definition plain_line :: "line_opts \<Rightarrow> rat \<Rightarrow> canvas \<Rightarrow> int \<Rightarrow> int \<Rightarrow> bool" where
  "plain_line opts r c w h \<longleftrightarrow>
     spotRadius opts = Fin r \<and> 0 \<le> r \<and> user_xvalues opts = None \<and> rangeX opts = no_range \<and>
     pixelWidth c = Fin (of_int w) \<and> pixelHeight c = Fin (of_int h) \<and> 2 \<le> w \<and> 3 \<le> h"

lemma spot_margin_nonneg: "plain_line opts r c w h \<Longrightarrow> 0 \<le> spot_margin opts r w h"
  by (simp add: plain_line_def spot_margin_def)

lemma line_plain_chart:
  assumes s: "line_render inpath opts (map line_value ys) (new_line_chart c) = Some s"
    and p: "plain_line opts r c w h" and ne: "ln_vertices s \<noteq> [] \<or> ln_regionMap s \<noteq> []"
  obtains l t aw ah where "2 \<le> length ys"
    "areaTop (chart_area opts ys w h) = Fin (of_int t)" "areaHeight (chart_area opts ys w h) = Fin (of_int ah)"
    "0 \<le> aw" "0 \<le> ah"
    "spot_margin opts r w h \<le> l" "l + aw \<le> w - spot_margin opts r w h"
    "spot_margin opts r w h \<le> t" "t + ah \<le> h - 1 - spot_margin opts r w h"
    "spot_margin opts r w h \<noteq> 0 \<longrightarrow> l = spot_margin opts r w h \<and> aw = w - 2 * spot_margin opts r w h"
    "ln_regionMap s = map (\<lambda>i. (Fin (if i = 0 then 0 else region_right l aw (length ys) (i - 1)),
       Fin (region_right l aw (length ys) i))) [0..<length ys]"
    "\<not> maxy (chart_frame opts ys) < miny (chart_frame opts ys) \<longrightarrow>
       ln_vertices s = map (\<lambda>i. map_option (\<lambda>y. (Fin (of_int (col l aw (length ys) i)),
         y_pos (chart_area opts ys w h) (chart_frame opts ys)
           (clipval (Fin y) (miny (chart_frame opts ys)) (maxy (chart_frame opts ys))))) (ys ! i))
         [(if ys ! 0 = None then 1 else 0)..<length ys]"
proof -
  let ?a = "chart_area opts ys w h" and ?f = "chart_frame opts ys" and ?n = "length ys"
  let ?xs = "map (\<lambda>i. Fin (of_nat i)) [0..<length ys]" and ?ys = "map (map_option Fin) ys"
  have pl: "spotRadius opts = Fin r" "0 \<le> r" "user_xvalues opts = None" "rangeX opts = no_range"
    "pixelWidth c = Fin (of_int w)" "pixelHeight c = Fin (of_int h)" "2 \<le> w" "3 \<le> h"
    using p by (auto simp: plain_line_def)
  note sc = scan_plain [OF pl(3), of ys]
  have a: "?a = line_area_of opts ?f (yvalues (scanValues opts (map line_value ys))) (pixelWidth c) (pixelHeight c)"
    by (simp add: chart_area_def sc pl)
  note parts = line_render_parts [OF s refl chart_frame_def a ne, unfolded sc length_map]
  obtain l t aw ah where box: "areaLeft ?a = Fin (of_int l)" "areaTop ?a = Fin (of_int t)"
    "areaWidth ?a = Fin (of_int aw)" "areaHeight ?a = Fin (of_int ah)" "0 \<le> aw" "0 \<le> ah"
    "spot_margin opts r w h \<le> l" "l + aw \<le> w - spot_margin opts r w h"
    "spot_margin opts r w h \<le> t" "t + ah \<le> h - 1 - spot_margin opts r w h"
    "spot_margin opts r w h \<noteq> 0 \<longrightarrow> l = spot_margin opts r w h \<and> aw = w - 2 * spot_margin opts r w h"
    by (rule line_area_box [OF pl(1,2,7,8) chart_area_def [of opts ys w h]])
  have x: "x_pos ?a ?f (num_at ?xs (int i)) = Fin (of_int (col l aw ?n i))" if "i < ?n" for i
    using x_pos_col [OF frame_x [OF pl(3,4) parts(1)] parts(1) box(1,3), of i] that
    by (simp add: num_at_def js_nth_def)
  have e: "region_end ?a ?f ?xs ?ys i = Fin (region_right l aw ?n i)" if "i < ?n" for i
    using x [OF that] x [of "i + 1"] box(3)
    by (auto simp: region_end_def region_right_def Let_def add.commute field_simps)
  show ?thesis
  proof (rule that [OF parts(1) box(2,4,5-11)])
    show "ln_regionMap s = map (\<lambda>i. (Fin (if i = 0 then 0 else region_right l aw ?n (i - 1)),
        Fin (region_right l aw ?n i))) [0..<?n]"
      unfolding parts(3) value_loop_regions [THEN conjunct1] using e
      by (intro nth_equalityI) (auto simp: or_zero_def)
  next
    have "ln_vertices s = map (\<lambda>i. map_option (\<lambda>y. (Fin (of_int (col l aw ?n i)),
        y_pos ?a ?f (clipval (Fin y) (miny ?f) (maxy ?f)))) (ys ! i)) [(if ys ! 0 = None then 1 else 0)..<?n]"
      if mm: "\<not> maxy ?f < miny ?f"
    proof -
    have "ys \<noteq> []" using parts(1) by auto
    then have "(?ys ! 0 = None) = (ys ! 0 = None)" "?ys \<noteq> []" by simp_all
    then show ?thesis
      unfolding parts(2) using value_loop_vertices [OF mm, of ?ys ?n ?a ?xs] x
      by (auto simp: value_vertex_def split: option.splits)
    qed
    then show "\<not> maxy ?f < miny ?f \<longrightarrow> ln_vertices s = map (\<lambda>i. map_option (\<lambda>y. (Fin (of_int (col l aw ?n i)),
        y_pos ?a ?f (clipval (Fin y) (miny ?f) (maxy ?f)))) (ys ! i)) [(if ys ! 0 = None then 1 else 0)..<?n]" ..
  qed
qed

section \<open>Properties\<close>

abbreviation demo_line_canvas :: canvas where
  "demo_line_canvas \<equiv> new_canvas (Fin 60) (Fin 20) True 1"

abbreviation demo_line_values :: "rat option list" where
  "demo_line_values \<equiv> [Some 1, Some 3, None, Some 2]"

lemma demo_line_plain: "plain_line line_defaults (3 / 2) demo_line_canvas 60 20"
  by (simp add: plain_line_def line_defaults_def no_range_def new_canvas_def)

lemma demo_line_frame:
  "miny (chart_frame line_defaults demo_line_values) = Fin 1"
  "maxy (chart_frame line_defaults demo_line_values) = Fin 3"
  by code_simp+

lemma demo_line_drawn:
  obtains s where "line_render (\<lambda>_ _ _. False) line_defaults (map line_value demo_line_values)
      (new_line_chart demo_line_canvas) = Some s"
    "ln_vertices s = [Some (Fin 2, Fin 17), Some (Fin 21, Fin 2), None, Some (Fin 58, Fin 10)]"
    "ln_regionMap s = [(Fin 0, Fin (23 / 2)), (Fin (23 / 2), Fin 30), (Fin 30, Fin (97 / 2)), (Fin (97 / 2), Fin 57)]"
proof -
  have "map_option (\<lambda>s. (ln_vertices s, ln_regionMap s)) (line_render (\<lambda>_ _ _. False) line_defaults
     (map line_value demo_line_values) (new_line_chart demo_line_canvas)) = X \<longrightarrow>
     X = Some ([Some (Fin 2, Fin 17), Some (Fin 21, Fin 2), None, Some (Fin 58, Fin 10)],
       [(Fin 0, Fin (23 / 2)), (Fin (23 / 2), Fin 30), (Fin 30, Fin (97 / 2)), (Fin (97 / 2), Fin 57)])" for X
    by (code_simp, auto)
  then show ?thesis using that by blast
qed

text \<open>
  C17: every vertex of a line chart of numbers and nulls lies inside the canvas, whatever the y range,
  and when the highlight spot is in use it keeps the distance of its radius to every edge, so that the
  spot is never cut off.
\<close>

theorem line_vertices_inside:
  assumes "line_render inpath opts (map line_value ys) (new_line_chart c) = Some s"
    "plain_line opts r c w h"
    "miny (chart_frame opts ys) = Fin lo" "maxy (chart_frame opts ys) = Fin hi" "lo \<le> hi"
    "Some (x, y) \<in> set (ln_vertices s)"
  obtains i j where "x = Fin (of_int i)" "y = Fin (of_int j)"
    "spot_margin opts r w h \<le> i" "i \<le> w - spot_margin opts r w h"
    "spot_margin opts r w h \<le> j" "j \<le> h - 1 - spot_margin opts r w h"
proof -
  have ne: "ln_vertices s \<noteq> [] \<or> ln_regionMap s \<noteq> []" using assms(6) by auto
  obtain l t aw ah where b: "2 \<le> length ys"
    "areaTop (chart_area opts ys w h) = Fin (of_int t)" "areaHeight (chart_area opts ys w h) = Fin (of_int ah)"
    "0 \<le> aw" "0 \<le> ah" "spot_margin opts r w h \<le> l" "l + aw \<le> w - spot_margin opts r w h"
    "spot_margin opts r w h \<le> t" "t + ah \<le> h - 1 - spot_margin opts r w h"
    and v: "\<not> maxy (chart_frame opts ys) < miny (chart_frame opts ys) \<longrightarrow>
       ln_vertices s = map (\<lambda>i. map_option (\<lambda>y. (Fin (of_int (col l aw (length ys) i)),
         y_pos (chart_area opts ys w h) (chart_frame opts ys)
           (clipval (Fin y) (miny (chart_frame opts ys)) (maxy (chart_frame opts ys))))) (ys ! i))
         [(if ys ! 0 = None then 1 else 0)..<length ys]"
    by (rule line_plain_chart [OF assms(1,2) ne])
  obtain i q where i: "i < length ys" "x = Fin (of_int (col l aw (length ys) i))"
    "y = y_pos (chart_area opts ys w h) (chart_frame opts ys)
       (clipval (Fin q) (miny (chart_frame opts ys)) (maxy (chart_frame opts ys)))"
  proof -
    have "\<not> maxy (chart_frame opts ys) < miny (chart_frame opts ys)" using assms(3-5) by simp
    then obtain i where i: "i < length ys" "Some (x, y) = map_option (\<lambda>y. (Fin (of_int (col l aw (length ys) i)),
         y_pos (chart_area opts ys w h) (chart_frame opts ys)
           (clipval (Fin y) (miny (chart_frame opts ys)) (maxy (chart_frame opts ys))))) (ys ! i)"
      using v assms(6) by auto
    then obtain q where "ys ! i = Some q" by (cases "ys ! i") auto
    then show ?thesis using that [OF i(1), of q] i(2) by simp
  qed
  obtain j where j: "y = Fin (of_int j)" "t \<le> j" "j \<le> t + ah"
    unfolding i(3) by (rule y_pos_row [OF assms(3-5) b(2,3,5)])
  show ?thesis
    by (rule that [OF i(2) j(1)]) (use col_inside [OF b(4,1) i(1), of l] b j in simp_all)
qed

lemma line_vertices_inside_witness:
  "\<exists>s. line_render (\<lambda>_ _ _. False) line_defaults (map line_value demo_line_values)
      (new_line_chart demo_line_canvas) = Some s \<and>
     (\<exists>i j. (Fin 58 :: jsnum, Fin 10 :: jsnum) = (Fin (of_int i), Fin (of_int j)) \<and>
       spot_margin line_defaults (3 / 2) 60 20 \<le> i \<and> i \<le> 60 - spot_margin line_defaults (3 / 2) 60 20)"
proof -
  obtain s where s: "line_render (\<lambda>_ _ _. False) line_defaults (map line_value demo_line_values)
      (new_line_chart demo_line_canvas) = Some s"
    "ln_vertices s = [Some (Fin 2, Fin 17), Some (Fin 21, Fin 2), None, Some (Fin 58, Fin 10)]"
    by (rule demo_line_drawn)
  have m: "Some (Fin 58, Fin 10) \<in> set (ln_vertices s)" by (simp add: s(2))
  show ?thesis
    by (rule line_vertices_inside [OF s(1) demo_line_plain demo_line_frame _ m]) (use s(1) in auto)
qed

text \<open>
  C30: in a chart without x values of its own (the default, value \<open>i\<close> at x \<open>i\<close>) whose first value is not
  null, the mouse regions meet half way between the vertices: the vertex of the region under the pointer is
  the one that is nearest to it. With a leading null every region highlights the vertex of the next value
  instead (\<open>line_leading_null_shifts\<close> below).
\<close>

theorem line_region_nearest:
  assumes "line_render inpath opts (map line_value ys) (new_line_chart c) = Some s"
    "plain_line opts r c w h"
    "miny (chart_frame opts ys) = Fin lo" "maxy (chart_frame opts ys) = Fin hi" "lo \<le> hi"
    "ys ! 0 \<noteq> None" "line_getRegion (Fin x) y s = Some (Some k, s')"
    "vertex_of s k = Some (Fin a, b)" "vertex_of s i = Some (Fin a', b')"
  shows "\<bar>x - a\<bar> \<le> \<bar>x - a'\<bar>"
proof -
  let ?n = "length ys"
  have k: "region_search (ln_regionMap s) (Fin x) (length (ln_regionMap s)) = Some k"
    using assms(7) by (auto simp: line_getRegion_def)
  note k = region_search_Some [OF k]
  have ne: "ln_vertices s \<noteq> [] \<or> ln_regionMap s \<noteq> []" using k by auto
  obtain l aw where b: "2 \<le> ?n" "0 \<le> aw"
    and rm: "ln_regionMap s = map (\<lambda>i. (Fin (if i = 0 then 0 else region_right l aw ?n (i - 1)),
       Fin (region_right l aw ?n i))) [0..<?n]"
    and v: "\<not> maxy (chart_frame opts ys) < miny (chart_frame opts ys) \<longrightarrow>
       ln_vertices s = map (\<lambda>i. map_option (\<lambda>y. (Fin (of_int (col l aw (length ys) i)),
         y_pos (chart_area opts ys w h) (chart_frame opts ys)
           (clipval (Fin y) (miny (chart_frame opts ys)) (maxy (chart_frame opts ys))))) (ys ! i))
         [(if ys ! 0 = None then 1 else 0)..<length ys]"
    "spot_margin opts r w h \<noteq> 0 \<longrightarrow> l = spot_margin opts r w h \<and> aw = w - 2 * spot_margin opts r w h"
    "spot_margin opts r w h \<le> l"
    by (rule line_plain_chart [OF assms(1,2) ne])
  have l0: "0 \<le> l" using v(3) spot_margin_nonneg [OF assms(2)] by simp
  have at: "z = of_int (col l aw ?n q)" "q < ?n" if "vertex_of s q = Some (Fin z, u)" for q z u
    using that assms(3-6) v(1) by (auto simp: vertex_of_def split: if_splits)
  note ak = at [OF assms(8)] and ai = at [OF assms(9)]
  have x: "(if k = 0 then 0 else region_right l aw ?n (k - 1)) \<le> x" "x \<le> region_right l aw ?n k"
    using k rm by auto
  have last: "aw \<le> col l aw ?n k" if "\<not> k + 1 < ?n"
  proof -
    have "k = ?n - 1" using that ak(2) by simp
    then show ?thesis using col_last [OF b(1), of l aw] l0 by simp
  qed
  consider "i < k" | "i = k" | "k < i" by linarith
  then show ?thesis
  proof cases
    case 1
    then have "col l aw ?n i \<le> col l aw ?n (k - 1)" "col l aw ?n (k - 1) \<le> col l aw ?n k"
      using col_mono [OF b(2)] by simp_all
    moreover have "of_int (col l aw ?n (k - 1) + col l aw ?n k) / 2 \<le> x"
      using x(1) 1 ak(2) by (simp add: region_right_def)
    ultimately show ?thesis unfolding ak(1) ai(1) by (simp add: abs_if field_simps)
  next
    case 3
    then have c: "k + 1 < ?n" using ai(2) by simp
    have "col l aw ?n (k + 1) \<le> col l aw ?n i" "col l aw ?n k \<le> col l aw ?n (k + 1)"
      using 3 col_mono [OF b(2)] by simp_all
    moreover have "x \<le> of_int (col l aw ?n k + col l aw ?n (k + 1)) / 2"
      using x(2) c by (simp add: region_right_def)
    ultimately show ?thesis unfolding ak(1) ai(1) by (simp add: abs_if field_simps)
  qed (use ak ai in simp)
qed

lemma line_region_nearest_witness:
  "\<exists>s. line_render (\<lambda>_ _ _. False) line_defaults (map line_value demo_line_values)
      (new_line_chart demo_line_canvas) = Some s \<and>
     (\<bar>25 - 21\<bar> :: rat) \<le> \<bar>25 - 58\<bar>"
proof -
  obtain s where s: "line_render (\<lambda>_ _ _. False) line_defaults (map line_value demo_line_values)
      (new_line_chart demo_line_canvas) = Some s"
    "ln_vertices s = [Some (Fin 2, Fin 17), Some (Fin 21, Fin 2), None, Some (Fin 58, Fin 10)]"
    "ln_regionMap s = [(Fin 0, Fin (23 / 2)), (Fin (23 / 2), Fin 30), (Fin 30, Fin (97 / 2)), (Fin (97 / 2), Fin 57)]"
    by (rule demo_line_drawn)
  have r: "line_getRegion (Fin 25) (Fin 4) s = Some (Some 1, s)"
    by (simp add: line_getRegion_def s(3) numeral_eq_Suc)
  have v: "vertex_of s 1 = Some (Fin 21, Fin 2)" "vertex_of s 3 = Some (Fin 58, Fin 10)"
    by (simp_all add: vertex_of_def s(2))
  show ?thesis
    using line_region_nearest [OF s(1) demo_line_plain demo_line_frame _ _ r v] s(1) by simp
qed

text \<open>
  Where spots are drawn the last region ends before the last point: the code takes \<open>canvasWidth\<close>
  for the right end of the area and forgets its left edge. The pointer on the last vertex of the chart
  is in no region.
\<close>

theorem line_last_point_unreachable:
  assumes "line_render inpath opts (map line_value ys) (new_line_chart c) = Some s"
    "plain_line opts r c w h" "0 < spot_margin opts r w h"
    "miny (chart_frame opts ys) = Fin lo" "maxy (chart_frame opts ys) = Fin hi" "lo \<le> hi"
    "ys ! 0 \<noteq> None" "int (length ys) - 1 \<le> w - 2 * spot_margin opts r w h"
    "vertex_of s (length ys - 1) = Some (x, y)"
  shows "line_getRegion x y s = Some (None, s)"
proof -
  let ?n = "length ys" and ?m = "spot_margin opts r w h"
  have ne: "ln_vertices s \<noteq> [] \<or> ln_regionMap s \<noteq> []"
    using assms(9) by (auto simp: vertex_of_def split: if_splits)
  obtain l aw where b: "2 \<le> ?n" "0 \<le> aw"
    and rm: "ln_regionMap s = map (\<lambda>i. (Fin (if i = 0 then 0 else region_right l aw ?n (i - 1)),
       Fin (region_right l aw ?n i))) [0..<?n]"
    and v: "\<not> maxy (chart_frame opts ys) < miny (chart_frame opts ys) \<longrightarrow>
       ln_vertices s = map (\<lambda>i. map_option (\<lambda>y. (Fin (of_int (col l aw (length ys) i)),
         y_pos (chart_area opts ys w h) (chart_frame opts ys)
           (clipval (Fin y) (miny (chart_frame opts ys)) (maxy (chart_frame opts ys))))) (ys ! i))
         [(if ys ! 0 = None then 1 else 0)..<length ys]"
    "?m \<noteq> 0 \<longrightarrow> l = ?m \<and> aw = w - 2 * ?m"
    by (rule line_plain_chart [OF assms(1,2) ne])
  have l: "0 < l" "int ?n - 1 \<le> aw" using v(2) assms(3,8) by simp_all
  have x: "x = Fin (of_int (l + aw))"
  proof -
    have n: "length ys - 1 < length ys" using b(1) by simp
    have "ln_vertices s ! (length ys - 1) = Some (x, y)" using assms(9) by (auto simp: vertex_of_def split: if_splits)
    then show ?thesis
      using assms(4-7) v(1) b(1) n by (cases "ys ! (length ys - 1)") (auto simp: col_last [unfolded One_nat_def])
  qed
  have step: "col l aw ?n (?n - 2) \<le> l + aw - 1"
  proof -
    have "of_nat (?n - 2) * (of_int aw / of_nat (?n - 1)) = of_int aw - of_int aw / (of_nat (?n - 1) :: rat)"
      using b(1) by (simp add: field_simps of_nat_diff)
    moreover have "(1::rat) \<le> of_int aw / of_nat (?n - 1)"
    proof -
      have "of_nat (?n - 1) = (of_int (int ?n - 1) :: rat)" using b(1) by (simp add: of_nat_diff)
      then have "of_nat (?n - 1) \<le> (of_int aw :: rat)" using l(2) by simp
      then show ?thesis using b(1) by (simp add: le_divide_eq)
    qed
    ultimately have "js_round (of_nat (?n - 2) * (of_int aw / of_nat (?n - 1))) \<le> aw - 1"
      by (intro js_round_le) simp
    then show ?thesis by (simp add: col_def)
  qed
  have "region_right l aw ?n i < of_int (l + aw)" if i: "i < ?n" for i
  proof (cases "i + 1 < ?n")
    case True
    then have "i \<le> ?n - 2" by simp
    then have "col l aw ?n i \<le> l + aw - 1"
      using step col_mono [OF b(2), of i "?n - 2" l ?n] by simp
    moreover have "col l aw ?n (i + 1) \<le> l + aw" using col_inside [OF b(2,1) True] by simp
    ultimately show ?thesis using True by (simp add: region_right_def)
  next
    case False
    then have "i = ?n - 1" using i by simp
    then show ?thesis using False l(1) col_last [OF b(1), of l aw] by (simp add: region_right_def)
  qed
  then have "region_search (ln_regionMap s) x (length (ln_regionMap s)) = None"
    unfolding region_search_None rm x by (auto simp: not_le)
  then show ?thesis by (simp add: line_getRegion_def)
qed

lemma line_last_point_unreachable_witness:
  "\<exists>s. line_render (\<lambda>_ _ _. False) line_defaults (map line_value demo_line_values)
      (new_line_chart demo_line_canvas) = Some s \<and> line_getRegion (Fin 58) (Fin 10) s = Some (None, s)"
proof -
  obtain s where s: "line_render (\<lambda>_ _ _. False) line_defaults (map line_value demo_line_values)
      (new_line_chart demo_line_canvas) = Some s"
    "ln_vertices s = [Some (Fin 2, Fin 17), Some (Fin 21, Fin 2), None, Some (Fin 58, Fin 10)]"
    by (rule demo_line_drawn)
  have m: "spot_margin line_defaults (3 / 2) 60 20 = 2" by code_simp
  have v: "vertex_of s (length demo_line_values - 1) = Some (Fin 58, Fin 10)"
    by (simp add: vertex_of_def s(2))
  show ?thesis
    using line_last_point_unreachable [OF s(1) demo_line_plain _ demo_line_frame _ _ _ v] s(1) m by simp
qed

text \<open>
  A leading null gets a region but no entry in the list of vertices, so every region of such a
  chart highlights the vertex of the value after it, and the last region none.
\<close>

theorem line_leading_null_shifts:
  assumes "line_render inpath opts (map line_value ys) (new_line_chart c) = Some s"
    "plain_line opts r c w h"
    "miny (chart_frame opts ys) = Fin lo" "maxy (chart_frame opts ys) = Fin hi" "lo \<le> hi"
    "ys ! 0 = None" "ln_regionMap s \<noteq> []"
  obtains l aw where "length (ln_regionMap s) = length ys" "vertex_of s (length ys - 1) = None"
    "\<And>i. i + 1 < length ys \<Longrightarrow> map_option fst (vertex_of s i) =
       (if ys ! (i + 1) = None then None else Some (Fin (of_int (col l aw (length ys) (i + 1)))))"
proof -
  have ne: "ln_vertices s \<noteq> [] \<or> ln_regionMap s \<noteq> []" using assms(7) by simp
  obtain l aw where b: "2 \<le> length ys"
    and rm: "ln_regionMap s = map (\<lambda>i. (Fin (if i = 0 then 0 else region_right l aw (length ys) (i - 1)),
       Fin (region_right l aw (length ys) i))) [0..<length ys]"
    and v: "\<not> maxy (chart_frame opts ys) < miny (chart_frame opts ys) \<longrightarrow>
       ln_vertices s = map (\<lambda>i. map_option (\<lambda>y. (Fin (of_int (col l aw (length ys) i)),
         y_pos (chart_area opts ys w h) (chart_frame opts ys)
           (clipval (Fin y) (miny (chart_frame opts ys)) (maxy (chart_frame opts ys))))) (ys ! i))
         [(if ys ! 0 = None then 1 else 0)..<length ys]"
    by (rule line_plain_chart [OF assms(1,2) ne])
  have lt: "\<not> maxy (chart_frame opts ys) < miny (chart_frame opts ys)" using assms(3-5) by simp
  show ?thesis
  proof (rule that [of l aw])
    show "length (ln_regionMap s) = length ys" by (simp add: rm)
    show "vertex_of s (length ys - 1) = None" using v [THEN mp, OF lt] assms(6) by (simp add: vertex_of_def)
    show "map_option fst (vertex_of s i) =
        (if ys ! (i + 1) = None then None else Some (Fin (of_int (col l aw (length ys) (i + 1)))))"
      if "i + 1 < length ys" for i
      using that v [THEN mp, OF lt] assms(6)
      by (cases "ys ! (i + 1)") (simp_all add: vertex_of_def)
  qed
qed

abbreviation late_line_values :: "rat option list" where
  "late_line_values \<equiv> [None, Some 1, Some 3]"

lemma line_leading_null_shifts_witness:
  "\<exists>s. line_render (\<lambda>_ _ _. False) line_defaults (map line_value late_line_values)
      (new_line_chart demo_line_canvas) = Some s \<and> vertex_of s 2 = None"
proof -
  have "map_option (\<lambda>s. (ln_vertices s, length (ln_regionMap s))) (line_render (\<lambda>_ _ _. False) line_defaults
     (map line_value late_line_values) (new_line_chart demo_line_canvas)) = X \<longrightarrow>
     X = Some ([Some (Fin 30, Fin 17), Some (Fin 58, Fin 2)], 3)" for X
    by (code_simp, auto)
  then obtain s where s: "line_render (\<lambda>_ _ _. False) line_defaults (map line_value late_line_values)
      (new_line_chart demo_line_canvas) = Some s" "length (ln_regionMap s) = 3"
    by blast
  have f: "miny (chart_frame line_defaults late_line_values) = Fin 1"
    "maxy (chart_frame line_defaults late_line_values) = Fin 3" by code_simp+
  have ne: "ln_regionMap s \<noteq> []" using s(2) by auto
  show ?thesis
    by (rule line_leading_null_shifts [OF s(1) demo_line_plain f _ _ ne]) (use s(1) in \<open>auto simp: numeral_2_eq_2\<close>)
qed

end
