(* ===== verification/Spark_Calls.thy ===== *)
theory Spark_Calls
  imports Js_Value
begin

text \<open>
  The entry points of \<open>js/jquery.sparkline.js\<close>: \<open>$.fn.sparkline\<close>, which draws at once or queues the call
  while the element is hidden, \<open>$.sparkline_display_visible\<close>, which works the queue off, and the data
  they keep on an element. A call is its values and the three options these functions read.
\<close>

section \<open>Values from a tag\<close>

definition strip_comment_start :: "string \<Rightarrow> string" where
  "strip_comment_start s =
     (if take 4 (trim_left s) = ''<!--'' then drop 4 (trim_left s) else s)"

definition strip_comment_end :: "string \<Rightarrow> string" where
  "strip_comment_end s =
     (let r = rev (trim_left (rev s)) in
      if 3 \<le> length r \<and> drop (length r - 3) r = ''-->'' then take (length r - 3) r else s)"

definition tag_values :: "string \<Rightarrow> string" where
  "tag_values s = filter (\<lambda>c. \<not> is_space c) (strip_comment_end (strip_comment_start s))"

section \<open>Elements and calls\<close>

record call =
  cl_values :: nat                      \<comment> \<open>which values the call draws\<close>
  composite :: bool
  noInteraction :: bool

record element =
  vcanvas :: bool                       \<comment> \<open>\<open>_jqs_vcanvas\<close>\<close>
  mhandler :: "nat list option"         \<comment> \<open>\<open>_jqs_mhandler\<close>: the values of its charts\<close>
  errnotify :: bool                     \<comment> \<open>\<open>_jqs_errnotify\<close>\<close>
  pending_flag :: bool                  \<comment> \<open>\<open>_jqs_pending\<close>\<close>

record calls =
  pending :: "(nat \<times> call) list"
  els :: "nat \<Rightarrow> element"
  drawn :: "(nat \<times> nat) list"           \<comment> \<open>elements and values, in the order of drawing\<close>
  alerts :: nat

text \<open>The function \<open>render\<close> of a call.\<close>

definition draw_call :: "nat \<Rightarrow> call \<Rightarrow> calls \<Rightarrow> calls" where
  "draw_call el c q =
     (let e = els q el;
          e1 = (if noInteraction c then e
                else (case mhandler e of
                        None \<Rightarrow> e\<lparr>mhandler := Some []\<rparr>
                      | Some sps \<Rightarrow> if composite c then e else e\<lparr>mhandler := Some []\<rparr>))
      in if composite c \<and> \<not> vcanvas e1 then
           q\<lparr>els := (els q)(el := e1\<lparr>errnotify := True\<rparr>),
             alerts := (if errnotify e1 then alerts q else alerts q + 1)\<rparr>
         else
           q\<lparr>els := (els q)(el := (if noInteraction c then e1
                                   else e1\<lparr>mhandler := map_option (\<lambda>sps. sps @ [cl_values c]) (mhandler e1)\<rparr>)
                                  \<lparr>vcanvas := True\<rparr>),
             drawn := drawn q @ [(el, cl_values c)]\<rparr>)"

text \<open>The loop that removes the queued calls of an element, from the last to the first.\<close>

fun remove_pending :: "nat \<Rightarrow> nat \<Rightarrow> (nat \<times> call) list \<Rightarrow> (nat \<times> call) list" where
  "remove_pending el 0 xs = xs"
| "remove_pending el (Suc i) xs =
     remove_pending el i (if i < length xs \<and> fst (xs ! i) = el then take i xs @ drop (Suc i) xs else xs)"

text \<open>\<open>out\<close>: the element is hidden, or not in the body.\<close>

definition sparkline_call :: "nat \<Rightarrow> bool \<Rightarrow> call \<Rightarrow> calls \<Rightarrow> calls" where
  "sparkline_call el out c q =
     (if out then
        (let ps = (if \<not> composite c \<and> pending_flag (els q el)
                   then remove_pending el (length (pending q)) (pending q) else pending q)
         in q\<lparr>pending := ps @ [(el, c)], els := (els q)(el := (els q el)\<lparr>pending_flag := True\<rparr>)\<rparr>)
      else draw_call el c q)"

definition set_flag :: "nat \<Rightarrow> bool \<Rightarrow> calls \<Rightarrow> calls" where
  "set_flag el b q = q\<lparr>els := (els q)(el := (els q el)\<lparr>pending_flag := b\<rparr>)\<rparr>"

text \<open>The loop of \<open>sparkline_display_visible\<close> over the queue; it collects the indices to remove.\<close>

fun display_loop ::
  "(nat \<Rightarrow> bool) \<Rightarrow> (nat \<Rightarrow> bool) \<Rightarrow> (nat \<times> call) list \<Rightarrow> nat \<Rightarrow> calls \<times> nat list \<Rightarrow> calls \<times> nat list" where
  "display_loop visible attached [] i r = r"
| "display_loop visible attached ((el, c) # ps) i (q, gone) =
     (if visible el then display_loop visible attached ps (Suc i) (set_flag el False (draw_call el c q), gone @ [i])
      else if \<not> attached el \<and> \<not> pending_flag (els q el)
      then display_loop visible attached ps (Suc i) (set_flag el False q, gone @ [i])
      else display_loop visible attached ps (Suc i) (q, gone))"

fun splice_all :: "nat list \<Rightarrow> 'a list \<Rightarrow> 'a list" where
  "splice_all [] xs = xs"
| "splice_all (i # is) xs = splice_all is (take i xs @ drop (Suc i) xs)"

definition display_visible :: "(nat \<Rightarrow> bool) \<Rightarrow> (nat \<Rightarrow> bool) \<Rightarrow> calls \<Rightarrow> calls" where
  "display_visible visible attached q =
     (let (q', gone) = display_loop visible attached (pending q) 0 (q, [])
      in q'\<lparr>pending := splice_all (rev gone) (pending q')\<rparr>)"

definition no_calls :: calls where
  "no_calls = \<lparr>pending = [], els = (\<lambda>_. \<lparr>vcanvas = False, mhandler = None, errnotify = False, pending_flag = False\<rparr>),
     drawn = [], alerts = 0\<rparr>"

section \<open>The loops\<close>

lemma remove_pending_take:
  "i \<le> length xs \<Longrightarrow> remove_pending el i xs = filter (\<lambda>p. fst p \<noteq> el) (take i xs) @ drop i xs"
proof (induction i arbitrary: xs)
  case (Suc i)
  then have i: "i < length xs" by simp
  have t: "take (Suc i) xs = take i xs @ [xs ! i]" by (rule take_Suc_conv_app_nth [OF i])
  show ?case
  proof (cases "fst (xs ! i) = el")
    case True
    let ?ys = "take i xs @ drop (Suc i) xs"
    have "remove_pending el i ?ys = filter (\<lambda>p. fst p \<noteq> el) (take i ?ys) @ drop i ?ys"
      by (rule Suc.IH) (use i in simp)
    then show ?thesis using True i t by simp
  next
    case False
    have "drop i xs = xs ! i # drop (Suc i) xs" by (rule Cons_nth_drop_Suc [symmetric, OF i])
    then show ?thesis using False i t Suc.IH [of xs] by simp
  qed
qed simp

lemma remove_pending_filter: "remove_pending el (length xs) xs = filter (\<lambda>p. fst p \<noteq> el) xs"
  by (simp add: remove_pending_take)

lemma draw_call_keeps [simp]: "pending (draw_call el c q) = pending q"
  "pending_flag (els (draw_call el c q) a) = pending_flag (els q a)"
  by (auto simp: draw_call_def Let_def split: option.splits)

lemma set_flag_keeps [simp]: "pending (set_flag el b q) = pending q" "drawn (set_flag el b q) = drawn q"
  "pending_flag (els (set_flag el b q) a) = (if a = el then b else pending_flag (els q a))"
  by (simp_all add: set_flag_def)

text \<open>Splicing out increasing indices from the back.\<close>

lemma splice_all_shift:
  "\<forall>i \<in> set is. length as \<le> i \<Longrightarrow> splice_all is (as @ xs) = as @ splice_all (map (\<lambda>i. i - length as) is) xs"
proof (induction "is" arbitrary: xs)
  case (Cons i "is")
  then show ?case by (simp add: Suc_diff_le)
qed simp

lemma splice_all_snoc:
  "splice_all (map Suc is @ ds) (x # xs) = splice_all ds (x # splice_all is xs)"
  by (induction "is" arbitrary: xs) simp_all

text \<open>Which calls a pass takes from the queue, decided by the flags at its start.\<close>

definition taken :: "(nat \<Rightarrow> bool) \<Rightarrow> (nat \<Rightarrow> bool) \<Rightarrow> calls \<Rightarrow> nat \<Rightarrow> bool" where
  "taken visible attached q el \<longleftrightarrow> visible el \<or> \<not> attached el \<and> \<not> pending_flag (els q el)"

lemma display_loop_spec:
  assumes "display_loop visible attached ps i (q, ds) = (q', ds')"
    and "\<And>el. \<not> visible el \<Longrightarrow> \<not> attached el \<Longrightarrow> pending_flag (els q el) = pending_flag (els q0 el)"
  shows "pending q' = pending q" (is ?a)
    and "\<exists>es. ds' = ds @ map ((+) i) es \<and> splice_all (rev es) ps = filter (\<lambda>p. \<not> taken visible attached q0 (fst p)) ps"
      (is ?b)
    and "pending_flag (els q' el) = (pending_flag (els q el) \<and> \<not> (el \<in> fst ` set ps \<and> taken visible attached q0 el))" (is ?c)
proof -
  have "?a \<and> ?b \<and> ?c"
    using assms
  proof (induction ps arbitrary: i q ds)
    case (Cons p ps)
    obtain a c where p: "p = (a, c)" by force
    have fl: "\<not> visible a \<Longrightarrow> \<not> attached a \<Longrightarrow> pending_flag (els q a) = pending_flag (els q0 a)"
      using Cons.prems(2) by simp
    define q1 where "q1 = (if visible a then set_flag a False (draw_call a c q)
      else if \<not> attached a \<and> \<not> pending_flag (els q a) then set_flag a False q else q)"
    define k where "k = taken visible attached q0 a"
    have k: "k \<longleftrightarrow> visible a \<or> \<not> attached a \<and> \<not> pending_flag (els q a)"
      using fl by (auto simp: k_def taken_def)
    have run: "display_loop visible attached ps (Suc i) (q1, if k then ds @ [i] else ds) = (q', ds')"
      using Cons.prems(1) k by (auto simp: p q1_def split: if_splits)
    have "pending_flag (els q1 el) = pending_flag (els q0 el)" if "\<not> visible el" "\<not> attached el" for el
      using Cons.prems(2) [OF that] that by (auto simp: q1_def)
    from Cons.IH [OF run this] obtain es where ih: "pending q' = pending q1"
      "ds' = (if k then ds @ [i] else ds) @ map ((+) (Suc i)) es"
      "splice_all (rev es) ps = filter (\<lambda>p. \<not> taken visible attached q0 (fst p)) ps"
      "pending_flag (els q' el) = (pending_flag (els q1 el) \<and> \<not> (el \<in> fst ` set ps \<and> taken visible attached q0 el))"
      by blast
    let ?es = "(if k then [0] else []) @ map Suc es"
    have "ds' = ds @ map ((+) i) ?es" using ih(2) by (simp add: comp_def)
    moreover have "splice_all (rev ?es) (p # ps) = filter (\<lambda>p. \<not> taken visible attached q0 (fst p)) (p # ps)"
      using splice_all_snoc [of "rev es" "if k then [0] else []" p ps] ih(3)
      by (cases k) (simp_all add: rev_map p k_def)
    moreover have "pending q' = pending q" using ih(1) by (simp add: q1_def)
    moreover have "pending_flag (els q' el) =
        (pending_flag (els q el) \<and> \<not> (el \<in> fst ` set (p # ps) \<and> taken visible attached q0 el))"
      using ih(4) k k_def by (auto simp: q1_def p)
    ultimately show ?case by blast
  qed auto
  then show ?a ?b ?c by blast+
qed

lemma display_visible_pending:
  "pending (display_visible visible attached q) =
     filter (\<lambda>p. \<not> taken visible attached q (fst p)) (pending q)"
proof -
  obtain q' ds where r: "display_loop visible attached (pending q) 0 (q, []) = (q', ds)" by force
  have p: "pending q' = pending q" by (rule display_loop_spec(1) [OF r]) simp
  obtain es where es: "ds = map ((+) 0) es"
    "splice_all (rev es) (pending q) = filter (\<lambda>p. \<not> taken visible attached q (fst p)) (pending q)"
    using display_loop_spec(2) [OF r, of q] by auto
  have "map ((+) 0) es = es" by (induction es) auto
  then show ?thesis using p es by (simp add: display_visible_def r)
qed

section \<open>Properties\<close>

text \<open>
  C34: one pass of \<open>sparkline_display_visible\<close> leaves in the queue, in order, exactly the calls of
  elements that are neither visible nor gone from the document, although it removes them by index
  while it walks.
\<close>

theorem display_visible_keeps_hidden:
  "pending (display_visible visible attached q) =
     filter (\<lambda>p. \<not> (visible (fst p) \<or> \<not> attached (fst p) \<and> \<not> pending_flag (els q (fst p)))) (pending q)"
  by (simp add: display_visible_pending taken_def)

text \<open>What happens to a page: a call, a pass over the queue, an element taken out of the document.\<close>

datatype page_event = Call nat bool call | Display "nat \<Rightarrow> bool" "nat \<Rightarrow> bool" | Detached nat

fun page_step :: "page_event \<Rightarrow> calls \<Rightarrow> calls" where
  "page_step (Call el out c) q = sparkline_call el out c q"
| "page_step (Display visible attached) q = display_visible visible attached q"
| "page_step (Detached el) q =
     q\<lparr>els := (els q)(el := \<lparr>vcanvas = False, mhandler = None, errnotify = False, pending_flag = False\<rparr>)\<rparr>"

definition simple_call :: "page_event \<Rightarrow> bool" where
  "simple_call e = (case e of Call el out c \<Rightarrow> \<not> composite c | Display v a \<Rightarrow> True | Detached el \<Rightarrow> False)"

definition queue_ok :: "calls \<Rightarrow> bool" where
  "queue_ok q \<longleftrightarrow> distinct (map fst (pending q)) \<and> (\<forall>p \<in> set (pending q). pending_flag (els q (fst p)))"

interpretation page: event_machine page_step queue_ok simple_call
proof
  fix q e
  assume ok: "queue_ok q" "simple_call e"
  show "queue_ok (page_step e q)"
  proof (cases e)
    case (Call el out c)
    have c: "\<not> composite c" using ok(2) Call by (simp add: simple_call_def)
    have "el \<notin> fst ` set (pending q)" if "\<not> pending_flag (els q el)"
      using ok(1) that by (auto simp: queue_ok_def)
    then show ?thesis
      using ok(1) c Call
      by (auto simp: sparkline_call_def queue_ok_def Let_def remove_pending_filter distinct_map_filter)
  next
    case (Display visible attached)
    obtain q' ds where r: "display_loop visible attached (pending q) 0 (q, []) = (q', ds)" by force
    have f: "pending_flag (els q' el) =
        (pending_flag (els q el) \<and> \<not> (el \<in> fst ` set (pending q) \<and> taken visible attached q el))" for el
      by (rule display_loop_spec(3) [OF r]) simp
    have "els (display_visible visible attached q) = els q'" by (simp add: display_visible_def r)
    then show ?thesis
      using ok(1) f Display
      by (auto simp: queue_ok_def display_visible_pending distinct_map_filter)
  next
    case (Detached el)
    then show ?thesis using ok(2) by (simp add: simple_call_def)
  qed
qed

text \<open>
  In every history of calls that are not composite and passes over the queue, no element has two
  calls in the queue, and every queued element is marked so.
\<close>

theorem queue_one_call_each:
  assumes "\<forall>e \<in> set es. simple_call e"
  shows "distinct (map fst (pending (fold page_step es no_calls))) \<and>
    (\<forall>p \<in> set (pending (fold page_step es no_calls)). pending_flag (els (fold page_step es no_calls) (fst p)))"
proof -
  have "queue_ok (fold page_step es no_calls)"
    by (rule page.run_inv [OF _ assms]) (simp add: queue_ok_def no_calls_def)
  then show ?thesis by (simp add: queue_ok_def)
qed

abbreviation plain_call :: "nat \<Rightarrow> call" where
  "plain_call v \<equiv> \<lparr>cl_values = v, composite = False, noInteraction = False\<rparr>"

lemma queue_one_call_each_witness:
  "distinct (map fst (pending (fold page_step
     [Call 3 True (plain_call 1), Call 4 True (plain_call 2), Call 3 True (plain_call 5),
      Display (\<lambda>el. el = 4) (\<lambda>_. True)] no_calls)))"
  by (rule queue_one_call_each [THEN conjunct1]) (simp add: simple_call_def)

text \<open>
  A call that draws at once does not take an older call for the same element off the queue. When
  the element was hidden at the first call and visible at the second, the next pass draws the older
  values over the newer ones.
\<close>

theorem queued_call_overdraws:
  assumes "pending q = []" "\<not> composite a" "\<not> composite b" "visible el"
  shows "drawn (display_visible visible attached (sparkline_call el False b (sparkline_call el True a q))) =
    drawn q @ [(el, cl_values b), (el, cl_values a)]"
  using assms
  by (auto simp: sparkline_call_def display_visible_def draw_call_def Let_def split: option.splits)

lemma queued_call_overdraws_witness:
  "drawn (display_visible (\<lambda>_. True) (\<lambda>_. True)
     (sparkline_call 3 False (plain_call 8) (sparkline_call 3 True (plain_call 7) no_calls))) = [(3, 8), (3, 7)]"
  using queued_call_overdraws [of no_calls "plain_call 7" "plain_call 8" "\<lambda>_. True" 3 "\<lambda>_. True"]
  by (simp add: no_calls_def)

lemma composite_fails:
  assumes "composite c" "\<not> vcanvas (els q el)"
  shows "drawn (draw_call el c q) = drawn q" "\<not> vcanvas (els (draw_call el c q) el)"
    "errnotify (els (draw_call el c q) el)"
    "alerts (draw_call el c q) = (if errnotify (els q el) then alerts q else alerts q + 1)"
  using assms by (auto simp: draw_call_def Let_def split: option.splits)

text \<open>
  Composite calls on an element that has no chart draw nothing, however often they are repeated, and
  the user is told once.
\<close>

theorem composite_alerts_once:
  assumes "composite c" "\<not> vcanvas (els q el)"
  shows "drawn ((draw_call el c ^^ Suc n) q) = drawn q \<and>
    alerts ((draw_call el c ^^ Suc n) q) = (if errnotify (els q el) then alerts q else alerts q + 1)"
proof -
  have "drawn ((draw_call el c ^^ Suc n) q) = drawn q \<and>
      alerts ((draw_call el c ^^ Suc n) q) = (if errnotify (els q el) then alerts q else alerts q + 1) \<and>
      \<not> vcanvas (els ((draw_call el c ^^ Suc n) q) el) \<and> errnotify (els ((draw_call el c ^^ Suc n) q) el)"
  proof (induction n)
    case 0
    then show ?case using composite_fails [OF assms] by simp
  next
    case (Suc n)
    then show ?case using composite_fails [OF assms(1), of "(draw_call el c ^^ Suc n) q" el] by simp
  qed
  then show ?thesis by blast
qed

lemma composite_alerts_once_witness:
  "alerts ((draw_call 3 \<lparr>cl_values = 1, composite = True, noInteraction = False\<rparr> ^^ Suc 4) no_calls) = 1"
  using composite_alerts_once [of "\<lparr>cl_values = 1, composite = True, noInteraction = False\<rparr>" no_calls 3 4]
  by (simp add: no_calls_def)

end
