(* ===== verification/Spark_Util_Props.thy ===== *)
theory Spark_Util_Props
  imports Spark_Util
begin

text \<open>
  Properties of the helpers: quartiles are ordered and lie in the data, digit grouping cuts groups of
  the asked size off the right end and leaves the digits alone, a range map answers with the last
  range that matches, and a number written in a tag comes back as that number.
\<close>

section \<open>Quartiles\<close>

lemma quartile_avg:
  "quad mod 4 \<noteq> 0 \<Longrightarrow> 0 < quad div 4 \<Longrightarrow> quad div 4 < int (length xs) \<Longrightarrow>
   (num_at (map Fin xs) (quad div 4) + num_at (map Fin xs) (quad div 4 - 1)) / Fin 2 =
   Fin ((xs ! nat (quad div 4) + xs ! nat (quad div 4 - 1)) / 2)"
  by (simp add: num_at_fin)

lemma quartile_values:
  fixes xs :: "rat list"
  assumes n: "length xs = 4 * k + r" "r < 4" "2 \<le> length xs"
  shows "quartile (map Fin xs) 1 = Fin (if r < 2 then (xs ! k + xs ! (k - 1)) / 2 else xs ! k)"
    and "quartile (map Fin xs) 2 = Fin
      (if r = 0 then (xs ! (2 * k - 1) + xs ! (2 * k)) / 2 else if r = 1 then xs ! (2 * k)
       else if r = 2 then (xs ! (2 * k) + xs ! (2 * k + 1)) / 2 else xs ! (2 * k + 1))"
    and "quartile (map Fin xs) 3 = Fin
      (if r = 0 then (xs ! (3 * k) + xs ! (3 * k - 1)) / 2
       else if r = 1 then (xs ! (3 * k + 1) + xs ! (3 * k)) / 2
       else if r = 2 then xs ! (3 * k + 1) else xs ! (3 * k + 2))"
proof -
  consider "r = 0" | "r = 1" | "r = 2" | "r = 3" using n(2) by linarith
  note cs = this
  have k: "r < 2 \<Longrightarrow> 0 < k" using n by auto
  show "quartile (map Fin xs) 1 = Fin (if r < 2 then (xs ! k + xs ! (k - 1)) / 2 else xs ! k)"
    using cs
  proof cases
    case 1
    have "(int (length xs) * 1 + 2) div 4 = int k" "(int (length xs) * 1 + 2) mod 4 = 2" "int (length xs) mod 2 = 0"
      using n 1 by presburger+
    then show ?thesis using 1 k n by (simp add: quartile_def num_at_fin Let_def nat_diff_distrib')
  next
    case 2
    have "(int (length xs) * 1 + 1) div 4 = int k" "(int (length xs) * 1 + 1) mod 4 = 2" "int (length xs) mod 2 = 1"
      using n 2 by presburger+
    then show ?thesis using 2 k n by (simp add: quartile_def num_at_fin Let_def nat_diff_distrib')
  next
    case 3
    have "(int (length xs) * 1 + 2) div 4 = int k + 1" "(int (length xs) * 1 + 2) mod 4 = 0" "int (length xs) mod 2 = 0"
      using n 3 by presburger+
    then show ?thesis using 3 k n by (simp add: quartile_def num_at_fin Let_def nat_diff_distrib')
  next
    case 4
    have "(int (length xs) * 1 + 1) div 4 = int k + 1" "(int (length xs) * 1 + 1) mod 4 = 0" "int (length xs) mod 2 = 1"
      using n 4 by presburger+
    then show ?thesis using 4 k n by (simp add: quartile_def num_at_fin Let_def nat_add_distrib)
  qed
  show "quartile (map Fin xs) 2 = Fin
      (if r = 0 then (xs ! (2 * k - 1) + xs ! (2 * k)) / 2 else if r = 1 then xs ! (2 * k)
       else if r = 2 then (xs ! (2 * k) + xs ! (2 * k + 1)) / 2 else xs ! (2 * k + 1))"
    using cs
  proof cases
    case 1
    have "int (length xs) div 2 = 2 * int k" "int (length xs) mod 2 = 0" using n 1 by presburger+
    then show ?thesis using 1 k n by (simp add: quartile_def num_at_fin Let_def nat_diff_distrib' nat_mult_distrib)
  next
    case 2
    have "int (length xs) div 2 = 2 * int k" "int (length xs) mod 2 = 1" using n 2 by presburger+
    then show ?thesis using 2 k n by (simp add: quartile_def num_at_fin Let_def nat_mult_distrib)
  next
    case 3
    have "int (length xs) div 2 = 2 * int k + 1" "int (length xs) mod 2 = 0" using n 3 by presburger+
    then show ?thesis using 3 k n by (simp add: quartile_def num_at_fin Let_def nat_add_distrib nat_mult_distrib add.commute)
  next
    case 4
    have "int (length xs) div 2 = 2 * int k + 1" "int (length xs) mod 2 = 1" using n 4 by presburger+
    then show ?thesis using 4 k n by (simp add: quartile_def num_at_fin Let_def nat_add_distrib nat_mult_distrib)
  qed
  show "quartile (map Fin xs) 3 = Fin
      (if r = 0 then (xs ! (3 * k) + xs ! (3 * k - 1)) / 2
       else if r = 1 then (xs ! (3 * k + 1) + xs ! (3 * k)) / 2
       else if r = 2 then xs ! (3 * k + 1) else xs ! (3 * k + 2))"
    using cs
  proof cases
    case 1
    have "(int (length xs) * 3 + 2) div 4 = 3 * int k" "(int (length xs) * 3 + 2) mod 4 = 2" "int (length xs) mod 2 = 0"
      using n 1 by presburger+
    then show ?thesis using 1 k n
      by (simp add: quartile_def num_at_fin Let_def nat_diff_distrib' nat_mult_distrib)
  next
    case 2
    have "(int (length xs) * 3 + 3) div 4 = 3 * int k + 1" "(int (length xs) * 3 + 3) mod 4 = 2" "int (length xs) mod 2 = 1"
      using n 2 by presburger+
    then show ?thesis using 2 k n
      by (simp add: quartile_def num_at_fin Let_def nat_add_distrib nat_mult_distrib)
  next
    case 3
    have "(int (length xs) * 3 + 2) div 4 = 3 * int k + 2" "(int (length xs) * 3 + 2) mod 4 = 0" "int (length xs) mod 2 = 0"
      using n 3 by presburger+
    then show ?thesis using 3 k n
      by (simp add: quartile_def num_at_fin Let_def nat_add_distrib nat_mult_distrib)
  next
    case 4
    have "(int (length xs) * 3 + 3) div 4 = 3 * int k + 3" "(int (length xs) * 3 + 3) mod 4 = 0" "int (length xs) mod 2 = 1"
      using n 4 by presburger+
    then show ?thesis using 4 k n
      by (simp add: quartile_def num_at_fin Let_def nat_add_distrib nat_mult_distrib)
  qed
qed

lemma mean_mono: "a \<le> c \<Longrightarrow> b \<le> d \<Longrightarrow> (a + b) / 2 \<le> (c + d) / 2" for a b c d :: rat
  by simp

lemma mean_le: "a \<le> c \<Longrightarrow> b \<le> c \<Longrightarrow> (a + b) / 2 \<le> c" "c \<le> a \<Longrightarrow> c \<le> b \<Longrightarrow> c \<le> (a + b) / 2"
  for a b c :: rat
  by simp_all

lemma quartile_in_order:
  assumes s: "sorted xs" and n: "2 \<le> length xs"
  obtains q1 q2 q3 where "quartile (map Fin xs) 1 = Fin q1" "quartile (map Fin xs) 2 = Fin q2"
    "quartile (map Fin xs) 3 = Fin q3" "hd xs \<le> q1" "q1 \<le> q2" "q2 \<le> q3" "q3 \<le> last xs"
proof -
  define k r where kr: "k = length xs div 4" "r = length xs mod 4"
  have len: "length xs = 4 * k + r" "r < 4" by (simp_all add: kr)
  note v = quartile_values [OF len n]
  have m: "xs ! i \<le> xs ! j" if "i \<le> j" "j < length xs" for i j using s that by (rule sorted_nth_mono)
  have "xs \<noteq> []" using n by auto
  then have ends: "hd xs = xs ! 0" "last xs = xs ! (length xs - 1)"
    by (simp_all add: hd_conv_nth last_conv_nth)
  have k: "r < 2 \<Longrightarrow> 0 < k" using n len by auto
  consider "r = 0" | "r = 1" | "r = 2" | "r = 3" using len(2) by linarith
  then show ?thesis
  proof cases
    case 1
    have "xs ! (0) \<le> xs ! (k - 1)" "xs ! (k - 1) \<le> xs ! (k)" "xs ! (k) \<le> xs ! (2 * k - 1)" "xs ! (2 * k - 1) \<le> xs ! (2 * k)" "xs ! (2 * k) \<le> xs ! (3 * k - 1)" "xs ! (3 * k - 1) \<le> xs ! (3 * k)" "xs ! (3 * k) \<le> xs ! (4 * k - 1)"
      by (rule m; use 1 k len n in presburger)+
    then show ?thesis by (intro that [OF v]) (use 1 len ends in simp_all)
  next
    case 2
    have "xs ! (0) \<le> xs ! (k - 1)" "xs ! (k - 1) \<le> xs ! (k)" "xs ! (k) \<le> xs ! (2 * k)" "xs ! (2 * k) \<le> xs ! (3 * k)" "xs ! (3 * k) \<le> xs ! (3 * k + 1)" "xs ! (3 * k + 1) \<le> xs ! (4 * k)"
      by (rule m; use 2 k len n in presburger)+
    then show ?thesis by (intro that [OF v]) (use 2 len ends in simp_all)
  next
    case 3
    have "xs ! (0) \<le> xs ! (k)" "xs ! (k) \<le> xs ! (2 * k)" "xs ! (2 * k) \<le> xs ! (2 * k + 1)" "xs ! (2 * k + 1) \<le> xs ! (3 * k + 1)" "xs ! (3 * k + 1) \<le> xs ! (4 * k + 1)"
      by (rule m; use 3 k len n in presburger)+
    then show ?thesis by (intro that [OF v]) (use 3 len ends in simp_all)
  next
    case 4
    have "xs ! (0) \<le> xs ! (k)" "xs ! (k) \<le> xs ! (2 * k + 1)" "xs ! (2 * k + 1) \<le> xs ! (3 * k + 2)" "xs ! (3 * k + 2) \<le> xs ! (4 * k + 2)"
      by (rule m; use 4 k len n in presburger)+
    then show ?thesis by (intro that [OF v]) (use 4 len ends in simp_all)
  qed
qed

text \<open>
  For sorted data of at least two values the three quartiles are numbers, ordered, and between
  the least and the greatest value.
\<close>

theorem quartile_ordered:
  assumes s: "sorted xs" and n: "2 \<le> length xs"
  obtains q1 q2 q3 where "quartile (map Fin xs) 1 = Fin q1" "quartile (map Fin xs) 2 = Fin q2"
    "quartile (map Fin xs) 3 = Fin q3" "hd xs \<le> q1" "q1 \<le> q2" "q2 \<le> q3" "q3 \<le> last xs"
  by (rule quartile_in_order [OF assms that])

lemma quartile_ordered_witness:
  "\<exists>q1. quartile (map Fin [1, 2, 4, 7, 9]) 1 = Fin q1 \<and> 1 \<le> q1"
  by (rule quartile_ordered [of "[1, 2, 4, 7, 9]"]) auto

text \<open>
  For a single value the first and the third quartile read outside the array: they are \<open>NaN\<close>.
\<close>

theorem quartile_single:
  "quartile [x] 2 = x" "quartile [x] 1 = NaN" "quartile [x] 3 = NaN"
  by (simp_all add: quartile_def num_at_def js_nth_def Let_def)

section \<open>Digit grouping\<close>

lemma group_right_map: "group_right g (map f xs) = map (map f) (group_right g xs)"
proof (induction g xs rule: group_right.induct)
  case (1 g xs)
  show ?case
  proof (cases "g = 0 \<or> length xs \<le> g")
    case True
    then show ?thesis by (simp add: group_right.simps)
  next
    case False
    then show ?thesis
      using 1 by (subst (1 2) group_right.simps) (simp add: take_map drop_map)
  qed
qed

lemma concat_join: "concat (join [sep] xss) = join sep (map concat xss)"
  by (induction "[sep]" xss rule: join.induct) auto

lemma concat_singletons [simp]: "concat (map (\<lambda>c. [c]) s) = s"
  by (induction s) auto

lemma index_of_append: "x \<notin> set xs \<Longrightarrow> index_of x (xs @ x # ys) = Some (length xs)"
  by (induction xs) auto

lemma index_of_None: "x \<notin> set xs \<Longrightarrow> index_of x xs = None"
  by (induction xs) auto

lemma group_chars:
  "concat (join [sep] (group_right g (map (\<lambda>c. [c]) s))) = join sep (group_right g s)"
  by (simp add: group_right_map concat_join o_def)

lemma formatNumber_eq:
  assumes g: "0 < g" and s: "CHR ''.'' \<notin> set s"
  shows "formatNumber s (int g) sep dec = Some (join sep (group_right g s))"
    and "formatNumber (s @ CHR ''.'' # fract) (int g) sep dec =
      Some (join sep (group_right g s) @ dec @ fract)"
proof -
  let ?f = "\<lambda>c. [c] :: string"
  have n: "''.'' \<notin> set (map ?f s)" using s by auto
  have "group_loop (int g) sep (int (length s) - int g) (map ?f s) =
      Some (join [sep] (group_right g (map ?f s)))"
    using group_loop_eq [OF g, of "length s" "map ?f s" sep] by simp
  then show "formatNumber s (int g) sep dec = Some (join sep (group_right g s))"
    by (simp add: formatNumber_def Let_def index_of_None [OF n] group_chars)
  let ?num = "map ?f s @ dec # map ?f fract"
  have "index_of ''.'' (map ?f s @ ''.'' # map ?f fract) = Some (length s)"
    using index_of_append [OF n] by simp
  moreover have "(map ?f s @ ''.'' # map ?f fract)[length s := dec] = ?num"
    by (simp add: list_update_append)
  moreover have "group_loop (int g) sep (int (length s) - int g) ?num =
      Some (join [sep] (group_right g (map ?f s)) @ dec # map ?f fract)"
    using group_loop_eq [OF g, of "length s" ?num sep] by simp
  ultimately show "formatNumber (s @ CHR ''.'' # fract) (int g) sep dec =
      Some (join sep (group_right g s) @ dec @ fract)"
    by (simp add: formatNumber_def Let_def group_chars)
qed

lemma group_right_spec:
  assumes "0 < g"
  shows "concat (group_right g xs) = xs \<and> (\<forall>ys \<in> set (tl (group_right g xs)). length ys = g) \<and>
    length (hd (group_right g xs)) \<le> g"
  using assms
proof (induction g xs rule: group_right.induct)
  case (1 g xs)
  show ?case
  proof (cases "length xs \<le> g")
    case True
    then show ?thesis by (simp add: group_right.simps)
  next
    case False
    let ?r = "group_right g (take (length xs - g) xs)"
    have r: "group_right g xs = ?r @ [drop (length xs - g) xs]"
      by (subst group_right.simps) (use False 1(2) in simp)
    have ih: "concat ?r = take (length xs - g) xs \<and> (\<forall>ys \<in> set (tl ?r). length ys = g) \<and> length (hd ?r) \<le> g"
      by (rule 1(1)) (use 1(2) False in simp_all)
    obtain y ys where ys: "?r = y # ys" by (cases ?r) auto
    show ?thesis using ih False unfolding r ys by auto (metis append_assoc append_take_drop_id)
  qed
qed

text \<open>
  \<open>formatNumber\<close> with a positive group size returns, and its result is the digits cut into groups:
  all but the first of exactly that size, the first not longer, their concatenation the digits again;
  the fraction is kept behind the decimal mark.
\<close>

theorem formatNumber_groups:
  assumes "0 < g" "CHR ''.'' \<notin> set s"
  obtains first groups where
    "formatNumber s (int g) sep dec = Some (join sep (first # groups))"
    "formatNumber (s @ CHR ''.'' # fract) (int g) sep dec = Some (join sep (first # groups) @ dec @ fract)"
    "concat (first # groups) = s" "length first \<le> g" "\<forall>ys \<in> set groups. length ys = g"
proof -
  obtain first groups where fg: "group_right g s = first # groups" by (cases "group_right g s") auto
  show ?thesis
    using that [of first groups] formatNumber_eq [OF assms] group_right_spec [OF assms(1), of s]
    unfolding fg by simp
qed

lemma formatNumber_groups_witness:
  "\<exists>fs. formatNumber ''1234567'' 3 '','' ''.'' = Some (join '','' fs) \<and> concat fs = ''1234567''"
proof -
  obtain first groups where
    "formatNumber ''1234567'' (int 3) '','' ''.'' = Some (join '','' (first # groups))"
    "concat (first # groups) = ''1234567''"
    by (rule formatNumber_groups [of 3 "''1234567''" "'',''" "''.''"]) auto
  then show ?thesis by (intro exI [of _ "first # groups"]) simp
qed

text \<open>
  The sign counts as a digit: a negative number of three digits is written with a separator
  behind its sign.
\<close>

theorem formatNumber_negative: "formatNumber ''-123'' 3 '','' ''.'' = Some ''-,123''"
proof -
  have "formatNumber ''-123'' (int 3) '','' ''.'' = Some (join '','' (group_right 3 ''-123''))"
    by (rule formatNumber_eq) auto
  also have "group_right 3 ''-123'' = [''-'', ''123'']"
    by (simp add: group_right.simps)
  finally show ?thesis by simp
qed

text \<open>
  The grouping loop ends only for a positive group size: with \<open>numberDigitGroupCount\<close> 0 or
  below, formatting a number that has a digit never returns.
\<close>

theorem formatNumber_diverges:
  assumes "g \<le> 0" "s \<noteq> []" "hd s \<noteq> CHR ''.''"
  shows "formatNumber s g sep dec = None"
proof -
  let ?num = "map (\<lambda>c. [c]) s"
  let ?p = "case index_of ''.'' ?num of None \<Rightarrow> length ?num | Some p \<Rightarrow> p"
  have "0 < ?p" using assms(2,3) by (cases s) (auto split: option.splits)
  then have "group_loop g sep (int ?p - g) n = None" for n
    using group_loop_diverges [of g sep "int ?p - g" n] assms(1) by (cases "group_loop g sep (int ?p - g) n") auto
  then show ?thesis by (simp add: formatNumber_def Let_def)
qed

lemma formatNumber_diverges_witness: "formatNumber ''7'' 0 '','' ''.'' = None"
  by (rule formatNumber_diverges) auto

section \<open>Range maps\<close>

lemma find_rev_Cons:
  "find P (rev (x # xs)) = (case find P (rev xs) of None \<Rightarrow> if P x then Some x else None | Some y \<Rightarrow> Some y)"
  by (simp add: find_append split: option.splits)

lemma find_rev_Some:
  "find P (rev xs) = Some y \<longleftrightarrow> (\<exists>pre post. xs = pre @ y # post \<and> P y \<and> (\<forall>z \<in> set post. \<not> P z))"
proof (induction xs)
  case (Cons x xs)
  have "find P (rev (x # xs)) = Some y \<longleftrightarrow>
      find P (rev xs) = Some y \<or> (\<forall>z \<in> set xs. \<not> P z) \<and> P x \<and> x = y"
  proof (cases "find P (rev xs)")
    case None
    then have "\<forall>z \<in> set xs. \<not> P z" by (simp add: find_None_iff)
    then show ?thesis unfolding find_rev_Cons None by auto
  next
    case (Some z)
    then have "\<exists>z \<in> set xs. P z" using find_None_iff [of P "rev xs"] by auto
    then show ?thesis unfolding find_rev_Cons Some by auto
  qed
  then show ?case unfolding Cons.IH by (auto simp: Cons_eq_append_conv)
qed simp

text \<open>
  Without an exact entry a range map answers with the last of its ranges that contains the value,
  and with nothing only when no range contains it.
\<close>

theorem range_map_get_last:
  assumes "map_of m name = None" "x \<noteq> NaN"
  shows "range_map_get (new_range_map m) name x = Some r \<longleftrightarrow>
    (\<exists>pre lo hi post. ranges_of m = pre @ (lo, hi, r) # post \<and> lo \<le> x \<and> x \<le> hi \<and>
       (\<forall>(lo', hi', r') \<in> set post. \<not> (lo' \<le> x \<and> x \<le> hi')))"
  using assms(1) unfolding range_map_get_def new_range_map_def
  by (auto simp: find_rev_Some split: prod.splits)

lemma range_map_get_last_witness:
  "range_map_get (new_range_map [('':5'', 1), (''3:9'', 2)]) ''4'' (Fin 4) = Some (2::nat)"
proof -
  have r: "ranges_of [('':5'', 1::nat), (''3:9'', 2)] = [(NegInf, Fin 5, 1), (Fin 3, Fin 9, 2)]"
    by code_simp
  show ?thesis
    by (subst range_map_get_last)
      (simp, simp, unfold r, rule exI [of _ "[(NegInf, Fin 5, 1)]"], rule exI [of _ "Fin 3"],
       rule exI [of _ "Fin 9"], rule exI [of _ "[]"], simp)
qed

section \<open>Numbers in tags\<close>

text \<open>A decimal number written into a tag is read back as that number.\<close>

theorem normalizeValue_number: "normalizeValue (VStr (show_nat n)) = VNum (Fin (of_nat n))"
proof -
  have d: "digit_of c \<noteq> None" if "c \<in> set (show_nat n)" for c using show_nat_digits that by blast
  have sp: "\<not> is_space c" if "digit_of c \<noteq> None" for c
    using that by (auto simp: digit_of_def is_space_def Let_def split: if_splits)
  have tl: "trim_left s = s" if "\<forall>c \<in> set s. digit_of c \<noteq> None" for s
    using that sp by (cases s) (auto simp: trim_left_def)
  have t: "trim (show_nat n) = show_nat n" using d by (simp add: trim_def tl)
  obtain rest where r: "read_decimal (show_nat n) = Some (Fin (of_nat n), rest)" "rest = []"
  proof -
    obtain c cs where s: "show_nat n = c # cs" by (cases "show_nat n") auto
    then have c: "c \<noteq> CHR ''-''" "c \<noteq> CHR ''+''" "c \<noteq> CHR ''I''"
      using d [of c] by (auto simp: digit_of_def Let_def split: if_splits)
    have sg: "read_sign (show_nat n) = (False, show_nat n)" using c s by (simp add: read_sign_def)
    have i: "take 8 (show_nat n) \<noteq> ''Infinity''" using c s by simp
    have "read_digits 0 (show_nat n) = (n, length (show_nat n), [])" by (simp add: read_show_nat)
    then have "read_decimal (show_nat n) = Some (Fin (of_nat n), [])"
      unfolding read_decimal_def sg using i by (simp add: read_fraction_def read_exponent_def pow10_def)
    then show ?thesis using that by blast
  qed
  have "show_nat n \<notin> {''undefined'', ''null'', ''true'', ''false''}"
    using d [of "hd (show_nat n)"] by (auto simp: digit_of_def Let_def)
  then show ?thesis
    using r parseFloat_show_nat [of n] by (auto simp: normalizeValue_def string_to_num_def t)
qed

end
