(* ===== verification/Spark_Format.thy ===== *)
theory Spark_Format
  imports Spark_Util_Props
begin

text \<open>
  Tooltip texts of \<open>js/jquery.sparkline.js\<close>: the format strings of the class \<open>SPFormat\<close> and
  \<open>getCurrentRegionTooltip\<close>. The text of a number (\<open>toString\<close>, \<open>toFixed\<close>) is the parameter
  \<open>numtext\<close>; what throws or does not return is \<open>None\<close>.
\<close>

section \<open>Matching a format\<close>

definition is_digit :: "char \<Rightarrow> bool" where
  "is_digit c \<longleftrightarrow> digit_of c \<noteq> None"

definition is_word :: "char \<Rightarrow> bool" where
  "is_word c \<longleftrightarrow>
     (let n = of_char c :: nat in 48 \<le> n \<and> n \<le> 57 \<or> 65 \<le> n \<and> n \<le> 90 \<or> 97 \<le> n \<and> n \<le> 122 \<or> n = 95)"

definition is_token :: "char \<Rightarrow> bool" where
  "is_token c \<longleftrightarrow> is_word c \<or> c = CHR ''.''"

datatype piece = Lit char | Field string "string option"

text \<open>\<open>(.+?)\}\}\<close>: at least one character, as few as possible.\<close>

fun close_from :: "string \<Rightarrow> (string \<times> string) option" where
  "close_from [] = None"
| "close_from (c # cs) =
     (if (of_char c :: nat) \<in> {10, 13} then None
      else if take 2 cs = ''}}'' then Some ([c], drop 2 cs)
      else map_option (\<lambda>(k, r). (c # k, r)) (close_from cs))"

text \<open>\<open>fre\<close> at the start of a text: the token, the lookup key and the rest.\<close>

definition match_field :: "string \<Rightarrow> (string \<times> string option \<times> string) option" where
  "match_field s =
     (if take 2 s = ''{{'' then
        (let t = takeWhile is_token (drop 2 s); r = dropWhile is_token (drop 2 s) in
         if t = [] then None
         else if take 2 r = ''}}'' then Some (t, None, drop 2 r)
         else if take 1 r = '':'' then map_option (\<lambda>(k, u). (t, Some k, u)) (close_from (drop 1 r))
         else None)
      else None)"

lemma close_from_length: "close_from s = Some (k, r) \<Longrightarrow> length r < length s"
  by (induction s arbitrary: k r) (auto split: if_splits)

lemma match_field_length:
  assumes "match_field s = Some (t, k, r)"
  shows "length r < length s"
proof -
  let ?d = "dropWhile is_token (drop 2 s)"
  have "take 2 s = ''{{''" using assms by (auto simp: match_field_def split: if_splits)
  then have "length (take 2 s) = 2" by simp
  then have s: "2 \<le> length s" by simp
  have d: "length ?d \<le> length s - 2" using length_dropWhile_le [of is_token "drop 2 s"] by simp
  consider "r = drop 2 ?d" | u where "close_from (drop 1 ?d) = Some (u, r)"
    using assms by (auto simp: match_field_def Let_def split: if_splits)
  then show ?thesis
  proof cases
    case 1
    then show ?thesis using s d by simp
  next
    case 2
    then show ?thesis using close_from_length [OF 2] s d by simp
  qed
qed

function scan_format :: "string \<Rightarrow> piece list" where
  "scan_format [] = []"
| "scan_format (c # cs) =
     (case match_field (c # cs) of
        None \<Rightarrow> Lit c # scan_format cs
      | Some (t, k, r) \<Rightarrow> Field t k # scan_format r)"
  by pat_completeness auto
termination
  by (relation "measure length") (auto dest!: match_field_length)

text \<open>\<open>precre\<close>, the first \<open>(\w+)\.(\d+)\<close> of the token, on its parts between dots.\<close>

fun prec_match :: "string list \<Rightarrow> (string \<times> string) option" where
  "prec_match (p # q # ps) =
     (if p \<noteq> [] \<and> takeWhile is_digit q \<noteq> [] then Some (p, takeWhile is_digit q) else prec_match (q # ps))"
| "prec_match _ = None"

fun dot_parts :: "string \<Rightarrow> string list" where
  "dot_parts [] = [[]]"
| "dot_parts (c # cs) =
     (if c = CHR ''.'' then [] # dot_parts cs
      else (case dot_parts cs of p # ps \<Rightarrow> (c # p) # ps | [] \<Rightarrow> [[c]]))"

section \<open>Fields\<close>

type_synonym field_set = "(string \<times> jsval) list"

text \<open>An entry of \<open>tooltipValueLookups\<close>: a table, or a range map by its \<open>get\<close>.\<close>

datatype lookup = Table "(string \<times> string) list" | Ranges "jsval \<Rightarrow> string option"

record format_opts =
  value_lookups :: "(string \<times> lookup) list"
  numberFormatter :: "(jsval \<Rightarrow> string) option"
  groupCount :: int
  groupSep :: string
  decimalMark :: string

fun js_text :: "(jsval \<Rightarrow> string option \<Rightarrow> string option) \<Rightarrow> jsval \<Rightarrow> string option" where
  "js_text numtext (VStr s) = Some s"
| "js_text numtext VNull = Some ''null''"
| "js_text numtext VUndef = Some ''undefined''"
| "js_text numtext (VBool b) = Some (if b then ''true'' else ''false'')"
| "js_text numtext (VNum x) = numtext (VNum x) None"
| "js_text numtext (VArr vs) = None"

text \<open>Looked up values that are empty count as missing.\<close>

definition lookup_text ::
  "(jsval \<Rightarrow> string option \<Rightarrow> string option) \<Rightarrow> lookup \<Rightarrow> jsval \<Rightarrow> string option" where
  "lookup_text numtext l v =
     (case l of
        Table kv \<Rightarrow>
          (case js_text numtext v of
             None \<Rightarrow> None
           | Some key \<Rightarrow> (case map_of kv key of Some (c # cs) \<Rightarrow> Some (c # cs) | _ \<Rightarrow> Some key))
      | Ranges get \<Rightarrow> (case get v of Some (c # cs) \<Rightarrow> Some (c # cs) | _ \<Rightarrow> js_text numtext v))"

definition field_text ::
  "(jsval \<Rightarrow> string option \<Rightarrow> string option) \<Rightarrow> format_opts \<Rightarrow> field_set \<Rightarrow> string \<Rightarrow> string option \<Rightarrow> string option" where
  "field_text numtext fo flds token key =
     (let (token, prec) = (case prec_match (dot_parts token) of None \<Rightarrow> (token, None) | Some (t, p) \<Rightarrow> (t, Some p))
      in case map_of flds token of
           None \<Rightarrow> Some []
         | Some v \<Rightarrow>
             if v = VUndef then Some []
             else (case Option.bind key (map_of (value_lookups fo)) of
                     Some l \<Rightarrow> lookup_text numtext l v
                   | None \<Rightarrow>
                       if isNumber v then
                         (case numberFormatter fo of
                            Some fm \<Rightarrow> Some (fm v)
                          | None \<Rightarrow> Option.bind (numtext v prec)
                              (\<lambda>txt. formatNumber txt (groupCount fo) (groupSep fo) (decimalMark fo)))
                       else js_text numtext v))"

fun piece_text where
  "piece_text numtext fo flds (Lit c) = Some [c]"
| "piece_text numtext fo flds (Field t k) = field_text numtext fo flds t k"

fun join_some :: "string option list \<Rightarrow> string option" where
  "join_some [] = Some []"
| "join_some (x # xs) = Option.bind x (\<lambda>s. map_option (append s) (join_some xs))"

definition sp_render ::
  "(jsval \<Rightarrow> string option \<Rightarrow> string option) \<Rightarrow> format_opts \<Rightarrow> field_set \<Rightarrow> string \<Rightarrow> string option" where
  "sp_render numtext fo flds fmt = join_some (map (piece_text numtext fo flds) (scan_format fmt))"

section \<open>The tooltip of a region\<close>

record tip_opts =
  tooltipFormatter :: "(field_set list \<Rightarrow> string) option"
  tooltipChartTitle :: "string option"
  tooltipFormat :: "(string \<times> string option) list option"    \<comment> \<open>texts with their \<open>fclass\<close>\<close>
  tooltipFormatFieldlist :: "string list option"
  tooltipFormatFieldlistKey :: "string option"
  tooltipSkipNull :: bool
  tooltipPrefix :: string
  tooltipSuffix :: string
  tip_format :: format_opts

text \<open>
  The user's order: field sets are entered at the index of their key, from the last to the first; an
  index that gets none is a hole of the array.
\<close>

definition put_at :: "nat \<Rightarrow> 'a \<Rightarrow> 'a option list \<Rightarrow> 'a option list" where
  "put_at j x xs = (if j < length xs then xs[j := Some x] else xs @ replicate (j - length xs) None @ [Some x])"

fun order_fields :: "string list \<Rightarrow> string \<Rightarrow> field_set list \<Rightarrow> field_set option list" where
  "order_fields showf key [] = []"
| "order_fields showf key (f # fs) =
     (let new = order_fields showf key fs in
      case map_of f key of
        Some (VStr s) \<Rightarrow> (case index_of s showf of None \<Rightarrow> new | Some j \<Rightarrow> put_at j f new)
      | _ \<Rightarrow> new)"

definition is_null_field :: "field_set \<Rightarrow> bool" where
  "is_null_field f = (map_of f ''isNull'' = Some (VBool True))"

definition quote :: string where "quote = [CHR 0x22]"

definition newline :: string where "newline = [CHR 0x0A]"

text \<open>The entries of one format; reading \<open>isNull\<close> of a hole throws.\<close>

fun format_entries ::
  "(jsval \<Rightarrow> string option \<Rightarrow> string option) \<Rightarrow> tip_opts \<Rightarrow> string \<times> string option \<Rightarrow> field_set option list \<Rightarrow>
   string list option" where
  "format_entries numtext to fm [] = Some []"
| "format_entries numtext to fm (None # fs) = None"
| "format_entries numtext to fm (Some f # fs) =
     (if is_null_field f \<and> tooltipSkipNull to then format_entries numtext to fm fs
      else
        (case sp_render numtext (tip_format to)
                ([(''prefix'', VStr (tooltipPrefix to)), (''suffix'', VStr (tooltipSuffix to))] @ f) (fst fm) of
           None \<Rightarrow> None
         | Some txt \<Rightarrow>
             map_option (Cons (''<div class='' @ quote @ (case snd fm of None \<Rightarrow> ''jqsfield'' | Some c \<Rightarrow> c) @
                               quote @ ''>'' @ txt @ ''</div>''))
               (format_entries numtext to fm fs)))"

fun all_entries where
  "all_entries numtext to [] fs = Some []"
| "all_entries numtext to (fm # fms) fs =
     Option.bind (format_entries numtext to fm fs) (\<lambda>es. map_option (append es) (all_entries numtext to fms fs))"

definition region_tooltip ::
  "(jsval \<Rightarrow> string option \<Rightarrow> string option) \<Rightarrow> tip_opts \<Rightarrow> field_set list \<Rightarrow> string option" where
  "region_tooltip numtext to flds =
     (case tooltipFormatter to of
        Some fmter \<Rightarrow> Some (fmter flds)
      | None \<Rightarrow>
          (case tooltipFormat to of
             None \<Rightarrow> Some []
           | Some fms \<Rightarrow>
               (let header = (case tooltipChartTitle to of
                                Some (c # cs) \<Rightarrow> ''<div class='' @ quote @ ''jqs jqstitle'' @ quote @ ''>'' @ (c # cs) @ ''</div>'' @ newline
                              | _ \<Rightarrow> []);
                    fs = (case (tooltipFormatFieldlist to, tooltipFormatFieldlistKey to) of
                            (Some showf, Some (k # ks)) \<Rightarrow> order_fields showf (k # ks) flds
                          | _ \<Rightarrow> map Some flds)
                in map_option (\<lambda>es. if es = [] then [] else header @ join newline es) (all_entries numtext to fms fs))))"

section \<open>Formats made of texts and fields\<close>

datatype segment = Words string | Slot string "string option"

fun print_segment :: "segment \<Rightarrow> string" where
  "print_segment (Words s) = s"
| "print_segment (Slot t None) = ''{{'' @ t @ ''}}''"
| "print_segment (Slot t (Some k)) = ''{{'' @ t @ '':'' @ k @ ''}}''"

definition key_char :: "char \<Rightarrow> bool" where
  "key_char c \<longleftrightarrow> c \<noteq> CHR ''}'' \<and> (of_char c :: nat) \<notin> {10, 13}"

fun segment_ok :: "segment \<Rightarrow> bool" where
  "segment_ok (Words s) = (CHR ''{'' \<notin> set s)"
| "segment_ok (Slot t k) =
     (t \<noteq> [] \<and> list_all is_token t \<and> (case k of None \<Rightarrow> True | Some k \<Rightarrow> k \<noteq> [] \<and> list_all key_char k))"

fun segment_pieces :: "segment \<Rightarrow> piece list" where
  "segment_pieces (Words s) = map Lit s"
| "segment_pieces (Slot t k) = [Field t k]"

lemma scan_plain_char:
  assumes "c \<noteq> CHR ''{''"
  shows "scan_format (c # cs) = Lit c # scan_format cs"
proof -
  have "match_field (c # cs) = None" using assms by (cases cs) (auto simp: match_field_def)
  then show ?thesis by simp
qed

lemma scan_plain_text: "CHR ''{'' \<notin> set s \<Longrightarrow> scan_format (s @ u) = map Lit s @ scan_format u"
  by (induction s) (auto simp: scan_plain_char simp del: scan_format.simps)

lemma close_from_key: "k \<noteq> [] \<Longrightarrow> list_all key_char k \<Longrightarrow> close_from (k @ ''}}'' @ u) = Some (k, u)"
proof (induction k)
  case (Cons c k)
  show ?case
  proof (cases k)
    case Nil
    then show ?thesis using Cons.prems by (simp add: key_char_def)
  next
    case (Cons d ds)
    then have "take 2 (k @ ''}}'' @ u) \<noteq> ''}}''" using Cons.prems by (auto simp: key_char_def)
    then show ?thesis using Cons.prems Cons.IH Cons by (simp add: key_char_def)
  qed
qed simp

lemma not_token [simp]: "\<not> is_token CHR ''}''" "\<not> is_token CHR '':''"
  by code_simp+

lemma match_slot:
  assumes "segment_ok (Slot t k)"
  shows "match_field (print_segment (Slot t k) @ u) = Some (t, k, u)"
proof -
  have t: "\<forall>c \<in> set t. is_token c" "t \<noteq> []" using assms by (auto simp: list_all_iff)
  have tw: "takeWhile is_token (t @ c # v) = t" "dropWhile is_token (t @ c # v) = c # v" if "\<not> is_token c" for c v
    using t that by (simp_all add: takeWhile_append dropWhile_append)
  show ?thesis
  proof (cases k)
    case None
    then show ?thesis using t tw [of "CHR ''}''"] by (simp add: match_field_def)
  next
    case (Some k')
    then show ?thesis using t tw [of "CHR '':''"] close_from_key [of k' u] assms by (simp add: match_field_def)
  qed
qed

lemma scan_segment: "segment_ok g \<Longrightarrow> scan_format (print_segment g @ u) = segment_pieces g @ scan_format u"
proof (cases g)
  case (Words s)
  then show "segment_ok g \<Longrightarrow> ?thesis" using scan_plain_text [of s u] by simp
next
  case (Slot t k)
  assume "segment_ok g"
  then have m: "match_field (print_segment g @ u) = Some (t, k, u)" using match_slot Slot by blast
  obtain c cs where c: "print_segment g @ u = c # cs" using Slot by (cases k) auto
  show ?thesis using m unfolding c by (simp add: Slot)
qed

lemma format_scan_segments:
  "list_all segment_ok gs \<Longrightarrow> scan_format (concat (map print_segment gs)) = concat (map segment_pieces gs)"
  by (induction gs) (simp_all add: scan_segment)

text \<open>
  C39: scanning reads back what a format was made of: texts without braces stay as they are, and each
  \<open>{{token}}\<close> or \<open>{{token:key}}\<close> is one field with that token and key.
\<close>

theorem format_scan_roundtrip:
  assumes "list_all segment_ok gs"
  shows "scan_format (concat (map print_segment gs)) = concat (map segment_pieces gs)"
  by (rule format_scan_segments [OF assms])

lemma format_scan_roundtrip_witness:
  "scan_format ''{{prefix}}{{value:map}} of 3'' =
     [Field ''prefix'' None, Field ''value'' (Some ''map'')] @ map Lit '' of 3''"
  using format_scan_roundtrip [of "[Slot ''prefix'' None, Slot ''value'' (Some ''map''), Words '' of 3'']"]
  by (simp add: is_token_def is_word_def key_char_def)

end
