(* ===== verification/Spark_Box.thy ===== *)
theory Spark_Box
  imports Spark_Line_Props Spark_Util_Props
begin

text \<open>
  The box plots of \<open>js/jquery.sparkline.js\<close>: the five numbers and the outliers, the drawings, and what
  they are. A box plot has a single region and no highlight.
\<close>

section \<open>The numbers\<close>

record box_opts =
  raw :: bool
  showOutliers :: bool
  outlierIQR :: jsnum
  bx_spotRadius :: jsnum
  outlierLineColor :: colour
  outlierFillColor :: colour
  boxLineColor :: colour
  boxFillColor :: colour
  bx_lineColor :: colour
  whiskerColor :: colour
  medianColor :: colour
  bx_targetColor :: colour
  bx_target :: "jsnum option"
  bx_range :: range_opts

text \<open>The sort with the comparison \<open>a - b\<close>, which keeps the order of what it does not tell apart.\<close>

fun num_insert :: "jsnum \<Rightarrow> jsnum list \<Rightarrow> jsnum list" where
  "num_insert x [] = [x]"
| "num_insert x (y # ys) = (if x - y > Fin 0 then y # num_insert x ys else x # y # ys)"

definition num_sort :: "jsnum list \<Rightarrow> jsnum list" where
  "num_sort xs = foldr num_insert xs []"

text \<open>What \<open>render\<close> stores; \<open>undefined\<close> is \<open>None\<close>.\<close>

record box_numbers =
  quartiles :: "jsnum \<times> jsnum \<times> jsnum"
  lwhisker :: "jsnum option"
  rwhisker :: "jsnum option"
  loutlier :: "jsnum option"
  routlier :: "jsnum option"

text \<open>The loop that looks for the whiskers; \<open>lo\<close> and \<open>hi\<close> are the fences.\<close>

definition whisker_step ::
  "jsnum \<Rightarrow> jsnum \<Rightarrow> jsnum \<Rightarrow> jsnum option \<times> jsnum option \<Rightarrow> jsnum option \<times> jsnum option" where
  "whisker_step lo hi v w =
     ((if fst w = None \<and> v > lo then Some v else fst w), (if v < hi then Some v else snd w))"

definition box_numbers_of :: "box_opts \<Rightarrow> jsnum list \<Rightarrow> box_numbers" where
  "box_numbers_of opts vs =
     (if raw opts then
        (if showOutliers opts \<and> length vs > 5 then
           \<lparr>quartiles = (num_at vs 2, num_at vs 3, num_at vs 4), lwhisker = js_nth vs 1, rwhisker = js_nth vs 5,
            loutlier = js_nth vs 0, routlier = js_nth vs 6\<rparr>
         else
           \<lparr>quartiles = (num_at vs 1, num_at vs 2, num_at vs 3), lwhisker = js_nth vs 0, rwhisker = js_nth vs 4,
            loutlier = None, routlier = None\<rparr>)
      else
        (let vs = num_sort vs;
             q1 = quartile vs 1; q2 = quartile vs 2; q3 = quartile vs 3;
             iqr = q3 - q1
         in if showOutliers opts then
              (let w = fold (whisker_step (q1 - iqr * outlierIQR opts) (q3 + iqr * outlierIQR opts)) vs (None, None)
               in \<lparr>quartiles = (q1, q2, q3), lwhisker = fst w, rwhisker = snd w,
                   loutlier = js_nth vs 0, routlier = js_nth vs (int (length vs) - 1)\<rparr>)
            else
              \<lparr>quartiles = (q1, q2, q3), lwhisker = js_nth vs 0, rwhisker = js_nth vs (int (length vs) - 1),
               loutlier = None, routlier = None\<rparr>))"

section \<open>The drawings\<close>

definition or_nan :: "jsnum option \<Rightarrow> jsnum" where
  "or_nan x = (case x of None \<Rightarrow> NaN | Some v \<Rightarrow> v)"

text \<open>Left edge, pixels per unit and least value.\<close>

definition box_scale :: "box_opts \<Rightarrow> jsnum list \<Rightarrow> jsnum \<Rightarrow> jsnum \<times> jsnum \<times> jsnum" where
  "box_scale opts vs w =
     (let mn = (case chartRangeMin (bx_range opts) of None \<Rightarrow> math_min vs | Some r \<Rightarrow> r);
          mx = (case chartRangeMax (bx_range opts) of None \<Rightarrow> math_max vs | Some r \<Rightarrow> r);
          c = num_ceil (bx_spotRadius opts)
      in if showOutliers opts then (c, (w - Fin 2 * c) / (mx - mn + Fin 1), mn)
         else (Fin 0, w / (mx - mn + Fin 1), mn))"

definition box_x :: "jsnum \<times> jsnum \<times> jsnum \<Rightarrow> jsnum \<Rightarrow> jsnum" where
  "box_x sc v = num_round ((v - snd (snd sc)) * fst (snd sc) + fst sc)"

definition outlier_drawing :: "box_opts \<Rightarrow> jsnum \<times> jsnum \<times> jsnum \<Rightarrow> jsnum \<Rightarrow> jsnum \<Rightarrow> drawing" where
  "outlier_drawing opts sc h v =
     drawCircle ((v - snd (snd sc)) * fst (snd sc) + fst sc) (h / Fin 2) (bx_spotRadius opts)
       (outlierLineColor opts) (outlierFillColor opts) None"

definition outlier_drawings :: "box_opts \<Rightarrow> box_numbers \<Rightarrow> jsnum \<times> jsnum \<times> jsnum \<Rightarrow> jsnum \<Rightarrow> drawing list" where
  "outlier_drawings opts b sc h =
     (if showOutliers opts then
        (if or_nan (loutlier b) < or_nan (lwhisker b)
         then [outlier_drawing opts sc h (or_nan (loutlier b))] else []) @
        (if or_nan (routlier b) > or_nan (rwhisker b)
         then [outlier_drawing opts sc h (or_nan (routlier b))] else [])
      else [])"

definition target_drawings :: "box_opts \<Rightarrow> jsnum \<times> jsnum \<times> jsnum \<Rightarrow> jsnum \<Rightarrow> drawing list" where
  "target_drawings opts sc h =
     (case bx_target opts of
        None \<Rightarrow> []
      | Some t \<Rightarrow>
          if t = Fin 0 \<or> t = NaN then []
          else
            (let size = num_ceil (bx_spotRadius opts);
                 px = (t - snd (snd sc)) * fst (snd sc) + fst sc
             in [drawLine (num_round px) (num_round (h / Fin 2 - size)) (num_round px) (num_round (h / Fin 2 + size))
                   (bx_targetColor opts) None,
                 drawLine (num_round (px - size)) (num_round (h / Fin 2)) (num_round (px + size))
                   (num_round (h / Fin 2)) (bx_targetColor opts) None]))"

definition box_drawings :: "box_opts \<Rightarrow> jsnum list \<Rightarrow> jsnum \<Rightarrow> jsnum \<Rightarrow> drawing list" where
  "box_drawings opts vs w h =
     (let b = box_numbers_of opts vs;
          sc = box_scale opts vs w;
          q1 = fst (quartiles b); q2 = fst (snd (quartiles b)); q3 = snd (snd (quartiles b));
          lw = box_x sc (or_nan (lwhisker b));
          rw = box_x sc (or_nan (rwhisker b));
          mid = num_round (h / Fin 2);
          top = num_round (h / Fin 4);
          bot = num_round (h - h / Fin 4)
      in outlier_drawings opts b sc h @
         [drawRect (box_x sc q1) (num_round (h * Fin (1 / 10))) (num_round ((q3 - q1) * fst (snd sc)))
            (num_round (h * Fin (8 / 10))) (boxLineColor opts) (boxFillColor opts),
          drawLine lw mid (box_x sc q1) mid (bx_lineColor opts) None,
          drawLine lw top lw bot (whiskerColor opts) None,
          drawLine rw mid (box_x sc q3) mid (bx_lineColor opts) None,
          drawLine rw top rw bot (whiskerColor opts) None,
          drawLine (box_x sc q2) (num_round (h * Fin (1 / 10))) (box_x sc q2) (num_round (h * Fin (9 / 10)))
            (medianColor opts) None] @
         target_drawings opts sc h)"

section \<open>The chart\<close>

record box_chart = "unit spark_base" +
  bx_numbers :: "box_numbers option"

definition new_box_chart :: "canvas \<Rightarrow> box_chart" where
  "new_box_chart c =
     \<lparr>currentRegion = None, canvasWidth = pixelWidth c, canvasHeight = pixelHeight c, vtarget = c,
      bx_numbers = None\<rparr>"

text \<open>A box plot without values is disabled.\<close>

definition box_render ::
  "(drawing \<Rightarrow> jsnum \<Rightarrow> jsnum \<Rightarrow> bool) \<Rightarrow> box_opts \<Rightarrow> jsval list \<Rightarrow> box_chart \<Rightarrow> box_chart option" where
  "box_render inpath opts values s =
     (let vs = map to_num values in
      if vs = [] then Some s
      else repaint inpath
        (s\<lparr>vtarget := fold append_drawing (box_drawings opts vs (canvasWidth s) (canvasHeight s)) (vtarget s),
           bx_numbers := Some (box_numbers_of opts vs)\<rparr>))"

definition box_getRegion :: "jsnum \<Rightarrow> jsnum \<Rightarrow> box_chart \<Rightarrow> (unit option \<times> box_chart) option" where
  "box_getRegion x y s = Some (Some (), s)"

text \<open>\<open>changeHighlight\<close> is the empty one of the base class.\<close>

definition box_changeHighlight :: "bool \<Rightarrow> box_chart \<Rightarrow> box_chart option" where
  "box_changeHighlight hl s = Some s"

definition box_shows :: "(nat \<times> drawing) list \<Rightarrow> (unit \<Rightarrow> bool) \<Rightarrow> box_chart \<Rightarrow> bool" where
  "box_shows P h s \<longleftrightarrow> canvas_wf (vtarget s) \<and> interact (vtarget s) \<and> layers (vtarget s) = P"

interpretation box: highlighter "\<lambda>_. True" "box_shows P" box_getRegion box_changeHighlight inpath disabled
  for P inpath disabled
  by unfold_locales (auto simp: box_getRegion_def box_changeHighlight_def box_shows_def)

section \<open>Sorting and the fences\<close>

lemma num_insert_fin: "num_insert (Fin x) (map Fin ys) = map Fin (insort x ys)"
  by (induction ys) auto

lemma num_sort_fin: "num_sort (map Fin xs) = map Fin (sort xs)"
  unfolding num_sort_def sort_key_def by (induction xs) (simp_all add: num_insert_fin)

lemma whisker_low:
  "sorted xs \<Longrightarrow> fst (fold (whisker_step (Fin lo) hi) (map Fin xs) (w, u)) =
     (if w \<noteq> None then w else if \<exists>v \<in> set xs. lo < v then Some (Fin (Min {v \<in> set xs. lo < v})) else None)"
proof (induction xs arbitrary: w u)
  case (Cons x xs)
  show ?case
  proof (cases "w = None \<and> lo < x")
    case True
    have "Min {v \<in> set (x # xs). lo < v} = x" using Cons.prems True by (intro Min_eqI) auto
    then show ?thesis using True Cons by (auto simp: whisker_step_def)
  next
    case False
    then have "{v \<in> set (x # xs). lo < v} = {v \<in> set xs. lo < v}" if "w = None" using that by auto
    then show ?thesis using False Cons by (auto simp: whisker_step_def)
  qed
qed simp

lemma whisker_high:
  "sorted xs \<Longrightarrow> snd (fold (whisker_step lo (Fin hi)) (map Fin xs) (w, u)) =
     (if \<exists>v \<in> set xs. v < hi then Some (Fin (Max {v \<in> set xs. v < hi})) else u)"
proof (induction xs arbitrary: w u)
  case (Cons x xs)
  show ?case
  proof (cases "\<exists>v \<in> set xs. v < hi")
    case True
    have "Max {v \<in> set (x # xs). v < hi} = Max {v \<in> set xs. v < hi}"
    proof (rule Max_eqI)
      show "Max {v \<in> set xs. v < hi} \<in> {v \<in> set (x # xs). v < hi}"
        using True Max_in [of "{v \<in> set xs. v < hi}"] by fastforce
      show "y \<le> Max {v \<in> set xs. v < hi}" if y: "y \<in> {v \<in> set (x # xs). v < hi}" for y
      proof (cases "y = x")
        case True
        then obtain v where v: "v \<in> set xs" "v < hi" "x \<le> v" using Cons.prems \<open>\<exists>v \<in> set xs. v < hi\<close> by auto
        then have m: "v \<le> Max {v \<in> set xs. v < hi}" by (intro Max_ge) auto
        show ?thesis unfolding True by (rule order_trans [OF v(3) m])
      qed (use y in auto)
    qed simp
    then show ?thesis using True Cons by (auto simp: whisker_step_def)
  next
    case False
    then have "{v \<in> set (x # xs). v < hi} = (if x < hi then {x} else {})" by auto
    then show ?thesis using False Cons by (auto simp: whisker_step_def)
  qed
qed simp

lemma quartiles_sorted:
  assumes "2 \<le> length xs"
  obtains q1 q2 q3 where "quartile (map Fin (sort xs)) 1 = Fin q1" "quartile (map Fin (sort xs)) 2 = Fin q2"
    "quartile (map Fin (sort xs)) 3 = Fin q3" "Min (set xs) \<le> q1" "q1 \<le> q2" "q2 \<le> q3" "q3 \<le> Max (set xs)"
    "js_nth (map Fin (sort xs)) 0 = Some (Fin (Min (set xs)))"
    "js_nth (map Fin (sort xs)) (int (length xs) - 1) = Some (Fin (Max (set xs)))"
proof -
  let ?s = "sort xs"
  have nx: "xs \<noteq> []" using assms by auto
  have ne: "?s \<noteq> []" using assms by (metis length_sort list.size(3) not_numeral_le_zero)
  obtain y ys where y: "?s = y # ys" using ne by (cases ?s) auto
  have "set xs = set (y # ys)" "sorted (y # ys)" unfolding y [symmetric] by simp_all
  then have h: "hd ?s = Min (set xs)" unfolding y by (intro Min_eqI [symmetric]) auto
  obtain z zs where z: "?s = zs @ [z]" using ne by (cases ?s rule: rev_cases) auto
  have "set xs = set (zs @ [z])" "sorted (zs @ [z])" unfolding z [symmetric] by simp_all
  then have l: "last ?s = Max (set xs)" unfolding z by (intro Max_eqI [symmetric]) (auto simp: sorted_append)
  obtain q1 q2 q3 where q: "quartile (map Fin ?s) 1 = Fin q1" "quartile (map Fin ?s) 2 = Fin q2"
    "quartile (map Fin ?s) 3 = Fin q3" "hd ?s \<le> q1" "q1 \<le> q2" "q2 \<le> q3" "q3 \<le> last ?s"
    using quartile_in_order [of ?s] assms by auto
  show ?thesis
    by (rule that [OF q(1-3)])
      (use q ne nx h l assms in \<open>simp_all add: js_nth_def hd_conv_nth last_conv_nth nat_diff_distrib\<close>)
qed

section \<open>Properties\<close>

text \<open>The options of a box plot for which the user gives none.\<close>

definition box_defaults :: box_opts where
  "box_defaults =
     \<lparr>raw = False, showOutliers = True, outlierIQR = Fin (3 / 2), bx_spotRadius = Fin (3 / 2),
      outlierLineColor = Some ''#333'', outlierFillColor = Some ''#fff'', boxLineColor = Some ''#000'',
      boxFillColor = Some ''#cdf'', bx_lineColor = Some ''#00f'', whiskerColor = Some ''#000'',
      medianColor = Some ''#f00'', bx_targetColor = Some ''#4a2'', bx_target = None,
      bx_range = \<lparr>chartRangeMin = None, chartRangeMax = None, chartRangeClip = False\<rparr>\<rparr>"

text \<open>
  C22: the numbers of a box plot computed from the values (not \<open>raw\<close>) with \<open>showOutliers\<close>, of at least two
  values: the left whisker is the least value above the lower fence \<open>q1 - k iqr\<close>, the right whisker the
  greatest value below the upper fence \<open>q3 + k iqr\<close>, each undefined when there is no such value, and the
  outlier candidates are the least and the greatest value of all. Each whisker looks at its own fence only:
  where the quartiles are tied they may cross (\<open>tied_whiskers_cross\<close> below).
\<close>

theorem box_whiskers:
  assumes o: "\<not> raw opts" "showOutliers opts" "outlierIQR opts = Fin k" and n: "2 \<le> length xs"
    and q: "quartile (map Fin (sort xs)) 1 = Fin q1" "quartile (map Fin (sort xs)) 3 = Fin q3"
  shows "lwhisker (box_numbers_of opts (map Fin xs)) =
      (let above = {v \<in> set xs. q1 - k * (q3 - q1) < v} in if above = {} then None else Some (Fin (Min above))) \<and>
    rwhisker (box_numbers_of opts (map Fin xs)) =
      (let below = {v \<in> set xs. v < q3 + k * (q3 - q1)} in if below = {} then None else Some (Fin (Max below))) \<and>
    loutlier (box_numbers_of opts (map Fin xs)) = Some (Fin (Min (set xs))) \<and>
    routlier (box_numbers_of opts (map Fin xs)) = Some (Fin (Max (set xs)))"
proof -
  obtain p1 p2 p3 where p: "quartile (map Fin (sort xs)) 1 = Fin p1" "quartile (map Fin (sort xs)) 2 = Fin p2"
    "quartile (map Fin (sort xs)) 3 = Fin p3" "Min (set xs) \<le> p1" "p3 \<le> Max (set xs)"
    "js_nth (map Fin (sort xs)) 0 = Some (Fin (Min (set xs)))"
    "js_nth (map Fin (sort xs)) (int (length xs) - 1) = Some (Fin (Max (set xs)))"
    by (rule quartiles_sorted [OF n])
  have e: "p1 = q1" "p3 = q3" using p q by auto
  let ?d = "k * (q3 - q1)"
  have f: "Fin q1 - (Fin q3 - Fin q1) * Fin k = Fin (q1 - ?d)" "Fin q3 + (Fin q3 - Fin q1) * Fin k = Fin (q3 + ?d)"
    by (simp_all add: mult.commute)
  note b = box_numbers_of_def num_sort_fin Let_def q o f
  have "lwhisker (box_numbers_of opts (map Fin xs)) =
      (let above = {v \<in> set xs. q1 - ?d < v} in if above = {} then None else Some (Fin (Min above)))"
    using whisker_low [of "sort xs" "q1 - ?d" "Fin (q3 + ?d)" None None] by (simp add: b del: fin_simps)
  moreover have "rwhisker (box_numbers_of opts (map Fin xs)) =
      (let below = {v \<in> set xs. v < q3 + ?d} in if below = {} then None else Some (Fin (Max below)))"
    using whisker_high [of "sort xs" "Fin (q1 - ?d)" "q3 + ?d" None None] by (simp add: b del: fin_simps)
  moreover have "loutlier (box_numbers_of opts (map Fin xs)) = Some (Fin (Min (set xs)))"
    "routlier (box_numbers_of opts (map Fin xs)) = Some (Fin (Max (set xs)))"
    using p(6,7) by (simp_all add: b)
  ultimately show ?thesis by blast
qed

lemma box_whiskers_witness:
  "lwhisker (box_numbers_of box_defaults (map Fin [5, 1, 6, 7, 30, 4])) = Some (Fin 1)"
proof -
  have q: "quartile (map Fin (sort [5, 1, 6, 7, 30, 4])) 1 = Fin 4"
    "quartile (map Fin (sort [5, 1, 6, 7, 30, 4])) 3 = Fin 7" by code_simp+
  have "{v \<in> set [5, 1, 6, 7, 30, 4]. 4 - 3 / 2 * (7 - 4) < v} = {5, 1, 6, 7, 30, 4 :: rat}" by auto
  then show ?thesis
    using box_whiskers [of box_defaults "3 / 2" "[5, 1, 6, 7, 30, 4]" 4 7, OF _ _ _ _ q]
    by (simp add: box_defaults_def)
qed

text \<open>Of tied quartiles the fences coincide, and the whiskers cross: the left one is at 9, the right one at 1.\<close>

lemma tied_whiskers_cross:
  "lwhisker (box_numbers_of box_defaults (map Fin [1, 5, 5, 5, 5, 5, 9])) = Some (Fin 9) \<and>
   rwhisker (box_numbers_of box_defaults (map Fin [1, 5, 5, 5, 5, 5, 9])) = Some (Fin 1)"
  by code_simp

text \<open>
  When all values are equal both fences coincide with the box and no value lies strictly inside
  them: the whiskers are undefined, and the plot draws them at \<open>NaN\<close>.
\<close>

theorem box_constant_no_whiskers:
  assumes "\<not> raw opts" "showOutliers opts" "outlierIQR opts = Fin k" "2 \<le> n"
  shows "lwhisker (box_numbers_of opts (replicate n (Fin v))) = None \<and>
    rwhisker (box_numbers_of opts (replicate n (Fin v))) = None \<and>
    drawLine NaN (num_round (h / Fin 4)) NaN (num_round (h - h / Fin 4)) (whiskerColor opts) None
      \<in> set (box_drawings opts (replicate n (Fin v)) w h)"
proof -
  have r: "replicate n (Fin v) = map Fin (replicate n v)" by simp
  have s: "sort (replicate n v) = replicate n v" by (intro sorted_sort_id) (simp add: sorted_replicate)
  have st: "set (replicate n v) = {v}" using assms(4) by simp
  obtain q1 q2 q3 where q: "quartile (map Fin (sort (replicate n v))) 1 = Fin q1"
    "quartile (map Fin (sort (replicate n v))) 2 = Fin q2" "quartile (map Fin (sort (replicate n v))) 3 = Fin q3"
    "Min (set (replicate n v)) \<le> q1" "q1 \<le> q2" "q2 \<le> q3" "q3 \<le> Max (set (replicate n v))"
    using quartiles_sorted [of "replicate n v"] assms(4) by (metis length_replicate)
  have e: "q1 = v" "q2 = v" "q3 = v" using q(4-7) unfolding st by simp_all
  have fold: "fst (fold (whisker_step (Fin v) (Fin v)) (map Fin (replicate n v)) (None, None)) = None"
    "snd (fold (whisker_step (Fin v) (Fin v)) (map Fin (replicate n v)) (None, None)) = None"
    using whisker_low [of "replicate n v" v "Fin v" None None] whisker_high [of "replicate n v" "Fin v" v None None]
    unfolding st by (simp_all add: sorted_replicate)
  have b: "lwhisker (box_numbers_of opts (map Fin (replicate n v))) = None"
    "rwhisker (box_numbers_of opts (map Fin (replicate n v))) = None"
    using fold assms q(1-3) unfolding box_numbers_of_def num_sort_fin s e by (simp_all add: Let_def)
  then have b': "lwhisker (box_numbers_of opts (replicate n (Fin v))) = None"
    "rwhisker (box_numbers_of opts (replicate n (Fin v))) = None" by (simp_all only: r)
  have "box_x sc (or_nan None) = NaN" for sc by (simp add: box_x_def or_nan_def)
  then show ?thesis by (simp add: box_drawings_def b' Let_def)
qed

lemma box_constant_no_whiskers_witness:
  "lwhisker (box_numbers_of box_defaults (replicate 3 (Fin 7))) = None"
  using box_constant_no_whiskers [of box_defaults "3 / 2" 3] by (simp add: box_defaults_def)

section \<open>Columns\<close>

lemma box_x_inside:
  assumes o: "showOutliers opts" "bx_spotRadius opts = Fin r" "0 \<le> r" "2 * \<lceil>r\<rceil> \<le> w"
    "chartRangeMin (bx_range opts) = None" "chartRangeMax (bx_range opts) = None"
    and xs: "xs \<noteq> []" and v: "Min (set xs) \<le> u" "u \<le> v" "v \<le> Max (set xs)"
  obtains i j where "box_x (box_scale opts (map Fin xs) (Fin (of_int w))) (Fin u) = Fin (of_int i)"
    "box_x (box_scale opts (map Fin xs) (Fin (of_int w))) (Fin v) = Fin (of_int j)"
    "\<lceil>r\<rceil> \<le> i" "i \<le> j" "j \<le> w - \<lceil>r\<rceil>"
proof -
  let ?m = "Min (set xs)" and ?M = "Max (set xs)" and ?W = "of_int (w - 2 * \<lceil>r\<rceil>) :: rat"
  define d where "d = ?W / (?M - ?m + 1)"
  have pos: "0 < ?M - ?m + 1" using v by simp
  have W: "0 \<le> ?W" using o(4) by simp
  have d: "0 \<le> d" unfolding d_def using W pos by (simp add: divide_nonneg_pos)
  have sc: "box_scale opts (map Fin xs) (Fin (of_int w)) = (Fin (of_int \<lceil>r\<rceil>), Fin d, Fin ?m)"
    using o pos by (simp add: box_scale_def math_min_fin [OF xs] math_max_fin [OF xs] Let_def d_def)
  have x: "box_x (Fin (of_int \<lceil>r\<rceil>), Fin d, Fin ?m) (Fin q) = Fin (of_int (js_round ((q - ?m) * d) + \<lceil>r\<rceil>))" for q
    using js_round_add_int [of "(q - ?m) * d" "\<lceil>r\<rceil>"] by (simp add: box_x_def)
  have "(v - ?m) * d \<le> ?W"
  proof -
    have "(v - ?m) / (?M - ?m + 1) \<le> 1" using v pos by (simp add: divide_le_eq)
    then have "?W * ((v - ?m) / (?M - ?m + 1)) \<le> ?W" using W by (intro mult_left_le) simp_all
    then show ?thesis by (simp add: d_def mult.commute)
  qed
  then have top: "js_round ((v - ?m) * d) \<le> w - 2 * \<lceil>r\<rceil>" by (rule js_round_le)
  have low: "0 \<le> js_round ((u - ?m) * d)" using v d by (intro js_round_nonneg mult_nonneg_nonneg) simp_all
  have mid: "js_round ((u - ?m) * d) \<le> js_round ((v - ?m) * d)"
    using v d by (intro js_round_mono mult_right_mono) simp_all
  show ?thesis by (rule that [unfolded sc, OF x x]) (use low mid top in simp_all)
qed

text \<open>
  In a box plot with outliers and no chart range the columns of the three quartiles are in order and
  keep the radius of the outlier circles to both edges of the canvas.
\<close>

theorem box_quartile_columns:
  assumes "\<not> raw opts" "showOutliers opts" "bx_spotRadius opts = Fin r" "0 \<le> r" "2 * \<lceil>r\<rceil> \<le> w"
    "chartRangeMin (bx_range opts) = None" "chartRangeMax (bx_range opts) = None" "2 \<le> length xs"
  obtains q1 q2 q3 i1 i2 i3 where "quartiles (box_numbers_of opts (map Fin xs)) = (q1, q2, q3)"
    "map (box_x (box_scale opts (map Fin xs) (Fin (of_int w)))) [q1, q2, q3] =
       [Fin (of_int i1), Fin (of_int i2), Fin (of_int i3)]"
    "\<lceil>r\<rceil> \<le> i1" "i1 \<le> i2" "i2 \<le> i3" "i3 \<le> w - \<lceil>r\<rceil>"
proof -
  have xs: "xs \<noteq> []" using assms(8) by auto
  obtain q1 q2 q3 where q: "quartile (map Fin (sort xs)) 1 = Fin q1"
    "quartile (map Fin (sort xs)) 2 = Fin q2" "quartile (map Fin (sort xs)) 3 = Fin q3"
    "Min (set xs) \<le> q1" "q1 \<le> q2" "q2 \<le> q3" "q3 \<le> Max (set xs)"
    by (rule quartiles_sorted [OF assms(8)])
  have b: "quartiles (box_numbers_of opts (map Fin xs)) = (Fin q1, Fin q2, Fin q3)"
    using assms(1,2) by (simp add: box_numbers_of_def num_sort_fin q Let_def)
  note inside = box_x_inside [OF assms(2-7) xs]
  obtain i1 i2 where i: "box_x (box_scale opts (map Fin xs) (Fin (of_int w))) (Fin q1) = Fin (of_int i1)"
    "box_x (box_scale opts (map Fin xs) (Fin (of_int w))) (Fin q2) = Fin (of_int i2)" "\<lceil>r\<rceil> \<le> i1" "i1 \<le> i2"
    by (rule inside [OF q(4,5)]) (use q in simp)
  obtain i2' i3 where j: "box_x (box_scale opts (map Fin xs) (Fin (of_int w))) (Fin q2) = Fin (of_int i2')"
    "box_x (box_scale opts (map Fin xs) (Fin (of_int w))) (Fin q3) = Fin (of_int i3)" "i2' \<le> i3"
    "i3 \<le> w - \<lceil>r\<rceil>"
    by (rule inside [OF _ q(6,7)]) (use q in simp)
  have "i2' = i2" using i(2) j(1) by simp
  then show ?thesis by (intro that [OF b]) (use i j in simp_all)
qed

lemma box_quartile_columns_witness:
  "\<exists>q i. fst (quartiles (box_numbers_of box_defaults (map Fin [5, 1, 6, 7, 30, 4]))) = q \<and>
     box_x (box_scale box_defaults (map Fin [5, 1, 6, 7, 30, 4]) (Fin (of_int 50))) q = Fin (of_int i) \<and> 2 \<le> i"
proof -
  have o: "\<not> raw box_defaults" "showOutliers box_defaults" "bx_spotRadius box_defaults = Fin (3 / 2)"
    "chartRangeMin (bx_range box_defaults) = None" "chartRangeMax (bx_range box_defaults) = None"
    by (simp_all add: box_defaults_def)
  have c: "\<lceil>3 / 2 :: rat\<rceil> = 2" by code_simp
  obtain q1 q2 q3 i1 i2 i3 where
    "quartiles (box_numbers_of box_defaults (map Fin [5, 1, 6, 7, 30, 4])) = (q1, q2, q3)"
    "map (box_x (box_scale box_defaults (map Fin [5, 1, 6, 7, 30, 4]) (Fin (of_int 50)))) [q1, q2, q3] =
       [Fin (of_int i1), Fin (of_int i2), Fin (of_int i3)]" "\<lceil>3 / 2 :: rat\<rceil> \<le> i1"
    by (rule box_quartile_columns [OF o(1-3) _ _ o(4,5), of 50 "[5, 1, 6, 7, 30, 4]"]) (simp_all add: c)
  then show ?thesis by (intro exI [of _ q1] exI [of _ i1]) (simp add: c)
qed

text \<open>A drawn box plot never changes, whatever the mouse does; its only region is current or not.\<close>

theorem box_history_picture:
  assumes "canvas_wf c" "interact c" "values \<noteq> []"
  obtains s t where "box_render inpath opts values (new_box_chart c) = Some s"
    "fold (spark_step inpath off box_getRegion box_changeHighlight) es (Some s) = Some t"
    "picture t = map snd (layers c) @ box_drawings opts (map to_num values) (pixelWidth c) (pixelHeight c)"
proof -
  let ?ds = "box_drawings opts (map to_num values) (pixelWidth c) (pixelHeight c)"
  let ?c = "fold append_drawing ?ds c"
  let ?s = "(new_box_chart c)\<lparr>vtarget := ?c, bx_numbers := Some (box_numbers_of opts (map to_num values))\<rparr>"
  have dr: "list_all drawable ?ds"
    by (auto simp: box_drawings_def Let_def outlier_drawings_def target_drawings_def outlier_drawing_def
        drawable_def drawLine_def drawShape_def drawCircle_def drawRect_def split: option.splits)
  note app = append_drawings_spec [OF assms(1) dr]
  have "box.good (layers ?c) off ?s"
    using app assms(2) by (simp add: box.good_def box_shows_def new_box_chart_def)
  then obtain s where s: "repaint inpath ?s = Some s" "box.good (layers ?c) off s"
    by (rule box.repaint_good)
  obtain t where t: "fold (spark_step inpath off box_getRegion box_changeHighlight) es (Some s) = Some t"
    "box_shows (layers ?c) (highlighted_region off t) t"
    by (rule box.history_shows [OF s(2)])
  show ?thesis
    by (rule that [OF _ t(1)])
      (use s(1) assms(3) t(2) app in \<open>simp_all add: box_render_def new_box_chart_def box_shows_def Let_def\<close>)
qed

lemma box_history_picture_witness:
  "\<exists>s t. box_render (\<lambda>_ _ _. False) box_defaults [VNum (Fin 1), VNum (Fin 4)] (new_box_chart demo_canvas) = Some s \<and>
     fold (spark_step (\<lambda>_ _ _. False) False box_getRegion box_changeHighlight) [Hover (Fin 3) (Fin 3), Leave] (Some s) = Some t"
  by (rule box_history_picture [OF demo_canvas_ok(1,2), of "[VNum (Fin 1), VNum (Fin 4)]"]) (simp, blast)

end
