(* ===== verification/Spark_Options.thy ===== *)
theory Spark_Options
  imports Spark_Box "HOL-Library.AList"
begin

text \<open>
  The options of \<open>js/jquery.sparkline.js\<close>: the table of defaults, the settings read from attributes of
  the element, and \<open>options.get\<close>, which every chart calls.
\<close>

section \<open>Values and tables\<close>

text \<open>A value, a tooltip format (\<open>new SPFormat(...)\<close>), an object of values, or an object of lookup tables.\<close>

datatype opt_val =
    OVal jsval | OFormat string | OMap "(string \<times> jsval) list" | OLookups "(string \<times> (string \<times> string) list) list"

type_synonym opt_table = "string \<rightharpoonup> opt_val"

definition is_undef :: "opt_val \<Rightarrow> bool" where
  "is_undef v = (case v of OVal VUndef \<Rightarrow> True | _ \<Rightarrow> False)"

definition ostr :: "string \<Rightarrow> opt_val" where "ostr s = OVal (VStr s)"
definition onum :: "rat \<Rightarrow> opt_val" where "onum x = OVal (VNum (Fin x))"
definition obool :: "bool \<Rightarrow> opt_val" where "obool b = OVal (VBool b)"
definition oundef :: opt_val where "oundef = OVal VUndef"
definition ostrs :: "string list \<Rightarrow> opt_val" where "ostrs ss = OVal (VArr (map VStr ss))"

definition common_defaults :: "(string \<times> opt_val) list" where
  "common_defaults =
     [(''type'', ostr ''line''), (''lineColor'', ostr ''#00f''), (''fillColor'', ostr ''#cdf''),
      (''defaultPixelsPerValue'', onum 3), (''width'', ostr ''auto''), (''height'', ostr ''auto''),
      (''composite'', obool False), (''tagValuesAttribute'', ostr ''values''),
      (''tagOptionsPrefix'', ostr ''spark''), (''enableTagOptions'', obool False),
      (''enableHighlight'', obool True), (''highlightLighten'', onum (7 / 5)),
      (''tooltipSkipNull'', obool True), (''tooltipPrefix'', ostr []), (''tooltipSuffix'', ostr []),
      (''disableHiddenCheck'', obool False), (''numberFormatter'', obool False),
      (''numberDigitGroupCount'', onum 3), (''numberDigitGroupSep'', ostr '',''),
      (''numberDecimalMark'', ostr ''.''), (''disableTooltips'', obool False),
      (''disableInteraction'', obool False)]"

definition palette :: "string list" where
  "palette = [''#3366cc'', ''#dc3912'', ''#ff9900'', ''#109618'', ''#66aa00'', ''#dd4477'', ''#0099c6'', ''#990099'']"

definition bullet_mark :: string where
  "bullet_mark = ''<span style='' @ [CHR 0x22] @ ''color: {{color}}'' @ [CHR 0x22] @ ''>&#9679;</span> ''"

definition type_defaults :: "(string \<times> (string \<times> opt_val) list) list" where
  "type_defaults =
     [(''line'',
       [(''spotColor'', ostr ''#f80''), (''highlightSpotColor'', ostr ''#5f5''),
        (''highlightLineColor'', ostr ''#f22''), (''spotRadius'', onum (3 / 2)),
        (''minSpotColor'', ostr ''#f80''), (''maxSpotColor'', ostr ''#f80''), (''lineWidth'', onum 1),
        (''normalRangeMin'', oundef), (''normalRangeMax'', oundef), (''normalRangeColor'', ostr ''#ccc''),
        (''drawNormalOnTop'', obool False), (''chartRangeMin'', oundef), (''chartRangeMax'', oundef),
        (''chartRangeMinX'', oundef), (''chartRangeMaxX'', oundef),
        (''tooltipFormat'', OFormat (bullet_mark @ ''{{prefix}}{{y}}{{suffix}}''))]),
      (''bar'',
       [(''barColor'', ostr ''#3366cc''), (''negBarColor'', ostr ''#f44''), (''stackedBarColor'', ostrs palette),
        (''zeroColor'', oundef), (''nullColor'', oundef), (''zeroAxis'', obool True), (''barWidth'', onum 4),
        (''barSpacing'', onum 1), (''chartRangeMax'', oundef), (''chartRangeMin'', oundef),
        (''chartRangeClip'', obool False), (''colorMap'', oundef),
        (''tooltipFormat'', OFormat (bullet_mark @ ''{{prefix}}{{value}}{{suffix}}''))]),
      (''tristate'',
       [(''barWidth'', onum 4), (''barSpacing'', onum 1), (''posBarColor'', ostr ''#6f6''),
        (''negBarColor'', ostr ''#f44''), (''zeroBarColor'', ostr ''#999''), (''colorMap'', OMap []),
        (''tooltipFormat'', OFormat (bullet_mark @ ''{{value:map}}'')),
        (''tooltipValueLookups'', OLookups [(''map'', [(''-1'', ''Loss''), (''0'', ''Draw''), (''1'', ''Win'')])])]),
      (''discrete'',
       [(''lineHeight'', ostr ''auto''), (''thresholdColor'', oundef), (''thresholdValue'', onum 0),
        (''chartRangeMax'', oundef), (''chartRangeMin'', oundef), (''chartRangeClip'', obool False),
        (''tooltipFormat'', OFormat ''{{prefix}}{{value}}{{suffix}}'')]),
      (''bullet'',
       [(''targetColor'', ostr ''#f33''), (''targetWidth'', onum 3), (''performanceColor'', ostr ''#33f''),
        (''rangeColors'', ostrs [''#d3dafe'', ''#a8b6ff'', ''#7f94ff'']), (''base'', oundef),
        (''tooltipFormat'', OFormat ''{{fieldkey:fields}} - {{value}}''),
        (''tooltipValueLookups'', OLookups [(''fields'', [(''r'', ''Range''), (''p'', ''Performance''), (''t'', ''Target'')])])]),
      (''pie'',
       [(''offset'', onum 0), (''sliceColors'', ostrs palette), (''borderWidth'', onum 0),
        (''borderColor'', ostr ''#000''),
        (''tooltipFormat'', OFormat (bullet_mark @ ''{{value}} ({{percent.1}}%)''))]),
      (''box'',
       [(''raw'', obool False), (''boxLineColor'', ostr ''#000''), (''boxFillColor'', ostr ''#cdf''),
        (''whiskerColor'', ostr ''#000''), (''outlierLineColor'', ostr ''#333''),
        (''outlierFillColor'', ostr ''#fff''), (''medianColor'', ostr ''#f00''), (''showOutliers'', obool True),
        (''outlierIQR'', onum (3 / 2)), (''spotRadius'', onum (3 / 2)), (''target'', oundef),
        (''targetColor'', ostr ''#4a2''), (''chartRangeMax'', oundef), (''chartRangeMin'', oundef),
        (''tooltipFormat'', OFormat ''{{field:fields}}: {{value}}''),
        (''tooltipFormatFieldlistKey'', ostr ''field''),
        (''tooltipValueLookups'', OLookups [(''fields'', [(''lq'', ''Lower Quartile''), (''med'', ''Median''),
           (''uq'', ''Upper Quartile''), (''lo'', ''Left Outlier''), (''ro'', ''Right Outlier''),
           (''lw'', ''Left Whisker''), (''rw'', ''Right Whisker'')])])])]"

section \<open>Settings in attributes\<close>

fun split_on :: "char \<Rightarrow> string \<Rightarrow> string list" where
  "split_on d [] = [[]]"
| "split_on d (c # cs) =
     (if c = d then [] # split_on d cs
      else (case split_on d cs of p # ps \<Rightarrow> (c # p) # ps | [] \<Rightarrow> [[c]]))"

text \<open>\<open>val.substr(1, val.length - 2)\<close>.\<close>

definition inner :: "string \<Rightarrow> string" where
  "inner s = take (length s - 2) (drop 1 s)"

text \<open>
  The pairs are entered from the last to the first, so the first of two pairs with one key stays. A pair
  without a colon throws.
\<close>

fun read_pairs :: "string list \<Rightarrow> (string \<times> jsval) list option" where
  "read_pairs [] = Some []"
| "read_pairs (p # ps) =
     (case read_pairs ps of
        None \<Rightarrow> None
      | Some mp \<Rightarrow>
          (case split_on (CHR '':'') p of
             k # v # _ \<Rightarrow> Some (AList.update (trim k) (normalizeValue (VStr (trim v))) mp)
           | _ \<Rightarrow> None))"

definition parse_setting :: "string \<Rightarrow> opt_val option" where
  "parse_setting val =
     (case val of
        c # _ \<Rightarrow>
          if c = CHR ''['' then
            Some (OVal (VArr (map (\<lambda>v. normalizeValue (VStr (trim v))) (split_on (CHR '','') (inner val)))))
          else if c = CHR ''{'' then map_option OMap (read_pairs (split_on (CHR '','') (inner val)))
          else Some (OVal (normalizeValue (VStr val)))
      | [] \<Rightarrow> Some (OVal (normalizeValue (VStr val))))"

section \<open>The options object\<close>

record opt_obj =
  tagOptionsPrefix :: "string option"         \<comment> \<open>\<open>None\<close>: tag options are off\<close>
  tagValCache :: "string \<rightharpoonup> opt_val option"   \<comment> \<open>\<open>Some None\<close>: \<open>UNSET_OPTION\<close>\<close>
  mergedOptions :: opt_table

text \<open>\<open>this.tagValCache.key\<close> is the entry with the name \<open>key\<close>, whatever the parameter \<open>key\<close> holds.\<close>

definition getTagSetting ::
  "(string \<rightharpoonup> string) \<Rightarrow> string \<Rightarrow> opt_obj \<Rightarrow> (opt_val option \<times> opt_obj) option" where
  "getTagSetting attr key ob =
     (case tagOptionsPrefix ob of
        None \<Rightarrow> Some (None, ob)
      | Some prefix \<Rightarrow>
          if tagValCache ob key \<noteq> None then Some (the (tagValCache ob ''key''), ob)
          else
            (case (case attr (prefix @ key) of None \<Rightarrow> Some None | Some s \<Rightarrow> map_option Some (parse_setting s)) of
               None \<Rightarrow> None
             | Some val \<Rightarrow> Some (val, ob\<lparr>tagValCache := (tagValCache ob)(''key'' \<mapsto> val)\<rparr>)))"

text \<open>\<open>$.extend\<close> copies what is not \<open>undefined\<close>.\<close>

definition extend :: "opt_table \<Rightarrow> opt_table \<Rightarrow> opt_table" where
  "extend a b = (\<lambda>k. case b k of Some v \<Rightarrow> if is_undef v then a k else Some v | None \<Rightarrow> a k)"

definition user_string :: "opt_table \<Rightarrow> string \<Rightarrow> string option" where
  "user_string user key = (case user key of Some (OVal (VStr s)) \<Rightarrow> if s = [] then None else Some s | _ \<Rightarrow> None)"

definition user_true :: "opt_table \<Rightarrow> string \<Rightarrow> bool" where
  "user_true user key = (case user key of Some (OVal (VBool b)) \<Rightarrow> b | _ \<Rightarrow> False)"

text \<open>\<open>enableTagOptions\<close> is a boolean of the user's options; its entry in the table of defaults is not read.\<close>

definition new_options :: "(string \<rightharpoonup> string) \<Rightarrow> opt_table \<Rightarrow> opt_obj option" where
  "new_options attr user =
     (let base = map_of common_defaults;
          prefix = (if user_true user ''enableTagOptions''
                    then Some (case user_string user ''tagOptionsPrefix'' of None \<Rightarrow> ''spark'' | Some s \<Rightarrow> s)
                    else None);
          ob = \<lparr>tagOptionsPrefix = prefix, tagValCache = Map.empty, mergedOptions = Map.empty\<rparr>
      in case getTagSetting attr ''type'' ob of
           None \<Rightarrow> None
         | Some (ty, ob) \<Rightarrow>
             (let name = (case ty of
                            None \<Rightarrow> Some (case user_string user ''type'' of None \<Rightarrow> ''line'' | Some s \<Rightarrow> s)
                          | Some (OVal (VStr s)) \<Rightarrow> Some s
                          | _ \<Rightarrow> None);
                  ext = (case Option.bind name (map_of type_defaults) of None \<Rightarrow> Map.empty | Some d \<Rightarrow> map_of d)
              in Some (ob\<lparr>mergedOptions := extend (extend base ext) user\<rparr>)))"

text \<open>\<open>get\<close>: \<open>undefined\<close> is replaced by the default value of the call.\<close>

definition opt_get ::
  "(string \<rightharpoonup> string) \<Rightarrow> string \<Rightarrow> opt_val \<Rightarrow> opt_obj \<Rightarrow> (opt_val \<times> opt_obj) option" where
  "opt_get attr key defaultval ob =
     (case getTagSetting attr key ob of
        None \<Rightarrow> None
      | Some (Some v, ob) \<Rightarrow> Some (v, ob)
      | Some (None, ob) \<Rightarrow>
          Some ((case mergedOptions ob key of Some v \<Rightarrow> if is_undef v then defaultval else v | None \<Rightarrow> defaultval), ob))"

section \<open>Properties\<close>

text \<open>The value of a key without the cache: the attribute, else the merged options, else the default.\<close>

definition plain_get ::
  "(string \<rightharpoonup> string) \<Rightarrow> string option \<Rightarrow> opt_table \<Rightarrow> string \<Rightarrow> opt_val \<Rightarrow> opt_val option" where
  "plain_get attr prefix merged key d =
     (case Option.bind prefix (\<lambda>p. attr (p @ key)) of
        Some s \<Rightarrow> parse_setting s
      | None \<Rightarrow> Some (case merged key of Some v \<Rightarrow> if is_undef v then d else v | None \<Rightarrow> d))"

definition opt_inv :: "string option \<Rightarrow> opt_table \<Rightarrow> opt_obj option \<Rightarrow> bool" where
  "opt_inv prefix merged s \<longleftrightarrow>
     (\<forall>ob. s = Some ob \<longrightarrow>
       tagOptionsPrefix ob = prefix \<and> mergedOptions ob = merged \<and>
       (\<forall>k. k \<noteq> ''key'' \<longrightarrow> tagValCache ob k = None))"

definition get_step :: "(string \<rightharpoonup> string) \<Rightarrow> string \<times> opt_val \<Rightarrow> opt_obj option \<Rightarrow> opt_obj option" where
  "get_step attr k s = Option.bind s (\<lambda>ob. map_option snd (opt_get attr (fst k) (snd k) ob))"

lemma getTagSetting_other:
  assumes "opt_inv p m (Some ob)" "key \<noteq> ''key''"
  shows "map_option fst (getTagSetting attr key ob) =
    (case Option.bind p (\<lambda>p. attr (p @ key)) of None \<Rightarrow> Some None | Some s \<Rightarrow> map_option Some (parse_setting s))"
proof -
  have "tagValCache ob key = None" using assms by (simp add: opt_inv_def)
  then show ?thesis
    using assms(1) by (auto simp: getTagSetting_def opt_inv_def option.map_comp comp_def split: option.splits)
qed

lemma getTagSetting_keeps:
  "opt_inv p m (Some ob) \<Longrightarrow> getTagSetting attr key ob = Some (v, ob') \<Longrightarrow> opt_inv p m (Some ob')"
  by (auto simp: getTagSetting_def opt_inv_def split: option.splits if_splits)

interpretation options: event_machine "get_step attr" "opt_inv p m" "\<lambda>_. True" for attr p m
proof
  show "opt_inv p m (get_step attr k s)" if "opt_inv p m s" for s k
  proof (cases "get_step attr k s")
    case (Some ob')
    then obtain ob v o1 where "s = Some ob" "getTagSetting attr (fst k) ob = Some (v, o1)" "ob' = o1"
      by (auto simp: get_step_def opt_get_def split: option.splits bind_splits)
    then show ?thesis using that getTagSetting_keeps Some by metis
  qed (simp add: opt_inv_def)
qed

lemma new_options_inv:
  assumes "new_options attr user = Some ob"
  shows "opt_inv (tagOptionsPrefix ob) (mergedOptions ob) (Some ob)"
proof -
  have "\<forall>k. k \<noteq> ''key'' \<longrightarrow> tagValCache o1 k = None"
    if "getTagSetting attr ''type'' \<lparr>tagOptionsPrefix = p, tagValCache = Map.empty, mergedOptions = q\<rparr> = Some (v, o1)"
    for p q v o1
    using that by (auto simp: getTagSetting_def split: option.splits if_splits)
  then show ?thesis using assms by (auto simp: new_options_def opt_inv_def Let_def split: option.splits)
qed

text \<open>
  The cache of tag settings is never consulted with success: after any calls of \<open>get\<close>, a further
  call for any name but \<open>key\<close> reads the attribute again, and answers the attribute's value, else the
  merged option, else the default of the call.
\<close>

theorem options_get_history:
  assumes "new_options attr user = Some ob" "fold (get_step attr) ks (Some ob) = Some ob'" "key \<noteq> ''key''"
  shows "map_option fst (opt_get attr key d ob') =
    plain_get attr (tagOptionsPrefix ob) (mergedOptions ob) key d"
proof -
  have inv: "opt_inv (tagOptionsPrefix ob) (mergedOptions ob) (Some ob')"
    unfolding assms(2) [symmetric] by (rule options.run_inv) (auto simp: new_options_inv [OF assms(1)])
  note tag = getTagSetting_other [OF inv assms(3), of attr]
  show ?thesis
  proof (cases "getTagSetting attr key ob'")
    case None
    then show ?thesis using tag by (auto simp: opt_get_def plain_get_def split: option.splits)
  next
    case (Some r)
    obtain v o1 where r: "r = (v, o1)" by force
    have m: "mergedOptions o1 = mergedOptions ob"
      using getTagSetting_keeps [OF inv Some [unfolded r]] by (simp add: opt_inv_def)
    show ?thesis
      using tag Some r m
      by (cases v) (auto simp: opt_get_def plain_get_def map_option_case split: option.splits)
  qed
qed


lemma options_get_history_witness:
  "\<exists>ob. new_options [''sparkspotRadius'' \<mapsto> ''4''] [''enableTagOptions'' \<mapsto> obool True] = Some ob \<and>
     map_option fst (opt_get [''sparkspotRadius'' \<mapsto> ''4''] ''spotRadius'' oundef ob) = Some (onum 4)"
proof -
  let ?attr = "[''sparkspotRadius'' \<mapsto> ''4''] :: string \<rightharpoonup> string"
  let ?user = "[''enableTagOptions'' \<mapsto> obool True] :: opt_table"
  obtain ob where ob: "new_options ?attr ?user = Some ob" "tagOptionsPrefix ob = Some ''spark''"
    by (simp add: new_options_def getTagSetting_def user_true_def user_string_def obool_def Let_def)
  have "parse_setting ''4'' = Some (onum 4)" by code_simp
  then show ?thesis
    using options_get_history [OF ob(1), of "[]" ob "''spotRadius''" oundef] ob
    by (simp add: plain_get_def)
qed

text \<open>
  Without tag options, \<open>get\<close> answers what the user set, else the default of the chart type, else
  the common default, else the default of the call; an \<open>undefined\<close> counts as not set in each layer.
\<close>

theorem options_precedence:
  assumes "\<not> user_true user ''enableTagOptions''" "user_string user ''type'' = Some ty"
    "map_of type_defaults ty = Some table"
  obtains ob where "new_options attr user = Some ob"
    "opt_get attr key d ob = Some
       ((case find (\<lambda>v. \<not> is_undef v) (List.map_filter (\<lambda>l. l key) [user, map_of table, map_of common_defaults]) of
           None \<Rightarrow> d | Some v \<Rightarrow> v), ob)"
proof -
  let ?m = "extend (extend (map_of common_defaults) (map_of table)) user"
  have n: "new_options attr user = Some \<lparr>tagOptionsPrefix = None, tagValCache = Map.empty, mergedOptions = ?m\<rparr>"
    using assms by (simp add: new_options_def getTagSetting_def Let_def)
  show ?thesis
    by (rule that [OF n])
      (auto simp: opt_get_def getTagSetting_def extend_def List.map_filter_simps split: option.splits)
qed

lemma options_precedence_witness:
  "\<exists>ob. opt_get Map.empty ''spotRadius'' oundef ob = Some (onum (3 / 2), ob)"
proof -
  have t: "map_of type_defaults ''line'' = Some (the (map_of type_defaults ''line''))"
    by (simp add: type_defaults_def)
  have k: "map_of (the (map_of type_defaults ''line'')) ''spotRadius'' = Some (onum (3 / 2))"
    by (simp add: type_defaults_def)
  have u: "\<not> user_true [''type'' \<mapsto> ostr ''line''] ''enableTagOptions''"
    "user_string [''type'' \<mapsto> ostr ''line''] ''type'' = Some ''line''"
    by (simp_all add: user_true_def user_string_def ostr_def)
  obtain ob where
    "opt_get Map.empty ''spotRadius'' oundef ob = Some
       ((case find (\<lambda>v. \<not> is_undef v) (List.map_filter (\<lambda>l. l ''spotRadius'')
           [[''type'' \<mapsto> ostr ''line''], map_of (the (map_of type_defaults ''line'')), map_of common_defaults]) of
           None \<Rightarrow> oundef | Some v \<Rightarrow> v), ob)"
    by (rule options_precedence [OF u t])
  then show ?thesis by (auto simp: List.map_filter_simps k is_undef_def onum_def)
qed

section \<open>The options of a line chart\<close>

fun opt_num :: "opt_val \<Rightarrow> jsnum option" where
  "opt_num (OVal VUndef) = None"
| "opt_num (OVal v) = Some (to_num v)"
| "opt_num _ = Some NaN"

fun opt_colour :: "opt_val \<Rightarrow> colour" where
  "opt_colour (OVal (VStr s)) = Some s"
| "opt_colour _ = None"

fun opt_truthy :: "opt_val \<Rightarrow> bool" where
  "opt_truthy (OVal VUndef) = False"
| "opt_truthy (OVal VNull) = False"
| "opt_truthy (OVal (VBool b)) = b"
| "opt_truthy (OVal (VNum x)) = (x \<noteq> Fin 0 \<and> x \<noteq> NaN)"
| "opt_truthy (OVal (VStr s)) = (s \<noteq> [])"
| "opt_truthy _ = True"

fun opt_numbers :: "opt_val \<Rightarrow> jsnum list option" where
  "opt_numbers (OVal (VArr vs)) = Some (map to_num vs)"
| "opt_numbers _ = None"

text \<open>What a line chart reads from its options; \<open>valueSpots\<close> (a range map) and the texts of the sizes stay arguments.\<close>

definition line_opts_of ::
    "(string \<Rightarrow> opt_val) \<Rightarrow> (jsnum option \<Rightarrow> colour) option \<Rightarrow> string option \<Rightarrow> string option \<Rightarrow> line_opts" where
  "line_opts_of g vspots wt ht =
     \<lparr>spotRadius = or_nan (opt_num (g ''spotRadius'')), highlightSpotColor = opt_colour (g ''highlightSpotColor''),
      highlightLineColor = opt_colour (g ''highlightLineColor''), minSpotColor = opt_colour (g ''minSpotColor''),
      maxSpotColor = opt_colour (g ''maxSpotColor''), spotColor = opt_colour (g ''spotColor''),
      fillColor = opt_colour (g ''fillColor''), lineColor = opt_colour (g ''lineColor''),
      lineWidth = opt_num (g ''lineWidth''), normalRangeMin = opt_num (g ''normalRangeMin''),
      normalRangeMax = or_nan (opt_num (g ''normalRangeMax'')), normalRangeColor = opt_colour (g ''normalRangeColor''),
      drawNormalOnTop = opt_truthy (g ''drawNormalOnTop''),
      rangeY = \<lparr>chartRangeMin = opt_num (g ''chartRangeMin''), chartRangeMax = opt_num (g ''chartRangeMax''),
                chartRangeClip = opt_truthy (g ''chartRangeClip'')\<rparr>,
      rangeX = \<lparr>chartRangeMin = opt_num (g ''chartRangeMinX''), chartRangeMax = opt_num (g ''chartRangeMaxX''),
                chartRangeClip = opt_truthy (g ''chartRangeClipX'')\<rparr>,
      disableInteraction = opt_truthy (g ''disableInteraction''), valueSpots = vspots,
      user_xvalues = opt_numbers (g ''xvalues''), ln_disableHighlight = opt_truthy (g ''disableHighlight''),
      ln_widthText = wt, ln_heightText = ht\<rparr>"

text \<open>\<open>g\<close> as \<open>options.get\<close> of the object that is built without user options and attributes.\<close>

definition default_get :: "string \<Rightarrow> opt_val" where
  "default_get k = (case new_options Map.empty Map.empty of None \<Rightarrow> oundef
     | Some ob \<Rightarrow> (case opt_get Map.empty k oundef ob of None \<Rightarrow> oundef | Some (v, _) \<Rightarrow> v))"

text \<open>The options of a chart without user options are those of \<open>line_defaults\<close>.\<close>

theorem options_line_defaults: "line_opts_of default_get None None None = line_defaults"
  unfolding line_opts_of_def line_defaults_def line_opts.ext_inject range_opts.ext_inject
  by (intro conjI; code_simp)

end
