(* ===== verification/Spark_Tooltip.thy ===== *)
theory Spark_Tooltip
  imports Complex_Main
begin

text \<open>
  The tooltip box of \<open>js/jquery.sparkline.js\<close> (class \<open>Tooltip\<close>): its content, its size as the page
  measures it, and its position in the window. Lengths are rational numbers of pixels; \<open>undefined\<close>
  is \<open>None\<close>.
\<close>

section \<open>The object\<close>

record tooltip =
  tip_offsetX :: rat
  tip_offsetY :: rat
  offsetLeft :: rat                     \<comment> \<open>where the container begins\<close>
  offsetTop :: rat
  scrollTop :: rat
  scrollLeft :: rat
  scrollRight :: rat
  tip_size :: "(rat \<times> rat) option"      \<comment> \<open>\<open>width\<close> and \<open>height\<close>\<close>
  mouse_at :: "(rat \<times> rat) option"      \<comment> \<open>\<open>mousex\<close> and \<open>mousey\<close>\<close>
  hidden :: bool
  tip_text :: string
  css_pos :: "(rat \<times> rat) option"

definition clamp_left :: "tooltip \<Rightarrow> rat \<Rightarrow> rat \<Rightarrow> rat" where
  "clamp_left t w x =
     (if x < scrollLeft t then scrollLeft t else if x + w > scrollRight t then scrollRight t - w else x)"

definition tip_place :: "rat \<Rightarrow> rat \<Rightarrow> tooltip \<Rightarrow> tooltip" where
  "tip_place x y t =
     (case tip_size t of
        None \<Rightarrow> t
      | Some (w, h) \<Rightarrow>
          if h = 0 \<or> w = 0 \<or> hidden t then t
          else t\<lparr>css_pos := Some (clamp_left t w (x + tip_offsetX t), max (y - (h + tip_offsetY t)) (scrollTop t))\<rparr>)"

text \<open>Without arguments the stored position is taken, and the offset of the container subtracted again.\<close>

definition tip_updatePosition :: "(rat \<times> rat) option \<Rightarrow> tooltip \<Rightarrow> tooltip" where
  "tip_updatePosition pos t =
     (case pos of
        None \<Rightarrow> (case mouse_at t of None \<Rightarrow> t | Some (mx, my) \<Rightarrow> tip_place (mx - offsetLeft t) (my - offsetTop t) t)
      | Some (px, py) \<Rightarrow>
          (let x = px - offsetLeft t; y = py - offsetTop t in tip_place x y (t\<lparr>mouse_at := Some (x, y)\<rparr>)))"

definition updateWindowDims :: "rat \<Rightarrow> rat \<Rightarrow> rat \<Rightarrow> tooltip \<Rightarrow> tooltip" where
  "updateWindowDims st sl width t =
     tip_updatePosition None (t\<lparr>scrollTop := st, scrollLeft := sl, scrollRight := sl + width\<rparr>)"

definition new_tooltip :: "rat \<times> rat \<Rightarrow> rat \<times> rat \<Rightarrow> rat \<times> rat \<times> rat \<Rightarrow> tooltip" where
  "new_tooltip gap container window =
     updateWindowDims (fst window) (fst (snd window)) (snd (snd window))
       \<lparr>tip_offsetX = fst gap, tip_offsetY = snd gap, offsetLeft = fst container, offsetTop = snd container,
        scrollTop = 0, scrollLeft = 0, scrollRight = 0, tip_size = None, mouse_at = None, hidden = True,
        tip_text = [], css_pos = None\<rparr>"

text \<open>\<open>layout_size\<close> stands for the layout engine of the page: the size of a text in the invisible copy.\<close>

definition getSize :: "(string \<Rightarrow> rat \<times> rat) \<Rightarrow> string \<Rightarrow> tooltip \<Rightarrow> tooltip" where
  "getSize layout_size content t = t\<lparr>tip_size := Some (fst (layout_size content) + 1, snd (layout_size content))\<rparr>"

definition setContent :: "(string \<Rightarrow> rat \<times> rat) \<Rightarrow> string \<Rightarrow> tooltip \<Rightarrow> tooltip" where
  "setContent layout_size content t =
     (if content = [] then t\<lparr>hidden := True\<rparr>
      else
        (let t = (getSize layout_size content t)\<lparr>tip_text := content\<rparr>
         in if hidden t then tip_updatePosition None (t\<lparr>hidden := False\<rparr>) else t))"

section \<open>Position\<close>

definition tip_shown :: "tooltip \<Rightarrow> bool" where
  "tip_shown t \<longleftrightarrow> \<not> hidden t \<and> (\<exists>w h. tip_size t = Some (w, h) \<and> w \<noteq> 0 \<and> h \<noteq> 0)"

lemma clamp_left_inside:
  "w \<le> scrollRight t - scrollLeft t \<Longrightarrow> scrollLeft t \<le> clamp_left t w x \<and> clamp_left t w x + w \<le> scrollRight t"
  by (auto simp: clamp_left_def)

text \<open>
  A move of the mouse puts a shown tooltip inside the window: not above it, and between its left
  and its right edge when the window is wide enough.
\<close>

theorem tip_move_inside:
  assumes "tip_shown t" "tip_size t = Some (w, h)" "w \<le> scrollRight t - scrollLeft t"
  obtains x y where "css_pos (tip_updatePosition (Some p) t) = Some (x, y)"
    "scrollLeft t \<le> x" "x + w \<le> scrollRight t" "scrollTop t \<le> y"
proof -
  let ?x = "clamp_left t w (fst p - offsetLeft t + tip_offsetX t)"
  have c: "css_pos (tip_updatePosition (Some p) t) =
      Some (?x, max (snd p - offsetTop t - (h + tip_offsetY t)) (scrollTop t))"
    using assms(1,2)
    by (auto simp: tip_updatePosition_def tip_place_def tip_shown_def clamp_left_def Let_def split: prod.splits)
  show ?thesis by (rule that [OF c]) (use clamp_left_inside [OF assms(3)] in auto)
qed

definition demo_tip :: tooltip where
  "demo_tip = (new_tooltip (10, 12) (0, 0) (0, 0, 800))\<lparr>hidden := False, tip_size := Some (50, 20)\<rparr>"

lemma tip_move_inside_witness:
  "\<exists>x y. css_pos (tip_updatePosition (Some (795, 100)) demo_tip) = Some (x, y) \<and> x + 50 \<le> 800"
proof -
  have d: "tip_shown demo_tip" "tip_size demo_tip = Some (50, 20)" "scrollRight demo_tip = 800"
    "scrollLeft demo_tip = 0"
    by (simp_all add: demo_tip_def new_tooltip_def updateWindowDims_def tip_updatePosition_def tip_place_def tip_shown_def)
  show ?thesis by (rule tip_move_inside [OF d(1,2), of "(795, 100)"]) (auto simp: d)
qed

text \<open>
  The position stored by a move has the offset of the container subtracted, and a later update
  without arguments (a resize, or content shown again) subtracts it once more: the tooltip goes where a
  move to a point shifted by that offset would have put it.
\<close>

theorem tip_update_subtracts_twice:
  "css_pos (tip_updatePosition None (tip_updatePosition (Some (x, y)) t)) =
     (if tip_shown t then css_pos (tip_updatePosition (Some (x - offsetLeft t, y - offsetTop t)) t) else css_pos t)"
  by (auto simp: tip_updatePosition_def tip_place_def tip_shown_def clamp_left_def Let_def split: option.splits)

text \<open>
  A shown tooltip whose content grows keeps its position until the next move: it may then reach
  past the right edge of the window.
\<close>

theorem tip_content_not_moved:
  assumes "tip_shown t" "content \<noteq> []"
  shows "css_pos (setContent layout_size content t) = css_pos t"
    "tip_size (setContent layout_size content t) = Some (fst (layout_size content) + 1, snd (layout_size content))"
  using assms by (simp_all add: setContent_def getSize_def tip_shown_def Let_def)

lemma tip_content_not_moved_witness:
  "css_pos (setContent (\<lambda>s. (90, 20)) ''wider'' demo_tip) = css_pos demo_tip"
  by (rule tip_content_not_moved(1))
    (simp_all add: demo_tip_def new_tooltip_def updateWindowDims_def tip_updatePosition_def tip_place_def tip_shown_def)

end
