(* ===== verification/Spark_Mouse.thy ===== *)
theory Spark_Mouse
  imports Spark_Tooltip Spark_Line_Props
begin

text \<open>
  The mouse handler of an element (class \<open>MouseHandler\<close> in \<open>js/jquery.sparkline.js\<close>): it owns the
  charts drawn on the element's canvas and the tooltip, and passes mouse events on to the charts.

  The charts of one element share its canvas, which the handler keeps: each operation on a chart gets
  the canvas the operation before it left. A call that throws is \<open>None\<close>. The page (the position of the
  canvas and of the tooltip's container, the layout of the tooltip's text) is a parameter.
\<close>

section \<open>The handler\<close>

record ('r, 'a) mouse =
  splist :: "('r, 'a) spark_base_scheme list"
  mh_canvas :: canvas
  over :: bool
  move_bound :: bool                  \<comment> \<open>\<open>mousemove.jqs\<close> is bound to the body\<close>
  currentPage :: "rat \<times> rat"
  mh_tooltip :: "tooltip option"
  displayTooltips :: bool
  changes :: nat                      \<comment> \<open>how often \<open>sparklineRegionChange\<close> was triggered\<close>

record page =
  canvas_offset :: "rat \<times> rat"
  container_offset :: "rat \<times> rat"
  window_dims :: "rat \<times> rat \<times> rat"
  tip_gap :: "rat \<times> rat"
  layout :: "string \<Rightarrow> rat \<times> rat"

definition new_mouse :: "bool \<Rightarrow> canvas \<Rightarrow> ('r, 'a) mouse" where
  "new_mouse disableTooltips c =
     \<lparr>splist = [], mh_canvas = c, over = False, move_bound = False, currentPage = (0, 0), mh_tooltip = None,
      displayTooltips = (\<not> disableTooltips), changes = 0\<rparr>"

text \<open>One operation on every chart in turn; with the results.\<close>

fun each_chart ::
  "(('r, 'a) spark_base_scheme \<Rightarrow> ('v \<times> ('r, 'a) spark_base_scheme) option) \<Rightarrow>
   ('r, 'a) spark_base_scheme list \<Rightarrow> canvas \<Rightarrow> ('v list \<times> ('r, 'a) spark_base_scheme list \<times> canvas) option" where
  "each_chart f [] c = Some ([], [], c)"
| "each_chart f (s # ss) c =
     (case f (s\<lparr>vtarget := c\<rparr>) of
        None \<Rightarrow> None
      | Some (v, s') \<Rightarrow>
          (case each_chart f ss (vtarget s') of
             None \<Rightarrow> None
           | Some (vs, ss', c') \<Rightarrow> Some (v # vs, s' # ss', c')))"

definition mh_render ::
  "(drawing \<Rightarrow> jsnum \<Rightarrow> jsnum \<Rightarrow> bool) \<Rightarrow> ('r, 'a) mouse \<Rightarrow> ('r, 'a) mouse option" where
  "mh_render inpath m = map_option (\<lambda>c. m\<lparr>mh_canvas := c\<rparr>) (render inpath (mh_canvas m))"

definition mh_mouseleave ::
  "(drawing \<Rightarrow> jsnum \<Rightarrow> jsnum \<Rightarrow> bool) \<Rightarrow>
   (bool \<Rightarrow> ('r, 'a) spark_base_scheme \<Rightarrow> ('r, 'a) spark_base_scheme option) \<Rightarrow>
   ('r, 'a) mouse \<Rightarrow> ('r, 'a) mouse option" where
  "mh_mouseleave inpath ch m =
     (let m = m\<lparr>move_bound := False, over := False, mh_tooltip := None\<rparr> in
      case each_chart (clearRegionHighlight ch) (splist m) (mh_canvas m) of
        None \<Rightarrow> None
      | Some (vs, sps, c) \<Rightarrow>
          (let m = m\<lparr>splist := sps, mh_canvas := c\<rparr> in if True \<in> set vs then mh_render inpath m else Some m))"

text \<open>\<open>getCurrentRegionTooltip\<close>: \<open>tip\<close> gives the text for a region of the chart.\<close>

definition currentTooltip :: "('r \<Rightarrow> string) \<Rightarrow> ('r, 'a) spark_base_scheme \<Rightarrow> string" where
  "currentTooltip tip s = (case currentRegion s of None \<Rightarrow> [] | Some r \<Rightarrow> tip r)"

definition mh_refresh where
  "mh_refresh inpath tip pg m =
     mh_render inpath
       (m\<lparr>changes := changes m + 1,
          mh_tooltip := map_option (setContent (layout pg) (concat (map (currentTooltip tip) (splist m))))
            (mh_tooltip m)\<rparr>)"

text \<open>
  The field \<open>disableHighlight\<close> that the code tests before it renders does not exist on the handler, so
  it always renders. A result \<open>null\<close> of the last chart (the pointer is outside) ends the visit.
\<close>

definition mh_updateDisplay where
  "mh_updateDisplay inpath disabled gr ch tip pg m =
     (let x = Fin (fst (currentPage m) - fst (canvas_offset pg));
          y = Fin (snd (currentPage m) - snd (canvas_offset pg)) in
      if \<not> over m then Some m
      else
        (case each_chart (setRegionHighlight disabled gr ch x y) (splist m) (mh_canvas m) of
           None \<Rightarrow> None
         | Some (vs, sps, c) \<Rightarrow>
             (let m = m\<lparr>splist := sps, mh_canvas := c\<rparr> in
              case (if Some True \<in> set vs then mh_refresh inpath tip pg m else Some m) of
                None \<Rightarrow> None
              | Some m \<Rightarrow> if vs \<noteq> [] \<and> last vs = None then mh_mouseleave inpath ch m else Some m)))"

definition mh_mouseenter where
  "mh_mouseenter inpath disabled gr ch tip pg p m =
     (let m = m\<lparr>move_bound := True, over := True, currentPage := p\<rparr>;
          m = (if mh_tooltip m = None \<and> displayTooltips m
               then m\<lparr>mh_tooltip := Some (tip_updatePosition (Some p)
                        (new_tooltip (tip_gap pg) (container_offset pg) (window_dims pg)))\<rparr>
               else m)
      in mh_updateDisplay inpath disabled gr ch tip pg m)"

text \<open>The handler hears of moves only while \<open>mousemove.jqs\<close> is bound.\<close>

definition mh_mousemove where
  "mh_mousemove inpath disabled gr ch tip pg p m =
     (if \<not> move_bound m then Some m
      else mh_updateDisplay inpath disabled gr ch tip pg
        (m\<lparr>currentPage := p, mh_tooltip := map_option (tip_updatePosition (Some p)) (mh_tooltip m)\<rparr>))"

definition registerSparkline where
  "registerSparkline inpath disabled gr ch tip pg sp m =
     (let m = m\<lparr>splist := splist m @ [sp]\<rparr> in
      if over m then mh_updateDisplay inpath disabled gr ch tip pg m else Some m)"

definition mh_reset :: "('r, 'a) mouse \<Rightarrow> ('r, 'a) mouse" where
  "mh_reset m = m\<lparr>splist := []\<rparr>"

datatype mouse_event = Enter "rat \<times> rat" | Moved "rat \<times> rat" | LeaveCanvas | Window "rat \<times> rat \<times> rat"

fun mouse_react where
  "mouse_react inpath disabled gr ch tip pg (Enter p) m = mh_mouseenter inpath disabled gr ch tip pg p m"
| "mouse_react inpath disabled gr ch tip pg (Moved p) m = mh_mousemove inpath disabled gr ch tip pg p m"
| "mouse_react inpath disabled gr ch tip pg LeaveCanvas m = mh_mouseleave inpath ch m"
| "mouse_react inpath disabled gr ch tip pg (Window d) m =
     Some (m\<lparr>mh_tooltip := map_option (updateWindowDims (fst d) (fst (snd d)) (snd (snd d))) (mh_tooltip m)\<rparr>)"

definition mouse_step where
  "mouse_step inpath disabled gr ch tip pg e m = Option.bind m (mouse_react inpath disabled gr ch tip pg e)"

section \<open>The state of the handler\<close>

definition mh_ok :: "('r, 'a) mouse \<Rightarrow> bool" where
  "mh_ok m \<longleftrightarrow>
     move_bound m = over m \<and> (mh_tooltip m \<noteq> None \<longleftrightarrow> over m \<and> displayTooltips m) \<and>
     (\<not> over m \<longrightarrow> (\<forall>s \<in> set (splist m). currentRegion s = None))"

lemma each_chart_clear:
  "each_chart (clearRegionHighlight ch) ss c = Some (vs, ss', c') \<Longrightarrow> \<forall>s \<in> set ss'. currentRegion s = None"
  by (induction ss arbitrary: c vs ss' c')
    (auto simp: clearRegionHighlight_def split: option.splits if_splits)

lemma mh_render_simps:
  "mh_render inpath m = Some m' \<Longrightarrow> move_bound m' = move_bound m \<and> over m' = over m \<and>
     mh_tooltip m' = mh_tooltip m \<and> displayTooltips m' = displayTooltips m \<and> splist m' = splist m"
  by (auto simp: mh_render_def)

lemma mouseleave_ok: "mh_mouseleave inpath ch m = Some m' \<Longrightarrow> mh_ok m' \<and> \<not> over m'"
  by (auto simp: mh_mouseleave_def mh_ok_def Let_def dest!: mh_render_simps each_chart_clear
      split: option.splits if_splits)

lemma updateDisplay_ok:
  assumes ok: "mh_ok m" and u: "mh_updateDisplay inpath disabled gr ch tip pg m = Some m'"
  shows "mh_ok m'"
proof (cases "over m")
  case True
  define f where "f = setRegionHighlight disabled gr ch (Fin (fst (currentPage m) - fst (canvas_offset pg)))
    (Fin (snd (currentPage m) - snd (canvas_offset pg)))"
  obtain vs sps c where e: "each_chart f (splist m) (mh_canvas m) = Some (vs, sps, c)"
    using u True by (auto simp: mh_updateDisplay_def f_def split: option.splits)
  let ?m = "m\<lparr>splist := sps, mh_canvas := c\<rparr>"
  obtain m1 where m1: "(if Some True \<in> set vs then mh_refresh inpath tip pg ?m else Some ?m) = Some m1"
    "(if vs \<noteq> [] \<and> last vs = None then mh_mouseleave inpath ch m1 else Some m1) = Some m'"
    using u True e by (simp add: mh_updateDisplay_def f_def Let_def split: option.splits split del: if_split)
  have "mh_ok m1 \<and> over m1"
    using m1(1) ok True by (auto simp: mh_refresh_def mh_ok_def dest!: mh_render_simps split: if_splits)
  then show ?thesis using m1(2) mouseleave_ok by (auto split: if_splits)
next
  case False
  then show ?thesis using ok u by (simp add: mh_updateDisplay_def)
qed

lemma mouse_react_ok:
  assumes "mh_ok m" "mouse_react inpath disabled gr ch tip pg e m = Some m'"
  shows "mh_ok m'"
proof (cases e)
  case (Enter p)
  let ?m = "m\<lparr>move_bound := True, over := True, currentPage := p\<rparr>"
  let ?m' = "if mh_tooltip ?m = None \<and> displayTooltips ?m
    then ?m\<lparr>mh_tooltip := Some (tip_updatePosition (Some p)
      (new_tooltip (tip_gap pg) (container_offset pg) (window_dims pg)))\<rparr> else ?m"
  have "mh_ok ?m'" using assms(1) by (auto simp: mh_ok_def)
  moreover have "mh_updateDisplay inpath disabled gr ch tip pg ?m' = Some m'"
    using assms(2) Enter by (simp add: mh_mouseenter_def Let_def split del: if_split)
  ultimately show ?thesis by (rule updateDisplay_ok)
next
  case (Moved p)
  show ?thesis
  proof (cases "move_bound m")
    case True
    have "mh_ok (m\<lparr>currentPage := p, mh_tooltip := map_option (tip_updatePosition (Some p)) (mh_tooltip m)\<rparr>)"
      using assms(1) by (simp add: mh_ok_def)
    then show ?thesis by (rule updateDisplay_ok) (use assms(2) Moved True in \<open>simp add: mh_mousemove_def\<close>)
  qed (use assms Moved in \<open>simp add: mh_mousemove_def\<close>)
next
  case LeaveCanvas
  then show ?thesis using assms(2) mouseleave_ok by auto
next
  case (Window d)
  then show ?thesis using assms by (auto simp: mh_ok_def)
qed

section \<open>The text of the tooltip\<close>

lemma tip_position_keeps [simp]:
  "hidden (tip_updatePosition p t) = hidden t" "tip_text (tip_updatePosition p t) = tip_text t"
  by (auto simp: tip_updatePosition_def tip_place_def Let_def split: option.splits)

lemma window_keeps [simp]:
  "hidden (updateWindowDims a b c t) = hidden t" "tip_text (updateWindowDims a b c t) = tip_text t"
  by (simp_all add: updateWindowDims_def)

lemma new_tooltip_hidden [simp]: "hidden (new_tooltip g c w)"
  by (simp add: new_tooltip_def)

lemma setContent_shows:
  "if content = [] then hidden (setContent l content t)
   else \<not> hidden (setContent l content t) \<and> tip_text (setContent l content t) = content"
  by (auto simp: setContent_def getSize_def Let_def)

text \<open>The tooltip shows the texts of the current regions of all charts, and is hidden when there is none.\<close>

definition tip_says :: "('r \<Rightarrow> string) \<Rightarrow> ('r, 'a) spark_base_scheme list \<Rightarrow> tooltip \<Rightarrow> bool" where
  "tip_says tip ss t \<longleftrightarrow>
     (let txt = concat (map (currentTooltip tip) ss) in
      if txt = [] then hidden t else \<not> hidden t \<and> tip_text t = txt)"

definition mh_says :: "('r \<Rightarrow> string) \<Rightarrow> ('r, 'a) mouse \<Rightarrow> bool" where
  "mh_says tip m \<longleftrightarrow> mh_ok m \<and> (\<forall>t. mh_tooltip m = Some t \<longrightarrow> tip_says tip (splist m) t)"

lemma tip_says_cong:
  assumes "map currentRegion ss' = map currentRegion ss"
  shows "tip_says tip ss' = tip_says tip ss"
proof -
  have "map (currentTooltip tip) ss' = map (case_option [] tip) (map currentRegion ss')" for ss'
    by (simp add: currentTooltip_def)
  then have "map (currentTooltip tip) ss' = map (currentTooltip tip) ss" using assms by metis
  then show ?thesis by (simp add: tip_says_def fun_eq_iff)
qed

lemma tip_says_moved [simp]:
  "tip_says tip ss (tip_updatePosition p t) = tip_says tip ss t"
  "tip_says tip ss (updateWindowDims a b c t) = tip_says tip ss t"
  by (simp_all add: tip_says_def)

lemma tip_says_new: "\<forall>s \<in> set ss. currentRegion s = None \<Longrightarrow> tip_says tip ss (new_tooltip g c w)"
  by (simp add: tip_says_def currentTooltip_def)

lemma setContent_says: "tip_says tip ss (setContent l (concat (map (currentTooltip tip) ss)) t)"
  unfolding tip_says_def Let_def by (rule setContent_shows)

text \<open>What a chart must promise for this: its hit test does not touch the current region.\<close>

locale mouse_chart =
  fixes gr :: "jsnum \<Rightarrow> jsnum \<Rightarrow> ('r, 'a) spark_base_scheme \<Rightarrow> ('r option \<times> ('r, 'a) spark_base_scheme) option"
  assumes gr_keeps: "gr x y s = Some (r, s') \<Longrightarrow> currentRegion s' = currentRegion s"
begin

lemma set_unchanged:
  "setRegionHighlight disabled gr ch x y s = Some (v, s') \<Longrightarrow> v \<noteq> Some True \<Longrightarrow> currentRegion s' = currentRegion s"
  using gr_keeps by (auto simp: setRegionHighlight_def Let_def split: if_splits option.splits)

lemma each_unchanged:
  "each_chart (setRegionHighlight disabled gr ch x y) ss c = Some (vs, ss', c') \<Longrightarrow> Some True \<notin> set vs \<Longrightarrow>
   map currentRegion ss' = map currentRegion ss"
proof (induction ss arbitrary: c vs ss' c')
  case (Cons s ss)
  obtain v s' where v: "setRegionHighlight disabled gr ch x y (s\<lparr>vtarget := c\<rparr>) = Some (v, s')"
    using Cons.prems(1) by (auto split: option.splits)
  obtain ws ts where w: "each_chart (setRegionHighlight disabled gr ch x y) ss (vtarget s') = Some (ws, ts, c')"
    "vs = v # ws" "ss' = s' # ts"
    using Cons.prems(1) v by (auto split: option.splits)
  have "v \<noteq> Some True" "Some True \<notin> set ws" using Cons.prems(2) w(2) by auto
  then show ?case using Cons.IH [OF w(1)] set_unchanged [OF v] w(3) by simp
qed simp

lemma updateDisplay_says:
  assumes ok: "mh_says tip m" and u: "mh_updateDisplay inpath disabled gr ch tip pg m = Some m'"
  shows "mh_says tip m'"
proof (cases "over m")
  case True
  define f where "f = setRegionHighlight disabled gr ch (Fin (fst (currentPage m) - fst (canvas_offset pg)))
    (Fin (snd (currentPage m) - snd (canvas_offset pg)))"
  obtain vs sps c where e: "each_chart f (splist m) (mh_canvas m) = Some (vs, sps, c)"
    using u True by (auto simp: mh_updateDisplay_def f_def split: option.splits)
  let ?m = "m\<lparr>splist := sps, mh_canvas := c\<rparr>"
  obtain m1 where m1: "(if Some True \<in> set vs then mh_refresh inpath tip pg ?m else Some ?m) = Some m1"
    "(if vs \<noteq> [] \<and> last vs = None then mh_mouseleave inpath ch m1 else Some m1) = Some m'"
    using u True e by (simp add: mh_updateDisplay_def f_def Let_def split: option.splits split del: if_split)
  have "tip_says tip (splist m1) t" if t: "mh_tooltip m1 = Some t" for t
  proof (cases "Some True \<in> set vs")
    case True
    let ?txt = "concat (map (currentTooltip tip) sps)"
    have "splist m1 = sps" "mh_tooltip m1 = map_option (setContent (layout pg) ?txt) (mh_tooltip m)"
      using m1(1) True by (auto simp: mh_refresh_def dest!: mh_render_simps)
    then obtain t0 where "t = setContent (layout pg) ?txt t0" "splist m1 = sps"
      using t by (cases "mh_tooltip m") auto
    then show ?thesis by (simp only: setContent_says)
  next
    case False
    then have "m1 = ?m" using m1(1) by simp
    moreover have "tip_says tip sps = tip_says tip (splist m)"
      by (rule tip_says_cong) (use each_unchanged e False in \<open>auto simp: f_def\<close>)
    ultimately show ?thesis using t ok by (simp add: mh_says_def)
  qed
  moreover have "mh_ok m'" using updateDisplay_ok [OF _ u] ok by (simp add: mh_says_def)
  moreover have "mh_tooltip m' = None" if "m' \<noteq> m1"
    using m1(2) that mouseleave_ok [of inpath ch m1 m'] by (auto simp: mh_ok_def split: if_splits)
  ultimately show ?thesis by (cases "m' = m1") (auto simp: mh_says_def)
next
  case False
  then show ?thesis using ok u by (simp add: mh_updateDisplay_def)
qed

lemma react_says:
  assumes ok: "mh_says tip m" and r: "mouse_react inpath disabled gr ch tip pg e m = Some m'"
  shows "mh_says tip m'"
proof (cases e)
  case (Enter p)
  let ?m = "m\<lparr>move_bound := True, over := True, currentPage := p\<rparr>"
  let ?m' = "if mh_tooltip ?m = None \<and> displayTooltips ?m
    then ?m\<lparr>mh_tooltip := Some (tip_updatePosition (Some p)
      (new_tooltip (tip_gap pg) (container_offset pg) (window_dims pg)))\<rparr> else ?m"
  have "mh_says tip ?m'"
    using ok by (auto simp: mh_says_def mh_ok_def intro!: tip_says_new)
  moreover have "mh_updateDisplay inpath disabled gr ch tip pg ?m' = Some m'"
    using r Enter by (simp add: mh_mouseenter_def Let_def split del: if_split)
  ultimately show ?thesis by (rule updateDisplay_says)
next
  case (Moved p)
  show ?thesis
  proof (cases "move_bound m")
    case True
    have "mh_says tip (m\<lparr>currentPage := p, mh_tooltip := map_option (tip_updatePosition (Some p)) (mh_tooltip m)\<rparr>)"
      using ok by (auto simp: mh_says_def mh_ok_def)
    then show ?thesis by (rule updateDisplay_says) (use r Moved True in \<open>simp add: mh_mousemove_def\<close>)
  qed (use ok r Moved in \<open>simp add: mh_mousemove_def\<close>)
next
  case LeaveCanvas
  then show ?thesis using r mouseleave_ok [of inpath ch m m'] by (auto simp: mh_says_def mh_ok_def)
next
  case (Window d)
  then show ?thesis using ok r by (auto simp: mh_says_def mh_ok_def)
qed

definition says_opt :: "('r \<Rightarrow> string) \<Rightarrow> ('r, 'a) mouse option \<Rightarrow> bool" where
  "says_opt tip m \<longleftrightarrow> (\<forall>t. m = Some t \<longrightarrow> mh_says tip t)"

end

sublocale mouse_chart \<subseteq> visits: event_machine "mouse_step inpath disabled gr ch tip pg" "says_opt tip" "\<lambda>_. True"
  for inpath disabled ch tip pg
proof
  show "says_opt tip (mouse_step inpath disabled gr ch tip pg e m)" if "says_opt tip m" for m e
    using that react_says by (cases m) (auto simp: says_opt_def mouse_step_def)
qed

section \<open>A single chart\<close>

text \<open>
  An element that is not composite has one chart. When it is a \<open>highlighter\<close>, no event throws, and the
  canvas of the handler always shows the chart with its current region highlighted.
\<close>

lemma vtarget_same [simp]: "s\<lparr>vtarget := vtarget s\<rparr> = s" for s :: "('r, 'a) spark_base_scheme"
  by (cases s) simp

context highlighter
begin

definition visited :: "('r, 'a) mouse option \<Rightarrow> bool" where
  "visited mo \<longleftrightarrow> (\<exists>m s. mo = Some m \<and> splist m = [s] \<and> good (s\<lparr>vtarget := mh_canvas m\<rparr>))"

lemma visited_render:
  assumes "splist m = [s]" "good s" "vtarget s = mh_canvas m"
  shows "visited (mh_render inpath m)"
proof -
  obtain s' where "repaint inpath s = Some s'" "good s'" by (rule repaint_good [OF assms(2)])
  then show ?thesis using assms by (auto simp: visited_def mh_render_def repaint_def)
qed

lemma visited_leave:
  assumes m: "splist m = [s]" "good (s\<lparr>vtarget := mh_canvas m\<rparr>)"
  shows "visited (mh_mouseleave inpath change m)"
proof -
  obtain s' where c: "clearRegionHighlight change (s\<lparr>vtarget := mh_canvas m\<rparr>) = Some (currentRegion s \<noteq> None, s')"
    "good s'"
    using clear_good [OF m(2)] by auto
  let ?m = "m\<lparr>move_bound := False, over := False, mh_tooltip := None, splist := [s'], mh_canvas := vtarget s'\<rparr>"
  have "mh_mouseleave inpath change m = (if currentRegion s \<noteq> None then mh_render inpath ?m else Some ?m)"
    using c(1) m(1) by (simp add: mh_mouseleave_def Let_def)
  moreover have "visited (mh_render inpath ?m)" by (rule visited_render) (use c(2) in simp_all)
  moreover have "visited (Some ?m)" using c(2) by (simp add: visited_def)
  ultimately show ?thesis by simp
qed

lemma visited_update:
  assumes m: "splist m = [s]" "good (s\<lparr>vtarget := mh_canvas m\<rparr>)"
  shows "visited (mh_updateDisplay inpath disabled region change tip pg m)"
proof (cases "over m")
  case True
  let ?x = "Fin (fst (currentPage m) - fst (canvas_offset pg))" and ?y = "Fin (snd (currentPage m) - snd (canvas_offset pg))"
  obtain v s' where c: "setRegionHighlight disabled region change ?x ?y (s\<lparr>vtarget := mh_canvas m\<rparr>) = Some (v, s')"
    "good s'"
    using set_good [OF m(2)] by metis
  let ?m = "m\<lparr>splist := [s'], mh_canvas := vtarget s'\<rparr>"
  have e: "mh_updateDisplay inpath disabled region change tip pg m =
      (case (if Some True = v then mh_refresh inpath tip pg ?m else Some ?m) of
         None \<Rightarrow> None | Some m \<Rightarrow> if v = None then mh_mouseleave inpath change m else Some m)"
    using c(1) m(1) True by (simp add: mh_updateDisplay_def Let_def cong: option.case_cong)
  have "visited (mh_refresh inpath tip pg ?m)"
    unfolding mh_refresh_def by (rule visited_render) (use c(2) in simp_all)
  moreover have "visited (Some ?m)" using c(2) by (simp add: visited_def)
  moreover have "visited (mh_mouseleave inpath change ?m)"
    by (rule visited_leave [of _ s']) (use c(2) in simp_all)
  ultimately show ?thesis unfolding e by (auto simp: visited_def split: option.splits)
qed (use m in \<open>auto simp: mh_updateDisplay_def visited_def\<close>)

lemma visited_react:
  assumes m: "splist m = [s]" "good (s\<lparr>vtarget := mh_canvas m\<rparr>)"
  shows "visited (mouse_react inpath disabled region change tip pg e m)"
proof (cases e)
  case (Enter p)
  show ?thesis unfolding Enter mouse_react.simps mh_mouseenter_def Let_def
    by (rule visited_update [of _ s]) (use m in simp_all)
next
  case (Moved p)
  show ?thesis
  proof (cases "move_bound m")
    case True
    have "visited (mh_updateDisplay inpath disabled region change tip pg
        (m\<lparr>currentPage := p, mh_tooltip := map_option (tip_updatePosition (Some p)) (mh_tooltip m)\<rparr>))"
      by (rule visited_update [of _ s]) (use m in simp_all)
    then show ?thesis using True Moved by (simp add: mh_mousemove_def)
  qed (use m Moved in \<open>auto simp: mh_mousemove_def visited_def\<close>)
next
  case LeaveCanvas
  then show ?thesis using visited_leave [OF m] by simp
qed (use m in \<open>auto simp: visited_def\<close>)

end

sublocale highlighter \<subseteq> visit: event_machine "mouse_step inpath disabled region change tip pg" visited "\<lambda>_. True"
  for tip pg
proof
  show "visited (mouse_step inpath disabled region change tip pg e mo)" if v: "visited mo" for mo e
  proof -
    obtain m s where "mo = Some m" "splist m = [s]" "good (s\<lparr>vtarget := mh_canvas m\<rparr>)"
      using v by (auto simp: visited_def)
    then show ?thesis using visited_react by (simp add: mouse_step_def)
  qed
qed

section \<open>The mouse over a line chart\<close>

interpretation line_mouse: mouse_chart line_getRegion
  by unfold_locales (simp add: line_getRegion_def)

text \<open>
  C8: however the mouse moves over a drawn line chart and away from it, and whatever the window does,
  no handler throws; moves are heard exactly while the mouse is over the chart; a tooltip exists exactly
  then (unless tooltips are disabled) and says the text of the current region; and when the mouse is
  gone, no region is current.
\<close>

theorem line_mouse_history:
  assumes "canvas_wf c" "interact c"
    "line_render inpath opts values (new_line_chart c) = Some s"
    "registerSparkline inpath (ln_disableHighlight opts) line_getRegion (line_changeHighlight opts) tip pg s
       (new_mouse noTips (vtarget s)) = Some m0"
  obtains m t where
    "fold (mouse_step inpath (ln_disableHighlight opts) line_getRegion (line_changeHighlight opts) tip pg) es
       (Some m0) = Some m"
    "splist m = [t]" "move_bound m = over m" "mh_tooltip m \<noteq> None \<longleftrightarrow> over m \<and> displayTooltips m"
    "\<not> over m \<longrightarrow> currentRegion t = None"
    "\<forall>tp. mh_tooltip m = Some tp \<longrightarrow> tip_says tip [t] tp"
proof -
  let ?step = "mouse_step inpath (ln_disableHighlight opts) line_getRegion (line_changeHighlight opts) tip pg"
  obtain s' where s': "line_render inpath opts values (new_line_chart c) = Some s'"
    "line.good opts (layers (vtarget s')) s'"
    by (rule line_render_good [OF assms(1,2)])
  have s: "line.good opts (layers (vtarget s)) s" using s' assms(3) by simp
  have cur: "currentRegion s = None"
    using assms(3) by (auto simp: line_render_def Let_def repaint_def new_line_chart_def split: if_splits)
  have m0: "m0 = (new_mouse noTips (vtarget s))\<lparr>splist := [s]\<rparr>"
    using assms(4) by (simp add: registerSparkline_def new_mouse_def)
  have "line.visited opts (layers (vtarget s)) (Some m0)"
    using s by (simp add: line.visited_def m0 new_mouse_def)
  then have "line.visited opts (layers (vtarget s)) (fold ?step es (Some m0))"
    by (rule line.visit.run_inv) simp
  then obtain m t where m: "fold ?step es (Some m0) = Some m" "splist m = [t]"
    by (auto simp: line.visited_def)
  have "line_mouse.says_opt tip (Some m0)"
    using cur by (simp add: line_mouse.says_opt_def m0 new_mouse_def mh_says_def mh_ok_def)
  then have "line_mouse.says_opt tip (fold ?step es (Some m0))"
    by (rule line_mouse.visits.run_inv) simp
  then show ?thesis using that [OF m(1,2)] m by (simp add: line_mouse.says_opt_def mh_says_def mh_ok_def)
qed

definition demo_page :: page where
  "demo_page = \<lparr>canvas_offset = (100, 40), container_offset = (0, 0), window_dims = (0, 0, 800),
     tip_gap = (10, 12), layout = (\<lambda>txt. (8 * of_nat (length txt), 16))\<rparr>"

lemma line_mouse_history_witness:
  "\<exists>s m0 m. line_render (\<lambda>_ _ _. False) line_defaults [VNum (Fin 1), VNum (Fin 3)] (new_line_chart demo_canvas) = Some s \<and>
     fold (mouse_step (\<lambda>_ _ _. False) (ln_disableHighlight line_defaults) line_getRegion
       (line_changeHighlight line_defaults) (\<lambda>r. ''value'') demo_page)
       [Enter (103, 45), Moved (110, 45), Moved (500, 500)] (Some m0) = Some m"
proof -
  obtain s where s: "line_render (\<lambda>_ _ _. False) line_defaults [VNum (Fin 1), VNum (Fin 3)]
      (new_line_chart demo_canvas) = Some s"
    by (rule line_render_good [OF demo_canvas_ok(1,2)])
  have r: "registerSparkline (\<lambda>_ _ _. False) (ln_disableHighlight line_defaults) line_getRegion
      (line_changeHighlight line_defaults) (\<lambda>r. ''value'') demo_page s (new_mouse False (vtarget s)) =
      Some ((new_mouse False (vtarget s))\<lparr>splist := [s]\<rparr>)"
    by (simp add: registerSparkline_def new_mouse_def)
  show ?thesis
    by (rule line_mouse_history [OF demo_canvas_ok(1,2) s r]) (use s in blast)
qed

end
