(* ===== verification/Spark_Keyed.thy ===== *)
theory Spark_Keyed
  imports Spark_Base
begin

text \<open>
  The charts that find their region by the shape under the mouse (pie and bullet in
  \<open>js/jquery.sparkline.js\<close>): a table from shape ids to regions (\<open>shapes\<close>) and one back
  (\<open>valueShapes\<close>). Both swap the shape of a region for a highlighted one and keep the two tables in
  step. The locale \<open>keyed_chart\<close> is such a chart, and a \<open>highlighter\<close>.
\<close>

record 'r keyed_base = "'r spark_base" +
  shapeRegions :: "nat \<Rightarrow> 'r option"     \<comment> \<open>\<open>this.shapes\<close>\<close>
  valueShapes :: "'r \<Rightarrow> nat option"

text \<open>\<open>target.getShapeAt\<close> and the lookup of its answer.\<close>

definition keyed_getRegion ::
  "(drawing \<Rightarrow> jsnum \<Rightarrow> jsnum \<Rightarrow> bool) \<Rightarrow> jsnum \<Rightarrow> jsnum \<Rightarrow> 'r keyed_base \<Rightarrow>
   ('r option \<times> 'r keyed_base) option" where
  "keyed_getRegion inpath x y s =
     (case getShapeAt inpath x y (vtarget s) of
        None \<Rightarrow> None
      | Some (shapeid, c) \<Rightarrow>
          Some (case shapeid of None \<Rightarrow> None | Some i \<Rightarrow> shapeRegions s i, s\<lparr>vtarget := c\<rparr>))"

text \<open>
  \<open>draw r hl\<close> is the drawing of a region, \<open>None\<close> when the chart returns \<open>undefined\<close> and the access to
  its id throws. The loop of \<open>replaceWithShape\<close> finds nothing for an undefined id.
\<close>

definition keyed_changeHighlight ::
  "('r \<Rightarrow> bool \<Rightarrow> drawing option) \<Rightarrow> bool \<Rightarrow> 'r keyed_base \<Rightarrow> 'r keyed_base option" where
  "keyed_changeHighlight draw hl s =
     (case currentRegion s of
        None \<Rightarrow> None
      | Some r \<Rightarrow>
          (case draw r hl of
             None \<Rightarrow> None
           | Some d \<Rightarrow>
               (let (sh, c) = genShape d (vtarget s);
                    regions = (case valueShapes s r of None \<Rightarrow> shapeRegions s
                               | Some i \<Rightarrow> (shapeRegions s)(i := None));
                    c = (case valueShapes s r of
                           None \<Rightarrow> c\<lparr>shapes := (shapes c)(sh_id sh \<mapsto> sh)\<rparr>
                         | Some i \<Rightarrow> replaceWithShape i sh c)
                in Some (s\<lparr>vtarget := c, shapeRegions := regions(sh_id sh \<mapsto> r),
                           valueShapes := (valueShapes s)(r \<mapsto> sh_id sh)\<rparr>))))"

definition keyed_append :: "'r \<Rightarrow> drawing \<Rightarrow> 'r keyed_base \<Rightarrow> 'r keyed_base" where
  "keyed_append r d s =
     (let (sh, c) = genShape d (vtarget s) in
      s\<lparr>vtarget := appendShape sh c, shapeRegions := (shapeRegions s)(sh_id sh \<mapsto> r),
        valueShapes := (valueShapes s)(r \<mapsto> sh_id sh)\<rparr>)"

text \<open>Drawing the regions of a list, in its order.\<close>

fun keyed_append_all :: "('r \<Rightarrow> bool \<Rightarrow> drawing option) \<Rightarrow> 'r list \<Rightarrow> 'r keyed_base \<Rightarrow> 'r keyed_base option" where
  "keyed_append_all draw [] s = Some s"
| "keyed_append_all draw (r # rs) s =
     (case draw r False of None \<Rightarrow> None | Some d \<Rightarrow> keyed_append_all draw rs (keyed_append r d s))"

definition new_keyed :: "canvas \<Rightarrow> 'r keyed_base" where
  "new_keyed c =
     \<lparr>currentRegion = None, canvasWidth = pixelWidth c, canvasHeight = pixelHeight c, vtarget = c,
      shapeRegions = (\<lambda>_. None), valueShapes = (\<lambda>_. None)\<rparr>"

section \<open>What the canvas shows\<close>

definition keyed_shows ::
  "('r \<Rightarrow> bool \<Rightarrow> drawing option) \<Rightarrow> 'r list \<Rightarrow> (nat \<times> drawing) list \<Rightarrow> ('r \<Rightarrow> bool) \<Rightarrow> 'r keyed_base \<Rightarrow> bool" where
  "keyed_shows draw rs P h s \<longleftrightarrow>
     canvas_wf (vtarget s) \<and> interact (vtarget s) \<and>
     layers (vtarget s) = P @ map (\<lambda>r. (the (valueShapes s r), the (draw r (h r)))) rs \<and>
     (\<forall>r \<in> set rs. valueShapes s r \<noteq> None) \<and>
     (\<forall>i r. shapeRegions s i = Some r \<longleftrightarrow> r \<in> set rs \<and> valueShapes s r = Some i)"

locale keyed_chart =
  fixes draw :: "'r \<Rightarrow> bool \<Rightarrow> drawing option"
    and rs :: "'r list"
    and P :: "(nat \<times> drawing) list"
    and inpath :: "drawing \<Rightarrow> jsnum \<Rightarrow> jsnum \<Rightarrow> bool"
    and disabled :: bool
  assumes rs_distinct: "distinct rs"
    and draw_some: "r \<in> set rs \<Longrightarrow> \<exists>d. draw r b = Some d \<and> drawable d"
begin

lemma region_shows:
  assumes sh: "keyed_shows draw rs P h s"
  shows "\<exists>r s'. keyed_getRegion inpath x y s = Some (r, s') \<and> keyed_shows draw rs P h s' \<and>
    currentRegion s' = currentRegion s \<and> (\<forall>q. r = Some q \<longrightarrow> q \<in> set rs)"
proof -
  have wf: "canvas_wf (vtarget s)" "interact (vtarget s)" using sh by (auto simp: keyed_shows_def)
  obtain i c where c: "getShapeAt inpath x y (vtarget s) = Some (i, c)" "canvas_wf c" "interact c"
    "layers c = layers (vtarget s)"
    using getShapeAt_spec [OF wf(1), of inpath x y] wf(2) by metis
  have "keyed_shows draw rs P h (s\<lparr>vtarget := c\<rparr>)" using sh c by (simp add: keyed_shows_def)
  moreover have "q \<in> set rs" if "(case i of None \<Rightarrow> None | Some i \<Rightarrow> shapeRegions s i) = Some q" for q
    using that sh by (cases i) (auto simp: keyed_shows_def)
  ultimately show ?thesis using c(1) by (auto simp: keyed_getRegion_def)
qed

lemma change_shows:
  assumes sh: "keyed_shows draw rs P h s" and cur: "currentRegion s = Some r" and r: "r \<in> set rs"
  shows "\<exists>s'. keyed_changeHighlight draw b s = Some s' \<and> keyed_shows draw rs P (h(r := b)) s' \<and>
    currentRegion s' = currentRegion s"
proof -
  have wf: "canvas_wf (vtarget s)" "interact (vtarget s)"
    and lay: "layers (vtarget s) = P @ map (\<lambda>r. (the (valueShapes s r), the (draw r (h r)))) rs"
    and vs: "\<And>r. r \<in> set rs \<Longrightarrow> valueShapes s r \<noteq> None"
    and reg: "\<And>i r. shapeRegions s i = Some r \<longleftrightarrow> r \<in> set rs \<and> valueShapes s r = Some i"
    using sh unfolding keyed_shows_def by auto
  obtain i where i: "valueShapes s r = Some i" using vs [OF r] by auto
  obtain d where d: "draw r b = Some d" "drawable d" using draw_some [OF r] by metis
  obtain g c where g: "genShape d (vtarget s) = (g, c)" by force
  obtain as bs where ab: "rs = as @ r # bs" using r by (meson split_list)
  have nr: "r \<notin> set as" "r \<notin> set bs" using rs_distinct ab by auto
  let ?f = "\<lambda>r. (the (valueShapes s r), the (draw r (h r)))"
  have "layers (vtarget s) = (P @ map ?f as) @ (i, the (draw r (h r))) # map ?f bs"
    using lay i by (simp add: ab)
  note new = vcanvas.replace_new [OF wf(1) d(2) g this]
  have fresh: "sh_id g \<notin> set (shapeseq (vtarget s))"
    using vcanvas.gen_law [OF wf(1) g] genShape_spec(3) [OF g] by (simp add: fresh_id_def)
  have seq: "j \<in> set (shapeseq (vtarget s))" if "q \<in> set rs" "valueShapes s q = Some j" for q j
  proof -
    have "(j, the (draw q (h q))) \<in> set (layers (vtarget s))" using that lay by force
    then show ?thesis by (metis fst_conv fst_layers image_eqI list.set_map)
  qed
  let ?s = "s\<lparr>vtarget := replaceWithShape i g c,
      shapeRegions := ((shapeRegions s)(i := None))(sh_id g \<mapsto> r),
      valueShapes := (valueShapes s)(r \<mapsto> sh_id g)\<rparr>"
  have inj: "q = r" if "q \<in> set rs" "valueShapes s q = Some i" for q
    using reg [of i q] reg [of i r] that i r by simp
  have regs: "shapeRegions ?s j = Some q \<longleftrightarrow> q \<in> set rs \<and> valueShapes ?s q = Some j" for j q
  proof (cases "q = r")
    case True
    have "shapeRegions s j = Some r \<Longrightarrow> j = i" using reg [of j r] i by simp
    then show ?thesis using True r by auto
  next
    case False
    have "\<not> (q \<in> set rs \<and> valueShapes s q = Some (sh_id g))" using seq [of q "sh_id g"] fresh by blast
    moreover have "\<not> (q \<in> set rs \<and> valueShapes s q = Some i)" using inj [of q] False by blast
    ultimately show ?thesis using False reg [of j q] by simp
  qed
  have "map (\<lambda>q. (the (valueShapes ?s q), the (draw q ((h(r := b)) q)))) rs =
      map ?f as @ (sh_id g, d) # map ?f bs"
    using nr d(1) by (auto simp: ab)
  then have "keyed_shows draw rs P (h(r := b)) ?s"
    using new wf(2) genShape_spec(9) [OF g] regs vs
    by (simp add: keyed_shows_def replaceWithShape_def)
  moreover have "keyed_changeHighlight draw b s = Some ?s"
    using cur d(1) g i by (simp add: keyed_changeHighlight_def)
  ultimately show ?thesis by auto
qed

end

sublocale keyed_chart \<subseteq> hl: highlighter "\<lambda>r. r \<in> set rs" "keyed_shows draw rs P"
  "keyed_getRegion inpath" "keyed_changeHighlight draw" inpath disabled
proof
  show "\<exists>r s'. keyed_getRegion inpath x y s = Some (r, s') \<and> keyed_shows draw rs P h s' \<and>
      currentRegion s' = currentRegion s \<and> (\<forall>q. r = Some q \<longrightarrow> q \<in> set rs)"
    if "keyed_shows draw rs P h s" for h s x y
    by (rule region_shows [OF that])
  show "\<exists>s'. keyed_changeHighlight draw b s = Some s' \<and> keyed_shows draw rs P (h(r := b)) s' \<and>
      currentRegion s' = currentRegion s"
    if "keyed_shows draw rs P h s" "currentRegion s = Some r" "r \<in> set rs" for h s r b
    by (rule change_shows [OF that])
qed (auto simp: keyed_shows_def)

context keyed_chart
begin

text \<open>While the chart is drawn, the regions of \<open>as\<close> are on the canvas.\<close>

lemma append_step:
  assumes sh: "keyed_shows draw as P (\<lambda>_. False) s" and r: "r \<notin> set as" "draw r False = Some d" "drawable d"
  shows "keyed_shows draw (as @ [r]) P (\<lambda>_. False) (keyed_append r d s)"
proof -
  have wf: "canvas_wf (vtarget s)" "interact (vtarget s)"
    and lay: "layers (vtarget s) = P @ map (\<lambda>r. (the (valueShapes s r), the (draw r False))) as"
    and vs: "\<And>r. r \<in> set as \<Longrightarrow> valueShapes s r \<noteq> None"
    and reg: "\<And>i r. shapeRegions s i = Some r \<longleftrightarrow> r \<in> set as \<and> valueShapes s r = Some i"
    using sh unfolding keyed_shows_def by auto
  obtain g c where g: "genShape d (vtarget s) = (g, c)" by force
  note new = vcanvas.append_new [OF wf(1) r(3) g]
  have fresh: "sh_id g \<notin> set (shapeseq (vtarget s))"
    using vcanvas.gen_law [OF wf(1) g] genShape_spec(3) [OF g] by (simp add: fresh_id_def)
  have seq: "j \<in> set (shapeseq (vtarget s))" if "q \<in> set as" "valueShapes s q = Some j" for q j
  proof -
    have "(j, the (draw q False)) \<in> set (layers (vtarget s))" using that lay by force
    then show ?thesis by (metis fst_conv fst_layers image_eqI list.set_map)
  qed
  let ?s = "keyed_append r d s"
  have s': "?s = s\<lparr>vtarget := appendShape g c, shapeRegions := (shapeRegions s)(sh_id g \<mapsto> r),
        valueShapes := (valueShapes s)(r \<mapsto> sh_id g)\<rparr>"
    using g by (simp add: keyed_append_def)
  have regs: "shapeRegions ?s j = Some q \<longleftrightarrow> q \<in> set (as @ [r]) \<and> valueShapes ?s q = Some j" for j q
  proof (cases "q = r")
    case True
    have "shapeRegions s j \<noteq> Some r" using reg [of j r] r(1) by simp
    then show ?thesis using True by (simp add: s')
  next
    case False
    have "\<not> (q \<in> set as \<and> valueShapes s q = Some (sh_id g))" using seq [of q "sh_id g"] fresh by blast
    then show ?thesis using False reg [of j q] by (auto simp: s')
  qed
  have "map (\<lambda>q. (the (valueShapes ?s q), the (draw q False))) as =
      map (\<lambda>r. (the (valueShapes s r), the (draw r False))) as"
    using r(1) by (auto simp: s')
  then show ?thesis
    using new wf(2) genShape_spec(9) [OF g] regs vs lay r(2) unfolding keyed_shows_def
    by (simp add: s' appendShape_def)
qed

lemma append_all_shows:
  "keyed_shows draw as P (\<lambda>_. False) s \<Longrightarrow> distinct (as @ bs) \<Longrightarrow>
   \<forall>r \<in> set bs. \<exists>d. draw r False = Some d \<and> drawable d \<Longrightarrow> currentRegion s = None \<Longrightarrow>
   \<exists>s'. keyed_append_all draw bs s = Some s' \<and> keyed_shows draw (as @ bs) P (\<lambda>_. False) s' \<and>
     currentRegion s' = None"
proof (induction bs arbitrary: as s)
  case (Cons b bs)
  obtain d where d: "draw b False = Some d" "drawable d" using Cons.prems(3) by auto
  have "keyed_shows draw (as @ [b]) P (\<lambda>_. False) (keyed_append b d s)"
    by (rule append_step) (use Cons.prems d in auto)
  moreover have "currentRegion (keyed_append b d s) = None"
    using Cons.prems(4) by (simp add: keyed_append_def split: prod.splits)
  ultimately show ?case using Cons.IH [of "as @ [b]" "keyed_append b d s"] Cons.prems d by simp
qed simp

lemma life_shows:
  assumes "canvas_wf c" "interact c" "layers c = P"
  obtains s0 s t where "keyed_append_all draw rs (new_keyed c) = Some s0" "repaint inpath s0 = Some s"
    "fold (spark_step inpath disabled (keyed_getRegion inpath) (keyed_changeHighlight draw)) es (Some s) = Some t"
    "keyed_shows draw rs P (highlighted_region disabled t) t"
proof -
  have "keyed_shows draw [] P (\<lambda>_. False) (new_keyed c)"
    using assms by (simp add: keyed_shows_def new_keyed_def)
  then obtain s0 where s0: "keyed_append_all draw rs (new_keyed c) = Some s0"
    "keyed_shows draw rs P (\<lambda>_. False) s0" "currentRegion s0 = None"
    using append_all_shows [of "[]" "new_keyed c" rs] rs_distinct draw_some by (auto simp: new_keyed_def)
  have "highlighted_region disabled s0 = (\<lambda>_. False)"
    using s0(3) by (simp add: highlighted_region_def fun_eq_iff)
  then have "hl.good s0" using s0 by (simp add: hl.good_def)
  then obtain s where s: "repaint inpath s0 = Some s" "hl.good s" by (rule hl.repaint_good)
  obtain t where "fold (spark_step inpath disabled (keyed_getRegion inpath) (keyed_changeHighlight draw)) es (Some s) = Some t"
    "keyed_shows draw rs P (highlighted_region disabled t) t"
    using hl.history_shows [OF s(2)] by metis
  then show ?thesis using that s0(1) s(1) by metis
qed

end

lemma keyed_shows_picture:
  "keyed_shows draw rs P h s \<Longrightarrow>
   map snd (layers (vtarget s)) = map snd P @ map (\<lambda>r. the (draw r (h r))) rs"
  by (simp add: keyed_shows_def o_def)

end
