(* ===== verification/Spark_Pie.thy ===== *)
theory Spark_Pie
  imports Spark_Keyed Spark_Bar_Props
begin

text \<open>
  The pie charts of \<open>js/jquery.sparkline.js\<close>: slices, their order on the canvas, and the properties
  that the slices tile the circle and that the picture always shows the slice under the mouse
  highlighted.
\<close>

record pie_cfg =
  pie_values :: "jsnum list"
  pie_total :: jsnum
  pie_radius :: jsnum
  borderWidth :: jsnum
  borderColor :: colour
  pie_offset :: jsnum
  sliceColors :: "colour list"
  pie_hl :: hl_options

definition truthy_num :: "jsnum \<Rightarrow> bool" where
  "truthy_num x \<longleftrightarrow> x \<noteq> Fin 0 \<and> x \<noteq> NaN"

definition pie_init ::
  "jsval list \<Rightarrow> canvas \<Rightarrow> jsnum \<Rightarrow> colour \<Rightarrow> jsnum \<Rightarrow> colour list \<Rightarrow> hl_options \<Rightarrow> pie_cfg" where
  "pie_init vals c bw bc off cs hl =
     (let values = map to_num vals
      in \<lparr>pie_values = values, pie_total = foldr (\<lambda>v tot. tot + v) values (Fin 0),
          pie_radius = num_floor (num_min (pixelWidth c) (pixelHeight c) / Fin 2),
          borderWidth = bw, borderColor = bc, pie_offset = off, sliceColors = cs, pie_hl = hl\<rparr>)"

definition circle :: jsnum where "circle = Fin (2 * math_PI)"

definition pie_start :: "pie_cfg \<Rightarrow> jsnum" where
  "pie_start p =
     (if truthy_num (pie_offset p) then circle * (pie_offset p / Fin 360) else Fin 0)"

text \<open>The loop of \<open>renderSlice\<close>: the angles accumulate until the asked slice is reached.\<close>

fun slice_loop :: "pie_cfg \<Rightarrow> nat \<Rightarrow> bool \<Rightarrow> nat \<Rightarrow> jsnum \<Rightarrow> jsnum list \<Rightarrow> drawing option" where
  "slice_loop p valuenum highlight i nxt [] = None"
| "slice_loop p valuenum highlight i nxt (v # vs) =
     (let start = nxt;
          stop = (if pie_total p > Fin 0 then nxt + circle * (v / pie_total p) else nxt)
      in if valuenum = i then
           (let n = length (sliceColors p);
                color = (if n = 0 then None else sliceColors p ! (i mod n));
                color = hl_colour highlight (pie_hl p) color
            in Some (drawPieSlice (pie_radius p) (pie_radius p) (pie_radius p - borderWidth p)
                       start stop None color))
         else slice_loop p valuenum highlight (Suc i) stop vs)"

definition renderSlice :: "pie_cfg \<Rightarrow> nat \<Rightarrow> bool \<Rightarrow> drawing option" where
  "renderSlice p valuenum highlight = slice_loop p valuenum highlight 0 (pie_start p) (pie_values p)"

definition pie_changeHighlight :: "pie_cfg \<Rightarrow> bool \<Rightarrow> nat keyed_base \<Rightarrow> nat keyed_base option" where
  "pie_changeHighlight p = keyed_changeHighlight (renderSlice p)"

text \<open>The slices that are drawn, in drawing order: zero (and \<open>NaN\<close>) values are not.\<close>

definition pie_regions :: "pie_cfg \<Rightarrow> nat list" where
  "pie_regions p = filter (\<lambda>i. truthy_num (pie_values p ! i)) (rev [0..<length (pie_values p)])"

definition pie_border :: "pie_cfg \<Rightarrow> canvas \<Rightarrow> canvas" where
  "pie_border p c =
     (if truthy_num (borderWidth p) then
        (let (sh, c) = genShape (drawCircle (pie_radius p) (pie_radius p)
                          (num_floor (pie_radius p - borderWidth p / Fin 2))
                          (borderColor p) None (Some (borderWidth p))) c
         in appendShape sh c)
      else c)"

definition pie_render ::
  "(drawing \<Rightarrow> jsnum \<Rightarrow> jsnum \<Rightarrow> bool) \<Rightarrow> pie_cfg \<Rightarrow> canvas \<Rightarrow> nat keyed_base option" where
  "pie_render inpath p c =
     Option.bind (keyed_append_all (renderSlice p) (pie_regions p) (new_keyed (pie_border p c)))
       (repaint inpath)"

section \<open>Slices\<close>

lemma slice_loop_some:
  "i \<le> valuenum \<Longrightarrow> valuenum < i + length vs \<Longrightarrow>
   \<exists>a b col. slice_loop p valuenum hl i nxt vs =
     Some (DPie (pie_radius p) (pie_radius p) (pie_radius p - borderWidth p) a b None col)"
  by (induction vs arbitrary: i nxt) (auto simp: Let_def drawPieSlice_def)

interpretation pie: keyed_chart "renderSlice p" "pie_regions p" P inpath "disableHighlight (pie_hl p)"
  for p P inpath
proof
  show "distinct (pie_regions p)" by (simp add: pie_regions_def)
  show "\<exists>d. renderSlice p r b = Some d \<and> drawable d" if "r \<in> set (pie_regions p)" for r b
  proof -
    have "r < length (pie_values p)" using that by (simp add: pie_regions_def)
    then show ?thesis
      using slice_loop_some [of 0 r "pie_values p" p b "pie_start p"]
      by (auto simp: renderSlice_def drawable_def)
  qed
qed

lemma foldr_sum_fin: "foldr (\<lambda>v tot. tot + v) (map Fin xs) (Fin 0) = Fin (sum_list xs)"
  by (induction xs) (simp_all add: add.commute)

text \<open>The angle at which slice \<open>i\<close> of finite values starts.\<close>

definition slice_angle :: "rat \<Rightarrow> rat list \<Rightarrow> nat \<Rightarrow> rat" where
  "slice_angle off xs i = off + 2 * math_PI * (sum_list (take i xs) / sum_list xs)"

lemma slice_loop_angles:
  assumes T: "pie_total p = Fin tot" "0 < tot"
  shows "k < length vs \<Longrightarrow>
    \<exists>col. slice_loop p (i + k) hl i (Fin a) (map Fin vs) =
      Some (DPie (pie_radius p) (pie_radius p) (pie_radius p - borderWidth p)
        (Fin (a + 2 * math_PI * (sum_list (take k vs) / tot)))
        (Fin (a + 2 * math_PI * (sum_list (take (Suc k) vs) / tot))) None col)"
proof (induction vs arbitrary: i k a)
  case (Cons v vs)
  show ?case
  proof (cases k)
    case 0
    then show ?thesis using T by (simp add: Let_def drawPieSlice_def circle_def)
  next
    case (Suc j)
    let ?b = "a + 2 * math_PI * (v / tot)"
    have ang: "?b + 2 * math_PI * (x / tot) = a + 2 * math_PI * ((v + x) / tot)" for x
      by (simp add: add_divide_distrib algebra_simps)
    have ih: "\<exists>col. slice_loop p (Suc i + j) hl (Suc i) (Fin ?b) (map Fin vs) =
      Some (DPie (pie_radius p) (pie_radius p) (pie_radius p - borderWidth p)
        (Fin (?b + 2 * math_PI * (sum_list (take j vs) / tot)))
        (Fin (?b + 2 * math_PI * (sum_list (take (Suc j) vs) / tot))) None col)"
      by (rule Cons.IH) (use Cons.prems Suc in simp)
    then show ?thesis using ih [unfolded ang] T Suc by (simp add: Let_def circle_def)
  qed
qed simp

lemma math_PI_pos: "0 < math_PI" by (simp add: math_PI_def)

text \<open>
  C38: the slices of a pie of values that are not negative and not all zero tile the circle: each
  starts where the one before it ends, the last ends a full turn after the first starts, and each
  spans its share of the total.
\<close>

theorem pie_slices_tile:
  assumes nn: "\<forall>x \<in> set xs. 0 \<le> x" and pos: "0 < sum_list xs" and i: "i < length xs"
    and off: "pie_start (pie_init (map (\<lambda>x. VNum (Fin x)) xs) c bw bc o' cs hlo) = Fin off"
  shows "(\<exists>r1 r2 r3 col. renderSlice (pie_init (map (\<lambda>x. VNum (Fin x)) xs) c bw bc o' cs hlo) i hl =
      Some (DPie r1 r2 r3 (Fin (slice_angle off xs i)) (Fin (slice_angle off xs (Suc i))) None col)) \<and>
    slice_angle off xs 0 = off \<and> slice_angle off xs (length xs) = off + 2 * math_PI \<and>
    slice_angle off xs i \<le> slice_angle off xs (Suc i) \<and>
    slice_angle off xs (Suc i) - slice_angle off xs i = 2 * math_PI * (xs ! i / sum_list xs)"
proof -
  let ?p = "pie_init (map (\<lambda>x. VNum (Fin x)) xs) c bw bc o' cs hlo"
  have vals: "pie_values ?p = map Fin xs" "pie_total ?p = Fin (sum_list xs)"
    by (simp_all add: pie_init_def Let_def o_def foldr_sum_fin)
  have share: "slice_angle off xs (Suc i) - slice_angle off xs i = 2 * math_PI * (xs ! i / sum_list xs)"
    using i by (simp add: slice_angle_def take_Suc_conv_app_nth add_divide_distrib algebra_simps)
  have "0 \<le> 2 * math_PI * (xs ! i / sum_list xs)"
    using nn i pos math_PI_pos by (intro mult_nonneg_nonneg divide_nonneg_pos) auto
  then have mono: "slice_angle off xs i \<le> slice_angle off xs (Suc i)" using share by linarith
  show ?thesis
    using slice_loop_angles [OF vals(2) pos i, of 0 hl off] share mono pos
    by (auto simp: renderSlice_def vals(1) off slice_angle_def)
qed

lemma pie_slices_tile_witness:
  "\<exists>r1 r2 r3 col. renderSlice (pie_init (map (\<lambda>x. VNum (Fin x)) [1, 2, 5]) demo_canvas (Fin 0) None (Fin 0)
      [Some ''#3366cc''] demo_hl) 1 False =
    Some (DPie r1 r2 r3 (Fin (slice_angle 0 [1, 2, 5] 1)) (Fin (slice_angle 0 [1, 2, 5] 2)) None col)"
  using pie_slices_tile [of "[1, 2, 5]" 1 demo_canvas "Fin 0" None "Fin 0" "[Some ''#3366cc'']" demo_hl 0 False]
  by (simp add: pie_start_def truthy_num_def pie_init_def Let_def numeral_2_eq_2)

text \<open>
  A drawn pie survives every history of mouse movements, repaints and shapes drawn elsewhere, and
  shows, behind what was on the canvas and its border, exactly its slices in order, the current one
  highlighted.
\<close>

theorem pie_history_picture:
  assumes "canvas_wf c" "interact c"
  obtains s t where "pie_render inpath p c = Some s"
    "fold (spark_step inpath (disableHighlight (pie_hl p)) (keyed_getRegion inpath) (pie_changeHighlight p)) es (Some s) =
       Some t"
    "picture t = map snd (layers (pie_border p c)) @
       map (\<lambda>r. the (renderSlice p r (highlighted_region (disableHighlight (pie_hl p)) t r))) (pie_regions p)"
proof -
  have "canvas_wf (pie_border p c)" "interact (pie_border p c)"
  proof -
    obtain sh k where g: "genShape (drawCircle (pie_radius p) (pie_radius p)
        (num_floor (pie_radius p - borderWidth p / Fin 2)) (borderColor p) None (Some (borderWidth p))) c = (sh, k)"
      by force
    have dr: "drawable (drawCircle x y r lc fc lw)" for x y r lc fc lw
      by (simp add: drawable_def drawCircle_def)
    show "canvas_wf (pie_border p c)" "interact (pie_border p c)"
      using vcanvas.append_new(1) [OF assms(1) dr g] genShape_spec(9) [OF g] assms
      by (auto simp: pie_border_def g appendShape_def)
  qed
  then obtain s0 s t where st: "keyed_append_all (renderSlice p) (pie_regions p) (new_keyed (pie_border p c)) = Some s0"
    "repaint inpath s0 = Some s"
    "fold (spark_step inpath (disableHighlight (pie_hl p)) (keyed_getRegion inpath) (keyed_changeHighlight (renderSlice p)))
       es (Some s) = Some t"
    "keyed_shows (renderSlice p) (pie_regions p) (layers (pie_border p c))
       (highlighted_region (disableHighlight (pie_hl p)) t) t"
    by (rule pie.life_shows [OF _ _ refl])
  show ?thesis
    by (rule that [of s t])
      (use st keyed_shows_picture [OF st(4)] in \<open>simp_all add: pie_render_def pie_changeHighlight_def\<close>)
qed

lemma pie_history_picture_witness:
  "\<exists>s t. pie_render (\<lambda>_ _ _. True) (pie_init [VNum (Fin 1), VNum (Fin 3)] demo_canvas (Fin 0) None (Fin 0)
       [Some ''#3366cc''] demo_hl) demo_canvas = Some s \<and>
     fold (spark_step (\<lambda>_ _ _. True) (disableHighlight (pie_hl (pie_init [VNum (Fin 1), VNum (Fin 3)] demo_canvas
         (Fin 0) None (Fin 0) [Some ''#3366cc''] demo_hl))) (keyed_getRegion (\<lambda>_ _ _. True))
       (pie_changeHighlight (pie_init [VNum (Fin 1), VNum (Fin 3)] demo_canvas (Fin 0) None (Fin 0)
         [Some ''#3366cc''] demo_hl))) [Hover (Fin 3) (Fin 3), Leave] (Some s) = Some t"
  by (rule pie_history_picture [OF demo_canvas_ok(1,2)]) blast

end
