(* ===== verification/Spark_Bullet.thy ===== *)
theory Spark_Bullet
  imports Spark_Keyed Spark_Bar_Props
begin

text \<open>
  The bullet charts of \<open>js/jquery.sparkline.js\<close>: the values are the target, the performance and the
  ranges; each is a rectangle, and its region key \<open>t0\<close>, \<open>p1\<close>, \<open>r2\<close>, ... is a constructor here.
\<close>

datatype bullet_region = RRange nat | RPerf | RTarget

record bullet_cfg =
  bl_values :: "jsval list"
  bl_min :: jsnum
  bl_max :: jsnum
  bl_range :: jsnum
  bl_width :: jsnum
  bl_height :: jsnum
  rangeColors :: "colour list"
  performanceColor :: colour
  targetColor :: colour
  targetWidth :: jsnum
  bl_hl :: hl_options

text \<open>
  The array \<open>vals\<close>, in which the code replaces a null target or performance by the first range, is not
  read afterwards: minimum and maximum are those of \<open>values\<close>, where \<open>null\<close> counts as 0.
\<close>

definition bullet_init ::
  "jsval list \<Rightarrow> jsnum option \<Rightarrow> canvas \<Rightarrow> colour list \<Rightarrow> colour \<Rightarrow> colour \<Rightarrow> jsnum \<Rightarrow> hl_options \<Rightarrow> bullet_cfg" where
  "bullet_init vs base c rc pc tc tw hl =
     (let values = normalizeValues vs;
          mn0 = math_min (map to_num values);
          mx = math_max (map to_num values);
          mn = (case base of None \<Rightarrow> if mn0 < Fin 0 then mn0 else Fin 0 | Some b \<Rightarrow> b)
      in \<lparr>bl_values = values, bl_min = mn, bl_max = mx, bl_range = mx - mn, bl_width = pixelWidth c,
          bl_height = pixelHeight c, rangeColors = rc, performanceColor = pc, targetColor = tc,
          targetWidth = tw, bl_hl = hl\<rparr>)"

definition bl_value :: "bullet_cfg \<Rightarrow> nat \<Rightarrow> jsnum" where
  "bl_value b i = (if i < length (bl_values b) then to_num (bl_values b ! i) else NaN)"

definition renderRange :: "bullet_cfg \<Rightarrow> nat \<Rightarrow> bool \<Rightarrow> drawing" where
  "renderRange b rn highlight =
     (let rangewidth = num_round (bl_width b * ((bl_value b rn - bl_min b) / bl_range b));
          color = (case js_nth (rangeColors b) (int rn - 2) of None \<Rightarrow> None | Some c \<Rightarrow> c);
          color = hl_colour highlight (bl_hl b) color
      in drawRect (Fin 0) (Fin 0) (rangewidth - Fin 1) (bl_height b - Fin 1) color color)"

definition renderPerformance :: "bullet_cfg \<Rightarrow> bool \<Rightarrow> drawing" where
  "renderPerformance b highlight =
     (let perfwidth = num_round (bl_width b * ((bl_value b 1 - bl_min b) / bl_range b));
          color = hl_colour highlight (bl_hl b) (performanceColor b)
      in drawRect (Fin 0) (num_round (bl_height b * Fin (3 / 10))) (perfwidth - Fin 1)
           (num_round (bl_height b * Fin (4 / 10)) - Fin 1) color color)"

definition renderTarget :: "bullet_cfg \<Rightarrow> bool \<Rightarrow> drawing" where
  "renderTarget b highlight =
     (let x = num_round (bl_width b * ((bl_value b 0 - bl_min b) / bl_range b) - targetWidth b / Fin 2);
          targettop = num_round (bl_height b * Fin (1 / 10));
          targetheight = bl_height b - targettop * Fin 2;
          color = hl_colour highlight (bl_hl b) (targetColor b)
      in drawRect x targettop (targetWidth b - Fin 1) (targetheight - Fin 1) color color)"

text \<open>The \<open>switch\<close> of \<open>changeHighlight\<close> on the first letter of the region key.\<close>

fun bullet_draw :: "bullet_cfg \<Rightarrow> bullet_region \<Rightarrow> bool \<Rightarrow> drawing option" where
  "bullet_draw b (RRange rn) highlight = Some (renderRange b rn highlight)"
| "bullet_draw b RPerf highlight = Some (renderPerformance b highlight)"
| "bullet_draw b RTarget highlight = Some (renderTarget b highlight)"

definition bullet_changeHighlight ::
  "bullet_cfg \<Rightarrow> bool \<Rightarrow> bullet_region keyed_base \<Rightarrow> bullet_region keyed_base option" where
  "bullet_changeHighlight b = keyed_changeHighlight (bullet_draw b)"

text \<open>\<open>undefined\<close> is not \<open>null\<close>: without a value the performance and the target are drawn (with \<open>NaN\<close>).\<close>

definition bullet_regions :: "bullet_cfg \<Rightarrow> bullet_region list" where
  "bullet_regions b =
     map RRange [2..<length (bl_values b)] @
     (if js_nth (bl_values b) 1 \<noteq> Some VNull then [RPerf] else []) @
     (if js_nth (bl_values b) 0 \<noteq> Some VNull then [RTarget] else [])"

text \<open>A chart without values is disabled; \<open>render\<close> then only empties the element.\<close>

definition bullet_render ::
  "(drawing \<Rightarrow> jsnum \<Rightarrow> jsnum \<Rightarrow> bool) \<Rightarrow> bullet_cfg \<Rightarrow> canvas \<Rightarrow> bullet_region keyed_base option" where
  "bullet_render inpath b c =
     (if bl_values b = [] then Some (new_keyed c)
      else Option.bind (keyed_append_all (bullet_draw b) (bullet_regions b) (new_keyed c)) (repaint inpath))"

interpretation bullet: keyed_chart "bullet_draw b" "bullet_regions b" P inpath "disableHighlight (bl_hl b)"
  for b P inpath
proof
  show "distinct (bullet_regions b)" by (auto simp: bullet_regions_def distinct_map inj_on_def)
  show "\<exists>d. bullet_draw b r hl = Some d \<and> drawable d" for r hl
    by (cases r) (simp_all add: renderRange_def renderPerformance_def renderTarget_def Let_def)
qed

text \<open>
  A drawn bullet chart shows, after every history of events, its ranges, the performance bar and
  the target in this order, the region under the mouse highlighted, and never throws.
\<close>

theorem bullet_history_picture:
  assumes "canvas_wf c" "interact c" "bl_values b \<noteq> []"
  obtains s t where "bullet_render inpath b c = Some s"
    "fold (spark_step inpath (disableHighlight (bl_hl b)) (keyed_getRegion inpath) (bullet_changeHighlight b)) es (Some s) =
       Some t"
    "picture t = map snd (layers c) @
       map (\<lambda>r. the (bullet_draw b r (highlighted_region (disableHighlight (bl_hl b)) t r))) (bullet_regions b)"
proof -
  obtain s0 s t where st: "keyed_append_all (bullet_draw b) (bullet_regions b) (new_keyed c) = Some s0"
    "repaint inpath s0 = Some s"
    "fold (spark_step inpath (disableHighlight (bl_hl b)) (keyed_getRegion inpath) (keyed_changeHighlight (bullet_draw b)))
       es (Some s) = Some t"
    "keyed_shows (bullet_draw b) (bullet_regions b) (layers c) (highlighted_region (disableHighlight (bl_hl b)) t) t"
    by (rule bullet.life_shows [OF assms(1,2) refl])
  show ?thesis
    by (rule that [of s t])
      (use st assms(3) keyed_shows_picture [OF st(4)] in \<open>simp_all add: bullet_render_def bullet_changeHighlight_def\<close>)
qed

definition demo_bullet :: bullet_cfg where
  "demo_bullet = bullet_init [VNum (Fin 10), VNum (Fin 8), VNum (Fin 12), VNum (Fin 9)] None demo_canvas
     [Some ''#d3dafe'', Some ''#a8b6ff''] (Some ''#33f'') (Some ''#f33'') (Fin 3) demo_hl"

lemma bullet_history_picture_witness:
  "\<exists>s t. bullet_render (\<lambda>_ _ _. True) demo_bullet demo_canvas = Some s \<and>
     fold (spark_step (\<lambda>_ _ _. True) (disableHighlight (bl_hl demo_bullet)) (keyed_getRegion (\<lambda>_ _ _. True))
       (bullet_changeHighlight demo_bullet)) [Hover (Fin 3) (Fin 3), Leave] (Some s) = Some t"
proof -
  have "bl_values demo_bullet \<noteq> []" by (simp add: demo_bullet_def bullet_init_def normalizeValues_def Let_def)
  then show ?thesis by (rule bullet_history_picture [OF demo_canvas_ok(1,2)]) blast
qed

lemma to_num_number: "to_num (normalizeValue (VNum x)) = x"
  by (simp add: normalizeValue_def)

text \<open>
  With values that are not negative and not all zero and no \<open>base\<close>, the rectangle of every range
  spans the canvas from its left edge to the share of its value in the greatest one: a greater value
  never has the narrower rectangle, and none leaves the canvas.
\<close>

theorem bullet_range_widths:
  assumes nn: "\<forall>x \<in> set xs. 0 \<le> x" and pos: "0 < Max (set xs)" and i: "i < length xs"
    and cw: "pixelWidth c = Fin (of_int w)" "0 \<le> w"
  shows "\<exists>n col h. renderRange (bullet_init (map (\<lambda>x. VNum (Fin x)) xs) None c rc pc tc tw hlo) i hl =
      DRect (Fin 0) (Fin 0) (Fin (of_int (n - 1))) h col col \<and> 0 \<le> n \<and> n \<le> w \<and>
      n = js_round (of_int w * (xs ! i / Max (set xs))) \<and>
      (\<forall>j. j < length xs \<and> xs ! i \<le> xs ! j \<longrightarrow> n \<le> js_round (of_int w * (xs ! j / Max (set xs))))"
proof -
  let ?b = "bullet_init (map (\<lambda>x. VNum (Fin x)) xs) None c rc pc tc tw hlo" and ?M = "Max (set xs)"
  have ne: "xs \<noteq> []" using i by auto
  have vals: "map to_num (normalizeValues (map (\<lambda>x. VNum (Fin x)) xs)) = map Fin xs"
    by (simp add: normalizeValues_def to_num_number)
  have "\<not> Min (set xs) < 0" using nn ne by (simp add: not_less)
  then have b: "bl_min ?b = Fin 0" "bl_range ?b = Fin ?M" "bl_width ?b = Fin (of_int w)"
    using cw by (simp_all add: bullet_init_def Let_def vals math_min_fin [OF ne] math_max_fin [OF ne])
  have v: "bl_value ?b i = Fin (xs ! i)"
    using i by (simp add: bl_value_def bullet_init_def Let_def normalizeValues_def to_num_number)
  let ?q = "of_int w * (xs ! i / ?M)"
  have r: "\<exists>col h. renderRange ?b i hl = DRect (Fin 0) (Fin 0) (Fin (of_int (js_round ?q - 1))) h col col"
    using pos by (simp add: renderRange_def b v drawRect_def Let_def)
  have q: "0 \<le> xs ! i / ?M" "xs ! i / ?M \<le> 1" using nn i pos by auto
  have "0 \<le> js_round ?q" by (rule js_round_nonneg) (use q(1) cw(2) in \<open>simp only: mult_nonneg_nonneg of_int_0_le_iff\<close>)
  moreover have "?q \<le> of_int w" using q(2) cw(2) by (intro mult_left_le) simp_all
  moreover have "?q \<le> of_int w * (xs ! j / ?M)" if "xs ! i \<le> xs ! j" for j
    using that pos cw(2) by (intro mult_left_mono divide_right_mono) simp_all
  ultimately show ?thesis
    using r js_round_le js_round_mono by (auto intro!: exI [of _ "js_round ?q"])
qed

lemma bullet_range_widths_witness:
  "\<exists>n col h. renderRange (bullet_init (map (\<lambda>x. VNum (Fin x)) [10, 8, 12]) None demo_canvas [None] None None
      (Fin 3) demo_hl) 2 False = DRect (Fin 0) (Fin 0) (Fin (of_int (n - 1))) h col col \<and> 0 \<le> n \<and> n \<le> 15"
proof -
  have w: "pixelWidth demo_canvas = Fin (of_int 15)" by (simp add: demo_canvas_def new_canvas_def)
  show ?thesis using bullet_range_widths [OF _ _ _ w, of "[10, 8, 12]" 2 "[None]" None None "Fin 3" demo_hl False]
    by auto
qed

end
