(* ===== verification/Spark_Fields.thy ===== *)
theory Spark_Fields
  imports Spark_Format Spark_Options Spark_Mouse Spark_Pie Spark_Bullet
begin

text \<open>
  What the charts of \<open>js/jquery.sparkline.js\<close> tell of their current region
  (\<open>getCurrentRegionFields\<close>), and the tooltips that come out of it.
\<close>

definition colour_val :: "colour \<Rightarrow> jsval" where
  "colour_val c = (case c of None \<Rightarrow> VUndef | Some s \<Rightarrow> VStr s)"

definition nth_val :: "jsval list \<Rightarrow> int \<Rightarrow> jsval" where
  "nth_val vs i = (case js_nth vs i of None \<Rightarrow> VUndef | Some v \<Rightarrow> v)"

definition nth_num :: "jsnum list \<Rightarrow> int \<Rightarrow> jsval" where
  "nth_num vs i = nth_val (map VNum vs) i"

definition line_fields :: "line_opts \<Rightarrow> scanned \<Rightarrow> nat \<Rightarrow> field_set list" where
  "line_fields opts sc r =
     (let y = nth_val (map (\<lambda>y. case y of None \<Rightarrow> VNull | Some v \<Rightarrow> VNum v) (yvalues sc)) (int r) in
      [[(''isNull'', VBool (y = VNull)), (''x'', nth_num (xvalues sc) (int r)), (''y'', y),
        (''color'', colour_val (lineColor opts)), (''fillColor'', colour_val (fillColor opts)),
        (''offset'', VNum (Fin (of_nat r)))]])"

definition bar_fields :: "bar_cfg \<Rightarrow> int \<Rightarrow> field_set list" where
  "bar_fields b r =
     (let vals = ensureArray (nth_val (bar_values b) r) in
      rev (map_index (\<lambda>i v. [(''isNull'', VBool (v = VNull)), (''value'', v),
        (''color'', colour_val (bar_calcColor b i (to_num v) r)), (''offset'', VNum (Fin (of_int r)))]) vals))"

definition tristate_fields :: "tristate_cfg \<Rightarrow> int \<Rightarrow> field_set list" where
  "tristate_fields t r =
     (let v = nth_num (ts_values t) r in
      [[(''isNull'', VBool (v = VUndef)), (''value'', v),
        (''color'', case tristate_calcColor t (to_num v) r of None \<Rightarrow> VNull | Some c \<Rightarrow> colour_val c),
        (''offset'', VNum (Fin (of_int r)))]])"

definition discrete_fields :: "discrete_cfg \<Rightarrow> int \<Rightarrow> field_set list" where
  "discrete_fields d r =
     (let v = nth_num (dc_values d) r in
      [[(''isNull'', VBool (v = VUndef)), (''value'', v), (''offset'', VNum (Fin (of_int r)))]])"

text \<open>The key of a region is a letter and an index: \<open>r2\<close>, \<open>p1\<close>, \<open>t0\<close>.\<close>

fun region_key :: "bullet_region \<Rightarrow> char \<times> nat" where
  "region_key (RRange i) = (CHR ''r'', i)"
| "region_key RPerf = (CHR ''p'', 1)"
| "region_key RTarget = (CHR ''t'', 0)"

definition bullet_fields :: "bullet_cfg \<Rightarrow> bullet_region \<Rightarrow> field_set list" where
  "bullet_fields b r =
     (let (c, i) = region_key r in
      [[(''fieldkey'', VStr [c]), (''value'', nth_val (bl_values b) (int i)), (''region'', VStr (c # show_nat i))]])"

definition pie_fields :: "pie_cfg \<Rightarrow> nat \<Rightarrow> field_set list" where
  "pie_fields p r =
     (let v = nth_num (pie_values p) (int r); n = length (sliceColors p) in
      [[(''isNull'', VBool (v = VUndef)), (''value'', v),
        (''percent'', VNum (to_num v / pie_total p * Fin 100)),
        (''color'', if n = 0 then VUndef else colour_val (sliceColors p ! (r mod n))),
        (''offset'', VNum (Fin (of_nat r)))]])"

definition box_fields :: "box_numbers \<Rightarrow> field_set list" where
  "box_fields b =
     (let entry = (\<lambda>k v. [(''field'', VStr k), (''value'', VNum v)]);
          opt = (\<lambda>k v. case v of None \<Rightarrow> [] | Some x \<Rightarrow> [entry k x]) in
      [entry ''lq'' (fst (quartiles b)), entry ''med'' (fst (snd (quartiles b))),
       entry ''uq'' (snd (snd (quartiles b)))] @
      opt ''lo'' (loutlier b) @ opt ''ro'' (routlier b) @ opt ''lw'' (lwhisker b) @ opt ''rw'' (rwhisker b))"

section \<open>Default tooltips\<close>

text \<open>The tooltip options of a chart type without user options.\<close>

definition default_format :: format_opts where
  "default_format = \<lparr>value_lookups = [], numberFormatter = None, groupCount = 3, groupSep = '','', decimalMark = ''.''\<rparr>"

definition default_tip :: "string \<Rightarrow> (string \<times> lookup) list \<Rightarrow> tip_opts" where
  "default_tip fmt lookups =
     \<lparr>tooltipFormatter = None, tooltipChartTitle = None, tooltipFormat = Some [(fmt, None)],
      tooltipFormatFieldlist = None, tooltipFormatFieldlistKey = None, tooltipSkipNull = True,
      tooltipPrefix = [], tooltipSuffix = [], tip_format = default_format\<lparr>value_lookups := lookups\<rparr>\<rparr>"

lemma format_of_segments:
  assumes "list_all segment_ok gs" "fmt = concat (map print_segment gs)"
  shows "sp_render numtext fo flds fmt =
    join_some (map (piece_text numtext fo flds) (concat (map segment_pieces gs)))"
  using format_scan_segments [OF assms(1)] by (simp add: sp_render_def assms(2))

lemma join_some_append:
  "join_some (xs @ ys) = Option.bind (join_some xs) (\<lambda>s. map_option (append s) (join_some ys))"
proof (induction xs)
  case Nil
  then show ?case by (cases "join_some ys") auto
next
  case (Cons x xs)
  then show ?case by (cases x; cases "join_some xs"; cases "join_some ys") auto
qed

lemma join_some_plain: "join_some (map (piece_text numtext fo flds) (map Lit s)) = Some s"
  by (induction s) simp_all

lemma piece_text_slot: "join_some (map f (concat (map segment_pieces (Slot t k # gs)))) =
    Option.bind (f (Field t k)) (\<lambda>s. map_option (append s) (join_some (map f (concat (map segment_pieces gs)))))"
  by simp

lemma pieces_plain: "join_some (map (piece_text numtext fo flds) (concat (map segment_pieces (Words s # gs)))) =
    map_option (append s) (join_some (map (piece_text numtext fo flds) (concat (map segment_pieces gs))))"
proof -
  have "join_some (map (piece_text numtext fo flds) (concat (map segment_pieces (Words s # gs)))) =
      join_some (map (piece_text numtext fo flds) (map Lit s) @
        map (piece_text numtext fo flds) (concat (map segment_pieces gs)))" by simp
  then show ?thesis unfolding join_some_append join_some_plain by simp
qed

definition value_segments :: "segment list" where
  "value_segments = [Words (''<span style='' @ quote @ ''color: ''), Slot ''color'' None,
     Words (quote @ ''>&#9679;</span> ''), Slot ''prefix'' None, Slot ''value'' None, Slot ''suffix'' None]"

lemma value_segments_print:
  "list_all segment_ok value_segments"
  "bullet_mark @ ''{{prefix}}{{value}}{{suffix}}'' = concat (map print_segment value_segments)"
  by code_simp+

lemma field_text_simple:
  assumes "prec_match (dot_parts t) = None" "map_of flds t = Some v" "v \<noteq> VUndef" "key = None"
  shows "field_text numtext fo flds t key =
    (if isNumber v then (case numberFormatter fo of Some fm \<Rightarrow> Some (fm v)
       | None \<Rightarrow> Option.bind (numtext v None) (\<lambda>txt. formatNumber txt (groupCount fo) (groupSep fo) (decimalMark fo)))
     else js_text numtext v)"
  using assms by (simp add: field_text_def)

lemma no_precision: "prec_match (dot_parts ''color'') = None" "prec_match (dot_parts ''prefix'') = None"
  "prec_match (dot_parts ''value'') = None" "prec_match (dot_parts ''suffix'') = None"
  by code_simp+

lemma empty_not_number [simp]: "\<not> isNumber (VStr [])"
  by code_simp

text \<open>
  The default tooltip of a bar: a null has none; a number is shown in digits grouped by thousands
  behind a mark of the colour of its bar.
\<close>

theorem bar_default_tooltip:
  assumes "js_nth (bar_values b) r = Some v"
    "tip = default_tip (bullet_mark @ ''{{prefix}}{{value}}{{suffix}}'') []"
    "v = VNull \<or> v = VNum (Fin q) \<and> bar_calcColor b 0 (Fin q) r = Some col \<and> \<not> isNumber (VStr col) \<and>
       numtext v None = Some digits \<and> formatNumber digits 3 '','' ''.'' = Some txt"
  shows "region_tooltip numtext tip (bar_fields b r) =
    Some (if v = VNull then []
      else ''<div class='' @ quote @ ''jqsfield'' @ quote @ ''><span style='' @ quote @ ''color: '' @ col @ quote @
           ''>&#9679;</span> '' @ txt @ ''</div>'')"
proof -
  have f: "bar_fields b r = rev (map_index (\<lambda>i v. [(''isNull'', VBool (v = VNull)), (''value'', v),
      (''color'', colour_val (bar_calcColor b i (to_num v) r)), (''offset'', VNum (Fin (of_int r)))]) (ensureArray v))"
    using assms(1) by (simp add: bar_fields_def nth_val_def)
  have null: "region_tooltip numtext tip (bar_fields b r) = Some []" if "v = VNull"
    unfolding f using that
    by (simp add: assms(2) ensureArray_def region_tooltip_def default_tip_def is_null_field_def)
  have "region_tooltip numtext tip (bar_fields b r) =
       Some (''<div class='' @ quote @ ''jqsfield'' @ quote @ ''><span style='' @ quote @ ''color: '' @ col @ quote @
             ''>&#9679;</span> '' @ txt @ ''</div>'')"
    if v: "v = VNum (Fin q)" "bar_calcColor b 0 (Fin q) r = Some col" "\<not> isNumber (VStr col)"
      "numtext v None = Some digits" "formatNumber digits 3 '','' ''.'' = Some txt"
  proof -
    let ?flds = "[(''prefix'', VStr []), (''suffix'', VStr []), (''isNull'', VBool False), (''value'', v),
      (''color'', VStr col), (''offset'', VNum (Fin (of_int r)))]"
    have n: "isNumber (VNum (Fin q))" by (simp add: isNumber_def)
    have "sp_render numtext (tip_format tip) ?flds (bullet_mark @ ''{{prefix}}{{value}}{{suffix}}'') =
        Some (''<span style='' @ quote @ ''color: '' @ col @ quote @ ''>&#9679;</span> '' @ txt)"
      unfolding format_of_segments [OF value_segments_print] value_segments_def
      by (simp only: pieces_plain piece_text_slot piece_text.simps)
        (simp add: field_text_simple no_precision v v(4) [unfolded v(1)] n assms(2) default_tip_def default_format_def)
    then show ?thesis unfolding f using v
      by (simp add: assms(2) ensureArray_def region_tooltip_def default_tip_def is_null_field_def colour_val_def)
  qed
  then show ?thesis using null assms(3) by auto
qed

lemma bar_default_tooltip_witness:
  "region_tooltip (\<lambda>_ _. Some ''1234'') (default_tip (bullet_mark @ ''{{prefix}}{{value}}{{suffix}}'') [])
     (bar_fields (demo_bar\<lparr>bar_values := [VNull, VNum (Fin 1234)]\<rparr>) 0) = Some []"
proof -
  have n: "js_nth (bar_values (demo_bar\<lparr>bar_values := [VNull, VNum (Fin 1234)]\<rparr>)) 0 = Some VNull"
    by (simp add: js_nth_def)
  show ?thesis using bar_default_tooltip [OF n refl] by simp
qed

section \<open>A field list with unknown names\<close>

lemma put_at_nth:
  "i < length (put_at j x xs) \<Longrightarrow> put_at j x xs ! i =
     (if i = j then Some x else if i < length xs then xs ! i else None)"
  by (auto simp: put_at_def nth_append nth_Cons' nth_list_update)

lemma length_put_at [simp]: "length (put_at j x xs) = max (length xs) (Suc j)"
  by (simp add: put_at_def max_def)

lemma order_fields_hole:
  assumes "\<forall>f \<in> set fs. map_of f key \<noteq> Some (VStr (showf ! i))" "i < length showf" "distinct showf"
    "i < length (order_fields showf key fs)"
  shows "order_fields showf key fs ! i = None"
  using assms
proof (induction fs)
  case (Cons f fs)
  show ?case
  proof (cases "\<exists>s j. map_of f key = Some (VStr s) \<and> index_of s showf = Some j")
    case True
    then obtain s j where s: "map_of f key = Some (VStr s)" "index_of s showf = Some j" by auto
    have "showf ! j = s"
      using s(2) by (induction showf arbitrary: j) (auto split: if_splits)
    then have "i \<noteq> j" using Cons.prems(1) s(1) by auto
    then show ?thesis using Cons s by (auto simp: Let_def put_at_nth)
  next
    case False
    then have "order_fields showf key (f # fs) = order_fields showf key fs"
      by (auto simp: Let_def split: option.splits jsval.splits)
    then show ?thesis using Cons by simp
  qed
qed simp

lemma order_fields_length:
  "f \<in> set fs \<Longrightarrow> map_of f key = Some (VStr s) \<Longrightarrow> index_of s showf = Some j \<Longrightarrow>
   j < length (order_fields showf key fs)"
proof (induction fs)
  case (Cons g fs)
  show ?case
  proof (cases "f = g")
    case True
    then show ?thesis using Cons.prems by (simp add: Let_def)
  next
    case False
    then have "j < length (order_fields showf key fs)" using Cons by simp
    then show ?thesis by (auto simp: Let_def split: option.splits jsval.splits)
  qed
qed simp

lemma format_entries_hole: "None \<in> set fs \<Longrightarrow> format_entries numtext to fm fs = None"
proof (induction fs)
  case (Cons f fs)
  then show ?case by (cases f) (auto split: option.splits)
qed simp

text \<open>
  With \<open>tooltipFormatFieldlist\<close>, a name that no field of the region has, followed in the list by one
  that some field has, leaves a hole in the array of fields, and the tooltip throws.
\<close>

theorem tooltip_unknown_name_throws:
  assumes "tooltipFormatter to = None" "tooltipFormat to = Some (fm # fms)"
    "tooltipFormatFieldlist to = Some showf" "tooltipFormatFieldlistKey to = Some key" "key \<noteq> []"
    "f \<in> set flds" "map_of f key = Some (VStr s)" "index_of s showf = Some j" "i < j" "j < length showf"
    "distinct showf" "\<forall>f \<in> set flds. map_of f key \<noteq> Some (VStr (showf ! i))"
  shows "region_tooltip numtext to flds = None"
proof -
  let ?fs = "order_fields showf key flds"
  have l: "i < length ?fs" using order_fields_length [OF assms(6-8)] assms(9) by simp
  have "?fs ! i = None" by (rule order_fields_hole) (use assms l in auto)
  then have "None \<in> set ?fs" using l by (metis nth_mem)
  then have e: "format_entries numtext to fm ?fs = None" by (rule format_entries_hole)
  obtain k ks where "key = k # ks" using assms(5) by (cases key) auto
  then show ?thesis using assms(1-4) e by (simp add: region_tooltip_def Let_def)
qed

lemma tooltip_unknown_name_throws_witness:
  "region_tooltip (\<lambda>_ _. Some ''1'')
     ((default_tip ''{{value}}'' [])\<lparr>tooltipFormatFieldlist := Some [''mean'', ''med''],
       tooltipFormatFieldlistKey := Some ''field''\<rparr>)
     (box_fields (box_numbers_of box_defaults (map Fin [1, 2, 3]))) = None"
proof -
  let ?flds = "box_fields (box_numbers_of box_defaults (map Fin [1, 2, 3]))"
  let ?f = "[(''field'', VStr ''med''), (''value'', VNum (fst (snd (quartiles (box_numbers_of box_defaults (map Fin [1, 2, 3]))))))]"
  have n: "\<forall>f \<in> set ?flds. map_of f ''field'' \<noteq> Some (VStr ([''mean'', ''med''] ! 0))"
    by (auto simp: box_fields_def Let_def split: option.splits)
  show ?thesis
    by (rule tooltip_unknown_name_throws [where f = "?f" and j = 1 and i = 0 and s = "''med''" and key = "''field''" and
          showf = "[''mean'', ''med'']", OF _ _ _ _ _ _ _ _ _ _ _ n])
      (simp_all add: default_tip_def box_fields_def Let_def)
qed

end
