(* ===== verification/Boot_Carousel.thy ===== *)
theory Boot_Carousel
  imports Vein_Prelude
begin

text \<open>
  The carousel of \<open>js/bootstrap.js\<close> with CSS transitions (the element has the class \<open>slide\<close> and the
  browser supports them): its flags, its interval, the transition under way, and the handlers that wait
  for \<open>slid\<close>. The items are their positions; the one with the class \<open>active\<close> is \<open>car_active\<close>, the one
  with the class \<open>next\<close> or \<open>prev\<close> is \<open>car_trans\<close>. Whether a handler of the page prevents a slide is an
  input of each event.
\<close>

section \<open>State\<close>

record car_opts =
  car_interval :: bool       \<comment> \<open>\<open>options.interval\<close> is not 0 or false\<close>
  car_wrap :: bool
  car_count :: nat
  car_indicators :: bool

text \<open>A handler bound with \<open>one('slid', ...)\<close>.\<close>

datatype slid_hook = MarkIndicator | GoTo int

record carousel =
  car_active :: nat
  car_sliding :: bool
  car_paused :: bool
  car_timer :: "nat option"         \<comment> \<open>\<open>interval\<close>\<close>
  car_timers :: "unit timers"
  car_trans :: "nat option"
  car_deferred :: nat               \<comment> \<open>timeouts that will trigger \<open>slid\<close>\<close>
  car_hooks :: "slid_hook list"
  car_indicator :: "nat option"

definition new_carousel :: "nat \<Rightarrow> carousel" where
  "new_carousel k =
     \<lparr>car_active = k, car_sliding = False, car_paused = False, car_timer = None, car_timers = no_timers,
      car_trans = None, car_deferred = 0, car_hooks = [], car_indicator = Some k\<rparr>"

section \<open>Operations\<close>

text \<open>\<open>ev\<close>: called with an argument (an event, or \<open>true\<close>).\<close>

definition car_cycle :: "car_opts \<Rightarrow> bool \<Rightarrow> carousel \<Rightarrow> carousel" where
  "car_cycle opts ev c =
     (let c = (if ev then c else c\<lparr>car_paused := False\<rparr>);
          c = c\<lparr>car_timers := clear_timer (car_timer c) (car_timers c)\<rparr>
      in if car_interval opts \<and> \<not> car_paused c
         then (let (i, ts) = set_timer () (car_timers c) in c\<lparr>car_timer := Some i, car_timers := ts\<rparr>)
         else c)"

text \<open>The handler of the end of the transition; \<open>slid\<close> follows from a timeout.\<close>

definition car_transition_end :: "carousel \<Rightarrow> carousel" where
  "car_transition_end c =
     (case car_trans c of
        None \<Rightarrow> c
      | Some k \<Rightarrow> c\<lparr>car_active := k, car_trans := None, car_sliding := False, car_deferred := car_deferred c + 1\<rparr>)"

text \<open>
  During a transition \<open>pause\<close> triggers its end on the carousel. The handler is bound to the active item,
  a descendant, which an event on the carousel does not reach: the transition goes on.
\<close>

definition car_pause :: "car_opts \<Rightarrow> bool \<Rightarrow> carousel \<Rightarrow> carousel" where
  "car_pause opts ev c =
     (let c = (if ev then c else c\<lparr>car_paused := True\<rparr>);
          c = (if car_trans c \<noteq> None then car_cycle opts True c else c)
      in c\<lparr>car_timer := None, car_timers := clear_timer (car_timer c) (car_timers c)\<rparr>)"

text \<open>The item to slide to; \<open>None\<close> past an end that does not wrap.\<close>

definition car_target :: "car_opts \<Rightarrow> bool \<Rightarrow> nat option \<Rightarrow> carousel \<Rightarrow> nat option" where
  "car_target opts forward to c =
     (case to of
        Some k \<Rightarrow> Some k
      | None \<Rightarrow>
          if forward then
            (if car_active c + 1 < car_count opts then Some (car_active c + 1)
             else if car_wrap opts then Some 0 else None)
          else
            (if car_active c > 0 then Some (car_active c - 1)
             else if car_wrap opts then Some (car_count opts - 1) else None))"

definition car_slide :: "car_opts \<Rightarrow> bool \<Rightarrow> bool \<Rightarrow> nat option \<Rightarrow> carousel \<Rightarrow> carousel" where
  "car_slide opts prevented forward to c =
     (let isCycling = (car_timer c \<noteq> None) in
      case car_target opts forward to c of
        None \<Rightarrow> c
      | Some k \<Rightarrow>
          (let c = c\<lparr>car_sliding := True\<rparr>;
               c = (if isCycling then car_pause opts False c else c)
           in if k = car_active c then c
              else
                (let c = (if car_indicators opts
                          then c\<lparr>car_indicator := None, car_hooks := car_hooks c @ [MarkIndicator]\<rparr> else c)
                 in if prevented then c
                    else
                      (let c = c\<lparr>car_trans := Some k\<rparr> in
                       if isCycling then car_cycle opts False c else c))))"

definition car_next :: "car_opts \<Rightarrow> bool \<Rightarrow> carousel \<Rightarrow> carousel" where
  "car_next opts prevented c = (if car_sliding c then c else car_slide opts prevented True None c)"

definition car_prev :: "car_opts \<Rightarrow> bool \<Rightarrow> carousel \<Rightarrow> carousel" where
  "car_prev opts prevented c = (if car_sliding c then c else car_slide opts prevented False None c)"

definition car_to :: "car_opts \<Rightarrow> bool \<Rightarrow> int \<Rightarrow> carousel \<Rightarrow> carousel" where
  "car_to opts prevented pos c =
     (if pos > int (car_count opts) - 1 \<or> pos < 0 then c
      else if car_sliding c then c\<lparr>car_hooks := car_hooks c @ [GoTo pos]\<rparr>
      else if int (car_active c) = pos then car_cycle opts False (car_pause opts False c)
      else car_slide opts prevented (pos > int (car_active c)) (Some (nat pos)) c)"

fun run_hook :: "car_opts \<Rightarrow> bool \<Rightarrow> slid_hook \<Rightarrow> carousel \<Rightarrow> carousel" where
  "run_hook opts prevented MarkIndicator c = c\<lparr>car_indicator := Some (car_active c)\<rparr>"
| "run_hook opts prevented (GoTo pos) c = car_to opts prevented pos c"

text \<open>\<open>slid\<close>: the handlers bound so far run once, in order; what they bind waits for the next \<open>slid\<close>.\<close>

definition car_slid :: "car_opts \<Rightarrow> bool \<Rightarrow> carousel \<Rightarrow> carousel" where
  "car_slid opts prevented c =
     (if car_deferred c = 0 then c
      else fold (run_hook opts prevented) (car_hooks c) (c\<lparr>car_deferred := car_deferred c - 1, car_hooks := []\<rparr>))"

text \<open>What can happen; the flag says whether the page prevents a slide that starts.\<close>

datatype car_event =
    Next bool | Prev bool | To bool int | Pause bool | Cycle bool | Start | Tick bool nat | TransitionEnd | Slid bool

fun car_step :: "car_opts \<Rightarrow> car_event \<Rightarrow> carousel \<Rightarrow> carousel" where
  "car_step opts (Next p) c = car_next opts p c"
| "car_step opts (Prev p) c = car_prev opts p c"
| "car_step opts (To p pos) c = car_to opts p pos c"
| "car_step opts (Pause ev) c = car_pause opts ev c"
| "car_step opts (Cycle ev) c = car_cycle opts ev c"
| "car_step opts Start c = (if car_interval opts then car_cycle opts False (car_pause opts False c) else c)"
| "car_step opts (Tick p i) c = (if i \<in> set (armed (car_timers c) ()) then car_next opts p c else c)"
| "car_step opts TransitionEnd c = car_transition_end c"
| "car_step opts (Slid p) c = car_slid opts p c"

section \<open>The interval\<close>

definition car_safe :: "car_opts \<Rightarrow> carousel \<Rightarrow> bool" where
  "car_safe opts c \<longleftrightarrow>
     car_active c < car_count opts \<and> (\<forall>k. car_trans c = Some k \<longrightarrow> k < car_count opts) \<and>
     timers_wf (car_timers c) \<and>
     (\<forall>i \<in> set (armed (car_timers c) ()). car_timer c = Some i) \<and> (car_paused c \<longrightarrow> car_timer c = None)"

lemma car_safeD:
  assumes "car_safe opts c"
  shows "car_active c < car_count opts" "\<And>k. car_trans c = Some k \<Longrightarrow> k < car_count opts"
    "timers_wf (car_timers c)" "\<And>i. i \<in> set (armed (car_timers c) ()) \<Longrightarrow> car_timer c = Some i"
    "car_paused c \<Longrightarrow> car_timer c = None"
  using assms by (auto simp: car_safe_def)

text \<open>Clearing the timer of the object leaves none armed.\<close>

lemma clear_all:
  "\<forall>i \<in> set (armed ts ()). t = Some i \<Longrightarrow> set (armed (clear_timer t ts) ()) = {}"
  by auto

lemma set_armed_new [simp]: "set (armed (snd (set_timer () ts)) ()) = insert (fst (set_timer () ts)) (set (armed ts ()))"
  by (auto simp: armed_set_timer)

lemma cycle_safe:
  assumes "car_active c < car_count opts" "\<forall>k. car_trans c = Some k \<longrightarrow> k < car_count opts"
    "timers_wf (car_timers c)" "\<forall>i \<in> set (armed (car_timers c) ()). car_timer c = Some i"
    "ev \<Longrightarrow> car_paused c \<Longrightarrow> car_timer c = None"
  shows "car_safe opts (car_cycle opts ev c)"
proof -
  let ?ts = "clear_timer (car_timer c) (car_timers c)"
  have n: "set (armed ?ts ()) = {}" by (rule clear_all [OF assms(4)])
  have w: "timers_wf ?ts" by (rule timers_wf_clear_timer [OF assms(3)])
  have v: "timers_wf (snd (set_timer () ?ts))" by (rule timers_wf_set_timer [OF w])
  obtain i us where s: "set_timer () ?ts = (i, us)" by force
  have u: "set (armed us ()) = {i}" using set_armed_new [of ?ts] n unfolding s by auto
  show ?thesis using assms n w v s u by (auto simp: car_cycle_def car_safe_def Let_def)
qed

lemma transition_end_safe: "car_safe opts c \<Longrightarrow> car_safe opts (car_transition_end c)"
  by (auto simp: car_transition_end_def car_safe_def split: option.splits)

lemma pause_safe:
  assumes s: "car_safe opts c"
  shows "car_safe opts (car_pause opts ev c)" "car_timer (car_pause opts ev c) = None"
proof -
  define c1 where "c1 = (if ev then c else c\<lparr>car_paused := True\<rparr>)"
  have c1: "car_active c1 < car_count opts" "\<forall>k. car_trans c1 = Some k \<longrightarrow> k < car_count opts"
    "timers_wf (car_timers c1)" "\<forall>i \<in> set (armed (car_timers c1) ()). car_timer c1 = Some i"
    using car_safeD [OF s] by (auto simp: c1_def)
  define c2 where "c2 = (if car_trans c1 \<noteq> None then car_cycle opts True c1 else c1)"
  let ?q = "clear_timer (car_timer c1) (car_timers c1)"
  obtain i us where su: "set_timer () ?q = (i, us)" by force
  have u: "set (armed us ()) = {i}" using set_armed_new [of ?q] clear_all [OF c1(4)] unfolding su by auto
  have w: "timers_wf ?q" "timers_wf us"
    using timers_wf_clear_timer [OF c1(3)] timers_wf_set_timer [of ?q "()"] unfolding su by simp_all
  have c2: "car_active c2 < car_count opts \<and> (\<forall>k. car_trans c2 = Some k \<longrightarrow> k < car_count opts) \<and>
    timers_wf (car_timers c2) \<and> (\<forall>i \<in> set (armed (car_timers c2) ()). car_timer c2 = Some i)"
    using c1 u w su clear_all [OF c1(4)] by (auto simp: c2_def car_cycle_def Let_def)
  have p: "car_pause opts ev c = c2\<lparr>car_timer := None, car_timers := clear_timer (car_timer c2) (car_timers c2)\<rparr>"
    by (simp add: car_pause_def c1_def c2_def Let_def)
  show "car_safe opts (car_pause opts ev c)" "car_timer (car_pause opts ev c) = None"
    unfolding p using c2 timers_wf_clear_timer clear_all [of "car_timers c2" "car_timer c2"]
    by (auto simp: car_safe_def)
qed

lemma restart_safe: "car_safe opts c \<Longrightarrow> car_safe opts (car_cycle opts ev c)"
  by (rule cycle_safe) (auto dest: car_safeD)

lemma target_safe: "car_active c < car_count opts \<Longrightarrow> to \<noteq> None \<longrightarrow> the to < car_count opts \<Longrightarrow>
    car_target opts forward to c = Some k \<Longrightarrow> k < car_count opts"
  by (auto simp: car_target_def split: option.splits if_splits)

lemma slide_safe:
  assumes s: "car_safe opts c" and to: "to \<noteq> None \<longrightarrow> the to < car_count opts"
  shows "car_safe opts (car_slide opts prevented forward to c)"
proof (cases "car_target opts forward to c")
  case (Some k)
  have k: "k < car_count opts" by (rule target_safe [OF car_safeD(1) [OF s] to Some])
  define c1 where "c1 = c\<lparr>car_sliding := True\<rparr>"
  define c2 where "c2 = (if car_timer c \<noteq> None then car_pause opts False c1 else c1)"
  define c3 where "c3 = (if car_indicators opts
    then c2\<lparr>car_indicator := None, car_hooks := car_hooks c2 @ [MarkIndicator]\<rparr> else c2)"
  have c1: "car_safe opts c1" using s by (simp add: c1_def car_safe_def)
  then have c2: "car_safe opts c2" using pause_safe(1) by (simp add: c2_def)
  then have c3: "car_safe opts c3" by (simp add: c3_def car_safe_def)
  then have c4: "car_safe opts (c3\<lparr>car_trans := Some k\<rparr>)" using k by (simp add: car_safe_def)
  have "car_slide opts prevented forward to c =
      (if k = car_active c2 then c2 else if prevented then c3
       else if car_timer c \<noteq> None then car_cycle opts False (c3\<lparr>car_trans := Some k\<rparr>) else c3\<lparr>car_trans := Some k\<rparr>)"
    using Some by (simp add: car_slide_def Let_def c1_def c2_def c3_def)
  then show ?thesis using c2 c3 c4 restart_safe [OF c4] by simp
qed (use s in \<open>simp add: car_slide_def\<close>)

lemma to_safe:
  assumes s: "car_safe opts c"
  shows "car_safe opts (car_to opts prevented pos c)"
proof (cases "pos > int (car_count opts) - 1 \<or> pos < 0")
  case False
  have "car_safe opts (car_slide opts prevented fw (Some (nat pos)) c)" for fw
    by (rule slide_safe [OF s]) (use False in \<open>auto simp: nat_less_iff\<close>)
  moreover have "car_safe opts (car_cycle opts False (car_pause opts False c))"
    by (rule restart_safe [OF pause_safe(1) [OF s]])
  moreover have "car_safe opts (c\<lparr>car_hooks := hs\<rparr>)" for hs using s by (simp add: car_safe_def)
  ultimately show ?thesis using s unfolding car_to_def by presburger
qed (use s in \<open>simp add: car_to_def\<close>)

lemma hooks_safe: "car_safe opts c \<Longrightarrow> car_safe opts (fold (run_hook opts prevented) hs c)"
proof (induction hs arbitrary: c)
  case (Cons h hs)
  have "car_safe opts (run_hook opts prevented h c)"
    using to_safe [OF Cons.prems] Cons.prems by (cases h) (auto simp: car_safe_def)
  then show ?case using Cons.IH by simp
qed simp

lemma slid_safe:
  assumes "car_safe opts c"
  shows "car_safe opts (car_slid opts prevented c)"
proof -
  have "car_safe opts (c\<lparr>car_deferred := car_deferred c - 1, car_hooks := []\<rparr>)"
    using assms by (simp add: car_safe_def)
  then show ?thesis using assms hooks_safe by (simp add: car_slid_def)
qed

lemma next_safe: "car_safe opts c \<Longrightarrow> car_safe opts (car_next opts p c)"
  and prev_safe: "car_safe opts c \<Longrightarrow> car_safe opts (car_prev opts p c)"
  using slide_safe [of opts c None] by (simp_all add: car_next_def car_prev_def)

lemma step_safe: "car_safe opts c \<Longrightarrow> car_safe opts (car_step opts e c)"
  by (cases e) (simp_all add: to_safe pause_safe(1) restart_safe transition_end_safe slid_safe next_safe prev_safe)

interpretation car: event_machine "car_step opts" "car_safe opts" "\<lambda>_. True" for opts
  by unfold_locales (rule step_safe)

lemma new_safe: "k < car_count opts \<Longrightarrow> car_safe opts (new_carousel k)"
  by (simp add: car_safe_def new_carousel_def)

text \<open>
  C12: in every history of a carousel an existing item is active, at most one interval is armed, it is
  the one the object holds and can clear, and none is armed while the carousel is paused.
\<close>

theorem carousel_history_safe:
  assumes "k < car_count opts" "c = fold (car_step opts) es (new_carousel k)"
  shows "car_active c < car_count opts \<and> (\<forall>i \<in> set (armed (car_timers c) ()). car_timer c = Some i) \<and>
    (car_paused c \<longrightarrow> armed (car_timers c) () = [])"
proof -
  have s: "car_safe opts c" unfolding assms(2) by (rule car.run_inv [OF new_safe [OF assms(1)]]) simp
  then have "car_paused c \<Longrightarrow> set (armed (car_timers c) ()) = {}" by (auto simp: car_safe_def)
  then show ?thesis using car_safeD [OF s] by auto
qed

abbreviation demo_car :: car_opts where
  "demo_car \<equiv> \<lparr>car_interval = True, car_wrap = True, car_count = 3, car_indicators = True\<rparr>"

lemma carousel_history_safe_witness:
  "car_active (fold (car_step demo_car) [Start, Tick False 1, TransitionEnd, Slid False, Next True] (new_carousel 2)) < 3"
proof -
  have "2 < car_count demo_car" by simp
  from carousel_history_safe [OF this refl, of "[Start, Tick False 1, TransitionEnd, Slid False, Next True]"]
  show ?thesis by (simp only: car_opts.select_convs)
qed

text \<open>What pausing and cycling leave alone.\<close>

lemma cycle_moves [simp]: "car_active (car_cycle opts ev c) = car_active c" "car_trans (car_cycle opts ev c) = car_trans c"
  "car_sliding (car_cycle opts ev c) = car_sliding c"
  by (simp_all add: car_cycle_def Let_def split: prod.splits)

lemma pause_moves [simp]: "car_active (car_pause opts ev c) = car_active c" "car_trans (car_pause opts ev c) = car_trans c"
  "car_sliding (car_pause opts ev c) = car_sliding c"
  by (simp_all add: car_pause_def Let_def)

section \<open>A carousel that never moves again\<close>

definition frozen :: "nat \<Rightarrow> carousel \<Rightarrow> bool" where
  "frozen k c \<longleftrightarrow> car_sliding c \<and> car_trans c = None \<and> car_active c = k"

lemma frozen_cycle [simp]: "frozen k (car_cycle opts ev c) = frozen k c"
  by (simp add: frozen_def)

lemma frozen_pause [simp]: "frozen k (car_pause opts ev c) = frozen k c"
  by (simp add: frozen_def)

lemma frozen_hooks: "frozen k c \<Longrightarrow> frozen k (fold (run_hook opts p) hs c)"
proof (induction hs arbitrary: c)
  case (Cons h hs)
  have "frozen k (run_hook opts p h c)" using Cons.prems by (cases h) (auto simp: frozen_def car_to_def)
  then show ?case using Cons.IH by simp
qed simp

lemma frozen_step:
  assumes f: "frozen k c"
  shows "frozen k (car_step opts e c)"
proof (cases e)
  case (Slid p)
  have "frozen k (c\<lparr>car_deferred := car_deferred c - 1, car_hooks := []\<rparr>)" using f by (simp add: frozen_def)
  then show ?thesis using f frozen_hooks Slid by (simp add: car_slid_def)
qed (use f in \<open>auto simp: frozen_def car_next_def car_prev_def car_to_def car_transition_end_def\<close>)

interpretation frozen_car: event_machine "car_step opts" "frozen k" "\<lambda>_. True" for opts k
  by unfold_locales (rule frozen_step)

text \<open>
  \<open>slide\<close> sets \<open>sliding\<close> before it checks whether there is anything to do. When the page prevents the
  slide, or the next item is the active one (a carousel of one item that wraps), nothing ever resets the
  flag: no later event changes the active item.
\<close>

theorem carousel_stuck:
  assumes "\<not> car_sliding c" "car_trans c = None" "car_target opts True None c = Some k"
    "prevented \<or> k = car_active c"
  shows "car_active (fold (car_step opts) es (car_step opts (Next prevented) c)) = car_active c"
proof -
  let ?c1 = "c\<lparr>car_sliding := True\<rparr>"
  define c2 where "c2 = (if car_timer c \<noteq> None then car_pause opts False ?c1 else ?c1)"
  have c2: "frozen (car_active c) c2" using assms(2) by (auto simp: c2_def frozen_def)
  then have "car_active c2 = car_active c" by (simp add: frozen_def)
  then have "car_step opts (Next prevented) c = (if k = car_active c then c2 else
      if car_indicators opts then c2\<lparr>car_indicator := None, car_hooks := car_hooks c2 @ [MarkIndicator]\<rparr> else c2)"
    using assms by (auto simp: car_next_def car_slide_def Let_def c2_def)
  then have "frozen (car_active c) (car_step opts (Next prevented) c)" using c2 by (simp add: frozen_def)
  then have "frozen (car_active c) (fold (car_step opts) es (car_step opts (Next prevented) c))"
    by (rule frozen_car.run_inv) simp
  then show ?thesis by (simp add: frozen_def)
qed

lemma carousel_stuck_witness:
  "car_active (fold (car_step demo_car) [TransitionEnd, Slid False, Next False, To False 0]
     (car_step demo_car (Next True) (new_carousel 2))) = 2"
proof -
  have n: "\<not> car_sliding (new_carousel 2)" "car_trans (new_carousel 2) = None"
    "car_target demo_car True None (new_carousel 2) = Some 0" "car_active (new_carousel 2) = 2"
    by (simp_all add: new_carousel_def car_target_def)
  show ?thesis
    using carousel_stuck [OF n(1-3), of True "[TransitionEnd, Slid False, Next False, To False 0]"] unfolding n(4) by simp
qed

section \<open>A carousel that keeps moving\<close>

definition car_live :: "car_opts \<Rightarrow> carousel \<Rightarrow> bool" where
  "car_live opts c \<longleftrightarrow>
     car_safe opts c \<and> (car_sliding c \<longleftrightarrow> car_trans c \<noteq> None) \<and> (\<forall>k. car_trans c = Some k \<longrightarrow> k \<noteq> car_active c)"

fun unprevented :: "car_event \<Rightarrow> bool" where
  "unprevented (Next p) = (\<not> p)"
| "unprevented (Prev p) = (\<not> p)"
| "unprevented (To p _) = (\<not> p)"
| "unprevented (Tick p _) = (\<not> p)"
| "unprevented (Slid p) = (\<not> p)"
| "unprevented _ = True"

lemma slide_starts:
  assumes "car_trans c = None" "car_target opts fw to c = Some k" "k \<noteq> car_active c"
  shows "car_trans (car_slide opts False fw to c) = Some k" "car_sliding (car_slide opts False fw to c)"
    "car_active (car_slide opts False fw to c) = car_active c"
  using assms by (auto simp: car_slide_def Let_def)

lemma slide_live:
  assumes l: "car_live opts c" "\<not> car_sliding c" and to: "\<forall>k. to = Some k \<longrightarrow> k < car_count opts \<and> k \<noteq> car_active c"
    and n: "2 \<le> car_count opts"
  shows "car_live opts (car_slide opts False fw to c)"
proof (cases "car_target opts fw to c")
  case None
  then show ?thesis using l by (simp add: car_slide_def)
next
  case (Some k)
  have s: "car_safe opts c" "car_trans c = None" using l by (auto simp: car_live_def)
  have "k \<noteq> car_active c"
    using Some to n car_safeD(1) [OF s(1)] by (auto simp: car_target_def split: option.splits if_splits)
  moreover have "car_safe opts (car_slide opts False fw to c)" by (rule slide_safe [OF s(1)]) (use to in auto)
  ultimately show ?thesis using slide_starts [OF s(2) Some] by (simp add: car_live_def)
qed

lemma pause_live: "car_live opts c \<Longrightarrow> car_live opts (car_pause opts ev c)"
  by (simp add: car_live_def pause_safe(1))

lemma cycle_live: "car_live opts c \<Longrightarrow> car_live opts (car_cycle opts ev c)"
  using restart_safe by (simp add: car_live_def)

lemma to_live:
  assumes l: "car_live opts c" and n: "2 \<le> car_count opts"
  shows "car_live opts (car_to opts False pos c)"
proof -
  have a: "car_live opts (car_cycle opts False (car_pause opts False c))"
    by (rule cycle_live [OF pause_live [OF l]])
  have b: "car_live opts (c\<lparr>car_hooks := hs\<rparr>)" for hs using l by (simp add: car_live_def car_safe_def)
  have d: "car_live opts (car_slide opts False fw (Some (nat pos)) c)"
    if "\<not> (pos > int (car_count opts) - 1 \<or> pos < 0)" "\<not> car_sliding c" "int (car_active c) \<noteq> pos" for fw
  proof (rule slide_live [OF l that(2) _ n], safe)
    show "nat pos < car_count opts" using that(1) by linarith
    show False if "nat pos = car_active c" using that \<open>int (car_active c) \<noteq> pos\<close> \<open>\<not> (pos > int (car_count opts) - 1 \<or> pos < 0)\<close> by linarith
  qed
  show ?thesis using a b d [of "pos > int (car_active c)"] l unfolding car_to_def by presburger
qed

lemma hooks_live: "car_live opts c \<Longrightarrow> 2 \<le> car_count opts \<Longrightarrow> car_live opts (fold (run_hook opts False) hs c)"
proof (induction hs arbitrary: c)
  case (Cons h hs)
  have "car_live opts (run_hook opts False h c)"
  proof (cases h)
    case MarkIndicator
    then show ?thesis using Cons.prems by (simp add: car_live_def car_safe_def)
  qed (simp add: to_live [OF Cons.prems])
  then show ?case using Cons.IH Cons.prems(2) by simp
qed simp

lemma step_live:
  assumes l: "car_live opts c" and u: "unprevented e" and n: "2 \<le> car_count opts"
  shows "car_live opts (car_step opts e c)"
proof -
  have nx: "car_live opts (car_next opts False c)" "car_live opts (car_prev opts False c)"
    using slide_live [OF l _ _ n, of None] l by (auto simp: car_next_def car_prev_def)
  show ?thesis
  proof (cases e)
    case (Slid p)
    have "car_live opts (c\<lparr>car_deferred := car_deferred c - 1, car_hooks := []\<rparr>)"
      using l by (simp add: car_live_def car_safe_def)
    then show ?thesis using hooks_live n l Slid u by (simp add: car_slid_def)
  next
    case TransitionEnd
    then show ?thesis
      using l transition_end_safe [of opts c] by (auto simp: car_live_def car_transition_end_def split: option.splits)
  qed (use u l n nx cycle_live to_live pause_live in auto)
qed

interpretation live_car: event_machine "car_step opts" "\<lambda>c. car_live opts c \<and> 2 \<le> car_count opts" unprevented for opts
  by unfold_locales (use step_live in blast)

text \<open>
  C23: in a carousel of at least two items that wraps, and of whose slides none is prevented, the end of a
  transition always makes the carousel ready, and the next slide brings the next item.
\<close>

theorem carousel_keeps_moving:
  assumes "k < car_count opts" "2 \<le> car_count opts" "car_wrap opts" "\<forall>e \<in> set es. unprevented e"
    "c = fold (car_step opts) (es @ [TransitionEnd]) (new_carousel k)"
  shows "\<not> car_sliding c \<and>
    car_active (fold (car_step opts) [Next False, TransitionEnd] c) = (car_active c + 1) mod car_count opts"
proof -
  have "car_live opts (new_carousel k) \<and> 2 \<le> car_count opts"
    using new_safe [OF assms(1)] assms(2) by (simp add: car_live_def new_carousel_def)
  then have l: "car_live opts c"
    unfolding assms(5) by (intro live_car.run_inv [THEN conjunct1]) (use assms(4) in auto)
  have r: "car_trans c = None" "\<not> car_sliding c"
    using l unfolding assms(5) by (auto simp: car_transition_end_def car_live_def split: option.splits)
  let ?k = "(car_active c + 1) mod car_count opts"
  have a: "car_active c < car_count opts" using l by (auto simp: car_live_def car_safe_def)
  have t: "car_target opts True None c = Some ?k" "?k \<noteq> car_active c"
    using a assms(2,3) by (auto simp: car_target_def mod_if)
  note st = slide_starts [OF r(1) t]
  have "car_active (car_transition_end (car_slide opts False True None c)) = ?k"
    using st(1) by (simp add: car_transition_end_def)
  then show ?thesis using r by (simp add: car_next_def)
qed

lemma carousel_keeps_moving_witness:
  "car_active (fold (car_step demo_car) [Next False, TransitionEnd]
     (fold (car_step demo_car) ([Prev False] @ [TransitionEnd]) (new_carousel 0))) = 0"
proof -
  have n: "0 < car_count demo_car" "2 \<le> car_count demo_car" "car_wrap demo_car" "\<forall>e \<in> set [Prev False]. unprevented e"
    by simp_all
  have a: "car_active (fold (car_step demo_car) ([Prev False] @ [TransitionEnd]) (new_carousel 0)) = 2"
    by (simp add: car_prev_def car_slide_def car_target_def new_carousel_def car_transition_end_def Let_def)
  show ?thesis using carousel_keeps_moving [OF n refl] unfolding a by (simp only: car_opts.select_convs) simp
qed

text \<open>
  A slide that starts before the timeout of the slide before has triggered \<open>slid\<close> loses its indicator:
  the late \<open>slid\<close> runs its handler too early.
\<close>

lemma carousel_indicator_race:
  "car_indicator (fold (car_step demo_car) [Next False, TransitionEnd, Next False, Slid False, TransitionEnd, Slid False]
     (new_carousel 0)) = Some 1"
  "car_active (fold (car_step demo_car) [Next False, TransitionEnd, Next False, Slid False, TransitionEnd, Slid False]
     (new_carousel 0)) = 2"
  by code_simp+

end
