(* ===== verification/Boot_Modal.thy ===== *)
theory Boot_Modal
  imports Vein_Prelude
begin

text \<open>
  The modal dialog of \<open>js/bootstrap.js\<close>: the flag \<open>isShown\<close>, the backdrop element, the handlers it
  binds, the class \<open>modal-open\<close> of the body, and the callbacks that wait for the end of a CSS transition.
  Which transition ends next is not determined, so the steps are relations: \<open>modal_user\<close> (calls, clicks
  and keys; the flag says whether the page prevents the \<open>show\<close> or \<open>hide\<close> event) and \<open>modal_browser\<close>.
\<close>

section \<open>State\<close>

record modal_opts =
  md_backdrop :: bool
  md_static :: bool
  md_keyboard :: bool
  md_fade :: bool     \<comment> \<open>the element has the class \<open>fade\<close> and the browser has transitions\<close>

text \<open>The callback of \<open>show\<close> and the one of \<open>hideModal\<close>.\<close>

datatype md_cb = ShowCb | HiddenCb

text \<open>A callback bound with \<open>one\<close> to the end of the transition of a backdrop, the element or the dialog.\<close>

datatype md_wait = OnBackdrop nat md_cb | OnElement | OnDialog

record modal =
  md_isShown :: bool
  md_visible :: bool
  md_in :: bool
  md_hidden_aria :: bool
  md_ref :: "nat option"        \<comment> \<open>\<open>$backdrop\<close>\<close>
  md_dom :: "nat list"          \<comment> \<open>the backdrops in the body\<close>
  md_fresh :: nat
  md_keyup :: nat               \<comment> \<open>handlers bound to \<open>keyup.dismiss.bs.modal\<close>\<close>
  md_dismiss :: nat             \<comment> \<open>to \<open>click.dismiss.modal\<close> of \<open>[data-dismiss]\<close>\<close>
  md_outside :: nat             \<comment> \<open>to \<open>click.dismiss.modal\<close> of the element itself\<close>
  md_focusin :: nat             \<comment> \<open>to \<open>focusin.bs.modal\<close> of the document\<close>
  md_body_open :: bool
  md_waits :: "md_wait list"

definition new_modal :: modal where
  "new_modal =
     \<lparr>md_isShown = False, md_visible = False, md_in = False, md_hidden_aria = True, md_ref = None, md_dom = [],
      md_fresh = 0, md_keyup = 0, md_dismiss = 0, md_outside = 0, md_focusin = 0, md_body_open = False, md_waits = []\<rparr>"

section \<open>Operations\<close>

definition enforceFocus :: "modal \<Rightarrow> modal" where
  "enforceFocus s = (let s = s\<lparr>md_focusin := 0\<rparr> in s\<lparr>md_focusin := md_focusin s + 1\<rparr>)"

definition md_escape :: "modal_opts \<Rightarrow> modal \<Rightarrow> modal" where
  "md_escape opts s =
     (if md_isShown s \<and> md_keyboard opts then s\<lparr>md_keyup := md_keyup s + 1\<rparr>
      else if \<not> md_isShown s then s\<lparr>md_keyup := 0\<rparr> else s)"

text \<open>\<open>remove\<close> takes the element out of the body and drops the handlers bound to it.\<close>

definition removeBackdrop :: "modal \<Rightarrow> modal" where
  "removeBackdrop s =
     (case md_ref s of
        None \<Rightarrow> s
      | Some b \<Rightarrow> s\<lparr>md_dom := removeAll b (md_dom s),
                    md_waits := filter (\<lambda>w. w \<notin> {OnBackdrop b ShowCb, OnBackdrop b HiddenCb}) (md_waits s),
                    md_ref := None\<rparr>)"

definition show_cb :: "modal_opts \<Rightarrow> modal \<Rightarrow> modal" where
  "show_cb opts s =
     (let s = enforceFocus (s\<lparr>md_visible := True, md_in := True, md_hidden_aria := False\<rparr>)
      in if md_fade opts then s\<lparr>md_waits := md_waits s @ [OnDialog]\<rparr> else s)"

text \<open>\<open>hidden\<close> reaches the document, whose handler unlocks the body.\<close>

definition hidden_cb :: "modal \<Rightarrow> modal" where
  "hidden_cb s = (removeBackdrop s)\<lparr>md_body_open := False\<rparr>"

definition run_cb :: "modal_opts \<Rightarrow> md_cb \<Rightarrow> modal \<Rightarrow> modal" where
  "run_cb opts k s = (case k of ShowCb \<Rightarrow> show_cb opts s | HiddenCb \<Rightarrow> hidden_cb s)"

text \<open>Run the callback now, or when the transition of the backdrop ends.\<close>

definition after_backdrop :: "modal_opts \<Rightarrow> nat \<Rightarrow> md_cb \<Rightarrow> modal \<Rightarrow> modal" where
  "after_backdrop opts b k s =
     (if md_fade opts then s\<lparr>md_waits := md_waits s @ [OnBackdrop b k]\<rparr> else run_cb opts k s)"

definition backdrop :: "modal_opts \<Rightarrow> md_cb \<Rightarrow> modal \<Rightarrow> modal" where
  "backdrop opts k s =
     (if md_isShown s \<and> md_backdrop opts then
        (let b = md_fresh s;
             s = s\<lparr>md_fresh := b + 1, md_ref := Some b, md_dom := md_dom s @ [b], md_outside := md_outside s + 1\<rparr>
         in after_backdrop opts b k s)
      else if \<not> md_isShown s \<and> md_ref s \<noteq> None then after_backdrop opts (the (md_ref s)) k s
      else run_cb opts k s)"

definition hideModal :: "modal_opts \<Rightarrow> modal \<Rightarrow> modal" where
  "hideModal opts s = backdrop opts HiddenCb (s\<lparr>md_visible := False\<rparr>)"

text \<open>The \<open>show\<close> event locks the body whatever becomes of it.\<close>

definition md_show :: "modal_opts \<Rightarrow> bool \<Rightarrow> modal \<Rightarrow> modal" where
  "md_show opts prevented s =
     (let s = s\<lparr>md_body_open := True\<rparr> in
      if md_isShown s \<or> prevented then s
      else
        (let s = md_escape opts (s\<lparr>md_isShown := True\<rparr>)
         in backdrop opts ShowCb (s\<lparr>md_dismiss := md_dismiss s + 1\<rparr>)))"

definition md_hide :: "modal_opts \<Rightarrow> bool \<Rightarrow> modal \<Rightarrow> modal" where
  "md_hide opts prevented s =
     (if \<not> md_isShown s \<or> prevented then s
      else
        (let s = md_escape opts (s\<lparr>md_isShown := False\<rparr>);
             s = s\<lparr>md_focusin := 0, md_in := False, md_hidden_aria := True, md_dismiss := 0, md_outside := 0\<rparr>
         in if md_fade opts then s\<lparr>md_waits := md_waits s @ [OnElement]\<rparr> else hideModal opts s))"

definition md_toggle :: "modal_opts \<Rightarrow> bool \<Rightarrow> modal \<Rightarrow> modal" where
  "md_toggle opts prevented s = (if \<not> md_isShown s then md_show opts prevented s else md_hide opts prevented s)"

section \<open>The end of a transition\<close>

fun cb_of :: "nat \<Rightarrow> md_wait \<Rightarrow> md_cb list" where
  "cb_of b (OnBackdrop b' k) = (if b = b' then [k] else [])"
| "cb_of b _ = []"

definition backdrop_end :: "modal_opts \<Rightarrow> nat \<Rightarrow> modal \<Rightarrow> modal" where
  "backdrop_end opts b s =
     fold (run_cb opts) (concat (map (cb_of b) (md_waits s)))
       (s\<lparr>md_waits := filter (\<lambda>w. cb_of b w = []) (md_waits s)\<rparr>)"

definition element_end :: "modal_opts \<Rightarrow> modal \<Rightarrow> modal" where
  "element_end opts s =
     (hideModal opts ^^ count_list (md_waits s) OnElement) (s\<lparr>md_waits := filter (\<lambda>w. w \<noteq> OnElement) (md_waits s)\<rparr>)"

text \<open>The end of the dialog's own transition only moves the focus.\<close>

definition dialog_end :: "modal \<Rightarrow> modal" where
  "dialog_end s = s\<lparr>md_waits := filter (\<lambda>w. w \<noteq> OnDialog) (md_waits s)\<rparr>"

section \<open>Steps\<close>

inductive modal_user :: "modal_opts \<Rightarrow> bool \<Rightarrow> modal \<Rightarrow> modal \<Rightarrow> bool" for opts where
  show_call: "modal_user opts p s (md_show opts p s)"
| hide_call: "modal_user opts p s (md_hide opts p s)"
| toggle_call: "modal_user opts p s (md_toggle opts p s)"
| dismiss_click: "0 < md_dismiss s \<Longrightarrow> modal_user opts p s (md_hide opts p s)"
| outside_click: "0 < md_outside s \<Longrightarrow> \<not> md_static opts \<Longrightarrow> modal_user opts p s (md_hide opts p s)"
| escape_key: "0 < md_keyup s \<Longrightarrow> modal_user opts p s (md_hide opts p s)"

inductive modal_browser :: "modal_opts \<Rightarrow> modal \<Rightarrow> modal \<Rightarrow> bool" for opts where
  backdrop_ends: "OnBackdrop b k \<in> set (md_waits s) \<Longrightarrow> modal_browser opts s (backdrop_end opts b s)"
| element_ends: "OnElement \<in> set (md_waits s) \<Longrightarrow> modal_browser opts s (element_end opts s)"
| dialog_ends: "OnDialog \<in> set (md_waits s) \<Longrightarrow> modal_browser opts s (dialog_end s)"

text \<open>
  The states a modal can reach. A \<open>calm\<close> history is one in which the user waits for the transitions to
  end and the page prevents nothing.
\<close>

inductive modal_reach :: "modal_opts \<Rightarrow> bool \<Rightarrow> modal \<Rightarrow> bool" for opts calm where
  start: "modal_reach opts calm new_modal"
| user: "modal_reach opts calm s \<Longrightarrow> calm \<longrightarrow> md_waits s = [] \<and> \<not> p \<Longrightarrow> modal_user opts p s t \<Longrightarrow> modal_reach opts calm t"
| browser: "modal_reach opts calm s \<Longrightarrow> modal_browser opts s t \<Longrightarrow> modal_reach opts calm t"

inductive_simps modal_user_iff: "modal_user opts p s t"
inductive_simps modal_browser_iff: "modal_browser opts s t"

section \<open>Handlers\<close>

definition modal_bound :: "modal_opts \<Rightarrow> modal \<Rightarrow> bool" where
  "modal_bound opts s \<longleftrightarrow>
     md_keyup s = (if md_isShown s \<and> md_keyboard opts then 1 else 0) \<and> md_dismiss s = (if md_isShown s then 1 else 0) \<and>
     md_focusin s \<le> 1 \<and> (\<not> md_isShown s \<longrightarrow> md_outside s = 0) \<and>
     (\<forall>b. md_ref s = Some b \<longrightarrow> b \<in> set (md_dom s)) \<and> distinct (md_dom s) \<and> (\<forall>b \<in> set (md_dom s). b < md_fresh s) \<and>
     (\<not> md_backdrop opts \<longrightarrow> md_dom s = [])"

lemma bound_cb: "modal_bound opts s \<Longrightarrow> modal_bound opts (run_cb opts k s)"
  by (auto simp: modal_bound_def run_cb_def show_cb_def hidden_cb_def removeBackdrop_def enforceFocus_def Let_def distinct_removeAll
      split: md_cb.split option.split)

lemma bound_after: "modal_bound opts s \<Longrightarrow> modal_bound opts (after_backdrop opts b k s)"
  using bound_cb by (auto simp: after_backdrop_def modal_bound_def)

lemma bound_new_backdrop:
  assumes "modal_bound opts s" "md_isShown s" "md_backdrop opts"
  shows "modal_bound opts (s\<lparr>md_fresh := md_fresh s + 1, md_ref := Some (md_fresh s), md_dom := md_dom s @ [md_fresh s],
    md_outside := md_outside s + 1\<rparr>)"
  using assms by (fastforce simp: modal_bound_def)

lemma bound_backdrop:
  assumes "modal_bound opts s"
  shows "modal_bound opts (backdrop opts k s)"
  using bound_new_backdrop [OF assms, THEN bound_after] bound_after [OF assms] bound_cb [OF assms]
  by (auto simp: backdrop_def Let_def)

lemma bound_hideModal: "modal_bound opts s \<Longrightarrow> modal_bound opts (hideModal opts s)"
  unfolding hideModal_def by (rule bound_backdrop) (simp add: modal_bound_def)

lemma bound_waits [simp]: "modal_bound opts (s\<lparr>md_waits := ws\<rparr>) = modal_bound opts s"
  by (simp add: modal_bound_def)

lemma bound_show:
  assumes "modal_bound opts s"
  shows "modal_bound opts (md_show opts p s)"
proof (cases "md_isShown s \<or> p")
  case False
  let ?s = "md_escape opts (s\<lparr>md_body_open := True, md_isShown := True\<rparr>)"
  have "modal_bound opts (?s\<lparr>md_dismiss := md_dismiss ?s + 1\<rparr>)"
    using assms False by (auto simp: modal_bound_def md_escape_def)
  then show ?thesis using False by (simp add: md_show_def Let_def bound_backdrop)
qed (use assms in \<open>simp add: md_show_def modal_bound_def\<close>)

lemma bound_hide:
  assumes "modal_bound opts s"
  shows "modal_bound opts (md_hide opts p s)"
proof (cases "\<not> md_isShown s \<or> p")
  case False
  let ?s = "(md_escape opts (s\<lparr>md_isShown := False\<rparr>))\<lparr>md_focusin := 0, md_in := False, md_hidden_aria := True,
    md_dismiss := 0, md_outside := 0\<rparr>"
  have "modal_bound opts ?s" using assms False by (auto simp: modal_bound_def md_escape_def)
  then show ?thesis using False bound_hideModal by (auto simp: md_hide_def Let_def)
qed (use assms in \<open>auto simp: md_hide_def\<close>)

lemma bound_toggle: "modal_bound opts s \<Longrightarrow> modal_bound opts (md_toggle opts p s)"
  by (simp add: md_toggle_def bound_show bound_hide)

lemma bound_user: "modal_user opts p s t \<Longrightarrow> modal_bound opts s \<Longrightarrow> modal_bound opts t"
  by (induction rule: modal_user.induct) (simp_all add: bound_show bound_hide bound_toggle)

lemma bound_fold: "modal_bound opts s \<Longrightarrow> modal_bound opts (fold (run_cb opts) ks s)"
  by (induction ks arbitrary: s) (auto simp: bound_cb)

lemma bound_funpow: "modal_bound opts s \<Longrightarrow> modal_bound opts ((hideModal opts ^^ n) s)"
  by (induction n) (auto simp: bound_hideModal)

lemma bound_browser: "modal_browser opts s t \<Longrightarrow> modal_bound opts s \<Longrightarrow> modal_bound opts t"
  by (induction rule: modal_browser.induct)
    (simp_all add: backdrop_end_def element_end_def dialog_end_def bound_fold bound_funpow)

lemma reach_bound: "modal_reach opts calm s \<Longrightarrow> modal_bound opts s"
proof (induction rule: modal_reach.induct)
  case start
  show ?case by (simp add: modal_bound_def new_modal_def)
qed (use bound_user bound_browser in blast)+

text \<open>
  C15: in every state a modal can reach, whatever the order of calls, clicks and transition ends, exactly
  one key handler and one dismiss handler is bound while the modal is shown and none while it is not, at
  most one focus handler is bound, no click on a hidden modal can hide it again, and the backdrop the
  object holds is in the page.
\<close>

theorem modal_handlers_bound_once:
  assumes "modal_reach opts calm s"
  shows "md_keyup s = (if md_isShown s \<and> md_keyboard opts then 1 else 0) \<and> md_dismiss s = (if md_isShown s then 1 else 0) \<and>
    md_focusin s \<le> 1 \<and> (\<not> md_isShown s \<longrightarrow> md_outside s = 0) \<and>
    set_option (md_ref s) \<subseteq> set (md_dom s) \<and> distinct (md_dom s)"
  using reach_bound [OF assms] by (auto simp: modal_bound_def)

section \<open>Calm histories\<close>

text \<open>The modal at rest, and the transitions on the way.\<close>

definition modal_up :: "modal_opts \<Rightarrow> nat list \<Rightarrow> modal \<Rightarrow> bool" where
  "modal_up opts bs s \<longleftrightarrow> md_isShown s \<and> md_body_open s \<and> md_dom s = bs \<and>
     (if md_backdrop opts then \<exists>b. bs = [b] \<and> md_ref s = Some b else bs = [] \<and> md_ref s = None)"

definition modal_open :: "modal \<Rightarrow> bool" where
  "modal_open s \<longleftrightarrow> md_visible s \<and> md_in s \<and> \<not> md_hidden_aria s \<and> md_focusin s = 1"

definition modal_down :: "modal \<Rightarrow> bool" where
  "modal_down s \<longleftrightarrow> \<not> md_isShown s \<and> \<not> md_in s \<and> md_hidden_aria s \<and> md_focusin s = 0"

definition modal_gone :: "modal \<Rightarrow> bool" where
  "modal_gone s \<longleftrightarrow> \<not> md_visible s \<and> md_dom s = [] \<and> md_ref s = None"

inductive calm_modal :: "modal_opts \<Rightarrow> modal \<Rightarrow> bool" for opts where
  shown: "modal_up opts bs s \<Longrightarrow> modal_open s \<Longrightarrow> md_waits s = [] \<or> md_waits s = [OnDialog] \<Longrightarrow> calm_modal opts s"
| hidden: "modal_down s \<Longrightarrow> modal_gone s \<Longrightarrow> \<not> md_body_open s \<Longrightarrow> md_waits s = [] \<Longrightarrow> calm_modal opts s"
| fading_in: "modal_up opts [b] s \<Longrightarrow> md_waits s = [OnBackdrop b ShowCb] \<Longrightarrow> calm_modal opts s"
| fading_out: "modal_down s \<Longrightarrow> (if md_backdrop opts then \<exists>b. md_dom s = [b] \<and> md_ref s = Some b else md_dom s = [] \<and> md_ref s = None) \<Longrightarrow>
    md_waits s = [OnElement] \<Longrightarrow> calm_modal opts s"
| unlocking: "modal_down s \<Longrightarrow> md_dom s = [b] \<Longrightarrow> md_ref s = Some b \<Longrightarrow> \<not> md_visible s \<Longrightarrow> md_waits s = [OnBackdrop b HiddenCb] \<Longrightarrow> calm_modal opts s"

lemmas modal_ops = run_cb_def show_cb_def hidden_cb_def removeBackdrop_def enforceFocus_def after_backdrop_def backdrop_def
  hideModal_def md_escape_def md_show_def md_hide_def
lemmas modal_phases = modal_up_def modal_open_def modal_down_def modal_gone_def

inductive_cases calm_modalE: "calm_modal opts s"

lemma calm_at_rest:
  assumes "calm_modal opts s" "md_waits s = []"
  obtains (Up) bs where "modal_up opts bs s" "modal_open s"
    | (Down) "modal_down s" "modal_gone s" "\<not> md_body_open s"
  using assms by (auto elim!: calm_modal.cases)

lemma calm_show:
  assumes "calm_modal opts s" "md_waits s = []"
  shows "calm_modal opts (md_show opts False s)"
  using assms
proof (cases rule: calm_at_rest)
  case (Up bs)
  then show ?thesis
    using assms(2) by (intro calm_modal.shown [of opts bs]) (auto simp: md_show_def modal_phases)
next
  case Down
  show ?thesis
  proof (cases "md_backdrop opts \<and> md_fade opts")
    case True
    then show ?thesis
      using Down assms(2) by (intro calm_modal.fading_in [of opts "md_fresh s"]) (auto simp: modal_ops modal_phases Let_def)
  next
    case False
    then show ?thesis
      using Down assms(2)
      by (intro calm_modal.shown [of opts "if md_backdrop opts then [md_fresh s] else []"])
        (auto simp: modal_ops modal_phases Let_def)
  qed
qed

lemma calm_hide:
  assumes "calm_modal opts s" "md_waits s = []"
  shows "calm_modal opts (md_hide opts False s)"
  using assms
proof (cases rule: calm_at_rest)
  case (Up bs)
  show ?thesis
  proof (cases "md_fade opts")
    case True
    then show ?thesis
      using Up assms(2) by (intro calm_modal.fading_out) (auto simp: md_hide_def md_escape_def modal_phases Let_def)
  next
    case False
    then show ?thesis
      using Up assms(2) by (intro calm_modal.hidden) (auto simp: modal_ops modal_phases Let_def split: if_splits)
  qed
next
  case Down
  then show ?thesis using assms by (simp add: md_hide_def modal_down_def)
qed

lemma calm_user:
  assumes "modal_user opts False s t" "calm_modal opts s" "md_waits s = []"
  shows "calm_modal opts t"
  using assms(1) calm_show [OF assms(2,3)] calm_hide [OF assms(2,3)] by (auto simp: modal_user_iff md_toggle_def)

lemma calm_browser:
  assumes "modal_browser opts s t" "calm_modal opts s"
  shows "calm_modal opts t"
  using assms(2)
proof (cases rule: calm_modal.cases)
  case (shown bs)
  then have "t = dialog_end s" using assms(1) by (auto simp: modal_browser_iff)
  then show ?thesis
    using shown by (intro calm_modal.shown [of opts bs]) (auto simp: dialog_end_def modal_phases)
next
  case hidden
  then show ?thesis using assms(1) by (auto simp: modal_browser_iff)
next
  case (fading_in b)
  then have "t = backdrop_end opts b s" using assms(1) by (auto simp: modal_browser_iff)
  then show ?thesis
    using fading_in by (intro calm_modal.shown [of opts "[b]"]) (auto simp: backdrop_end_def modal_ops modal_phases Let_def)
next
  case fading_out
  then have t: "t = hideModal opts (s\<lparr>md_waits := []\<rparr>)" using assms(1) by (auto simp: modal_browser_iff element_end_def)
  show ?thesis
  proof (cases "md_backdrop opts \<and> md_fade opts")
    case True
    then obtain b where "md_dom s = [b]" "md_ref s = Some b" using fading_out(2) by auto
    then show ?thesis
      using True fading_out t by (intro calm_modal.unlocking [of _ b]) (auto simp: modal_ops modal_phases Let_def)
  next
    case False
    then show ?thesis
      using fading_out t by (intro calm_modal.hidden) (auto simp: modal_ops modal_phases Let_def split: if_splits)
  qed
next
  case (unlocking b)
  then have "t = backdrop_end opts b s" using assms(1) by (auto simp: modal_browser_iff)
  then show ?thesis
    using unlocking by (intro calm_modal.hidden) (auto simp: backdrop_end_def modal_ops modal_phases Let_def)
qed

lemma reach_calm: "modal_reach opts calm s \<Longrightarrow> calm \<Longrightarrow> calm_modal opts s"
proof (induction rule: modal_reach.induct)
  case start
  show ?case by (rule calm_modal.hidden) (simp_all add: modal_phases new_modal_def)
next
  case (user s p t)
  then show ?case using calm_user by auto
next
  case (browser s t)
  then show ?case using calm_browser by blast
qed

text \<open>
  C5: in a calm history, whenever no transition is under way, a shown modal is displayed, holds the focus,
  locks the body and has exactly one backdrop if it is to have one; a hidden modal leaves nothing behind:
  no element, no backdrop, no handler, and the body is free.
\<close>

theorem modal_at_rest:
  assumes "modal_reach opts True s" "md_waits s = []"
  shows "if md_isShown s
    then modal_open s \<and> md_body_open s \<and> length (md_dom s) = (if md_backdrop opts then 1 else 0)
    else modal_gone s \<and> \<not> md_body_open s \<and> md_keyup s = 0 \<and> md_dismiss s = 0 \<and> md_outside s = 0 \<and> md_focusin s = 0"
proof -
  have "calm_modal opts s" by (rule reach_calm [OF assms(1)]) simp
  then show ?thesis using assms(2)
  proof (cases rule: calm_at_rest)
    case (Up bs)
    then show ?thesis by (auto simp: modal_up_def split: if_splits)
  next
    case Down
    then show ?thesis using reach_bound [OF assms(1)] by (auto simp: modal_down_def modal_bound_def)
  qed
qed

abbreviation plain_modal :: modal_opts where
  "plain_modal \<equiv> \<lparr>md_backdrop = True, md_static = False, md_keyboard = True, md_fade = False\<rparr>"

abbreviation fading_modal :: modal_opts where
  "fading_modal \<equiv> \<lparr>md_backdrop = True, md_static = False, md_keyboard = True, md_fade = True\<rparr>"

lemma modal_at_rest_witness: "length (md_dom (md_show plain_modal False new_modal)) = 1"
proof -
  have r: "modal_reach plain_modal True (md_show plain_modal False new_modal)"
    by (rule modal_reach.user [OF modal_reach.start _ modal_user.show_call]) (simp add: new_modal_def)
  have w: "md_waits (md_show plain_modal False new_modal) = []" "md_isShown (md_show plain_modal False new_modal)"
    by code_simp+
  show ?thesis using modal_at_rest [OF r w(1)] w(2) by simp
qed

lemma modal_handlers_bound_once_witness: "md_keyup (md_show plain_modal False new_modal) = 1"
proof -
  have r: "modal_reach plain_modal True (md_show plain_modal False new_modal)"
    by (rule modal_reach.user [OF modal_reach.start _ modal_user.show_call]) (simp add: new_modal_def)
  have w: "md_isShown (md_show plain_modal False new_modal)" by code_simp
  show ?thesis using modal_handlers_bound_once [OF r] w by simp
qed

lemma dialog_waits: "md_waits s = [OnDialog] \<Longrightarrow> md_waits (dialog_end s) = [] \<and> md_isShown (dialog_end s) = md_isShown s"
  by (simp add: dialog_end_def)

lemma settle_dialog:
  assumes "modal_browser opts s t" "md_waits t = [] \<or> md_waits t = [OnDialog]"
  shows "\<exists>u. (modal_browser opts)\<^sup>*\<^sup>* s u \<and> md_waits u = [] \<and> md_isShown u = md_isShown t"
  using assms(2)
proof
  assume d: "md_waits t = [OnDialog]"
  then have "modal_browser opts t (dialog_end t)" by (simp add: modal_browser_iff)
  then show ?thesis using assms(1) dialog_waits [OF d] by (meson converse_rtranclp_into_rtranclp r_into_rtranclp)
qed (use assms(1) in blast)

lemma settle_backdrop:
  assumes "md_waits t = [OnBackdrop b HiddenCb]" "md_ref t = Some b"
  shows "\<exists>u. modal_browser opts t u \<and> md_waits u = [] \<and> md_isShown u = md_isShown t"
  using assms by (intro exI [of _ "backdrop_end opts b t"])
    (auto simp: modal_browser_iff backdrop_end_def modal_ops Let_def)

text \<open>
  Whatever a calm history has started comes to rest: from each of its states the ends of the
  transitions lead to a state with no transition under way, with the modal shown or hidden as it was asked.
\<close>

theorem modal_settles:
  assumes "modal_reach opts True s"
  shows "\<exists>t. (modal_browser opts)\<^sup>*\<^sup>* s t \<and> md_waits t = [] \<and> md_isShown t = md_isShown s"
proof -
  have "calm_modal opts s" by (rule reach_calm [OF assms]) simp
  then show ?thesis
  proof (cases rule: calm_modal.cases)
    case (shown bs)
    have "modal_browser opts s (dialog_end s)" if "md_waits s = [OnDialog]" using that by (simp add: modal_browser_iff)
    then show ?thesis using shown(3) dialog_waits by blast
  next
    case hidden
    then show ?thesis by blast
  next
    case (fading_in b)
    have "modal_browser opts s (backdrop_end opts b s)" using fading_in by (auto simp: modal_browser_iff)
    moreover have "md_waits (backdrop_end opts b s) = (if md_fade opts then [OnDialog] else [])"
      "md_isShown (backdrop_end opts b s) = md_isShown s"
      using fading_in by (simp_all add: backdrop_end_def modal_ops Let_def)
    ultimately show ?thesis using settle_dialog [of opts s "backdrop_end opts b s"] by auto
  next
    case fading_out
    have e: "modal_browser opts s (element_end opts s)" using fading_out by (simp add: modal_browser_iff)
    have "md_isShown (element_end opts s) = md_isShown s \<and>
        (md_waits (element_end opts s) = [] \<or>
         (\<exists>b. md_waits (element_end opts s) = [OnBackdrop b HiddenCb] \<and> md_ref (element_end opts s) = Some b))"
      using fading_out by (auto simp: element_end_def modal_ops modal_phases Let_def split: if_splits)
    then show ?thesis
    proof (elim conjE disjE exE)
      fix b
      assume i: "md_isShown (element_end opts s) = md_isShown s"
        and w: "md_waits (element_end opts s) = [OnBackdrop b HiddenCb]" "md_ref (element_end opts s) = Some b"
      from settle_backdrop [OF w] obtain u where
        "modal_browser opts (element_end opts s) u" "md_waits u = []" "md_isShown u = md_isShown (element_end opts s)"
        by blast
      then show ?thesis using e i by (metis converse_rtranclp_into_rtranclp r_into_rtranclp)
    qed (use e in blast)
  next
    case (unlocking b)
    then show ?thesis using settle_backdrop [of s b opts] by blast
  qed
qed

lemma modal_settles_witness:
  "\<exists>t. (modal_browser fading_modal)\<^sup>*\<^sup>* (md_show fading_modal False new_modal) t \<and> md_waits t = [] \<and> md_isShown t"
proof -
  have r: "modal_reach fading_modal True (md_show fading_modal False new_modal)"
    by (rule modal_reach.user [OF modal_reach.start _ modal_user.show_call]) (simp add: new_modal_def)
  have w: "md_isShown (md_show fading_modal False new_modal)" by code_simp
  show ?thesis using modal_settles [OF r] w by simp
qed

section \<open>Histories that are not calm\<close>

text \<open>Runs of calls and transition ends, as one function, for concrete histories.\<close>

datatype md_event = Show bool | Hide bool | BackdropEnd nat | ElementEnd | DialogEnd

fun md_react :: "modal_opts \<Rightarrow> md_event \<Rightarrow> modal \<Rightarrow> modal" where
  "md_react opts (Show p) s = md_show opts p s"
| "md_react opts (Hide p) s = md_hide opts p s"
| "md_react opts (BackdropEnd b) s =
     (if \<exists>w \<in> set (md_waits s). cb_of b w \<noteq> [] then backdrop_end opts b s else s)"
| "md_react opts ElementEnd s = (if OnElement \<in> set (md_waits s) then element_end opts s else s)"
| "md_react opts DialogEnd s = (if OnDialog \<in> set (md_waits s) then dialog_end s else s)"

lemma reach_event:
  assumes "modal_reach opts False s"
  shows "modal_reach opts False (md_react opts e s)"
proof (cases e)
  case (BackdropEnd b)
  have "modal_browser opts s (backdrop_end opts b s)" if "w \<in> set (md_waits s)" "cb_of b w \<noteq> []" for w
  proof (cases w)
    case (OnBackdrop b' k)
    then show ?thesis using that by (intro modal_browser.backdrop_ends [of b k]) (simp split: if_splits)
  qed (use that in simp_all)
  then show ?thesis using assms BackdropEnd by (auto intro: modal_reach.browser)
qed (use assms in \<open>auto intro: modal_reach.user modal_reach.browser modal_user.intros modal_browser.intros\<close>)

interpretation modal: event_machine "md_react opts" "modal_reach opts False" "\<lambda>_. True" for opts
  by unfold_locales (rule reach_event)

lemma reach_run: "modal_reach opts False (fold (md_react opts) es new_modal)"
  by (rule modal.run_inv [OF modal_reach.start]) simp

text \<open>
  A modal that is shown again while it fades out is hidden by the transition that was under way: a
  history ends at rest with the modal shown for the object, and with the element not displayed, two
  backdrops over the page and the body free to scroll.
\<close>

theorem modal_reopened_hidden:
  "\<exists>s. modal_reach fading_modal False s \<and> md_waits s = [] \<and>
     md_isShown s \<and> \<not> md_visible s \<and> length (md_dom s) = 2 \<and> \<not> md_body_open s"
proof -
  let ?es = "[Show False, BackdropEnd 0, DialogEnd, Hide False, Show False, BackdropEnd 1, ElementEnd, BackdropEnd 2, DialogEnd]"
  have "md_waits (fold (md_react fading_modal) ?es new_modal) = [] \<and> md_isShown (fold (md_react fading_modal) ?es new_modal) \<and>
      \<not> md_visible (fold (md_react fading_modal) ?es new_modal) \<and>
      length (md_dom (fold (md_react fading_modal) ?es new_modal)) = 2 \<and>
      \<not> md_body_open (fold (md_react fading_modal) ?es new_modal)"
    by code_simp
  then show ?thesis using reach_run by blast
qed

text \<open>A modal hidden before its backdrop has faded in keeps the focus of the page for good.\<close>

lemma modal_hidden_keeps_focus:
  "\<exists>s. modal_reach fading_modal False s \<and> md_waits s = [] \<and> \<not> md_isShown s \<and> md_focusin s = 1 \<and> md_in s"
proof -
  let ?es = "[Show False, Hide False, BackdropEnd 0, ElementEnd, DialogEnd, BackdropEnd 0]"
  have "md_waits (fold (md_react fading_modal) ?es new_modal) = [] \<and> \<not> md_isShown (fold (md_react fading_modal) ?es new_modal) \<and>
      md_focusin (fold (md_react fading_modal) ?es new_modal) = 1 \<and> md_in (fold (md_react fading_modal) ?es new_modal)"
    by code_simp
  then show ?thesis using reach_run by blast
qed

text \<open>A show that the page prevents leaves the body locked.\<close>

lemma modal_prevented_locks_body:
  "\<exists>s. modal_reach plain_modal False s \<and> md_waits s = [] \<and> \<not> md_isShown s \<and> md_body_open s"
proof -
  have "md_waits (fold (md_react plain_modal) [Show True] new_modal) = [] \<and>
      \<not> md_isShown (fold (md_react plain_modal) [Show True] new_modal) \<and>
      md_body_open (fold (md_react plain_modal) [Show True] new_modal)"
    by code_simp
  then show ?thesis using reach_run by blast
qed

end
