(* ===== verification/Boot_Collapse.thy ===== *)
theory Boot_Collapse
  imports Vein_Prelude
begin

text \<open>
  The collapsible panels of \<open>js/bootstrap.js\<close> as an accordion: panels under one parent, each with the
  link that toggles it. A panel has its three classes, the \<open>Collapse\<close> object stored on it (with its
  \<open>transitioning\<close> flag), and the callbacks that wait for the end of its transition. An object that is no
  longer stored still has its callbacks.
\<close>

section \<open>State\<close>

datatype collapse = Collapse (cl_id: nat) (cl_transitioning: bool) (cl_parent: bool)

record panel =
  pn_in :: bool
  pn_collapse :: bool
  pn_collapsing :: bool
  pn_data :: "collapse option"
  pn_ends :: "(nat \<times> bool) list"   \<comment> \<open>object, and whether it completes a \<open>show\<close>\<close>
  pn_link :: bool                    \<comment> \<open>the link has the class \<open>collapsed\<close>\<close>

record accordion =
  ac_panels :: "panel list"
  ac_fresh :: nat

section \<open>One panel\<close>

definition set_transitioning :: "nat \<Rightarrow> bool \<Rightarrow> panel \<Rightarrow> panel" where
  "set_transitioning n b p =
     p\<lparr>pn_data := map_option (\<lambda>d. if cl_id d = n then Collapse n b (cl_parent d) else d) (pn_data p)\<rparr>"

definition is_transitioning :: "panel \<Rightarrow> bool" where
  "is_transitioning p = (case pn_data p of None \<Rightarrow> False | Some d \<Rightarrow> cl_transitioning d)"

text \<open>The two functions \<open>complete\<close>.\<close>

definition panel_complete :: "nat \<times> bool \<Rightarrow> panel \<Rightarrow> panel" where
  "panel_complete k p =
     (if snd k then set_transitioning (fst k) False (p\<lparr>pn_collapsing := False, pn_in := True\<rparr>)
      else (set_transitioning (fst k) False p)\<lparr>pn_collapsing := False, pn_collapse := True\<rparr>)"

text \<open>With CSS transitions the completion waits for the end of the transition.\<close>

definition panel_finish :: "bool \<Rightarrow> nat \<times> bool \<Rightarrow> panel \<Rightarrow> panel" where
  "panel_finish css k p = (if css then p\<lparr>pn_ends := pn_ends p @ [k]\<rparr> else panel_complete k p)"

text \<open>\<open>hide\<close> of the object stored on the panel.\<close>

definition collapse_hide :: "bool \<Rightarrow> bool \<Rightarrow> panel \<Rightarrow> panel" where
  "collapse_hide css prevented p =
     (case pn_data p of
        None \<Rightarrow> p
      | Some d \<Rightarrow>
          if cl_transitioning d \<or> \<not> pn_in p then p
          else if prevented then p
          else panel_finish css (cl_id d, False)
                 (set_transitioning (cl_id d) True (p\<lparr>pn_collapsing := True, pn_collapse := False, pn_in := False\<rparr>)))"

text \<open>The part of \<open>show\<close> after the other panels.\<close>

definition panel_open :: "bool \<Rightarrow> collapse \<Rightarrow> panel \<Rightarrow> panel" where
  "panel_open css d p =
     panel_finish css (cl_id d, True)
       (set_transitioning (cl_id d) True (p\<lparr>pn_collapse := False, pn_collapsing := True\<rparr>))"

section \<open>The accordion\<close>

abbreviation upd_panel :: "nat \<Rightarrow> (panel \<Rightarrow> panel) \<Rightarrow> accordion \<Rightarrow> accordion" where
  "upd_panel i f a \<equiv> a\<lparr>ac_panels := (ac_panels a)[i := f (ac_panels a ! i)]\<rparr>"

definition actives :: "accordion \<Rightarrow> nat list" where
  "actives a = filter (\<lambda>j. pn_in (ac_panels a ! j)) [0..<length (ac_panels a)]"

text \<open>
  \<open>$(panel).collapse('hide')\<close>. A panel without an object gets one, whose constructor toggles (that is,
  hides: the panel has the class \<open>in\<close>); the call that follows then finds nothing to do.
\<close>

definition plugin_hide :: "bool \<Rightarrow> bool \<Rightarrow> nat \<Rightarrow> accordion \<Rightarrow> accordion" where
  "plugin_hide css prevented j a =
     (if pn_data (ac_panels a ! j) = None
      then (let n = ac_fresh a; a = a\<lparr>ac_fresh := n + 1\<rparr>
            in upd_panel j (\<lambda>p. collapse_hide css prevented (collapse_hide css prevented
                 (p\<lparr>pn_data := Some (Collapse n False False)\<rparr>))) a)
      else upd_panel j (collapse_hide css prevented) a)"

text \<open>\<open>show\<close> of the object \<open>d\<close> stored on panel \<open>i\<close>.\<close>

definition collapse_show :: "bool \<Rightarrow> bool \<Rightarrow> bool \<Rightarrow> nat \<Rightarrow> collapse \<Rightarrow> accordion \<Rightarrow> accordion" where
  "collapse_show css prevent_show prevent_hide i d a =
     (if cl_transitioning d \<or> pn_in (ac_panels a ! i) \<or> prevent_show then a
      else
        (let js = (if cl_parent d then actives a else []) in
         if js = [] then upd_panel i (panel_open css d) a
         else
           (let hasData = pn_data (ac_panels a ! hd js) in
            if hasData \<noteq> None \<and> is_transitioning (ac_panels a ! hd js) then a
            else
              (let a = fold (plugin_hide css prevent_hide) js a;
                   a = (if hasData \<noteq> None then a else fold (\<lambda>j. upd_panel j (\<lambda>p. p\<lparr>pn_data := None\<rparr>)) js a)
               in upd_panel i (panel_open css d) a))))"

definition collapse_toggle :: "bool \<Rightarrow> bool \<Rightarrow> bool \<Rightarrow> nat \<Rightarrow> collapse \<Rightarrow> accordion \<Rightarrow> accordion" where
  "collapse_toggle css ps ph i d a =
     (if pn_in (ac_panels a ! i) then upd_panel i (collapse_hide css ph) a else collapse_show css ps ph i d a)"

text \<open>A click on the link of panel \<open>i\<close>; the object it creates has the parent of the link.\<close>

definition link_click :: "bool \<Rightarrow> bool \<Rightarrow> bool \<Rightarrow> nat \<Rightarrow> accordion \<Rightarrow> accordion" where
  "link_click css ps ph i a =
     (let a = (if is_transitioning (ac_panels a ! i) then a
               else a\<lparr>ac_panels := map_index (\<lambda>j p. p\<lparr>pn_link := (j \<noteq> i \<or> pn_in p)\<rparr>) (ac_panels a)\<rparr>)
      in case pn_data (ac_panels a ! i) of
           Some d \<Rightarrow> collapse_toggle css ps ph i d a
         | None \<Rightarrow>
             (let d = Collapse (ac_fresh a) False True;
                  a = upd_panel i (\<lambda>p. p\<lparr>pn_data := Some d\<rparr>) (a\<lparr>ac_fresh := ac_fresh a + 1\<rparr>)
              in collapse_toggle css ps ph i d a))"

definition panel_end :: "nat \<Rightarrow> accordion \<Rightarrow> accordion" where
  "panel_end i a = upd_panel i (\<lambda>p. fold panel_complete (pn_ends p) (p\<lparr>pn_ends := []\<rparr>)) a"

datatype ac_event = Click bool bool nat | PanelEnd nat

fun ac_step :: "bool \<Rightarrow> ac_event \<Rightarrow> accordion \<Rightarrow> accordion" where
  "ac_step css (Click ps ph i) a = (if i < length (ac_panels a) then link_click css ps ph i a else a)"
| "ac_step css (PanelEnd i) a = (if i < length (ac_panels a) then panel_end i a else a)"

section \<open>The shape of a panel\<close>

definition pn_opening :: "panel \<Rightarrow> bool" where
  "pn_opening p \<longleftrightarrow> (\<exists>n. (n, True) \<in> set (pn_ends p))"

definition panel_ok :: "bool \<Rightarrow> panel \<Rightarrow> bool" where
  "panel_ok css p \<longleftrightarrow>
     (if pn_ends p = [] then \<not> pn_collapsing p \<and> (pn_in p \<or> pn_collapse p) \<and> \<not> is_transitioning p
      else css \<and> pn_collapsing p \<and> \<not> pn_in p \<and> \<not> pn_collapse p) \<and>
     (\<forall>n. (n, True) \<in> set (pn_ends p) \<longrightarrow> (\<exists>b. pn_data p = Some (Collapse n True b))) \<and>
     (is_transitioning p \<longrightarrow> cl_id (the (pn_data p)) \<in> fst ` set (pn_ends p))"

abbreviation all_panels :: "(panel \<Rightarrow> bool) \<Rightarrow> accordion \<Rightarrow> bool" where
  "all_panels P a \<equiv> \<forall>p \<in> set (ac_panels a). P p"

lemma all_panels_upd:
  assumes "all_panels P a" "P (ac_panels a ! i) \<Longrightarrow> P (f (ac_panels a ! i))"
  shows "all_panels P (upd_panel i f a)"
proof (cases "i < length (ac_panels a)")
  case True
  then have "P (f (ac_panels a ! i))" using assms by simp
  then show ?thesis using assms(1) set_update_subset_insert [of "ac_panels a" i "f (ac_panels a ! i)"] by auto
qed (use assms(1) in \<open>simp add: list_update_beyond not_less\<close>)

lemma fold_preserves: "P a \<Longrightarrow> (\<And>x a. x \<in> set xs \<Longrightarrow> P a \<Longrightarrow> P (f x a)) \<Longrightarrow> P (fold f xs a)"
  by (induction xs arbitrary: a) auto

lemma set_transitioning_simps [simp]:
  "pn_in (set_transitioning n b p) = pn_in p" "pn_collapse (set_transitioning n b p) = pn_collapse p"
  "pn_collapsing (set_transitioning n b p) = pn_collapsing p" "pn_ends (set_transitioning n b p) = pn_ends p"
  "pn_link (set_transitioning n b p) = pn_link p"
  "pn_data (set_transitioning n b p) = map_option (\<lambda>d. if cl_id d = n then Collapse n b (cl_parent d) else d) (pn_data p)"
  by (simp_all add: set_transitioning_def)

lemma complete_simps [simp]:
  "pn_in (panel_complete k p) = (snd k \<or> pn_in p)" "pn_collapse (panel_complete k p) = (\<not> snd k \<or> pn_collapse p)"
  "pn_collapsing (panel_complete k p) = False" "pn_ends (panel_complete k p) = pn_ends p"
  "pn_link (panel_complete k p) = pn_link p"
  "pn_data (panel_complete k p) =
     map_option (\<lambda>d. if cl_id d = fst k then Collapse (fst k) False (cl_parent d) else d) (pn_data p)"
  by (simp_all add: panel_complete_def)

text \<open>All the callbacks that wait for one transition run at its end.\<close>

lemma complete_all:
  "pn_in (fold panel_complete ks p) = ((\<exists>n. (n, True) \<in> set ks) \<or> pn_in p)"
  "pn_collapse (fold panel_complete ks p) = ((\<exists>n. (n, False) \<in> set ks) \<or> pn_collapse p)"
  "pn_collapsing (fold panel_complete ks p) = (ks = [] \<and> pn_collapsing p)"
  "pn_ends (fold panel_complete ks p) = pn_ends p"
  "pn_link (fold panel_complete ks p) = pn_link p"
  "is_transitioning (fold panel_complete ks p) = (is_transitioning p \<and> cl_id (the (pn_data p)) \<notin> fst ` set ks)"
  "map_option cl_parent (pn_data (fold panel_complete ks p)) = map_option cl_parent (pn_data p)"
  by (induction ks arbitrary: p)
    (auto simp: is_transitioning_def option.map_comp comp_def split: option.splits intro!: option.map_cong)

lemma ok_hide: "panel_ok css p \<Longrightarrow> panel_ok css (collapse_hide css prevented p)"
  by (auto simp: panel_ok_def collapse_hide_def panel_finish_def is_transitioning_def split: option.splits if_splits)

lemma ok_open:
  assumes "panel_ok css p" "pn_data p = Some d" "\<not> cl_transitioning d" "\<not> pn_in p"
  shows "panel_ok css (panel_open css d p)"
  using assms by (auto simp: panel_ok_def panel_open_def panel_finish_def is_transitioning_def split: if_splits)

lemma some_completion: "ks \<noteq> [] \<Longrightarrow> (\<exists>n. (n, True) \<in> set ks) \<or> (\<exists>n. (n, False) \<in> set ks)"
proof (cases ks)
  case (Cons k _)
  then show ?thesis by (cases k; cases "snd k") auto
qed simp

lemma ok_end:
  assumes "panel_ok css p"
  shows "panel_ok css (fold panel_complete (pn_ends p) (p\<lparr>pn_ends := []\<rparr>))"
proof -
  have t: "is_transitioning (p\<lparr>pn_ends := []\<rparr>) = is_transitioning p" by (simp add: is_transitioning_def)
  show ?thesis
  proof (cases "pn_ends p = []")
    case False
    then show ?thesis using assms some_completion [of "pn_ends p"] by (auto simp: panel_ok_def complete_all t)
  qed (use assms in \<open>simp add: panel_ok_def t\<close>)
qed

lemma ok_in: "panel_ok css p \<Longrightarrow> pn_in p \<Longrightarrow> pn_ends p = [] \<and> \<not> is_transitioning p"
  by (auto simp: panel_ok_def split: if_splits)

lemma ok_data: "panel_ok css p \<Longrightarrow> \<not> pn_opening p \<Longrightarrow> panel_ok css (p\<lparr>pn_data := None\<rparr>)"
  by (auto simp: panel_ok_def pn_opening_def is_transitioning_def split: if_splits)

lemma ok_new: "panel_ok css p \<Longrightarrow> pn_data p = None \<Longrightarrow> panel_ok css (p\<lparr>pn_data := Some (Collapse n False b)\<rparr>)"
  by (auto simp: panel_ok_def is_transitioning_def split: if_splits)

lemma ok_link [simp]: "panel_ok css (p\<lparr>pn_link := l\<rparr>) = panel_ok css p"
  by (simp add: panel_ok_def is_transitioning_def)

lemma hide_opening: "pn_opening (collapse_hide css prevented p) \<Longrightarrow> pn_opening p"
  by (auto simp: pn_opening_def collapse_hide_def panel_finish_def split: option.splits if_splits)

text \<open>Hiding the active panels touches only these, and opens none.\<close>

lemma plugin_hide_panel:
  obtains f where "ac_panels (plugin_hide css ph j a) = (ac_panels a)[j := f (ac_panels a ! j)]"
    "\<And>p. p = ac_panels a ! j \<Longrightarrow> panel_ok css p \<Longrightarrow> panel_ok css (f p)"
    "\<And>p. p = ac_panels a ! j \<Longrightarrow> pn_opening (f p) \<Longrightarrow> pn_opening p"
proof (cases "pn_data (ac_panels a ! j) = None")
  case True
  have o: "pn_opening (p\<lparr>pn_data := x\<rparr>) = pn_opening p" for p x by (simp add: pn_opening_def)
  show ?thesis
    by (rule that [of "\<lambda>p. collapse_hide css ph (collapse_hide css ph (p\<lparr>pn_data := Some (Collapse (ac_fresh a) False False)\<rparr>))"])
      (use True in \<open>auto simp: plugin_hide_def Let_def ok_hide ok_new o dest!: hide_opening\<close>)
next
  case False
  show ?thesis
    by (rule that [of "collapse_hide css ph"]) (use False in \<open>auto simp: plugin_hide_def ok_hide hide_opening\<close>)
qed

definition hid :: "bool \<Rightarrow> nat list \<Rightarrow> accordion \<Rightarrow> accordion \<Rightarrow> bool" where
  "hid css js a b \<longleftrightarrow> length (ac_panels b) = length (ac_panels a) \<and> all_panels (panel_ok css) b \<and>
     (\<forall>j < length (ac_panels a). (j \<notin> set js \<longrightarrow> ac_panels b ! j = ac_panels a ! j) \<and>
        (j \<in> set js \<longrightarrow> \<not> pn_opening (ac_panels b ! j)))"

lemma hid_hide:
  assumes h: "hid css js a b" and j: "j \<in> set js"
  shows "hid css js a (plugin_hide css ph j b)"
proof -
  obtain f where f: "ac_panels (plugin_hide css ph j b) = (ac_panels b)[j := f (ac_panels b ! j)]"
    "\<And>p. p = ac_panels b ! j \<Longrightarrow> panel_ok css p \<Longrightarrow> panel_ok css (f p)"
    "\<And>p. p = ac_panels b ! j \<Longrightarrow> pn_opening (f p) \<Longrightarrow> pn_opening p"
    using plugin_hide_panel by metis
  have all: "all_panels (panel_ok css) (plugin_hide css ph j b)"
    using all_panels_upd [of b "panel_ok css" j f] f h by (simp add: hid_def)
  have "ac_panels (plugin_hide css ph j b) ! k = (if k = j then f (ac_panels b ! j) else ac_panels b ! k)"
    if "k < length (ac_panels b)" for k
    using that unfolding f(1) by simp
  moreover have "length (ac_panels (plugin_hide css ph j b)) = length (ac_panels b)" by (simp add: f(1))
  ultimately show ?thesis using h j f(3) all unfolding hid_def by auto
qed

lemma hid_drop:
  assumes h: "hid css js a b" and j: "j \<in> set js"
  shows "hid css js a (upd_panel j (\<lambda>p. p\<lparr>pn_data := None\<rparr>) b)"
proof (cases "j < length (ac_panels b)")
  case True
  then have "panel_ok css ((ac_panels b ! j)\<lparr>pn_data := None\<rparr>)"
    using h j by (auto simp: hid_def intro!: ok_data)
  then have "all_panels (panel_ok css) (upd_panel j (\<lambda>p. p\<lparr>pn_data := None\<rparr>) b)"
    by (intro all_panels_upd) (use h in \<open>auto simp: hid_def\<close>)
  moreover have "ac_panels (upd_panel j (\<lambda>p. p\<lparr>pn_data := None\<rparr>) b) ! k =
      (if k = j then (ac_panels b ! j)\<lparr>pn_data := None\<rparr> else ac_panels b ! k)" for k
    using True by simp
  moreover have "pn_opening (p\<lparr>pn_data := None\<rparr>) = pn_opening p" for p by (simp add: pn_opening_def)
  ultimately show ?thesis using h j unfolding hid_def by simp
qed (use h in \<open>simp add: list_update_beyond not_less hid_def\<close>)

lemma hid_actives:
  assumes "all_panels (panel_ok css) a"
  shows "hid css (actives a) a a"
  using assms ok_in by (fastforce simp: hid_def actives_def pn_opening_def)

lemma ok_show:
  assumes a: "all_panels (panel_ok css) a" and i: "i < length (ac_panels a)" "pn_data (ac_panels a ! i) = Some d"
  shows "all_panels (panel_ok css) (collapse_show css ps ph i d a)"
proof (cases "cl_transitioning d \<or> pn_in (ac_panels a ! i) \<or> ps")
  case False
  define js where "js = (if cl_parent d then actives a else [])"
  have notin: "i \<notin> set js" using False by (auto simp: js_def actives_def)
  have start: "hid css js a a" using hid_actives [OF a] a by (auto simp: js_def hid_def)
  define b1 where "b1 = fold (plugin_hide css ph) js a"
  define b2 where "b2 = fold (\<lambda>j. upd_panel j (\<lambda>p. p\<lparr>pn_data := None\<rparr>)) js b1"
  have b1: "hid css js a b1" unfolding b1_def using start by (rule fold_preserves) (rule hid_hide)
  have b2: "hid css js a b2" unfolding b2_def using b1 by (rule fold_preserves) (rule hid_drop)
  have fin: "all_panels (panel_ok css) (upd_panel i (panel_open css d) b)" if "hid css js a b" for b
  proof (rule all_panels_upd)
    show "all_panels (panel_ok css) b" using that by (simp add: hid_def)
    have "ac_panels b ! i = ac_panels a ! i" using that notin i(1) by (simp add: hid_def)
    then show "panel_ok css (panel_open css d (ac_panels b ! i))" if "panel_ok css (ac_panels b ! i)"
      using that False i(2) by (intro ok_open) simp_all
  qed
  show ?thesis
    using False a fin [OF start] fin [OF b1] fin [OF b2]
    by (auto simp: collapse_show_def Let_def js_def [symmetric] b1_def [symmetric] b2_def [symmetric])
qed (use a in \<open>auto simp: collapse_show_def\<close>)

lemma ok_toggle:
  assumes "all_panels (panel_ok css) a" "i < length (ac_panels a)" "pn_data (ac_panels a ! i) = Some d"
  shows "all_panels (panel_ok css) (collapse_toggle css ps ph i d a)"
  using ok_show [OF assms] all_panels_upd [OF assms(1) ok_hide] by (simp add: collapse_toggle_def)

lemma all_panels_nth: "all_panels P a \<Longrightarrow> i < length (ac_panels a) \<Longrightarrow> P (ac_panels a ! i)"
  by simp

lemma ok_click:
  assumes a: "all_panels (panel_ok css) a" and i: "i < length (ac_panels a)"
  shows "all_panels (panel_ok css) (link_click css ps ph i a)"
proof -
  define b where "b = (if is_transitioning (ac_panels a ! i) then a
    else a\<lparr>ac_panels := map_index (\<lambda>j p. p\<lparr>pn_link := (j \<noteq> i \<or> pn_in p)\<rparr>) (ac_panels a)\<rparr>)"
  have b: "all_panels (panel_ok css) b" "length (ac_panels b) = length (ac_panels a)"
    using all_panels_nth [OF a] by (auto simp: b_def in_set_conv_nth)
  let ?c = "upd_panel i (\<lambda>p. p\<lparr>pn_data := Some (Collapse (ac_fresh b) False True)\<rparr>) (b\<lparr>ac_fresh := ac_fresh b + 1\<rparr>)"
  have c: "all_panels (panel_ok css) ?c" if "pn_data (ac_panels b ! i) = None"
    by (rule all_panels_upd) (use b(1) that in \<open>simp_all add: ok_new\<close>)
  have step: "link_click css ps ph i a =
      (case pn_data (ac_panels b ! i) of
         Some d \<Rightarrow> collapse_toggle css ps ph i d b
       | None \<Rightarrow> collapse_toggle css ps ph i (Collapse (ac_fresh b) False True) ?c)"
    unfolding link_click_def b_def [symmetric] Let_def ..
  show ?thesis
  proof (cases "pn_data (ac_panels b ! i)")
    case None
    moreover have "all_panels (panel_ok css) (collapse_toggle css ps ph i (Collapse (ac_fresh b) False True) ?c)"
      by (rule ok_toggle [OF c [OF None]]) (use b(2) i in simp_all)
    ultimately show ?thesis unfolding step by (simp only: option.case)
  next
    case (Some d)
    have "all_panels (panel_ok css) (collapse_toggle css ps ph i d b)"
      by (rule ok_toggle [OF b(1) _ Some]) (use b(2) i in simp)
    then show ?thesis unfolding step Some by (simp only: option.case)
  qed
qed

lemma ok_step: "all_panels (panel_ok css) a \<Longrightarrow> all_panels (panel_ok css) (ac_step css e a)"
proof (cases e)
  case (PanelEnd i)
  assume "all_panels (panel_ok css) a"
  then have "all_panels (panel_ok css) (panel_end i a)"
    unfolding panel_end_def by (rule all_panels_upd) (rule ok_end)
  then show ?thesis using PanelEnd \<open>all_panels (panel_ok css) a\<close> by simp
qed (simp add: ok_click)

interpretation accordion: event_machine "ac_step css" "all_panels (panel_ok css)" "\<lambda>_. True" for css
  by unfold_locales (rule ok_step)

text \<open>A panel as the page brings it.\<close>

definition page_panel :: "bool \<Rightarrow> panel" where
  "page_panel shown =
     \<lparr>pn_in = shown, pn_collapse = True, pn_collapsing = False, pn_data = None, pn_ends = [], pn_link = \<not> shown\<rparr>"

definition page_accordion :: "bool list \<Rightarrow> accordion" where
  "page_accordion bs = \<lparr>ac_panels = map page_panel bs, ac_fresh = 0\<rparr>"

lemma ok_page: "all_panels (panel_ok css) (page_accordion bs)"
  by (auto simp: page_accordion_def page_panel_def panel_ok_def is_transitioning_def)

lemma ok_shape:
  "panel_ok css p \<Longrightarrow>
     (if pn_ends p = [] then \<not> pn_collapsing p \<and> (pn_in p \<or> pn_collapse p)
      else pn_collapsing p \<and> \<not> pn_in p \<and> \<not> pn_collapse p) \<and>
     (pn_in p \<longrightarrow> \<not> is_transitioning p)"
  by (cases "pn_ends p = []") (auto simp: panel_ok_def)

text \<open>
  C18: in every history of clicks (prevented or not) and transition ends each panel of an accordion has one
  of two shapes: at rest it is not collapsing and is open or collapsed; under way it is collapsing and
  neither. So a panel with the class \<open>in\<close> is never transitioning, and the test of \<open>hasData.transitioning\<close> in
  \<open>show\<close> never holds.
\<close>

theorem collapse_panel_shapes:
  "\<forall>p \<in> set (ac_panels (fold (ac_step css) es (page_accordion bs))).
     (if pn_ends p = [] then \<not> pn_collapsing p \<and> (pn_in p \<or> pn_collapse p)
      else pn_collapsing p \<and> \<not> pn_in p \<and> \<not> pn_collapse p) \<and>
     (pn_in p \<longrightarrow> \<not> is_transitioning p)"
proof -
  have "all_panels (panel_ok css) (fold (ac_step css) es (page_accordion bs))"
    by (rule accordion.run_inv [OF ok_page]) simp
  then show ?thesis using ok_shape by blast
qed

lemma collapse_panel_shapes_witness:
  "\<not> pn_in (ac_panels (fold (ac_step True) [Click False False 0] (page_accordion [True])) ! 0)"
proof -
  let ?p = "ac_panels (fold (ac_step True) [Click False False 0] (page_accordion [True])) ! 0"
  have "?p \<in> set (ac_panels (fold (ac_step True) [Click False False 0] (page_accordion [True])))" "pn_ends ?p \<noteq> []"
    by code_simp+
  with collapse_panel_shapes [THEN bspec, OF this(1)] show ?thesis by simp
qed

section \<open>Calm histories\<close>

text \<open>A panel that is open or opening; the objects of the links know the parent.\<close>

definition pn_target :: "panel \<Rightarrow> bool" where
  "pn_target p \<longleftrightarrow> pn_in p \<or> pn_opening p"

definition parent_ok :: "panel \<Rightarrow> bool" where
  "parent_ok p \<longleftrightarrow> (\<forall>d. pn_data p = Some d \<longrightarrow> cl_parent d)"

definition at_rest :: "accordion \<Rightarrow> bool" where
  "at_rest a \<longleftrightarrow> (\<forall>p \<in> set (ac_panels a). pn_ends p = [])"

definition one_open :: "accordion \<Rightarrow> bool" where
  "one_open a \<longleftrightarrow>
     (\<forall>i < length (ac_panels a). \<forall>j < length (ac_panels a).
        pn_target (ac_panels a ! i) \<longrightarrow> pn_target (ac_panels a ! j) \<longrightarrow> i = j)"

lemma hide_open_panel:
  assumes "panel_ok css p" "pn_in p" "pn_data p = Some d"
  shows "\<not> pn_target (collapse_hide css False p)" "pn_link (collapse_hide css False p) = pn_link p"
    "\<not> pn_in (collapse_hide css False p)"
    "\<exists>d'. pn_data (collapse_hide css False p) = Some d' \<and> cl_parent d' = cl_parent d"
  using assms ok_in [OF assms(1,2)]
  by (simp_all add: collapse_hide_def panel_finish_def pn_target_def pn_opening_def is_transitioning_def)

lemma hide_closed_panel: "\<not> pn_in p \<Longrightarrow> collapse_hide css ph p = p"
  by (simp add: collapse_hide_def split: option.split)

lemma open_panel:
  assumes "pn_ends p = []" "pn_data p = Some d"
  shows "pn_target (panel_open css d p)" "pn_link (panel_open css d p) = pn_link p"
    "\<exists>d'. pn_data (panel_open css d p) = Some d' \<and> cl_parent d' = cl_parent d"
  using assms by (auto simp: panel_open_def panel_finish_def pn_target_def pn_opening_def)

text \<open>What hiding the open panel leaves of it.\<close>

definition hides_at :: "bool \<Rightarrow> nat \<Rightarrow> accordion \<Rightarrow> accordion \<Rightarrow> bool" where
  "hides_at css j a b \<longleftrightarrow>
     (\<exists>q. ac_panels b = (ac_panels a)[j := q] \<and> \<not> pn_target q \<and> pn_link q = pn_link (ac_panels a ! j) \<and> parent_ok q)"

lemma hide_the_open_panel:
  fixes a j defines "p \<equiv> ac_panels a ! j"
  assumes "panel_ok css p" "pn_in p" "parent_ok p"
  shows "hides_at css j a
    (if pn_data p \<noteq> None then plugin_hide css False j a
     else upd_panel j (\<lambda>p. p\<lparr>pn_data := None\<rparr>) (plugin_hide css False j a))"
proof (cases "pn_data p")
  case None
  let ?q = "p\<lparr>pn_data := Some (Collapse (ac_fresh a) False False)\<rparr>"
  note h = hide_open_panel [OF ok_new [OF assms(2) None, of "ac_fresh a" False], simplified, OF assms(3)]
  have "ac_panels (upd_panel j (\<lambda>p. p\<lparr>pn_data := None\<rparr>) (plugin_hide css False j a)) =
      (ac_panels a)[j := (collapse_hide css False ?q)\<lparr>pn_data := None\<rparr>]"
    using None by (cases "j < length (ac_panels a)")
      (simp_all add: plugin_hide_def Let_def p_def [symmetric] hide_closed_panel [OF h(3)] list_update_beyond not_less)
  moreover have "\<not> pn_target ((collapse_hide css False ?q)\<lparr>pn_data := None\<rparr>)"
    using h(1) by (simp add: pn_target_def pn_opening_def)
  ultimately show ?thesis using None h(2) by (auto simp: hides_at_def p_def [symmetric] parent_ok_def)
next
  case (Some d)
  note h = hide_open_panel [OF assms(2,3) Some]
  have "parent_ok (collapse_hide css False p)" using h(4) assms(4) Some by (auto simp: parent_ok_def)
  then show ?thesis using Some h by (auto simp: hides_at_def plugin_hide_def p_def [symmetric])
qed

text \<open>A click on the link of panel \<open>i\<close> at rest: only that panel can be open afterwards.\<close>

definition only_open :: "nat \<Rightarrow> bool \<Rightarrow> accordion \<Rightarrow> accordion \<Rightarrow> bool" where
  "only_open i shown a b \<longleftrightarrow> length (ac_panels b) = length (ac_panels a) \<and>
     (\<forall>j < length (ac_panels a). pn_target (ac_panels b ! j) = (j = i \<and> shown) \<and>
        pn_link (ac_panels b ! j) = pn_link (ac_panels a ! j) \<and> parent_ok (ac_panels b ! j))"

lemma rest_target: "at_rest a \<Longrightarrow> i < length (ac_panels a) \<Longrightarrow> pn_target (ac_panels a ! i) = pn_in (ac_panels a ! i)"
  by (auto simp: pn_target_def pn_opening_def at_rest_def)

lemma only_openI:
  assumes "ac_panels b = (ac_panels a)[i := q]" "pn_target q = shown" "pn_link q = pn_link (ac_panels a ! i)" "parent_ok q"
    "\<And>j. j < length (ac_panels a) \<Longrightarrow> j \<noteq> i \<Longrightarrow> \<not> pn_target (ac_panels a ! j)" "all_panels parent_ok a"
  shows "only_open i shown a b"
proof -
  have "ac_panels b ! j = (if j = i then q else ac_panels a ! j)" if "j < length (ac_panels a)" for j
    using that by (cases "j = i") (simp_all add: assms(1))
  moreover have "length (ac_panels b) = length (ac_panels a)" by (simp add: assms(1))
  ultimately show ?thesis using assms(2-) by (auto simp: only_open_def)
qed

lemma actives_one:
  assumes "at_rest a" "one_open a" "j \<in> set (actives a)"
  shows "actives a = [j]"
proof -
  have "\<forall>k \<in> set (actives a). k = j" using assms by (auto simp: actives_def one_open_def rest_target)
  moreover have "distinct (actives a)" by (simp add: actives_def)
  ultimately show ?thesis using assms(3) by (cases "actives a") (auto, metis list.set_intros(1) neq_Nil_conv)
qed

lemma calm_toggle:
  assumes a: "all_panels (panel_ok css) a" "at_rest a" "one_open a" "all_panels parent_ok a"
    and i: "i < length (ac_panels a)" "pn_data (ac_panels a ! i) = Some d"
  shows "only_open i (\<not> pn_in (ac_panels a ! i)) a (collapse_toggle css False False i d a)"
proof (cases "pn_in (ac_panels a ! i)")
  case True
  have ok: "panel_ok css (ac_panels a ! i)" "parent_ok (ac_panels a ! i)" using a i by simp_all
  note h = hide_open_panel [OF ok(1) True i(2)]
  have "\<not> pn_target (ac_panels a ! j)" if "j < length (ac_panels a)" "j \<noteq> i" for j
    using a(2,3) i(1) that True by (auto simp: one_open_def rest_target)
  then show ?thesis
    using h a(4) ok(2) i True
    by (intro only_openI [of _ a i "collapse_hide css False (ac_panels a ! i)"]) (auto simp: collapse_toggle_def parent_ok_def)
next
  case False
  have ok: "panel_ok css (ac_panels a ! i)" "parent_ok (ac_panels a ! i)" "pn_ends (ac_panels a ! i) = []"
    using a i by (simp_all add: at_rest_def)
  have d: "cl_parent d" "\<not> cl_transitioning d"
    using ok i(2) by (auto simp: parent_ok_def panel_ok_def is_transitioning_def)
  note o = open_panel [OF ok(3) i(2)]
  have po: "parent_ok (panel_open css d (ac_panels a ! i))" using o(3) [of css] d(1) by (auto simp: parent_ok_def)
  show ?thesis
  proof (cases "actives a")
    case Nil
    then have "\<not> pn_target (ac_panels a ! j)" if "j < length (ac_panels a)" for j
      using that a(2) by (auto simp: rest_target actives_def filter_empty_conv)
    then show ?thesis
      using Nil False d o po a(4)
      by (intro only_openI [of _ a i "panel_open css d (ac_panels a ! i)"]) (auto simp: collapse_toggle_def collapse_show_def)
  next
    case (Cons j js)
    then have j: "j \<in> set (actives a)" "actives a = [j]" using actives_one [OF a(2,3)] by auto
    then have jl: "j < length (ac_panels a)" "pn_in (ac_panels a ! j)" "j \<noteq> i"
      using False by (auto simp: actives_def)
    have okj: "panel_ok css (ac_panels a ! j)" "parent_ok (ac_panels a ! j)" using a jl(1) by simp_all
    define b where "b = (if pn_data (ac_panels a ! j) \<noteq> None then plugin_hide css False j a
      else upd_panel j (\<lambda>p. p\<lparr>pn_data := None\<rparr>) (plugin_hide css False j a))"
    obtain q where q: "ac_panels b = (ac_panels a)[j := q]" "\<not> pn_target q" "pn_link q = pn_link (ac_panels a ! j)" "parent_ok q"
      using hide_the_open_panel [OF okj(1) jl(2) okj(2)] unfolding b_def [symmetric] hides_at_def by blast
    have ct: "collapse_toggle css False False i d a = upd_panel i (panel_open css d) b"
      using False j(2) d ok_in [OF okj(1) jl(2)]
      by (simp add: collapse_toggle_def collapse_show_def Let_def b_def)
    have others: "\<not> pn_target (ac_panels a ! k)" if "k < length (ac_panels a)" "k \<noteq> j" for k
      using that jl a(2,3) by (auto simp: one_open_def rest_target)
    have nth: "ac_panels (upd_panel i (panel_open css d) b) ! k =
        (if k = i then panel_open css d (ac_panels a ! i) else if k = j then q else ac_panels a ! k)"
      if "k < length (ac_panels a)" for k
      using that i(1) jl(3) by (cases "k = i"; cases "k = j") (simp_all add: q(1))
    have "length (ac_panels (upd_panel i (panel_open css d) b)) = length (ac_panels a)" by (simp add: q(1))
    then show ?thesis
      unfolding ct only_open_def using nth q(2-4) o(1,2) po others a(4) False by auto
  qed
qed

text \<open>The invariant of calm histories.\<close>

definition calm_ac :: "bool \<Rightarrow> accordion \<Rightarrow> bool" where
  "calm_ac css a \<longleftrightarrow> all_panels (panel_ok css) a \<and> one_open a \<and> all_panels parent_ok a \<and>
     (\<forall>p \<in> set (ac_panels a). pn_link p = (\<not> pn_target p))"

lemma calm_click:
  assumes c: "calm_ac css a" and r: "at_rest a" and i: "i < length (ac_panels a)"
  shows "calm_ac css (link_click css False False i a)"
proof -
  let ?set = "\<lambda>j p. p\<lparr>pn_link := (j \<noteq> i \<or> pn_in p)\<rparr>"
  define b where "b = a\<lparr>ac_panels := map_index ?set (ac_panels a)\<rparr>"
  have nt: "\<not> is_transitioning (ac_panels a ! i)"
    using c r i by (auto simp: calm_ac_def panel_ok_def at_rest_def)
  have nth: "ac_panels b ! j = ?set j (ac_panels a ! j)" if "j < length (ac_panels a)" for j
    using that by (simp add: b_def)
  have len: "length (ac_panels b) = length (ac_panels a)" by (simp add: b_def)
  define d where "d = (case pn_data (ac_panels b ! i) of Some d \<Rightarrow> d | None \<Rightarrow> Collapse (ac_fresh b) False True)"
  define e where "e = (case pn_data (ac_panels b ! i) of Some d \<Rightarrow> b
    | None \<Rightarrow> upd_panel i (\<lambda>p. p\<lparr>pn_data := Some d\<rparr>) (b\<lparr>ac_fresh := ac_fresh b + 1\<rparr>))"
  have lc: "link_click css False False i a = collapse_toggle css False False i d e"
    unfolding link_click_def b_def [symmetric] d_def e_def Let_def
    by (cases "pn_data (ac_panels b ! i)") (simp_all only: nt if_False option.case)
  have le: "length (ac_panels e) = length (ac_panels a)" by (simp add: e_def len split: option.split)
  have ne: "ac_panels e ! j = (?set j (ac_panels a ! j))\<lparr>pn_data := (if j = i then Some d else pn_data (ac_panels a ! j))\<rparr>"
    if "j < length (ac_panels a)" for j
    using that i by (auto simp: e_def d_def nth len split: option.split)
  have dd: "pn_data (ac_panels a ! i) = None \<longrightarrow> d = Collapse (ac_fresh b) False True"
    "\<forall>x. pn_data (ac_panels a ! i) = Some x \<longrightarrow> d = x"
    using i by (simp_all add: d_def nth split: option.split)
  have p: "panel_ok css (ac_panels e ! j) \<and> parent_ok (ac_panels e ! j) \<and> pn_ends (ac_panels e ! j) = []"
    if j: "j < length (ac_panels a)" for j
  proof -
    have "panel_ok css (ac_panels a ! j)" "parent_ok (ac_panels a ! j)" "pn_ends (ac_panels a ! j) = []"
      using c r j by (simp_all add: calm_ac_def at_rest_def)
    then show ?thesis
      unfolding ne [OF j] using dd by (cases "j = i"; cases "pn_data (ac_panels a ! j)")
        (auto simp: panel_ok_def parent_ok_def is_transitioning_def)
  qed
  have e1: "all_panels (panel_ok css) e" "at_rest e" "all_panels parent_ok e"
    using p le by (auto simp: in_set_conv_nth at_rest_def)
  have tg: "pn_target (ac_panels e ! j) = pn_target (ac_panels a ! j)" if "j < length (ac_panels a)" for j
    by (simp add: ne [OF that] pn_target_def pn_opening_def)
  have e2: "one_open e" using c tg le by (simp add: calm_ac_def one_open_def)
  have o: "only_open i (\<not> pn_in (ac_panels e ! i)) e (collapse_toggle css False False i d e)"
    by (rule calm_toggle [OF e1(1,2) e2 e1(3)]) (use i le ne [OF i] in simp_all)
  have ok: "all_panels (panel_ok css) (link_click css False False i a)"
    by (rule ok_click [OF _ i]) (use c in \<open>simp add: calm_ac_def\<close>)
  show ?thesis
    using o ok le ne i unfolding calm_ac_def lc only_open_def one_open_def by (auto simp: in_set_conv_nth)
qed

lemma end_target: "pn_target (fold panel_complete (pn_ends p) (p\<lparr>pn_ends := []\<rparr>)) = pn_target p"
  by (auto simp: pn_target_def pn_opening_def complete_all)

lemma calm_end:
  assumes c: "calm_ac css a"
  shows "calm_ac css (panel_end i a)"
proof -
  let ?f = "\<lambda>p. fold panel_complete (pn_ends p) (p\<lparr>pn_ends := []\<rparr>)"
  have t: "pn_target (ac_panels (panel_end i a) ! j) = pn_target (ac_panels a ! j)" if "j < length (ac_panels a)" for j
    using that by (cases "j = i") (simp_all add: panel_end_def end_target)
  have pr: "parent_ok (?f p) = parent_ok p" for p
    using complete_all(7) [of "pn_ends p" "p\<lparr>pn_ends := []\<rparr>"]
    by (auto simp: parent_ok_def map_option_case split: option.splits)
  have "all_panels (panel_ok css) (panel_end i a)" "all_panels parent_ok (panel_end i a)"
    "all_panels (\<lambda>p. pn_link p = (\<not> pn_target p)) (panel_end i a)"
    unfolding panel_end_def by (rule all_panels_upd; use c in \<open>simp add: calm_ac_def ok_end pr end_target complete_all\<close>)+
  then show ?thesis using c t by (simp add: calm_ac_def one_open_def panel_end_def)
qed

text \<open>The accordions a page reaches when the user waits for the transitions and the page prevents nothing.\<close>

inductive calm_accordion :: "bool \<Rightarrow> bool list \<Rightarrow> accordion \<Rightarrow> bool" for css bs where
  page: "calm_accordion css bs (page_accordion bs)"
| click: "calm_accordion css bs a \<Longrightarrow> at_rest a \<Longrightarrow> calm_accordion css bs (ac_step css (Click False False i) a)"
| ends: "calm_accordion css bs a \<Longrightarrow> calm_accordion css bs (ac_step css (PanelEnd i) a)"

lemma calm_page:
  assumes "length (filter id bs) \<le> 1"
  shows "calm_ac css (page_accordion bs)"
proof -
  have "i = j" if ij: "i < length bs" "j < length bs" "bs ! i" "bs ! j" for i j
  proof (rule ccontr)
    assume "i \<noteq> j"
    then have "card {i, j} = 2" by simp
    moreover have "{i, j} \<subseteq> {k. k < length bs \<and> bs ! k}" using ij by auto
    ultimately have "2 \<le> card {k. k < length bs \<and> bs ! k}" by (metis card_mono finite_Collect_conjI finite_Collect_less_nat)
    then show False using assms by (simp add: length_filter_conv_card)
  qed
  then show ?thesis
    using ok_page [of bs css]
    by (auto simp: calm_ac_def one_open_def page_accordion_def page_panel_def parent_ok_def pn_target_def pn_opening_def)
qed

lemma calm_accordion_calm: "calm_accordion css bs a \<Longrightarrow> length (filter id bs) \<le> 1 \<Longrightarrow> calm_ac css a"
proof (induction rule: calm_accordion.induct)
  case page
  then show ?case by (rule calm_page)
qed (simp_all add: calm_click calm_end)

text \<open>
  C10: when the user waits for the transitions and the page prevents nothing, at most one panel of an
  accordion is open or opening at any time, and at rest exactly the links of the closed panels have the
  class \<open>collapsed\<close>.
\<close>

theorem accordion_one_open:
  assumes "calm_accordion css bs a" "length (filter id bs) \<le> 1"
  shows "one_open a \<and> (at_rest a \<longrightarrow> (\<forall>p \<in> set (ac_panels a). pn_link p = (\<not> pn_in p)))"
proof -
  have c: "calm_ac css a" by (rule calm_accordion_calm [OF assms])
  have "pn_target p = pn_in p" if "at_rest a" "p \<in> set (ac_panels a)" for p
    using that by (auto simp: at_rest_def pn_target_def pn_opening_def)
  then show ?thesis using c by (auto simp: calm_ac_def)
qed

lemma accordion_one_open_witness:
  "one_open (ac_step True (PanelEnd 0) (ac_step True (PanelEnd 1)
     (ac_step True (Click False False 1) (page_accordion [True, False, False]))))"
proof -
  have "at_rest (page_accordion [True, False, False])" by (simp add: at_rest_def page_accordion_def page_panel_def)
  then have "calm_accordion True [True, False, False] (ac_step True (PanelEnd 0) (ac_step True (PanelEnd 1)
     (ac_step True (Click False False 1) (page_accordion [True, False, False]))))"
    by (intro calm_accordion.ends calm_accordion.click calm_accordion.page)
  from accordion_one_open [OF this] show ?thesis by simp
qed

text \<open>
  Two links clicked one after the other open both panels: a panel that is opening does not have the
  class \<open>in\<close> yet, so the second \<open>show\<close> does not hide it.
\<close>

theorem accordion_two_open:
  "\<exists>es. map pn_in (ac_panels (fold (ac_step True) es (page_accordion [False, False]))) = [True, True]"
proof -
  have "map pn_in (ac_panels (fold (ac_step True)
      [Click False False 0, Click False False 1, PanelEnd 0, PanelEnd 1] (page_accordion [False, False]))) = [True, True]"
    by code_simp
  then show ?thesis by (rule exI)
qed

text \<open>The link of a panel whose \<open>show\<close> the page prevents says that the panel is open.\<close>

lemma prevented_link:
  "map (\<lambda>p. (pn_in p, pn_link p)) (ac_panels (ac_step True (Click True False 0) (page_accordion [False]))) = [(False, False)]"
  by code_simp

end
