(* ===== verification/Boot_Spy.thy ===== *)
theory Boot_Spy
  imports Vein_Prelude "HOL-Library.Multiset"
begin

text \<open>
  The scroll spy of \<open>js/bootstrap.js\<close>. A link of the navigation is its target and the elements above it,
  innermost first; the page says where each target is. The elements with the class \<open>active\<close> are a list
  without order. Positions are pixels, as \<open>int\<close>.
\<close>

section \<open>The page\<close>

record spy_link =
  sl_data :: "string option"    \<comment> \<open>\<open>data-target\<close>\<close>
  sl_href :: "string option"
  sl_parents :: "nat list"      \<comment> \<open>the elements above, innermost first\<close>

record spy_page =
  sp_links :: "spy_link list"   \<comment> \<open>the links that match \<open>selector\<close>\<close>
  sp_is_li :: "nat \<Rightarrow> bool"
  sp_in_menu :: "nat \<Rightarrow> bool"    \<comment> \<open>the parent has the class \<open>dropdown-menu\<close>\<close>
  sp_dropdown :: "nat \<Rightarrow> bool"   \<comment> \<open>is \<open>li.dropdown\<close>\<close>
  sp_position :: "string \<Rightarrow> int option"
    \<comment> \<open>where the element of an anchor is; none when the text is not an anchor or names no element\<close>

record spy =
  spy_offsets :: "int list"
  spy_targets :: "string list"
  spy_active :: "string option"
  spy_marked :: "nat list"      \<comment> \<open>the elements with the class \<open>active\<close>\<close>
  spy_events :: nat             \<comment> \<open>\<open>activate\<close> events triggered\<close>

section \<open>Operations\<close>

definition sl_target :: "spy_link \<Rightarrow> string option" where
  "sl_target l = (case sl_data l of Some t \<Rightarrow> Some t | None \<Rightarrow> sl_href l)"

definition link_section :: "spy_page \<Rightarrow> int \<Rightarrow> spy_link \<Rightarrow> (int \<times> string) option" where
  "link_section pg scroll l =
     (case sl_target l of
        None \<Rightarrow> None
      | Some t \<Rightarrow> map_option (\<lambda>y. (y + scroll, t)) (sp_position pg t))"

text \<open>\<open>scrollTop\<close> counts when the spy is not on the window.\<close>

definition spy_refresh :: "spy_page \<Rightarrow> int \<Rightarrow> spy \<Rightarrow> spy" where
  "spy_refresh pg scroll s =
     (let sorted_pairs = sort_key fst (List.map_filter (link_section pg scroll) (sp_links pg))
      in s\<lparr>spy_offsets := map fst sorted_pairs, spy_targets := map snd sorted_pairs\<rparr>)"

text \<open>\<open>closest\<close> of an element among the elements above a link.\<close>

definition closest_up :: "(nat \<Rightarrow> bool) \<Rightarrow> nat \<Rightarrow> nat list \<Rightarrow> nat option" where
  "closest_up P n up = List.find P (dropWhile (\<lambda>m. m \<noteq> n) up)"

text \<open>The list items above the links of a target, and the dropdowns around them.\<close>

definition links_to :: "spy_page \<Rightarrow> string \<Rightarrow> spy_link list" where
  "links_to pg t = filter (\<lambda>l. sl_data l = Some t \<or> sl_href l = Some t) (sp_links pg)"

definition items_of :: "spy_page \<Rightarrow> string \<Rightarrow> nat list" where
  "items_of pg t =
     concat (map (\<lambda>l. filter (sp_is_li pg) (sl_parents l)) (links_to pg t))"

definition dropdowns_of :: "spy_page \<Rightarrow> string \<Rightarrow> nat list" where
  "dropdowns_of pg t =
     concat (map (\<lambda>l. List.map_filter (\<lambda>n. closest_up (sp_dropdown pg) n (sl_parents l)) (filter (sp_is_li pg) (sl_parents l)))
       (links_to pg t))"

definition spy_activate :: "spy_page \<Rightarrow> string \<Rightarrow> spy \<Rightarrow> spy" where
  "spy_activate pg t s =
     (let above = concat (map sl_parents (sp_links pg));
          marked = filter (\<lambda>n. n \<notin> set above) (spy_marked s);
          items = items_of pg t;
          menus = (if list_ex (sp_in_menu pg) items then dropdowns_of pg t else [])
      in s\<lparr>spy_active := Some t, spy_marked := remdups (menus @ items @ marked), spy_events := spy_events s + 1\<rparr>)"

text \<open>The loop of \<open>process\<close> from the last offset down; \<open>active\<close> is the target before the loop.\<close>

fun spy_loop :: "spy_page \<Rightarrow> string option \<Rightarrow> int \<Rightarrow> nat \<Rightarrow> spy \<Rightarrow> spy" where
  "spy_loop pg active y 0 s = s"
| "spy_loop pg active y (Suc i) s =
     (let s' = (if active \<noteq> Some (spy_targets s ! i) \<and> spy_offsets s ! i \<le> y \<and>
                  (case js_nth (spy_offsets s) (int i + 1) of
                     None \<Rightarrow> True
                   | Some o' \<Rightarrow> o' = 0 \<or> y \<le> o')
                then spy_activate pg (spy_targets s ! i) s else s)
      in spy_loop pg active y i s')"

text \<open>Past the end the last target is active; without targets that is \<open>undefined\<close>. \<open>y\<close> is the scroll position plus the offset of the options.\<close>

definition spy_process :: "spy_page \<Rightarrow> int \<Rightarrow> int \<Rightarrow> spy \<Rightarrow> spy" where
  "spy_process pg y maxScroll s =
     (if maxScroll \<le> y then
        (if spy_targets s = []
         then (if spy_active s = None then s else (spy_activate pg ''undefined'' s)\<lparr>spy_active := None\<rparr>)
         else if spy_active s \<noteq> Some (last (spy_targets s)) then spy_activate pg (last (spy_targets s)) s else s)
      else spy_loop pg (spy_active s) y (length (spy_offsets s)) s)"

text \<open>The constructor and what follows it.\<close>

definition new_spy :: "spy_page \<Rightarrow> int \<Rightarrow> int \<Rightarrow> int \<Rightarrow> nat list \<Rightarrow> spy" where
  "new_spy pg scroll y maxScroll marked =
     spy_process pg y maxScroll (spy_refresh pg scroll
       \<lparr>spy_offsets = [], spy_targets = [], spy_active = None, spy_marked = marked, spy_events = 0\<rparr>)"

datatype spy_event = Refresh int | Scroll int int

fun spy_step :: "spy_page \<Rightarrow> spy_event \<Rightarrow> spy \<Rightarrow> spy" where
  "spy_step pg (Refresh scroll) s = spy_refresh pg scroll s"
| "spy_step pg (Scroll y maxScroll) s = spy_process pg y maxScroll s"

section \<open>The marks\<close>

definition above :: "spy_page \<Rightarrow> nat set" where
  "above pg = set (concat (map sl_parents (sp_links pg)))"

definition marks_of :: "spy_page \<Rightarrow> string \<Rightarrow> nat set" where
  "marks_of pg t = set (items_of pg t) \<union> (if list_ex (sp_in_menu pg) (items_of pg t) then set (dropdowns_of pg t) else {})"

lemma activate_fields [simp]:
  "spy_offsets (spy_activate pg t s) = spy_offsets s" "spy_targets (spy_activate pg t s) = spy_targets s"
  "spy_active (spy_activate pg t s) = Some t"
  by (simp_all add: spy_activate_def Let_def)

lemma set_map_filter: "set (List.map_filter f xs) = {y. \<exists>x \<in> set xs. f x = Some y}"
  by (auto simp: List.map_filter_def image_iff) force

lemma closest_in: "closest_up P n up = Some m \<Longrightarrow> m \<in> set up"
  unfolding closest_up_def find_Some_iff by (metis nth_mem set_dropWhileD)

lemma marks_above: "marks_of pg t \<subseteq> above pg"
proof -
  have sub: "set (List.map_filter (\<lambda>n. closest_up P n up) ns) \<subseteq> set up" for P up ns
    by (auto simp: set_map_filter dest: closest_in)
  have "set (dropdowns_of pg t) \<subseteq> above pg"
  proof
    fix m assume "m \<in> set (dropdowns_of pg t)"
    then obtain l where "l \<in> set (links_to pg t)"
      "m \<in> set (List.map_filter (\<lambda>n. closest_up (sp_dropdown pg) n (sl_parents l)) (filter (sp_is_li pg) (sl_parents l)))"
      unfolding dropdowns_of_def by force
    then have "l \<in> set (sp_links pg)" "m \<in> set (sl_parents l)" using sub by (auto simp: links_to_def subset_iff)
    then show "m \<in> above pg" by (auto simp: above_def)
  qed
  moreover have "set (items_of pg t) \<subseteq> above pg" by (auto simp: items_of_def above_def links_to_def)
  ultimately show ?thesis by (simp add: marks_of_def)
qed

lemma activate_marks: "set (spy_marked (spy_activate pg t s)) \<inter> above pg = marks_of pg t"
proof -
  have "set (spy_marked (spy_activate pg t s)) = marks_of pg t \<union> (set (spy_marked s) - above pg)"
    by (auto simp: spy_activate_def Let_def marks_of_def above_def)
  then show ?thesis using marks_above [of pg t] by auto
qed

lemma activate_others: "set (spy_marked (spy_activate pg t s)) - above pg = set (spy_marked s) - above pg"
  using marks_above [of pg t] by (auto simp: spy_activate_def Let_def above_def marks_of_def)

definition spy_inv :: "spy_page \<Rightarrow> nat list \<Rightarrow> spy \<Rightarrow> bool" where
  "spy_inv pg m s \<longleftrightarrow> length (spy_offsets s) = length (spy_targets s) \<and> sorted (spy_offsets s) \<and>
     (\<forall>t. spy_active s = Some t \<longrightarrow> set (spy_marked s) \<inter> above pg = marks_of pg t) \<and>
     set (spy_marked s) - above pg = set m - above pg"

lemma inv_activate: "spy_inv pg m s \<Longrightarrow> spy_inv pg m (spy_activate pg t s)"
  by (simp add: spy_inv_def activate_marks activate_others)

lemma inv_loop: "spy_inv pg m s \<Longrightarrow> spy_inv pg m (spy_loop pg a y i s)"
  by (induction i arbitrary: s) (auto simp: Let_def inv_activate)

lemma spy_inv_step: "spy_inv pg m s \<Longrightarrow> spy_inv pg m (spy_step pg e s)"
proof (cases e)
  case (Refresh scroll)
  assume "spy_inv pg m s"
  then show ?thesis using Refresh by (simp add: spy_inv_def spy_refresh_def Let_def)
next
  case (Scroll y n)
  assume s: "spy_inv pg m s"
  have "spy_inv pg m ((spy_activate pg t s)\<lparr>spy_active := None\<rparr>)" for t
    using inv_activate [OF s, of t] by (simp add: spy_inv_def)
  then show ?thesis using Scroll s inv_activate [OF s] inv_loop [OF s] by (simp add: spy_process_def)
qed

interpretation spy: event_machine "spy_step pg" "spy_inv pg m" "\<lambda>_. True" for pg m
  by unfold_locales (rule spy_inv_step)

lemma inv_new: "spy_inv pg m (new_spy pg scroll y n m)"
  unfolding new_spy_def spy_step.simps(2) [symmetric] spy_step.simps(1) [symmetric]
  by (intro spy_inv_step) (simp add: spy_inv_def)

text \<open>
  In every history of a scroll spy the elements above its links that are marked active are exactly the
  list items above the links of the active target, with the dropdown around them if they are in a menu;
  marks elsewhere in the page are never touched.
\<close>

theorem spy_history_marks:
  assumes "s = fold (spy_step pg) es (new_spy pg scroll y n m)" "spy_active s = Some t"
  shows "set (spy_marked s) \<inter> above pg = marks_of pg t \<and> set (spy_marked s) - above pg = set m - above pg"
proof -
  have "spy_inv pg m s" unfolding assms(1) by (rule spy.run_inv [OF inv_new]) simp
  then show ?thesis using assms(2) by (simp add: spy_inv_def)
qed

abbreviation demo_spy_page :: spy_page where
  "demo_spy_page \<equiv>
     \<lparr>sp_links = [\<lparr>sl_data = None, sl_href = Some ''#a'', sl_parents = [1, 9]\<rparr>,
                  \<lparr>sl_data = None, sl_href = Some ''#b'', sl_parents = [2, 9]\<rparr>],
      sp_is_li = (\<lambda>n. n < 5), sp_in_menu = (\<lambda>_. False), sp_dropdown = (\<lambda>_. False),
      sp_position = (\<lambda>t. if t = ''#a'' then Some 100 else if t = ''#b'' then Some 50 else None)\<rparr>"

lemma spy_history_marks_witness:
  "set (spy_marked (fold (spy_step demo_spy_page) [Scroll 120 500] (new_spy demo_spy_page 0 60 500 [1, 7]))) \<inter> above demo_spy_page =
     marks_of demo_spy_page ''#a''"
proof -
  have a: "spy_active (fold (spy_step demo_spy_page) [Scroll 120 500] (new_spy demo_spy_page 0 60 500 [1, 7])) = Some ''#a''"
    by code_simp
  show ?thesis using spy_history_marks [OF refl a] by simp
qed

section \<open>The active section\<close>

text \<open>The offsets in order, none 0 after the first (0 counts as no offset).\<close>

definition sections_ok :: "spy \<Rightarrow> bool" where
  "sections_ok s \<longleftrightarrow> length (spy_targets s) = length (spy_offsets s) \<and> sorted_wrt (<) (spy_offsets s) \<and>
     distinct (spy_targets s) \<and> 0 \<notin> set (tl (spy_offsets s))"

lemma ok_activate [simp]: "sections_ok (spy_activate pg t s) = sections_ok s"
  by (simp add: sections_ok_def)

lemma offset_not_0: "sections_ok s \<Longrightarrow> Suc i < length (spy_offsets s) \<Longrightarrow> spy_offsets s ! Suc i \<noteq> 0"
  by (cases "spy_offsets s") (auto simp: sections_ok_def in_set_conv_nth)

lemma loop_section:
  assumes ok: "sections_ok s" and k: "k < length (spy_offsets s)"
    and y: "spy_offsets s ! k \<le> y" "k = 0 \<or> spy_offsets s ! k < y" "Suc k < length (spy_offsets s) \<Longrightarrow> y < spy_offsets s ! Suc k"
    and n: "n \<le> length (spy_offsets s)"
  shows "spy_loop pg a y n s = (if k < n \<and> a \<noteq> Some (spy_targets s ! k) then spy_activate pg (spy_targets s ! k) s else s)"
  using ok k y n
proof (induction n arbitrary: s)
  case (Suc i)
  have lt: "spy_offsets s ! i' < spy_offsets s ! j'" if "i' < j'" "j' < length (spy_offsets s)" for i' j'
    using Suc.prems(1) that by (simp add: sections_ok_def sorted_wrt_nth_less)
  have cond: "(spy_offsets s ! i \<le> y \<and>
      (case js_nth (spy_offsets s) (int i + 1) of None \<Rightarrow> True | Some o' \<Rightarrow> o' = 0 \<or> y \<le> o')) = (i = k)"
  proof (cases "i < k \<or> k < i")
    case True
    then show ?thesis
    proof
      assume "i < k"
      then have "spy_offsets s ! Suc i \<le> spy_offsets s ! k" using lt [of "Suc i" k] Suc.prems(2) by (cases "Suc i = k") auto
      moreover have "js_nth (spy_offsets s) (int i + 1) = Some (spy_offsets s ! Suc i)"
        using js_nth_of_nat [of "spy_offsets s" "Suc i"] \<open>i < k\<close> Suc.prems(2) by (simp add: add.commute)
      ultimately show ?thesis using offset_not_0 [OF Suc.prems(1), of i] Suc.prems(2,4) \<open>i < k\<close> by auto
    next
      assume "k < i"
      then have "spy_offsets s ! Suc k \<le> spy_offsets s ! i"
        using lt [of "Suc k" i] Suc.prems(6) by (cases "Suc k = i") auto
      then have "y < spy_offsets s ! i" using Suc.prems(5,6) \<open>k < i\<close> by simp
      then show ?thesis using \<open>k < i\<close> by simp
    qed
  next
    case False
    then have "i = k" by simp
    moreover have "js_nth (spy_offsets s) (int k + 1) =
        (if Suc k < length (spy_offsets s) then Some (spy_offsets s ! Suc k) else None)"
      using js_nth_of_nat [of "spy_offsets s" "Suc k"] by (simp add: add.commute)
    ultimately show ?thesis using Suc.prems(3,5) by auto
  qed
  show ?case
  proof (cases "i = k")
    case True
    let ?s = "if a \<noteq> Some (spy_targets s ! k) then spy_activate pg (spy_targets s ! k) s else s"
    have "spy_loop pg a y k ?s = ?s"
      using Suc.IH [of ?s] Suc.prems True by auto
    then show ?thesis using cond True by (simp add: Let_def)
  next
    case False
    then show ?thesis using Suc.IH [of s] Suc.prems cond by auto
  qed
qed simp

text \<open>
  C24: of sections with distinct positions (only the first may be at 0) and distinct targets, when the page
  is scrolled strictly inside a section (or to the start of the first one, or past the start of the last
  one), \<open>process\<close> makes the target of that section active, from whatever was active before; but when the
  page is scrolled to its end, \<open>maxScroll\<close> or beyond, it makes the target of the last section active instead,
  whichever section the position is in. A second \<open>process\<close> at the same position changes nothing.
\<close>

theorem spy_process_section:
  assumes "sections_ok s" "k < length (spy_offsets s)" "spy_offsets s ! k \<le> y"
    "k = 0 \<or> spy_offsets s ! k < y" "Suc k < length (spy_offsets s) \<longrightarrow> y < spy_offsets s ! Suc k"
  shows "spy_active (spy_process pg y maxScroll s) =
      Some (if y < maxScroll then spy_targets s ! k else last (spy_targets s)) \<and>
    spy_process pg y maxScroll (spy_process pg y maxScroll s) = spy_process pg y maxScroll s"
proof -
  let ?t = "if y < maxScroll then spy_targets s ! k else last (spy_targets s)"
  have p: "spy_process pg y maxScroll t = (if spy_active t \<noteq> Some ?t then spy_activate pg ?t t else t)"
    if "sections_ok t" "spy_offsets t = spy_offsets s" "spy_targets t = spy_targets s" for t
    using loop_section [of t k y "length (spy_offsets t)" pg "spy_active t"] assms(2-) that
    by (auto simp: spy_process_def sections_ok_def)
  show ?thesis using p [OF assms(1) refl refl] p [of "spy_activate pg ?t s"] assms(1) by auto
qed

abbreviation demo_spy :: spy where
  "demo_spy \<equiv> \<lparr>spy_offsets = [50, 100], spy_targets = [''#b'', ''#a''], spy_active = None, spy_marked = [], spy_events = 0\<rparr>"

lemma spy_process_section_witness:
  "spy_active (spy_process demo_spy_page 60 500 demo_spy) = Some ''#b'' \<and>
   spy_active (spy_process demo_spy_page 60 55 demo_spy) = Some ''#a''"
proof -
  have "sections_ok demo_spy" by (simp add: sections_ok_def)
  note p = spy_process_section [OF this, of 0 60 demo_spy_page]
  show ?thesis using p [of 500] p [of 55] by simp
qed

section \<open>The boundary of two sections\<close>

text \<open>
  At exactly the start of the second of two sections both tests of the loop hold, and every scroll event
  there makes the other of the two targets active.
\<close>

theorem spy_boundary_flips:
  assumes "sections_ok s" "spy_offsets s = [a, b]" "spy_targets s = [t, u]" "b < maxScroll" "spy_active s = Some t"
  shows "spy_active (spy_process pg b maxScroll s) = Some u \<and>
    spy_active (spy_process pg b maxScroll (spy_process pg b maxScroll s)) = Some t"
proof -
  have o: "a < b" "b \<noteq> 0" "t \<noteq> u" using assms(1-3) by (auto simp: sections_ok_def)
  have n: "js_nth [a, b] 1 = Some b" "js_nth [a, b] 2 = None" by (simp_all add: js_nth_def)
  have p: "spy_process pg b maxScroll v = (if spy_active v = Some t then spy_activate pg u v
      else spy_activate pg t (if spy_active v \<noteq> Some u then spy_activate pg u v else v))"
    if "spy_offsets v = [a, b]" "spy_targets v = [t, u]" for v
    using that o n assms(4) by (auto simp: spy_process_def numeral_2_eq_2 Let_def)
  show ?thesis using p [OF assms(2,3)] p [of "spy_activate pg u s"] assms(2,3,5) o by simp
qed

lemma spy_boundary_flips_witness:
  "spy_active (spy_process demo_spy_page 100 500 (demo_spy\<lparr>spy_active := Some ''#b''\<rparr>)) = Some ''#a''"
proof -
  have "sections_ok (demo_spy\<lparr>spy_active := Some ''#b''\<rparr>)" by (simp add: sections_ok_def)
  from spy_boundary_flips [OF this, of 50 100 "''#b''" "''#a''" 500 demo_spy_page] show ?thesis by simp
qed

text \<open>\<open>refresh\<close> keeps every section of the page, in the order of their positions.\<close>

lemma spy_refresh_sorted:
  "sorted (spy_offsets (spy_refresh pg scroll s)) \<and>
     mset (zip (spy_offsets (spy_refresh pg scroll s)) (spy_targets (spy_refresh pg scroll s))) =
       mset (List.map_filter (link_section pg scroll) (sp_links pg))"
proof -
  have "zip (map fst ps) (map snd ps) = ps" for ps :: "(int \<times> string) list" by (simp add: zip_map_fst_snd)
  moreover have "mset (sort_key fst ps) = mset ps" for ps :: "(int \<times> string) list" by (rule mset_sort)
  ultimately show ?thesis by (simp add: spy_refresh_def Let_def del: mset_sort)
qed

end
