(* ===== verification/Boot_Affix.thy ===== *)
theory Boot_Affix
  imports Vein_Prelude
begin

text \<open>
  The affix of \<open>js/bootstrap.js\<close>. What \<open>checkPosition\<close> reads of the page (scroll position, heights, the
  position of the element) is an input of each event; the two offsets may be missing.
\<close>

section \<open>State\<close>

datatype affix = NoAffix | AffixTop | AffixBottom

record affix_opts =
  af_offsetTop :: "int option"
  af_offsetBottom :: "int option"

record affix_view =
  av_visible :: bool
  av_scrollHeight :: int
  av_scrollTop :: int
  av_top :: int             \<comment> \<open>\<open>position.top\<close>\<close>
  av_height :: int
  av_body :: int            \<comment> \<open>\<open>document.body.offsetHeight\<close>\<close>

record affix_state =
  af_affixed :: "affix option"
  af_unpin :: "int option"
  af_classes :: "string set"
  af_css_top :: "int option"    \<comment> \<open>the position set with \<open>offset\<close>\<close>

text \<open>A number for both offsets, or an object with either.\<close>

datatype affix_offset = OffsetNumber int | OffsetObject "int option" "int option"

fun affix_opts_of :: "affix_offset \<Rightarrow> affix_opts" where
  "affix_opts_of (OffsetNumber n) = \<lparr>af_offsetTop = Some n, af_offsetBottom = Some n\<rparr>"
| "affix_opts_of (OffsetObject t b) = \<lparr>af_offsetTop = t, af_offsetBottom = b\<rparr>"

section \<open>Operations\<close>

definition affix_decide :: "affix_opts \<Rightarrow> affix_view \<Rightarrow> int option \<Rightarrow> affix" where
  "affix_decide opts v unpin =
     (if (case unpin of None \<Rightarrow> False | Some u \<Rightarrow> av_scrollTop v + u \<le> av_top v) then NoAffix
      else if (case af_offsetBottom opts of None \<Rightarrow> False | Some b \<Rightarrow> av_top v + av_height v \<ge> av_scrollHeight v - b) then AffixBottom
      else if (case af_offsetTop opts of None \<Rightarrow> False | Some t \<Rightarrow> av_scrollTop v \<le> t) then AffixTop
      else NoAffix)"

fun affix_class :: "affix \<Rightarrow> string" where
  "affix_class NoAffix = ''affix''"
| "affix_class AffixTop = ''affix-top''"
| "affix_class AffixBottom = ''affix-bottom''"

definition affix_RESET :: "string set" where
  "affix_RESET = {''affix'', ''affix-top'', ''affix-bottom''}"

text \<open>\<open>if (this.unpin)\<close> is false for 0 too.\<close>

definition checkPosition :: "affix_opts \<Rightarrow> affix_view \<Rightarrow> affix_state \<Rightarrow> affix_state" where
  "checkPosition opts v s =
     (if \<not> av_visible v then s
      else
        (let a = affix_decide opts v (af_unpin s) in
         if af_affixed s = Some a then s
         else
           (let s = (if af_unpin s \<noteq> None \<and> af_unpin s \<noteq> Some 0 then s\<lparr>af_css_top := None\<rparr> else s);
                s = s\<lparr>af_affixed := Some a, af_unpin := (if a = AffixBottom then Some (av_top v - av_scrollTop v) else None),
                      af_classes := insert (affix_class a) (af_classes s - affix_RESET)\<rparr>
            in if a = AffixBottom
               then s\<lparr>af_css_top := map_option (\<lambda>b. av_body v - b - av_height v) (af_offsetBottom opts)\<rparr> else s)))"

definition new_affix :: "affix_opts \<Rightarrow> affix_view \<Rightarrow> string set \<Rightarrow> affix_state" where
  "new_affix opts v cs =
     checkPosition opts v \<lparr>af_affixed = None, af_unpin = None, af_classes = cs, af_css_top = None\<rparr>"

section \<open>Histories of scrolling\<close>

definition affix_inv :: "affix_state \<Rightarrow> bool" where
  "affix_inv s \<longleftrightarrow>
     (case af_affixed s of
        None \<Rightarrow> af_unpin s = None \<and> af_css_top s = None
      | Some a \<Rightarrow> af_classes s \<inter> affix_RESET = {affix_class a} \<and> (af_unpin s \<noteq> None \<longleftrightarrow> a = AffixBottom) \<and>
          (a = AffixBottom \<longrightarrow> af_unpin s \<noteq> Some 0) \<and> (a \<noteq> AffixBottom \<longrightarrow> af_css_top s = None))"

lemma class_reset: "insert (affix_class a) (cs - affix_RESET) \<inter> affix_RESET = {affix_class a}"
  by (cases a) (auto simp: affix_RESET_def)

text \<open>The views in which the element does not start exactly at the top of the window.\<close>

definition off_top :: "affix_view \<Rightarrow> bool" where
  "off_top v \<longleftrightarrow> av_top v \<noteq> av_scrollTop v"

lemma affix_step: "affix_inv s \<Longrightarrow> off_top v \<Longrightarrow> affix_inv (checkPosition opts v s)"
  by (cases "af_affixed s"; cases "affix_decide opts v (af_unpin s)")
    (auto simp: affix_inv_def checkPosition_def Let_def off_top_def class_reset [of NoAffix, simplified]
       class_reset [of AffixTop, simplified] class_reset [of AffixBottom, simplified])

interpretation affix: event_machine "checkPosition opts" affix_inv off_top for opts
  by unfold_locales (rule affix_step)

lemma affix_new: "off_top v \<Longrightarrow> affix_inv (new_affix opts v cs)"
  unfolding new_affix_def by (rule affix_step) (simp add: affix_inv_def)

text \<open>
  In every history of scrolling in which the element is never exactly at the top of the window when it
  is checked, it has exactly the affix class of its state, it is pinned exactly while it is at the bottom,
  and the position set at the bottom is removed when it leaves.
\<close>

theorem affix_history_class:
  assumes "\<forall>v \<in> set (v0 # vs). off_top v" "s = fold (checkPosition opts) vs (new_affix opts v0 cs)" "af_affixed s = Some a"
  shows "af_classes s \<inter> affix_RESET = {affix_class a} \<and> (af_unpin s \<noteq> None \<longleftrightarrow> a = AffixBottom) \<and>
    (a \<noteq> AffixBottom \<longrightarrow> af_css_top s = None)"
proof -
  have "affix_inv s" unfolding assms(2) by (rule affix.run_inv [OF affix_new]) (use assms(1) in simp_all)
  then show ?thesis using assms(3) by (simp add: affix_inv_def)
qed

abbreviation view_at :: "int \<Rightarrow> int \<Rightarrow> affix_view" where
  "view_at scroll top' \<equiv>
     \<lparr>av_visible = True, av_scrollHeight = 1000, av_scrollTop = scroll, av_top = top', av_height = 100, av_body = 1000\<rparr>"

lemma affix_history_class_witness:
  "af_css_top (fold (checkPosition (affix_opts_of (OffsetNumber 50))) [view_at 870 880, view_at 300 310]
     (new_affix (affix_opts_of (OffsetNumber 50)) (view_at 0 60) {''nav''})) = None"
proof -
  let ?s = "fold (checkPosition (affix_opts_of (OffsetNumber 50))) [view_at 870 880, view_at 300 310]
     (new_affix (affix_opts_of (OffsetNumber 50)) (view_at 0 60) {''nav''})"
  have "af_affixed ?s = Some NoAffix"
    by (simp add: new_affix_def checkPosition_def affix_decide_def Let_def)
  from affix_history_class [OF _ refl this] show ?thesis by (simp add: off_top_def)
qed

text \<open>
  When the element is at the top of the window at the moment it reaches the bottom offset, its unpin
  distance is 0, which counts as none: after it leaves the bottom the position set there stays.
\<close>

theorem affix_keeps_position:
  assumes "af_affixed s = Some NoAffix" "af_unpin s = None" "af_offsetBottom opts = Some b" "av_visible v" "av_visible w"
    "av_top v = av_scrollTop v" "av_top v + av_height v \<ge> av_scrollHeight v - b" "av_scrollTop w \<le> av_top w"
  shows "af_affixed (fold (checkPosition opts) [v, w] s) = Some NoAffix \<and>
    af_css_top (fold (checkPosition opts) [v, w] s) = Some (av_body v - b - av_height v)"
  using assms by (simp add: checkPosition_def affix_decide_def Let_def)

lemma affix_keeps_position_witness:
  "af_css_top (fold (checkPosition (affix_opts_of (OffsetNumber 50))) [view_at 880 880, view_at 300 310]
     \<lparr>af_affixed = Some NoAffix, af_unpin = None, af_classes = {''affix''}, af_css_top = None\<rparr>) = Some 850"
  using affix_keeps_position [of "\<lparr>af_affixed = Some NoAffix, af_unpin = None, af_classes = {''affix''}, af_css_top = None\<rparr>"
      "affix_opts_of (OffsetNumber 50)" 50 "view_at 880 880" "view_at 300 310"]
  by simp

end
