(* ===== verification/Boot_Tab.thy ===== *)
theory Boot_Tab
  imports Vein_Prelude
begin

text \<open>
  The tabs of \<open>js/bootstrap.js\<close>: a list of tabs (no dropdown menus), the tab \<open>i\<close> for the pane \<open>i\<close>, and the
  callbacks \<open>next\<close> that wait for the end of the transition of the panes that were active.
\<close>

section \<open>State\<close>

record pane =
  tp_active :: bool
  tp_in :: bool
  tp_fade :: bool

record tabs =
  tb_items :: "bool list"                       \<comment> \<open>the list item has the class \<open>active\<close>\<close>
  tb_panes :: "pane list"
  tb_waits :: "(nat \<times> nat list \<times> nat) list"    \<comment> \<open>the pane it is bound to, \<open>$active\<close>, \<open>element\<close>\<close>

section \<open>Operations\<close>

definition true_at :: "bool list \<Rightarrow> nat list" where
  "true_at bs = filter (\<lambda>i. bs ! i) [0..<length bs]"

abbreviation update_all :: "(pane \<Rightarrow> pane) \<Rightarrow> nat list \<Rightarrow> pane list \<Rightarrow> pane list" where
  "update_all f is ps \<equiv> map_index (\<lambda>i p. if i \<in> set is then f p else p) ps"

text \<open>\<open>activate\<close> of a list item: there is no callback, so no transition.\<close>

definition activate_item :: "nat \<Rightarrow> tabs \<Rightarrow> tabs" where
  "activate_item i s =
     (let active = true_at (tb_items s)
      in s\<lparr>tb_items := (map_index (\<lambda>j b. b \<and> j \<notin> set active) (tb_items s))[i := True]\<rparr>)"

definition pane_next :: "bool \<Rightarrow> nat list \<Rightarrow> nat \<Rightarrow> tabs \<Rightarrow> tabs" where
  "pane_next transition active i s =
     (let ps = update_all (\<lambda>p. p\<lparr>tp_active := False\<rparr>) active (tb_panes s);
          ps = update_all (\<lambda>p. p\<lparr>tp_active := True\<rparr>) [i] ps
      in s\<lparr>tb_panes := update_all (\<lambda>p. if transition then p\<lparr>tp_in := True\<rparr> else p\<lparr>tp_fade := False\<rparr>) [i] ps\<rparr>)"

definition activate_pane :: "bool \<Rightarrow> nat \<Rightarrow> tabs \<Rightarrow> tabs" where
  "activate_pane css i s =
     (let active = true_at (map tp_active (tb_panes s));
          transition = (css \<and> list_ex (\<lambda>j. tp_fade (tb_panes s ! j)) active);
          s = (if transition then s\<lparr>tb_waits := tb_waits s @ map (\<lambda>j. (j, active, i)) active\<rparr>
               else pane_next transition active i s)
      in s\<lparr>tb_panes := update_all (\<lambda>p. p\<lparr>tp_in := False\<rparr>) active (tb_panes s)\<rparr>)"

definition tab_show :: "bool \<Rightarrow> bool \<Rightarrow> nat \<Rightarrow> tabs \<Rightarrow> tabs" where
  "tab_show css prevented i s =
     (if tb_items s ! i then s
      else if prevented then s
      else activate_pane css i (activate_item i s))"

definition tab_end :: "nat \<Rightarrow> tabs \<Rightarrow> tabs" where
  "tab_end o' s =
     fold (\<lambda>(_, active, i). pane_next True active i) (filter (\<lambda>w. fst w = o') (tb_waits s))
       (s\<lparr>tb_waits := filter (\<lambda>w. fst w \<noteq> o') (tb_waits s)\<rparr>)"

section \<open>Calm histories\<close>

definition shows_tab :: "nat \<Rightarrow> tabs \<Rightarrow> bool" where
  "shows_tab k s \<longleftrightarrow>
     (\<forall>j < length (tb_panes s). tp_active (tb_panes s ! j) = (j = k)) \<and>
     (tp_fade (tb_panes s ! k) \<longrightarrow> tp_in (tb_panes s ! k))"

definition tab_page :: "tabs \<Rightarrow> nat \<Rightarrow> bool" where
  "tab_page s k \<longleftrightarrow>
     length (tb_items s) = length (tb_panes s) \<and> k < length (tb_panes s) \<and> true_at (tb_items s) = [k] \<and>
     shows_tab k s \<and> tb_waits s = []"

text \<open>The user waits for the transitions.\<close>

inductive calm_tabs :: "bool \<Rightarrow> tabs \<Rightarrow> tabs \<Rightarrow> bool" for css s0 where
  page: "calm_tabs css s0 s0"
| click: "calm_tabs css s0 s \<Longrightarrow> tb_waits s = [] \<Longrightarrow> i < length (tb_panes s) \<Longrightarrow> calm_tabs css s0 (tab_show css p i s)"
| ends: "calm_tabs css s0 s \<Longrightarrow> calm_tabs css s0 (tab_end j s)"

definition tabs_inv :: "nat \<Rightarrow> tabs \<Rightarrow> bool" where
  "tabs_inv n s \<longleftrightarrow> length (tb_items s) = n \<and> length (tb_panes s) = n \<and>
     (\<exists>k < n. true_at (tb_items s) = [k] \<and>
        (tb_waits s = [] \<and> shows_tab k s \<or>
         (\<exists>j < n. j \<noteq> k \<and> tb_waits s = [(j, [j], k)] \<and> (\<forall>m < n. tp_active (tb_panes s ! m) = (m = j)))))"

lemma true_at_iff: "i \<in> set (true_at bs) \<longleftrightarrow> i < length bs \<and> bs ! i"
  by (auto simp: true_at_def)

lemma true_at_one:
  assumes "k < length bs" "\<forall>j < length bs. bs ! j = (j = k)"
  shows "true_at bs = [k]"
proof -
  have "set (true_at bs) = {k}" "distinct (true_at bs)" using assms by (auto simp: true_at_iff) (simp add: true_at_def)
  then have "length (true_at bs) = 1" using distinct_card [of "true_at bs"] by simp
  then show ?thesis using \<open>set (true_at bs) = {k}\<close> by (cases "true_at bs") auto
qed

lemma true_at_oneD: "true_at bs = [k] \<Longrightarrow> j < length bs \<Longrightarrow> bs ! j = (j = k)"
  using true_at_iff [of j bs] by auto

lemma item_active:
  assumes "true_at (tb_items s) = [k]" "i < length (tb_items s)"
  shows "true_at (tb_items (activate_item i s)) = [i]"
  by (rule true_at_one) (use assms in \<open>auto simp: activate_item_def Let_def nth_list_update dest: true_at_oneD\<close>)

lemma item_fields [simp]:
  "tb_panes (activate_item i s) = tb_panes s" "tb_waits (activate_item i s) = tb_waits s"
  "length (tb_items (activate_item i s)) = length (tb_items s)"
  by (simp_all add: activate_item_def Let_def)

lemma next_fields [simp]:
  "tb_items (pane_next t a i s) = tb_items s" "tb_waits (pane_next t a i s) = tb_waits s"
  "length (tb_panes (pane_next t a i s)) = length (tb_panes s)"
  by (simp_all add: pane_next_def Let_def)

lemma next_panes:
  "m < length (tb_panes s) \<Longrightarrow> tp_active (tb_panes (pane_next t a i s) ! m) = (m = i \<or> tp_active (tb_panes s ! m) \<and> m \<notin> set a)"
  "m < length (tb_panes s) \<Longrightarrow> tp_in (tb_panes (pane_next t a i s) ! m) = (t \<and> m = i \<or> tp_in (tb_panes s ! m))"
  "m < length (tb_panes s) \<Longrightarrow> tp_fade (tb_panes (pane_next t a i s) ! m) = (tp_fade (tb_panes s ! m) \<and> (t \<or> m \<noteq> i))"
  by (simp_all add: pane_next_def Let_def)

lemma pane_active:
  assumes k: "shows_tab k s" "k < length (tb_panes s)" "tb_waits s = []" and i: "i \<noteq> k" "i < length (tb_panes s)"
  shows "tb_waits (activate_pane css i s) = [] \<and> shows_tab i (activate_pane css i s) \<or>
    tb_waits (activate_pane css i s) = [(k, [k], i)] \<and>
    (\<forall>m < length (tb_panes s). tp_active (tb_panes (activate_pane css i s) ! m) = (m = k))"
    "length (tb_panes (activate_pane css i s)) = length (tb_panes s)" "tb_items (activate_pane css i s) = tb_items s"
proof -
  have a: "true_at (map tp_active (tb_panes s)) = [k]" by (rule true_at_one) (use k in \<open>auto simp: shows_tab_def\<close>)
  show "tb_waits (activate_pane css i s) = [] \<and> shows_tab i (activate_pane css i s) \<or>
    tb_waits (activate_pane css i s) = [(k, [k], i)] \<and>
    (\<forall>m < length (tb_panes s). tp_active (tb_panes (activate_pane css i s) ! m) = (m = k))"
    using k i by (auto simp: activate_pane_def Let_def a shows_tab_def next_panes)
  show "length (tb_panes (activate_pane css i s)) = length (tb_panes s)" "tb_items (activate_pane css i s) = tb_items s"
    by (simp_all add: activate_pane_def Let_def)
qed

lemma inv_show:
  assumes inv: "tabs_inv n s" and i: "i < n" and w: "tb_waits s = []"
  shows "tabs_inv n (tab_show css p i s)"
proof (cases "tb_items s ! i \<or> p")
  case False
  obtain k where k: "k < n" "true_at (tb_items s) = [k]" "shows_tab k s" and len: "length (tb_items s) = n" "length (tb_panes s) = n"
    using inv w by (auto simp: tabs_inv_def)
  have ik: "i \<noteq> k" using False k(2) i len(1) true_at_oneD [of "tb_items s" k i] by auto
  let ?s = "activate_item i s"
  have "shows_tab k ?s" using k(3) by (simp add: shows_tab_def)
  note pa = pane_active [OF this _ _ ik, of css, simplified item_fields len, OF k(1) w i]
  have it: "true_at (tb_items ?s) = [i]" by (rule item_active [OF k(2)]) (use i len in simp)
  have e: "tab_show css p i s = activate_pane css i ?s" using False by (simp add: tab_show_def)
  show ?thesis using pa it i ik k(1) len unfolding e tabs_inv_def by auto
qed (use inv in \<open>auto simp: tab_show_def\<close>)

lemma inv_end:
  assumes inv: "tabs_inv n s"
  shows "tabs_inv n (tab_end m s)"
proof -
  obtain k where k: "k < n" "true_at (tb_items s) = [k]" and len: "length (tb_items s) = n" "length (tb_panes s) = n"
    and c: "tb_waits s = [] \<and> shows_tab k s \<or>
      (\<exists>j < n. j \<noteq> k \<and> tb_waits s = [(j, [j], k)] \<and> (\<forall>m < n. tp_active (tb_panes s ! m) = (m = j)))"
    using inv by (auto simp: tabs_inv_def)
  from c show ?thesis
  proof (elim disjE exE conjE)
    assume "tb_waits s = []"
    then have "tab_end m s = s" by (simp add: tab_end_def)
    then show ?thesis using inv by simp
  next
    fix j assume j: "j < n" "j \<noteq> k" "tb_waits s = [(j, [j], k)]" "\<forall>m < n. tp_active (tb_panes s ! m) = (m = j)"
    show ?thesis
    proof (cases "m = j")
      case True
      then have "tab_end m s = pane_next True [j] k (s\<lparr>tb_waits := []\<rparr>)" using j by (simp add: tab_end_def)
      moreover have "shows_tab k (pane_next True [j] k (s\<lparr>tb_waits := []\<rparr>))"
        using j k len by (auto simp: shows_tab_def next_panes)
      ultimately show ?thesis using k len by (simp add: tabs_inv_def)
    next
      case False
      then have "tab_end m s = s" using j by (simp add: tab_end_def)
      then show ?thesis using inv by simp
    qed
  qed
qed

lemma calm_tabs_inv: "calm_tabs css s0 s \<Longrightarrow> tab_page s0 k \<Longrightarrow> tabs_inv (length (tb_panes s0)) s"
proof (induction rule: calm_tabs.induct)
  case page
  then show ?case by (auto simp: tabs_inv_def tab_page_def)
next
  case (click s i p)
  then have "tabs_inv (length (tb_panes s0)) s" by simp
  moreover from this have "length (tb_panes s) = length (tb_panes s0)" by (auto simp: tabs_inv_def)
  ultimately show ?case using click by (simp add: inv_show)
qed (simp add: inv_end)

text \<open>
  C31: when the user waits for the transitions (whether or not the page prevents some), exactly one tab is
  active at any time, and at rest exactly its pane is active and can be seen.
\<close>

theorem tabs_one_pane:
  assumes "calm_tabs css s0 s" "tab_page s0 k0"
  shows "\<exists>k. true_at (tb_items s) = [k] \<and> k < length (tb_panes s) \<and> (tb_waits s = [] \<longrightarrow> shows_tab k s)"
  using calm_tabs_inv [OF assms] by (auto simp: tabs_inv_def)

abbreviation faded :: "bool \<Rightarrow> pane" where
  "faded a \<equiv> \<lparr>tp_active = a, tp_in = a, tp_fade = True\<rparr>"

abbreviation demo_tabs :: tabs where
  "demo_tabs \<equiv> \<lparr>tb_items = [True, False, False], tb_panes = [faded True, faded False, faded False], tb_waits = []\<rparr>"

lemma tabs_one_pane_witness:
  "\<exists>k. true_at (tb_items (tab_end 0 (tab_show True False 2 demo_tabs))) = [k] \<and> k < 3"
proof -
  have p: "tab_page demo_tabs 0"
    by (auto simp: tab_page_def shows_tab_def true_at_def less_Suc_eq numeral_3_eq_3)
  have c: "calm_tabs True demo_tabs (tab_end 0 (tab_show True False 2 demo_tabs))"
    by (intro calm_tabs.ends calm_tabs.click calm_tabs.page) simp_all
  have n: "length (tb_panes (tab_end 0 (tab_show True False 2 demo_tabs))) = 3" by code_simp
  show ?thesis using tabs_one_pane [OF c p] unfolding n by blast
qed

text \<open>
  A click on a third tab before the first pane has faded out leaves two panes active: both callbacks
  wait for the same transition, and neither knows of the pane the other activates.
\<close>

theorem tabs_two_panes:
  "map tp_active (tb_panes (fold (\<lambda>f. f) [tab_show True False 1, tab_show True False 2, tab_end 0] demo_tabs)) = [False, True, True]"
  by code_simp

end
