(* ===== verification/Boot_Dropdown.thy ===== *)
theory Boot_Dropdown
  imports Js_Value
begin

text \<open>
  The dropdown menus of \<open>js/bootstrap.js\<close>. A toggle is disabled or not and opens its parent; a parent may
  have several toggles. The page may prevent the opening, and the closing of some parents. A click on a
  toggle that the handler does not stop reaches the document, whose handler closes the menus.
\<close>

section \<open>State\<close>

record dd_toggle =
  dd_parent :: nat
  dd_disabled :: bool
  dd_navbar :: bool      \<comment> \<open>inside \<open>.navbar-nav\<close>\<close>

record dd_page =
  dd_toggles :: "dd_toggle list"
  dd_touch :: bool
  dd_items :: "nat \<Rightarrow> nat"    \<comment> \<open>how many visible items the menu of a parent has\<close>

record dropdowns =
  dd_open :: "nat list"        \<comment> \<open>the parents with the class \<open>open\<close>\<close>
  dd_backdrops :: nat
  dd_focus :: "(nat \<times> nat option) option"
    \<comment> \<open>the focus in the parent: on an item, or on the toggle (\<open>None\<close>)\<close>

section \<open>Operations\<close>

text \<open>\<open>keep\<close>: the page prevents the closing of this parent.\<close>

definition close_menu :: "(nat \<Rightarrow> bool) \<Rightarrow> dd_toggle \<Rightarrow> dropdowns \<Rightarrow> dropdowns" where
  "close_menu keep t s =
     (if dd_parent t \<notin> set (dd_open s) then s
      else if keep (dd_parent t) then s
      else s\<lparr>dd_open := removeAll (dd_parent t) (dd_open s)\<rparr>)"

definition clearMenus :: "dd_page \<Rightarrow> (nat \<Rightarrow> bool) \<Rightarrow> dropdowns \<Rightarrow> dropdowns" where
  "clearMenus pg keep s = fold (close_menu keep) (dd_toggles pg) (s\<lparr>dd_backdrops := 0\<rparr>)"

text \<open>The result says whether the handler stops the event.\<close>

definition dd_toggle_handler :: "dd_page \<Rightarrow> bool \<Rightarrow> (nat \<Rightarrow> bool) \<Rightarrow> dd_toggle \<Rightarrow> dropdowns \<Rightarrow> bool \<times> dropdowns" where
  "dd_toggle_handler pg prevented keep t s =
     (if dd_disabled t then (False, s)
      else
        (let isActive = dd_parent t \<in> set (dd_open s);
             s = clearMenus pg keep s
         in if isActive then (True, s)
            else
              (let s = (if dd_touch pg \<and> \<not> dd_navbar t then s\<lparr>dd_backdrops := dd_backdrops s + 1\<rparr> else s)
               in if prevented then (False, s)
                  else (True, s\<lparr>dd_open := (if dd_parent t \<in> set (dd_open s) then removeAll (dd_parent t) (dd_open s)
                                            else dd_parent t # dd_open s),
                                dd_focus := Some (dd_parent t, None)\<rparr>))))"

definition dd_click :: "dd_page \<Rightarrow> bool \<Rightarrow> (nat \<Rightarrow> bool) \<Rightarrow> dd_toggle \<Rightarrow> dropdowns \<Rightarrow> dropdowns" where
  "dd_click pg prevented keep t s =
     (case dd_toggle_handler pg prevented keep t s of
        (True, s) \<Rightarrow> s
      | (False, s) \<Rightarrow> clearMenus pg keep s)"

text \<open>\<open>/(38|40|27)/.test(e.keyCode)\<close> looks for one of the numbers anywhere in the decimal digits.\<close>

fun has_factor :: "string \<Rightarrow> string \<Rightarrow> bool" where
  "has_factor w [] = (w = [])"
| "has_factor w (c # cs) = (take (length w) (c # cs) = w \<or> has_factor w cs)"

definition dd_key :: "nat \<Rightarrow> bool" where
  "dd_key k = list_ex (\<lambda>w. has_factor w (show_nat k)) [''38'', ''40'', ''27'']"

text \<open>The next item; \<open>index\<close> is -1 when no item has the focus.\<close>

definition dd_index :: "nat \<Rightarrow> nat \<Rightarrow> int \<Rightarrow> int" where
  "dd_index k n index =
     (let i = (if k = 38 \<and> index > 0 then index - 1 else index);
          i = (if k = 40 \<and> i < int n - 1 then i + 1 else i)
      in if i = -1 then 0 else i)"

definition dd_keydown :: "dd_page \<Rightarrow> bool \<Rightarrow> (nat \<Rightarrow> bool) \<Rightarrow> nat \<Rightarrow> dd_toggle \<Rightarrow> dropdowns \<Rightarrow> dropdowns" where
  "dd_keydown pg prevented keep k t s =
     (if \<not> dd_key k \<or> dd_disabled t then s
      else
        (let p = dd_parent t; isActive = p \<in> set (dd_open s) in
         if \<not> isActive \<or> k = 27 then
           dd_click pg prevented keep t (if k = 27 then s\<lparr>dd_focus := Some (p, None)\<rparr> else s)
         else
           (let n = dd_items pg p in
            if n = 0 then s
            else
              (let index = (case dd_focus s of Some (q, Some i) \<Rightarrow> if q = p then int i else -1 | _ \<Rightarrow> -1)
               in s\<lparr>dd_focus := Some (p, Some (nat (dd_index k n index)))\<rparr>))))"

text \<open>The last event is a click elsewhere in the page.\<close>

datatype dd_event = ToggleClick bool nat | KeyDown bool nat nat | PageClick

fun dd_step :: "dd_page \<Rightarrow> (nat \<Rightarrow> bool) \<Rightarrow> dd_event \<Rightarrow> dropdowns \<Rightarrow> dropdowns" where
  "dd_step pg keep (ToggleClick p i) s = (if i < length (dd_toggles pg) then dd_click pg p keep (dd_toggles pg ! i) s else s)"
| "dd_step pg keep (KeyDown p k i) s = (if i < length (dd_toggles pg) then dd_keydown pg p keep k (dd_toggles pg ! i) s else s)"
| "dd_step pg keep PageClick s = clearMenus pg keep s"

section \<open>One menu\<close>

definition dd_inv :: "dd_page \<Rightarrow> dropdowns \<Rightarrow> bool" where
  "dd_inv pg s \<longleftrightarrow> length (dd_open s) \<le> 1 \<and> set (dd_open s) \<subseteq> dd_parent ` set (dd_toggles pg) \<and>
     dd_backdrops s \<le> length (dd_open s) \<and>
     (\<forall>p i. dd_focus s = Some (p, Some i) \<longrightarrow> i < dd_items pg p)"

lemma close_fields:
  "dd_backdrops (fold (close_menu keep) ts s) = dd_backdrops s" "dd_focus (fold (close_menu keep) ts s) = dd_focus s"
  by (induction ts arbitrary: s) (simp_all add: close_menu_def)

lemma close_open:
  "dd_open (fold (close_menu keep) ts s) = filter (\<lambda>p. p \<notin> dd_parent ` set ts \<or> keep p) (dd_open s)"
proof (induction ts arbitrary: s)
  case (Cons t ts)
  have "filter (\<lambda>p. p \<notin> dd_parent ` set ts \<or> keep p) (dd_open (close_menu keep t s)) =
      filter (\<lambda>p. p \<notin> dd_parent ` set (t # ts) \<or> keep p) (dd_open s)"
    by (auto simp: close_menu_def removeAll_filter_not_eq intro!: filter_cong)
  then show ?case using Cons.IH by simp
qed simp

lemma clear_simps [simp]:
  "dd_backdrops (clearMenus pg keep s) = 0" "dd_focus (clearMenus pg keep s) = dd_focus s"
  "dd_open (clearMenus pg keep s) = filter (\<lambda>p. p \<notin> dd_parent ` set (dd_toggles pg) \<or> keep p) (dd_open s)"
  by (simp_all add: clearMenus_def close_fields close_open)

lemma menus_cleared:
  "dd_inv pg s \<Longrightarrow> dd_open (clearMenus pg (\<lambda>_. False) s) = []"
  by (auto simp: dd_inv_def filter_empty_conv)

lemma clear_inv: "dd_inv pg s \<Longrightarrow> dd_inv pg (clearMenus pg (\<lambda>_. False) s)"
  using menus_cleared [of pg s] by (simp add: dd_inv_def del: clear_simps(3))

lemma index_range: "0 < n \<Longrightarrow> -1 \<le> i \<Longrightarrow> i < int n \<Longrightarrow> 0 \<le> dd_index k n i \<and> dd_index k n i < int n"
  by (auto simp: dd_index_def Let_def)

lemma handler_inv:
  assumes "dd_inv pg s" "t \<in> set (dd_toggles pg)"
  shows "dd_inv pg (dd_click pg p (\<lambda>_. False) t s)"
proof -
  have c: "dd_open (clearMenus pg (\<lambda>_. False) s) = []" by (rule menus_cleared [OF assms(1)])
  have b: "dd_inv pg (clearMenus pg (\<lambda>_. False) ((clearMenus pg (\<lambda>_. False) s)\<lparr>dd_backdrops := n\<rparr>))" for n
    using c assms(1) by (simp add: dd_inv_def)
  have z: "dd_inv pg (clearMenus pg (\<lambda>_. False) (clearMenus pg (\<lambda>_. False) s))"
    by (rule clear_inv [OF clear_inv [OF assms(1)]])
  show ?thesis
    using clear_inv [OF assms(1)] c b z assms
    by (auto simp: dd_click_def dd_toggle_handler_def Let_def dd_inv_def simp del: clear_simps(3))
qed

lemma keydown_inv:
  assumes "dd_inv pg s" "t \<in> set (dd_toggles pg)"
  shows "dd_inv pg (dd_keydown pg p (\<lambda>_. False) k t s)"
proof -
  have f: "dd_inv pg (s\<lparr>dd_focus := Some (dd_parent t, None)\<rparr>)" using assms(1) by (simp add: dd_inv_def)
  let ?i = "case dd_focus s of Some (q, Some i) \<Rightarrow> if q = dd_parent t then int i else -1 | _ \<Rightarrow> -1"
  have r: "-1 \<le> ?i \<and> ?i < int (dd_items pg (dd_parent t))" if "0 < dd_items pg (dd_parent t)"
    using assms(1) that by (auto simp: dd_inv_def split: option.split)
  have "dd_inv pg (s\<lparr>dd_focus := Some (dd_parent t, Some (nat (dd_index k (dd_items pg (dd_parent t)) ?i)))\<rparr>)"
    if "0 < dd_items pg (dd_parent t)"
    using index_range [OF that, of ?i k] r [OF that] assms(1) by (auto simp: dd_inv_def nat_less_iff)
  then show ?thesis using handler_inv [OF assms] handler_inv [OF f assms(2)] assms(1) by (simp add: dd_keydown_def Let_def)
qed

lemma dd_step_inv: "dd_inv pg s \<Longrightarrow> dd_inv pg (dd_step pg (\<lambda>_. False) e s)"
  by (cases e) (simp_all add: handler_inv keydown_inv clear_inv del: clear_simps)

interpretation dropdown: event_machine "dd_step pg (\<lambda>_. False)" "dd_inv pg" "\<lambda>_. True" for pg
  by unfold_locales (rule dd_step_inv)

definition closed_page :: dropdowns where
  "closed_page = \<lparr>dd_open = [], dd_backdrops = 0, dd_focus = None\<rparr>"

text \<open>
  C35: in every history of clicks and keys, when the page prevents no closing, at most one menu is open,
  a backdrop is in the page only while one is, and the item that has the focus exists.
\<close>

theorem dropdown_one_open:
  assumes "s = fold (dd_step pg (\<lambda>_. False)) es closed_page"
  shows "length (dd_open s) \<le> 1 \<and> dd_backdrops s \<le> length (dd_open s) \<and>
    (\<forall>p i. dd_focus s = Some (p, Some i) \<longrightarrow> i < dd_items pg p)"
proof -
  have "dd_inv pg s" unfolding assms by (rule dropdown.run_inv) (simp_all add: dd_inv_def closed_page_def)
  then show ?thesis by (simp add: dd_inv_def)
qed

abbreviation demo_dd :: dd_page where
  "demo_dd \<equiv> \<lparr>dd_toggles = [\<lparr>dd_parent = 0, dd_disabled = False, dd_navbar = False\<rparr>, \<lparr>dd_parent = 1, dd_disabled = False, dd_navbar = False\<rparr>],
    dd_touch = True, dd_items = (\<lambda>_. 2)\<rparr>"

lemma dropdown_one_open_witness:
  "length (dd_open (fold (dd_step demo_dd (\<lambda>_. False)) [ToggleClick False 0, ToggleClick False 1, KeyDown False 40 1] closed_page)) \<le> 1"
  using dropdown_one_open [OF refl, of demo_dd "[ToggleClick False 0, ToggleClick False 1, KeyDown False 40 1]"] by (rule conjunct1)

text \<open>
  The arrow keys move the focus by one item and stop at both ends; from no item both go to the first,
  the down key when the menu has one.
\<close>

theorem dropdown_arrows:
  assumes "0 < n" "-1 \<le> i" "i < int n"
  shows "dd_index 38 n i = max 0 (i - 1) \<and> dd_index 40 n i = min (int n - 1) (i + 1)"
  using assms by (auto simp: dd_index_def Let_def)

lemma dropdown_arrows_witness: "dd_index 40 3 2 = 2"
  using dropdown_arrows [of 3 2] by simp

text \<open>
  The escape key opens a closed menu: the handler clicks the toggle whenever the menu is not open.
\<close>

theorem dropdown_escape_opens:
  assumes "dd_inv pg s" "t \<in> set (dd_toggles pg)" "\<not> dd_disabled t" "dd_parent t \<notin> set (dd_open s)"
  shows "dd_open (dd_keydown pg False (\<lambda>_. False) 27 t s) = [dd_parent t]"
proof -
  have k: "dd_key 27" by code_simp
  have f: "dd_inv pg (s\<lparr>dd_focus := Some (dd_parent t, None)\<rparr>)" using assms(1) by (simp add: dd_inv_def)
  show ?thesis
    using k assms menus_cleared [OF f] by (simp add: dd_keydown_def dd_click_def dd_toggle_handler_def Let_def del: clear_simps(3))
qed

lemma dropdown_escape_opens_witness:
  "dd_open (dd_keydown demo_dd False (\<lambda>_. False) 27 (dd_toggles demo_dd ! 0) closed_page) = [0]"
  using dropdown_escape_opens [of demo_dd closed_page "dd_toggles demo_dd ! 0"] by (simp add: dd_inv_def closed_page_def)

text \<open>The test of the key code holds for others too, such as the F16 key.\<close>

lemma dd_key_other: "dd_key 127 \<and> \<not> dd_key 13"
  by code_simp

end
