(* ===== verification/Boot_Tooltip.thy ===== *)
theory Boot_Tooltip
  imports Vein_Prelude
begin

text \<open>
  When the tooltip of \<open>js/bootstrap.js\<close> (and the popover, which inherits it) is shown: the hover state, the
  timeout of the delay, the tip in the page and the callbacks that wait for it to fade out. What the page
  prevents is an input of each event. The element has one instance (no \<open>selector\<close> option).
\<close>

section \<open>State\<close>

datatype hover = HoverIn | HoverOut

record bt_opts =
  bt_delay_show :: nat
  bt_delay_hide :: nat
  bt_animation :: bool
  bt_css :: bool          \<comment> \<open>\<open>$.support.transition\<close>\<close>

text \<open>The option \<open>delay\<close>: a number for both.\<close>

datatype bt_delay = DelayNumber nat | DelayObject nat nat

fun bt_opts_of :: "bt_delay \<Rightarrow> bool \<Rightarrow> bool \<Rightarrow> bt_opts" where
  "bt_opts_of (DelayNumber n) a c = \<lparr>bt_delay_show = n, bt_delay_hide = n, bt_animation = a, bt_css = c\<rparr>"
| "bt_opts_of (DelayObject s h) a c = \<lparr>bt_delay_show = s, bt_delay_hide = h, bt_animation = a, bt_css = c\<rparr>"

record bt =
  bt_enabled :: bool
  bt_title :: "string"
  bt_hover :: "hover option"
  bt_timeout :: "nat option"
  bt_timers :: "hover timers"     \<comment> \<open>each with the hover state it asks for\<close>
  bt_attached :: bool             \<comment> \<open>the tip is in the page\<close>
  bt_in :: bool
  bt_faded :: bool                \<comment> \<open>the tip has the class \<open>fade\<close>\<close>
  bt_waits :: nat                 \<comment> \<open>\<open>complete\<close> bound to the end of the transition\<close>
  bt_bound :: bool                \<comment> \<open>the element has the instance and its handlers\<close>

definition new_bt :: "string \<Rightarrow> bt" where
  "new_bt title =
     \<lparr>bt_enabled = True, bt_title = title, bt_hover = None, bt_timeout = None, bt_timers = no_timers, bt_attached = False,
      bt_in = False, bt_faded = False, bt_waits = 0, bt_bound = True\<rparr>"

section \<open>Operations\<close>

definition bt_hasContent :: "bt \<Rightarrow> bool" where
  "bt_hasContent s \<longleftrightarrow> bt_title s \<noteq> []"

definition bt_setContent :: "bt \<Rightarrow> bt" where
  "bt_setContent s = s\<lparr>bt_in := False, bt_faded := False\<rparr>"

definition bt_show :: "bt_opts \<Rightarrow> bool \<Rightarrow> bt \<Rightarrow> bt" where
  "bt_show opts prevented s =
     (if bt_hasContent s \<and> bt_enabled s then
        (if prevented then s
         else
           (let s = bt_setContent s;
                s = (if bt_animation opts then s\<lparr>bt_faded := True\<rparr> else s)
            in s\<lparr>bt_attached := True, bt_in := True\<rparr>))
      else s)"

definition bt_complete :: "bt \<Rightarrow> bt" where
  "bt_complete s = (if bt_hover s \<noteq> Some HoverIn then s\<lparr>bt_attached := False\<rparr> else s)"

definition bt_hide :: "bt_opts \<Rightarrow> bool \<Rightarrow> bt \<Rightarrow> bt" where
  "bt_hide opts prevented s =
     (if prevented then s
      else
        (let s = s\<lparr>bt_in := False\<rparr>
         in if bt_css opts \<and> bt_faded s then s\<lparr>bt_waits := bt_waits s + 1\<rparr> else bt_complete s))"

definition bt_enter :: "bt_opts \<Rightarrow> bool \<Rightarrow> bt \<Rightarrow> bt" where
  "bt_enter opts prevented s =
     (let s = s\<lparr>bt_timers := clear_timer (bt_timeout s) (bt_timers s), bt_hover := Some HoverIn\<rparr>
      in if bt_delay_show opts = 0 then bt_show opts prevented s
         else (let (i, ts) = set_timer HoverIn (bt_timers s) in s\<lparr>bt_timeout := Some i, bt_timers := ts\<rparr>))"

definition bt_leave :: "bt_opts \<Rightarrow> bool \<Rightarrow> bt \<Rightarrow> bt" where
  "bt_leave opts prevented s =
     (let s = s\<lparr>bt_timers := clear_timer (bt_timeout s) (bt_timers s), bt_hover := Some HoverOut\<rparr>
      in if bt_delay_hide opts = 0 then bt_hide opts prevented s
         else (let (i, ts) = set_timer HoverOut (bt_timers s) in s\<lparr>bt_timeout := Some i, bt_timers := ts\<rparr>))"

definition bt_toggle :: "bt_opts \<Rightarrow> bool \<Rightarrow> bt \<Rightarrow> bt" where
  "bt_toggle opts prevented s = (if bt_in s then bt_leave opts prevented s else bt_enter opts prevented s)"

text \<open>A timeout is disarmed before its handler runs.\<close>

definition bt_fire :: "bt_opts \<Rightarrow> bool \<Rightarrow> nat \<Rightarrow> bt \<Rightarrow> bt" where
  "bt_fire opts prevented i s =
     (case map_of (live (bt_timers s)) i of
        None \<Rightarrow> s
      | Some h \<Rightarrow>
          (let s = s\<lparr>bt_timers := clear_timer (Some i) (bt_timers s)\<rparr>
           in case h of
                HoverIn \<Rightarrow> if bt_hover s = Some HoverIn then bt_show opts prevented s else s
              | HoverOut \<Rightarrow> if bt_hover s = Some HoverOut then bt_hide opts prevented s else s))"

definition bt_transition_end :: "bt \<Rightarrow> bt" where
  "bt_transition_end s = (bt_complete ^^ bt_waits s) (s\<lparr>bt_waits := 0\<rparr>)"

definition bt_toggleEnabled :: "bt \<Rightarrow> bt" where
  "bt_toggleEnabled s = s\<lparr>bt_enabled := \<not> bt_enabled s\<rparr>"

text \<open>\<open>hide\<close> returns the object unless the page prevents it; \<open>destroy\<close> reads a field of the result.\<close>

definition bt_destroy :: "bt_opts \<Rightarrow> bool \<Rightarrow> bt \<Rightarrow> bt option" where
  "bt_destroy opts prevented s =
     (if prevented then None else Some ((bt_hide opts prevented s)\<lparr>bt_bound := False\<rparr>))"

section \<open>Histories of the pointer\<close>

datatype bt_event = Enter | Leave | Timeout nat | TransitionEnd | ToggleClick

fun bt_step :: "bt_opts \<Rightarrow> bt_event \<Rightarrow> bt \<Rightarrow> bt" where
  "bt_step opts Enter s = bt_enter opts False s"
| "bt_step opts Leave s = bt_leave opts False s"
| "bt_step opts (Timeout i) s = bt_fire opts False i s"
| "bt_step opts TransitionEnd s = bt_transition_end s"
| "bt_step opts ToggleClick s = bt_toggle opts False s"

text \<open>What the tip is when no timeout is armed.\<close>

definition bt_settled :: "bt \<Rightarrow> bool" where
  "bt_settled s \<longleftrightarrow>
     (if bt_hover s = Some HoverIn then bt_attached s \<and> bt_in s
      else \<not> bt_in s \<and> (bt_attached s \<longrightarrow> 0 < bt_waits s))"

definition bt_inv :: "bt \<Rightarrow> bool" where
  "bt_inv s \<longleftrightarrow> bt_enabled s \<and> bt_hasContent s \<and> timers_wf (bt_timers s) \<and>
     (live (bt_timers s) = [] \<and> bt_settled s \<or>
      (\<exists>i h. live (bt_timers s) = [(i, h)] \<and> bt_timeout s = Some i \<and> bt_hover s = Some h))"

text \<open>Clearing the timeout of the object disarms all.\<close>

lemma inv_cleared: "bt_inv s \<Longrightarrow> live (clear_timer (bt_timeout s) (bt_timers s)) = []"
  by (auto simp: bt_inv_def clear_timer_def split: list.splits)

lemma inv_armed:
  assumes "bt_inv s"
  shows "bt_inv (s\<lparr>bt_hover := Some h, bt_timeout := Some (fst (set_timer h (clear_timer (bt_timeout s) (bt_timers s)))),
    bt_timers := snd (set_timer h (clear_timer (bt_timeout s) (bt_timers s)))\<rparr>)"
  using assms inv_cleared [OF assms] timers_wf_set_timer [OF timers_wf_clear_timer, of "bt_timers s" h "bt_timeout s"]
  by (simp add: bt_inv_def set_timer_def bt_hasContent_def)

lemma show_settled:
  "bt_hasContent s \<Longrightarrow> bt_enabled s \<Longrightarrow> bt_hover s = Some HoverIn \<Longrightarrow> bt_settled (bt_show opts False s)"
  by (simp add: bt_show_def bt_settled_def bt_setContent_def Let_def)

lemma hide_settled: "bt_hover s = Some HoverOut \<Longrightarrow> bt_settled (bt_hide opts False s)"
  by (auto simp: bt_hide_def bt_settled_def bt_complete_def Let_def)

lemma show_keeps [simp]:
  "bt_timers (bt_show opts p s) = bt_timers s" "bt_timeout (bt_show opts p s) = bt_timeout s"
  "bt_hover (bt_show opts p s) = bt_hover s" "bt_enabled (bt_show opts p s) = bt_enabled s"
  "bt_title (bt_show opts p s) = bt_title s"
  by (simp_all add: bt_show_def bt_setContent_def Let_def)

lemma hide_keeps [simp]:
  "bt_timers (bt_hide opts p s) = bt_timers s" "bt_timeout (bt_hide opts p s) = bt_timeout s"
  "bt_hover (bt_hide opts p s) = bt_hover s" "bt_enabled (bt_hide opts p s) = bt_enabled s"
  "bt_title (bt_hide opts p s) = bt_title s"
  by (simp_all add: bt_hide_def bt_complete_def Let_def)

lemma inv_enter:
  assumes "bt_inv s"
  shows "bt_inv (bt_enter opts False s)"
proof (cases "bt_delay_show opts = 0")
  case True
  let ?s = "s\<lparr>bt_timers := clear_timer (bt_timeout s) (bt_timers s), bt_hover := Some HoverIn\<rparr>"
  have "bt_hasContent ?s" "bt_enabled ?s" "timers_wf (bt_timers ?s)" "live (bt_timers ?s) = []"
    using assms inv_cleared [OF assms] timers_wf_clear_timer by (auto simp: bt_inv_def bt_hasContent_def)
  then show ?thesis using True show_settled [of ?s opts] by (simp add: bt_enter_def Let_def bt_inv_def bt_hasContent_def)
qed (use inv_armed [OF assms, of HoverIn] in \<open>simp add: bt_enter_def Let_def case_prod_beta\<close>)

lemma inv_leave:
  assumes "bt_inv s"
  shows "bt_inv (bt_leave opts False s)"
proof (cases "bt_delay_hide opts = 0")
  case True
  let ?s = "s\<lparr>bt_timers := clear_timer (bt_timeout s) (bt_timers s), bt_hover := Some HoverOut\<rparr>"
  have "bt_hasContent ?s" "bt_enabled ?s" "timers_wf (bt_timers ?s)" "live (bt_timers ?s) = []"
    using assms inv_cleared [OF assms] timers_wf_clear_timer by (auto simp: bt_inv_def bt_hasContent_def)
  then show ?thesis using True hide_settled [of ?s opts] by (simp add: bt_leave_def Let_def bt_inv_def bt_hasContent_def)
qed (use inv_armed [OF assms, of HoverOut] in \<open>simp add: bt_leave_def Let_def case_prod_beta\<close>)

lemma inv_fire:
  assumes "bt_inv s"
  shows "bt_inv (bt_fire opts False i s)"
proof (cases "map_of (live (bt_timers s)) i")
  case (Some h)
  then have l: "live (bt_timers s) = [(i, h)]" "bt_hover s = Some h"
    using assms by (auto simp: bt_inv_def split: list.splits if_splits)
  let ?s = "s\<lparr>bt_timers := clear_timer (Some i) (bt_timers s)\<rparr>"
  have "bt_hasContent ?s" "bt_enabled ?s" "timers_wf (bt_timers ?s)" "live (bt_timers ?s) = []"
    using assms l timers_wf_clear_timer [of "bt_timers s" "Some i"]
    by (auto simp: bt_inv_def bt_hasContent_def) (simp_all add: clear_timer_def)
  then show ?thesis
    using l show_settled [of ?s opts] hide_settled [of ?s opts]
    by (cases h) (simp_all add: bt_fire_def Let_def bt_inv_def bt_hasContent_def)
qed (use assms in \<open>simp add: bt_fire_def\<close>)

lemma complete_funpow: "(bt_complete ^^ n) s = (if n = 0 then s else bt_complete s)"
  by (induction n) (auto simp: bt_complete_def)

lemma bt_inv_end:
  assumes "bt_inv s"
  shows "bt_inv (bt_transition_end s)"
proof -
  have "bt_transition_end s = (if bt_waits s = 0 then s else bt_complete (s\<lparr>bt_waits := 0\<rparr>))"
    by (simp add: bt_transition_end_def complete_funpow)
  then show ?thesis
    using assms by (auto simp: bt_inv_def bt_complete_def bt_settled_def bt_hasContent_def split: list.splits)
qed

lemma bt_inv_step: "bt_inv s \<Longrightarrow> bt_inv (bt_step opts e s)"
  by (cases e) (simp_all add: inv_enter inv_leave inv_fire bt_inv_end bt_toggle_def)

interpretation tooltip: event_machine "bt_step opts" bt_inv "\<lambda>_. True" for opts
  by unfold_locales (rule bt_inv_step)

text \<open>
  C27: in every history of the pointer over the element of an enabled tooltip with a title, whatever the
  delays and animations, at most one timeout is armed; when none is, the tip is displayed exactly when the
  last event of the pointer was to enter, and when it is not and no transition is under way it has been
  taken out of the page.
\<close>

theorem tooltip_follows_pointer:
  assumes "title \<noteq> []" "s = fold (bt_step opts) es (new_bt title)"
  shows "length (live (bt_timers s)) \<le> 1 \<and>
    (live (bt_timers s) = [] \<longrightarrow> bt_in s = (bt_hover s = Some HoverIn) \<and>
       (bt_waits s = 0 \<longrightarrow> bt_attached s = (bt_hover s = Some HoverIn)))"
proof -
  have "bt_inv (new_bt title)" using assms(1) by (simp add: bt_inv_def new_bt_def bt_hasContent_def no_timers_def bt_settled_def timers_wf_def)
  then have "bt_inv s" unfolding assms(2) by (rule tooltip.run_inv) simp
  then show ?thesis by (auto simp: bt_inv_def bt_settled_def split: list.splits if_splits)
qed

lemma tooltip_follows_pointer_witness:
  "bt_attached (fold (bt_step (bt_opts_of (DelayNumber 500) True True)) [Enter, Timeout 1] (new_bt ''help''))"
proof -
  let ?s = "fold (bt_step (bt_opts_of (DelayNumber 500) True True)) [Enter, Timeout 1] (new_bt ''help'')"
  have "live (bt_timers ?s) = []" "bt_waits ?s = 0" "bt_hover ?s = Some HoverIn" by code_simp+
  with tooltip_follows_pointer [OF _ refl, of "''help''" "bt_opts_of (DelayNumber 500) True True" "[Enter, Timeout 1]"]
  show ?thesis by simp
qed

text \<open>
  \<open>destroy\<close> throws when the page prevents the tip from being hidden, and the handlers stay bound:
  \<open>hide\<close> then returns nothing.
\<close>

lemma tooltip_destroy_throws:
  "(bt_destroy opts prevented s = None) = prevented \<and> (bt_destroy opts False s = Some t \<longrightarrow> \<not> bt_bound t \<and> \<not> bt_in t)"
  by (auto simp: bt_destroy_def bt_hide_def bt_complete_def Let_def)

text \<open>A tip that is to stay for the delay vanishes at once when an older fade-out has not ended.\<close>

lemma tooltip_vanishes_early:
  "let s = fold (bt_step \<lparr>bt_delay_show = 0, bt_delay_hide = 500, bt_animation = True, bt_css = True\<rparr>)
     [Enter, Leave, Timeout 1, Enter, Leave, TransitionEnd] (new_bt ''help'')
   in live (bt_timers s) \<noteq> [] \<and> bt_in s \<and> \<not> bt_attached s"
  by code_simp

end
