(* ===== verification/Boot_Placement.thy ===== *)
theory Boot_Placement
  imports Vein_Prelude
begin

text \<open>
  Where the tooltip of \<open>js/bootstrap.js\<close> is put. The boxes, sizes and margins are what the browser
  answers; the size of the tip may change when it is moved, so its size is an input after each move.
\<close>

section \<open>Placements\<close>

datatype placement = PlaceTop | PlaceBottom | PlaceLeft | PlaceRight

record box =
  bx_top :: rat
  bx_left :: rat
  bx_width :: rat
  bx_height :: rat

abbreviation bx_right :: "box \<Rightarrow> rat" where "bx_right b \<equiv> bx_left b + bx_width b"
abbreviation bx_bottom :: "box \<Rightarrow> rat" where "bx_bottom b \<equiv> bx_top b + bx_height b"

definition getCalculatedOffset :: "placement \<Rightarrow> box \<Rightarrow> rat \<Rightarrow> rat \<Rightarrow> rat \<times> rat" where
  "getCalculatedOffset p pos w h =
     (case p of
        PlaceBottom \<Rightarrow> (bx_top pos + bx_height pos, bx_left pos + bx_width pos / 2 - w / 2)
      | PlaceTop \<Rightarrow> (bx_top pos - h, bx_left pos + bx_width pos / 2 - w / 2)
      | PlaceLeft \<Rightarrow> (bx_top pos + bx_height pos / 2 - h / 2, bx_left pos - w)
      | PlaceRight \<Rightarrow> (bx_top pos + bx_height pos / 2 - h / 2, bx_left pos + bx_width pos))"

text \<open>The sizes the automatic placement compares with: of the window for \<open>container: 'body'\<close>, else of the parent.\<close>

record surroundings =
  sr_docScroll :: rat
  sr_width :: rat
  sr_height :: rat
  sr_left :: rat

definition auto_place :: "surroundings \<Rightarrow> box \<Rightarrow> rat \<Rightarrow> rat \<Rightarrow> placement \<Rightarrow> placement" where
  "auto_place sr pos w h p =
     (if p = PlaceBottom \<and> bx_top pos + bx_height pos + h - sr_docScroll sr > sr_height sr then PlaceTop
      else if p = PlaceTop \<and> bx_top pos - sr_docScroll sr - h < 0 then PlaceBottom
      else if p = PlaceRight \<and> bx_right pos + w > sr_width sr then PlaceLeft
      else if p = PlaceLeft \<and> bx_left pos - w < sr_left sr then PlaceRight
      else p)"

text \<open>\<open>NaN\<close> margins count as 0. The arrow is placed in percent of the tip; \<open>None\<close> is the style sheet's 50.\<close>

datatype arrow_side = ArrowLeft | ArrowTop

definition replaceArrow :: "rat \<Rightarrow> rat \<Rightarrow> arrow_side \<Rightarrow> arrow_side \<times> rat option" where
  "replaceArrow delta dimension side = (side, if delta \<noteq> 0 then Some (50 * (1 - delta / dimension)) else None)"

record placed =
  pl_top :: rat
  pl_left :: rat
  pl_arrow :: "arrow_side \<times> rat option"

definition applyPlacement ::
  "rat option \<times> rat option \<Rightarrow> rat \<times> rat \<Rightarrow> rat \<times> rat \<Rightarrow> rat \<times> rat \<Rightarrow> rat \<times> rat \<Rightarrow> placement \<Rightarrow> placed" where
  "applyPlacement margins size0 size1 size2 offs p =
     (let (width, height) = size0;
          marginTop = (case fst margins of Some m \<Rightarrow> m | None \<Rightarrow> 0);
          marginLeft = (case snd margins of Some m \<Rightarrow> m | None \<Rightarrow> 0);
          y = fst offs + marginTop;
          x = snd offs + marginLeft;
          (actualWidth, actualHeight) = size1;
          y = (if p = PlaceTop \<and> actualHeight \<noteq> height then y + height - actualHeight else y)
      in if p = PlaceTop \<or> p = PlaceBottom then
           (if x < 0
            then \<lparr>pl_top = y, pl_left = 0, pl_arrow = replaceArrow (x * -2 - width + fst size2) (fst size2) ArrowLeft\<rparr>
            else \<lparr>pl_top = y, pl_left = x, pl_arrow = replaceArrow (- width + actualWidth) actualWidth ArrowLeft\<rparr>)
         else \<lparr>pl_top = y, pl_left = x, pl_arrow = replaceArrow (actualHeight - height) actualHeight ArrowTop\<rparr>)"

text \<open>Where the arrow is in the page, along the side it moves on.\<close>

definition arrow_at :: "placed \<Rightarrow> rat \<Rightarrow> rat \<Rightarrow> rat" where
  "arrow_at pl w h =
     (let share = (case snd (pl_arrow pl) of None \<Rightarrow> 50 | Some a \<Rightarrow> a) / 100
      in case fst (pl_arrow pl) of
           ArrowLeft \<Rightarrow> pl_left pl + share * w
         | ArrowTop \<Rightarrow> pl_top pl + share * h)"

section \<open>Beside the element, never over it\<close>

definition overlaps :: "box \<Rightarrow> box \<Rightarrow> bool" where
  "overlaps a b \<longleftrightarrow> bx_left a < bx_right b \<and> bx_left b < bx_right a \<and> bx_top a < bx_bottom b \<and> bx_top b < bx_bottom a"

definition tip_box :: "placement \<Rightarrow> box \<Rightarrow> rat \<Rightarrow> rat \<Rightarrow> box" where
  "tip_box p pos w h = (let (y, x) = getCalculatedOffset p pos w h in \<lparr>bx_top = y, bx_left = x, bx_width = w, bx_height = h\<rparr>)"

definition fits :: "surroundings \<Rightarrow> placement \<Rightarrow> box \<Rightarrow> bool" where
  "fits sr p b \<longleftrightarrow>
     (case p of
        PlaceBottom \<Rightarrow> bx_bottom b - sr_docScroll sr \<le> sr_height sr
      | PlaceTop \<Rightarrow> sr_docScroll sr \<le> bx_top b
      | PlaceRight \<Rightarrow> bx_right b \<le> sr_width sr
      | PlaceLeft \<Rightarrow> sr_left sr \<le> bx_left b)"

fun opposite :: "placement \<Rightarrow> placement" where
  "opposite PlaceTop = PlaceBottom"
| "opposite PlaceBottom = PlaceTop"
| "opposite PlaceLeft = PlaceRight"
| "opposite PlaceRight = PlaceLeft"

text \<open>
  The automatic placement keeps the side it was asked for exactly when the tip fits there, takes the
  opposite side when it does not, and on neither side the tip covers the element.
\<close>

theorem tooltip_auto_place:
  "auto_place sr pos w h p = (if fits sr p (tip_box p pos w h) then p else opposite p) \<and>
     \<not> overlaps (tip_box (auto_place sr pos w h p) pos w h) pos"
proof -
  have "\<not> overlaps (tip_box q pos w h) pos" for q
    by (cases q) (auto simp: overlaps_def tip_box_def getCalculatedOffset_def)
  moreover have "auto_place sr pos w h p = (if fits sr p (tip_box p pos w h) then p else opposite p)"
    by (cases p) (auto simp: auto_place_def fits_def tip_box_def getCalculatedOffset_def)
  ultimately show ?thesis by simp
qed

lemma tooltip_auto_place_witness:
  "auto_place \<lparr>sr_docScroll = 0, sr_width = 100, sr_height = 100, sr_left = 0\<rparr>
     \<lparr>bx_top = 10, bx_left = 0, bx_width = 20, bx_height = 10\<rparr> 30 20 PlaceTop = PlaceBottom"
  using tooltip_auto_place [of "\<lparr>sr_docScroll = 0, sr_width = 100, sr_height = 100, sr_left = 0\<rparr>"
      "\<lparr>bx_top = 10, bx_left = 0, bx_width = 20, bx_height = 10\<rparr>" 30 20 PlaceTop]
  by (simp add: fits_def tip_box_def getCalculatedOffset_def)

section \<open>The arrow\<close>

text \<open>
  Above or below an element the tip never starts left of the page, and (with no margin at its left) its
  arrow points at the middle of the element, also when the tip had to be moved to the right, as long as
  moving it does not change its width.
\<close>

theorem tooltip_arrow_points:
  assumes "p = PlaceTop \<or> p = PlaceBottom" "0 < w"
    "pl = applyPlacement (mt, None) (w, h) (w, h1) (w, h2) (getCalculatedOffset p pos w h) p"
  shows "0 \<le> pl_left pl \<and> arrow_at pl w h2 = bx_left pos + bx_width pos / 2"
proof -
  have l: "snd (getCalculatedOffset p pos w h) = bx_left pos + bx_width pos / 2 - w / 2"
    using assms(1) by (auto simp: getCalculatedOffset_def)
  define x where "x = bx_left pos + bx_width pos / 2 - w / 2"
  have m: "50 * (1 - x * -2 / w) / 100 * w = w / 2 + x" using assms(2) by (simp add: field_simps)
  show ?thesis
    using assms(1,2) m
    by (auto simp: assms(3) applyPlacement_def Let_def l x_def [symmetric] replaceArrow_def arrow_at_def)
      (simp_all add: x_def)
qed

lemma tooltip_arrow_points_witness:
  "pl_left (applyPlacement (None, None) (60, 20) (60, 20) (60, 20)
     (getCalculatedOffset PlaceTop \<lparr>bx_top = 50, bx_left = 0, bx_width = 20, bx_height = 10\<rparr> 60 20) PlaceTop) \<ge> 0"
  using tooltip_arrow_points [OF _ _ refl, of PlaceTop 60 None 20 20 20 "\<lparr>bx_top = 50, bx_left = 0, bx_width = 20, bx_height = 10\<rparr>"]
  by simp

text \<open>
  A tip above the element keeps its lower edge there (but for its margin) when it gets another height while it is moved.
\<close>

theorem tooltip_top_keeps_edge:
  assumes "pl = applyPlacement (mt, ml) (w, h) (w1, h1) (w2, h2) (getCalculatedOffset PlaceTop pos w h) PlaceTop"
  shows "pl_top pl + h1 = bx_top pos + (case mt of Some m \<Rightarrow> m | None \<Rightarrow> 0)"
  using assms by (auto simp: applyPlacement_def Let_def getCalculatedOffset_def)

lemma tooltip_top_keeps_edge_witness:
  "pl_top (applyPlacement (None, None) (60, 20) (60, 36) (60, 36)
     (getCalculatedOffset PlaceTop \<lparr>bx_top = 50, bx_left = 0, bx_width = 20, bx_height = 10\<rparr> 60 20) PlaceTop) = 14"
  using tooltip_top_keeps_edge [OF refl, of None None 60 20 60 36 60 36 "\<lparr>bx_top = 50, bx_left = 0, bx_width = 20, bx_height = 10\<rparr>"]
  by simp

text \<open>When the second move changes the height again, the edge is off by the difference.\<close>

lemma tooltip_top_edge_moves:
  "let pl = applyPlacement (None, None) (60, 20) (40, 36) (60, 20)
     (getCalculatedOffset PlaceTop \<lparr>bx_top = 50, bx_left = 0, bx_width = 20, bx_height = 10\<rparr> 60 20) PlaceTop
   in pl_top pl + 20 = 34"
  by (simp add: applyPlacement_def getCalculatedOffset_def Let_def)

end
