(* ===== verification/Js_Text.thy ===== *)
theory Js_Text
  imports Js_Value "HOL-Library.Sublist"
begin

text \<open>
  What several components use of JavaScript strings: \<open>split\<close> at one character, \<open>join\<close>, the order of code
  units, lower and upper case, line breaks and the removal of tags. Characters are those of Latin-1.
\<close>

section \<open>\<open>split\<close> and \<open>join\<close>\<close>

fun js_split :: "'a \<Rightarrow> 'a list \<Rightarrow> 'a list list" where
  "js_split d [] = [[]]"
| "js_split d (c # s) =
     (if c = d then [] # js_split d s else (case js_split d s of x # xs \<Rightarrow> (c # x) # xs | [] \<Rightarrow> [[c]]))"

fun js_join :: "'a list \<Rightarrow> 'a list list \<Rightarrow> 'a list" where
  "js_join sep [] = []"
| "js_join sep [t] = t"
| "js_join sep (t # u # ts) = t @ sep @ js_join sep (u # ts)"

lemma split_ne: "js_split d s \<noteq> []"
  by (induction s) (auto split: list.splits)

lemma split_part: "d \<notin> set a \<Longrightarrow> js_split d (a @ d # b) = a # js_split d b"
  by (induction a) auto

lemma split_whole: "d \<notin> set a \<Longrightarrow> js_split d a = [a]"
  by (induction a) auto

lemma split_free: "t \<in> set (js_split d s) \<Longrightarrow> d \<notin> set t"
proof (induction s arbitrary: t)
  case (Cons c s)
  then show ?case by (cases "js_split d s") (auto split: if_splits)
qed simp

lemma split_join: "\<forall>t \<in> set ts. d \<notin> set t \<Longrightarrow> ts \<noteq> [] \<Longrightarrow> js_split d (js_join [d] ts) = ts"
proof (induction "[d]" ts rule: js_join.induct)
  case (3 t u ts)
  then show ?case using split_part [of d t "js_join [d] (u # ts)"] by simp
qed (simp_all add: split_whole)

lemma join_split: "js_join [d] (js_split d s) = s"
proof (induction s)
  case (Cons c s)
  obtain x xs where x: "js_split d s = x # xs" using split_ne [of d s] by (cases "js_split d s") auto
  then show ?case using Cons by (cases xs) auto
qed simp

text \<open>Splitting a longer string: the parts are those of the prefix but for the last one, which grows.\<close>

lemma split_append:
  "js_split d (a @ b) = butlast (js_split d a) @ (last (js_split d a) @ hd (js_split d b)) # tl (js_split d b)"
proof (induction a)
  case Nil
  then show ?case using split_ne [of d b] by simp
next
  case (Cons c a)
  obtain x xs where "js_split d a = x # xs" using split_ne [of d a] by (cases "js_split d a") auto
  then show ?case using Cons by (cases xs) auto
qed

section \<open>Order and case\<close>

fun str_less :: "string \<Rightarrow> string \<Rightarrow> bool" where
  "str_less s [] = False"
| "str_less [] (d # t) = True"
| "str_less (c # s) (d # t) =
     ((of_char c :: nat) < of_char d \<or> c = d \<and> str_less s t)"

lemma str_less_irrefl [simp]: "\<not> str_less s s"
  by (induction s) auto

lemma str_less_trans: "str_less s t \<Longrightarrow> str_less t u \<Longrightarrow> str_less s u"
proof (induction s t arbitrary: u rule: str_less.induct)
  case (2 d t)
  then show ?case by (cases u) auto
next
  case (3 c s d t)
  then show ?case by (cases u) auto
qed simp

lemma str_less_linear: "str_less s t \<or> s = t \<or> str_less t s"
proof (induction s t rule: str_less.induct)
  case (1 s)
  then show ?case by (cases s) auto
next
  case (3 c s d t)
  have "c = d" if "(of_char c :: nat) = of_char d" using that by simp
  then show ?case using 3 by (cases "(of_char c :: nat)" "(of_char d :: nat)" rule: linorder_cases) auto
qed simp

definition lower :: "char \<Rightarrow> char" where
  "lower c = (let n = of_char c :: nat in
     if 65 \<le> n \<and> n \<le> 90 \<or> 192 \<le> n \<and> n \<le> 222 \<and> n \<noteq> 215 then char_of (n + 32) else c)"

definition toLowerCase :: "string \<Rightarrow> string" where
  "toLowerCase s = map lower s"

definition upper :: "char \<Rightarrow> char" where
  "upper c = (let n = of_char c :: nat in
     if 97 \<le> n \<and> n \<le> 122 \<or> 224 \<le> n \<and> n \<le> 254 \<and> n \<noteq> 247 then char_of (n - 32) else c)"

section \<open>Lines and tags\<close>

definition line_end :: "char \<Rightarrow> bool" where
  "line_end c \<longleftrightarrow> (of_char c :: nat) \<in> {10, 13}"

definition flat_lines :: "string \<Rightarrow> string" where
  "flat_lines s = map (\<lambda>c. if line_end c then CHR '' '' else c) s"

lemma flat_lines_flat: "c \<in> set (flat_lines s) \<Longrightarrow> \<not> line_end c"
  by (auto simp: flat_lines_def line_end_def)

text \<open>
  \<open>s.replace(/<.*?>/g, "")\<close>: from a \<open><\<close> to the next \<open>>\<close> on the same line; a \<open><\<close> without one stays.
\<close>

fun after_gt :: "string \<Rightarrow> string option" where
  "after_gt [] = None"
| "after_gt (c # s) = (if c = CHR ''>'' then Some s else if line_end c then None else after_gt s)"

lemma after_gt_shorter: "after_gt s = Some r \<Longrightarrow> length r < length s"
  by (induction s) (auto split: if_splits)

function strip_tags :: "string \<Rightarrow> string" where
  "strip_tags [] = []"
| "strip_tags (c # s) =
     (case (if c = CHR ''<'' then after_gt s else None) of
        None \<Rightarrow> c # strip_tags s
      | Some r \<Rightarrow> strip_tags r)"
  by pat_completeness auto
termination
  by (relation "measure length") (auto dest: after_gt_shorter split: if_splits)

end
