(* ===== verification/Plug_Cookie.thy ===== *)
theory Plug_Cookie
  imports Js_Text
begin

text \<open>
  The cookie plugin (\<open>js/jquery.cookie.js\<close>) with what it uses of the language: \<open>encodeURIComponent\<close> and
  \<open>decodeURIComponent\<close> (UTF-8 in percent signs), \<open>split\<close>, \<open>substring\<close> and \<open>jQuery.jq_trim\<close>. A string is the
  list of its code points; a lone surrogate is a code point that cannot be encoded. The text of a date
  (\<open>toUTCString\<close>) and the clock are parameters. Setting is the text that is assigned to \<open>document.cookie\<close>,
  getting reads the text of \<open>document.cookie\<close>; which cookies a browser keeps is not modelled.
\<close>

type_synonym jstr = "nat list"

definition js :: "string \<Rightarrow> jstr" where
  "js s = map of_char s"

section \<open>Percent encoding\<close>

definition surrogate :: "nat \<Rightarrow> bool" where
  "surrogate c \<longleftrightarrow> 55296 \<le> c \<and> c < 57344"

definition code_point :: "nat \<Rightarrow> bool" where
  "code_point c \<longleftrightarrow> c < 1114112 \<and> \<not> surrogate c"

definition utf8 :: "nat \<Rightarrow> nat list" where
  "utf8 c =
     (if c < 128 then [c]
      else if c < 2048 then [192 + c div 64, 128 + c mod 64]
      else if c < 65536 then [224 + c div 4096, 128 + c div 64 mod 64, 128 + c mod 64]
      else [240 + c div 262144, 128 + c div 4096 mod 64, 128 + c div 64 mod 64, 128 + c mod 64])"

definition hex_digit :: "nat \<Rightarrow> nat" where
  "hex_digit n = (if n < 10 then 48 + n else 55 + n)"

definition hex_value :: "nat \<Rightarrow> nat option" where
  "hex_value c =
     (if 48 \<le> c \<and> c \<le> 57 then Some (c - 48) else if 65 \<le> c \<and> c \<le> 70 then Some (c - 55)
      else if 97 \<le> c \<and> c \<le> 102 then Some (c - 87) else None)"

text \<open>Letters, digits and \<open>- _ . ! ~ * ' ( )\<close> stay as they are.\<close>

definition unreserved :: "nat \<Rightarrow> bool" where
  "unreserved c \<longleftrightarrow>
     (48 \<le> c \<and> c \<le> 57) \<or> (65 \<le> c \<and> c \<le> 90) \<or> (97 \<le> c \<and> c \<le> 122) \<or> c \<in> {45, 95, 46, 33, 126, 42, 39, 40, 41}"

definition pct :: "nat \<Rightarrow> jstr" where
  "pct b = [37, hex_digit (b div 16), hex_digit (b mod 16)]"

definition encode_point :: "nat \<Rightarrow> jstr" where
  "encode_point c = (if unreserved c then [c] else concat (map pct (utf8 c)))"

text \<open>\<open>None\<close> is \<open>URIError\<close>.\<close>

definition encodeURIComponent :: "jstr \<Rightarrow> jstr option" where
  "encodeURIComponent s = (if list_all code_point s then Some (concat (map encode_point s)) else None)"

fun read_byte :: "jstr \<Rightarrow> (nat \<times> jstr) option" where
  "read_byte (p # a # b # r) =
     (if p = 37 then (case (hex_value a, hex_value b) of (Some x, Some y) \<Rightarrow> Some (16 * x + y, r) | _ \<Rightarrow> None) else None)"
| "read_byte _ = None"

fun read_more :: "nat \<Rightarrow> nat \<Rightarrow> jstr \<Rightarrow> (nat \<times> jstr) option" where
  "read_more 0 v s = Some (v, s)"
| "read_more (Suc n) v s =
     (case read_byte s of
        None \<Rightarrow> None
      | Some (b, r) \<Rightarrow> if 128 \<le> b \<and> b < 192 then read_more n (v * 64 + (b - 128)) r else None)"

text \<open>The code point at a percent sign: the first byte says how many follow; overlong forms are refused.\<close>

definition read_point :: "jstr \<Rightarrow> (nat \<times> jstr) option" where
  "read_point s =
     (case read_byte s of
        None \<Rightarrow> None
      | Some (b, r) \<Rightarrow>
          if b < 128 then Some (b, r)
          else
            (let (n, v, least) =
               (if 192 \<le> b \<and> b < 224 then (1, b - 192, 128)
                else if 224 \<le> b \<and> b < 240 then (2, b - 224, 2048)
                else if 240 \<le> b \<and> b < 248 then (3, b - 240, 65536) else (0, 0, 1))
             in case read_more n v r of
                  None \<Rightarrow> None
                | Some (c, r) \<Rightarrow> if least \<le> c \<and> code_point c then Some (c, r) else None))"

lemma read_byte_shorter: "read_byte s = Some (b, r) \<Longrightarrow> length r < length s"
  by (induction s rule: read_byte.induct) (auto split: option.splits if_splits)

lemma read_more_shorter: "read_more n v s = Some (c, r) \<Longrightarrow> length r \<le> length s"
  by (induction n v s rule: read_more.induct) (force dest: read_byte_shorter split: option.splits if_splits)+

lemma read_point_shorter: "read_point s = Some (c, r) \<Longrightarrow> length r < length s"
  by (auto simp: read_point_def Let_def dest!: read_byte_shorter read_more_shorter split: option.splits if_splits)

function decodeURIComponent :: "jstr \<Rightarrow> jstr option" where
  "decodeURIComponent [] = Some []"
| "decodeURIComponent (c # s) =
     (if c \<noteq> 37 then map_option (Cons c) (decodeURIComponent s)
      else (case read_point (c # s) of
              None \<Rightarrow> None
            | Some (d, r) \<Rightarrow> map_option (Cons d) (decodeURIComponent r)))"
  by pat_completeness auto
termination by (relation "measure length") (auto dest: read_point_shorter)

section \<open>The round trip of the encoding\<close>

lemma hex_digit_value: "n < 16 \<Longrightarrow> hex_value (hex_digit n) = Some n"
  by (auto simp: hex_digit_def hex_value_def)

lemma read_byte_pct: "b < 256 \<Longrightarrow> read_byte (pct b @ r) = Some (b, r)"
  by (simp add: pct_def hex_digit_value)

lemma read_more_pct:
  "128 \<le> b \<Longrightarrow> b < 192 \<Longrightarrow> read_more (Suc n) v (pct b @ r) = read_more n (v * 64 + (b - 128)) r"
  by (simp add: read_byte_pct)

lemma read_more_n: "read_more 1 = read_more (Suc 0)" "read_more 2 = read_more (Suc (Suc 0))"
  "read_more 3 = read_more (Suc (Suc (Suc 0)))"
  by (simp_all add: numeral_2_eq_2 numeral_3_eq_3)

lemma read_point_utf8:
  assumes "code_point c"
  shows "read_point (concat (map pct (utf8 c)) @ r) = Some (c, r)"
proof -
  have c: "c < 1114112" using assms by (simp add: code_point_def)
  have d: "c div 4096 = c div 64 div 64" "c div 262144 = c div 4096 div 64"
    using div_mult2_eq [of c 64 64] div_mult2_eq [of c 4096 64] by simp_all
  have m: "(c div 64) * 64 + c mod 64 = c" by (rule div_mult_mod_eq)
  have m2: "(c div 4096 * 64 + c div 64 mod 64) * 64 + c mod 64 = c"
    by (simp only: d(1) div_mult_mod_eq)
  then have m2': "4096 * (c div 4096) + c div 64 mod 64 * 64 + c mod 64 = c" by (simp add: add_mult_distrib)
  have m3: "((c div 262144 * 64 + c div 4096 mod 64) * 64 + c div 64 mod 64) * 64 + c mod 64 = c"
    by (simp only: d(2) div_mult_mod_eq m2)
  then have m3': "262144 * (c div 262144) + 4096 * (c div 4096 mod 64) + c div 64 mod 64 * 64 + c mod 64 = c"
    by (simp add: add_mult_distrib)
  consider "c < 128" | "128 \<le> c" "c < 2048" | "2048 \<le> c" "c < 65536" | "65536 \<le> c" by linarith
  then show ?thesis
  proof cases
    case 1
    then show ?thesis by (simp add: utf8_def read_point_def read_byte_pct)
  next
    case 2
    then have "192 + c div 64 < 224" by linarith
    then show ?thesis
      using 2 assms by (simp add: utf8_def read_point_def read_byte_pct read_more_n read_more_pct m del: read_more.simps(2) One_nat_def)
  next
    case 3
    then have "224 + c div 4096 < 240" by linarith
    then show ?thesis
      using 3 assms by (simp add: utf8_def read_point_def read_byte_pct read_more_n read_more_pct m2' del: read_more.simps(2) One_nat_def)
  next
    case 4
    then have "240 + c div 262144 < 248" using c by linarith
    then show ?thesis
      using 4 assms by (simp add: utf8_def read_point_def read_byte_pct read_more_n read_more_pct m3' del: read_more.simps(2) One_nat_def)
  qed
qed

lemma decode_point: "code_point c \<Longrightarrow> decodeURIComponent (encode_point c @ r) = map_option (Cons c) (decodeURIComponent r)"
proof (cases "unreserved c")
  case False
  assume c: "code_point c"
  have "\<exists>s. concat (map pct (utf8 c)) = 37 # s" by (simp add: utf8_def pct_def)
  then obtain s where s: "concat (map pct (utf8 c)) @ r = 37 # s" by auto
  then show ?thesis using False read_point_utf8 [OF c, of r] by (simp add: encode_point_def)
qed (auto simp: encode_point_def unreserved_def)

lemma decode_encode: "list_all code_point s \<Longrightarrow> decodeURIComponent (concat (map encode_point s)) = Some s"
  by (induction s) (simp_all add: decode_point)

lemma encode_chars:
  assumes "code_point c" "x \<in> set (encode_point c)"
  shows "unreserved x \<or> x = 37"
proof -
  have "unreserved (hex_digit n)" if "n < 16" for n using that by (auto simp: unreserved_def hex_digit_def)
  moreover have "b div 16 < 16" if "b \<in> set (utf8 c)" for b
    using that assms(1) by (auto simp: utf8_def code_point_def split: if_splits)
  ultimately show ?thesis using assms(2) by (auto simp: encode_point_def pct_def split: if_splits)
qed

section \<open>The plugin\<close>

definition blank :: "nat \<Rightarrow> bool" where
  "blank c \<longleftrightarrow> c \<in> {9, 10, 11, 12, 13, 32, 160, 65279}"

definition jq_trim :: "jstr \<Rightarrow> jstr" where
  "jq_trim s = rev (dropWhile blank (rev (dropWhile blank s)))"

datatype expires = Days int | At int

record cookie_opts =
  ck_expires :: "expires option"
  ck_path :: jstr
  ck_domain :: jstr
  ck_secure :: bool

text \<open>Setting; \<open>None\<close> for the value is \<open>null\<close>. \<open>utc\<close> is the text of a date. 0 days count as no date.\<close>

definition cookie_line :: "(int \<Rightarrow> jstr) \<Rightarrow> int \<Rightarrow> jstr \<Rightarrow> jstr option \<Rightarrow> cookie_opts \<Rightarrow> jstr option" where
  "cookie_line utc now name value opts =
     (let (v, opts) = (case value of None \<Rightarrow> ([], opts\<lparr>ck_expires := Some (Days (-1))\<rparr>) | Some v \<Rightarrow> (v, opts));
          exp = (case ck_expires opts of
                   None \<Rightarrow> []
                 | Some (Days d) \<Rightarrow> if d = 0 then [] else js ''; expires='' @ utc (now + d * 24 * 60 * 60 * 1000)
                 | Some (At t) \<Rightarrow> js ''; expires='' @ utc t);
          path = (if ck_path opts = [] then [] else js ''; path='' @ ck_path opts);
          domain = (if ck_domain opts = [] then [] else js ''; domain='' @ ck_domain opts);
          secure = (if ck_secure opts then js ''; secure'' else [])
      in case encodeURIComponent v of
           None \<Rightarrow> None
         | Some e \<Rightarrow> Some (name @ js ''='' @ e @ exp @ path @ domain @ secure))"

text \<open>Getting, from the text of \<open>document.cookie\<close>: \<open>None\<close> is \<open>URIError\<close>, \<open>Some None\<close> is \<open>null\<close>.\<close>

fun cookie_find :: "jstr \<Rightarrow> jstr list \<Rightarrow> jstr option option" where
  "cookie_find name [] = Some None"
| "cookie_find name (c # cs) =
     (let cookie = jq_trim c in
      if take (length name + 1) cookie = name @ js ''=''
      then map_option Some (decodeURIComponent (drop (length name + 1) cookie))
      else cookie_find name cs)"

definition cookie_get :: "jstr \<Rightarrow> jstr \<Rightarrow> jstr option option" where
  "cookie_get name text' = (if text' = [] then Some None else cookie_find name (js_split 59 text'))"

section \<open>Reading back\<close>

text \<open>
  Cookies as pairs of name and value, and the text of \<open>document.cookie\<close> that lists them: the pairs
  \<open>name=value\<close> with a semicolon and a blank between them.
\<close>

type_synonym jar = "(jstr \<times> jstr) list"

definition pair_text :: "jstr \<times> jstr \<Rightarrow> jstr" where
  "pair_text p = fst p @ 61 # snd p"

definition document_cookie :: "jstr list \<Rightarrow> jstr" where
  "document_cookie ps = js_join [59, 32] ps"

text \<open>Of a text that is assigned to \<open>document.cookie\<close> the pair is what stands before the first semicolon.\<close>

definition own_pair :: "jstr \<Rightarrow> jstr" where
  "own_pair line = takeWhile (\<lambda>c. c \<noteq> 59) line"

definition token :: "jstr \<Rightarrow> bool" where
  "token n \<longleftrightarrow> n \<noteq> [] \<and> (\<forall>c \<in> set n. c \<noteq> 61 \<and> c \<noteq> 59 \<and> \<not> blank c)"

definition jar_ok :: "jar \<Rightarrow> bool" where
  "jar_ok j \<longleftrightarrow> (\<forall>(n, v) \<in> set j. token n \<and> 59 \<notin> set v \<and> (v = [] \<or> \<not> blank (last v)))"

lemma js_simps_eq: "js ''='' = [61]" "js ''; '' = [59, 32]"
  by (simp_all add: js_def)

lemma trim_id: "s \<noteq> [] \<Longrightarrow> \<not> blank (hd s) \<Longrightarrow> \<not> blank (last s) \<Longrightarrow> jq_trim s = s"
  using dropWhile_eq_self_iff [of blank s] dropWhile_eq_self_iff [of blank "rev s"] by (simp add: jq_trim_def hd_rev)

lemma trim_blank: "blank c \<Longrightarrow> jq_trim (c # s) = jq_trim s"
  by (simp add: jq_trim_def)

lemma token_trim: "token n \<Longrightarrow> jq_trim n = n"
  by (rule trim_id) (auto simp: token_def)

lemma pair_trim: "token n \<Longrightarrow> v = [] \<or> \<not> blank (last v) \<Longrightarrow> jq_trim (n @ 61 # v) = n @ 61 # v"
  by (rule trim_id) (auto simp: token_def hd_append blank_def)

lemma pair_no_semicolon: "token n \<Longrightarrow> 59 \<notin> set v \<Longrightarrow> 59 \<notin> set (n @ 61 # v)"
  by (auto simp: token_def)

lemma split_cookies:
  "jar_ok j \<Longrightarrow> j \<noteq> [] \<Longrightarrow> map jq_trim (js_split 59 (document_cookie (map pair_text j))) = map pair_text j"
proof (induction j)
  case (Cons p j)
  obtain n v where p: "p = (n, v)" by force
  have k: "token n" "59 \<notin> set v" "v = [] \<or> \<not> blank (last v)" "jar_ok j" using Cons.prems(1) p by (auto simp: jar_ok_def)
  have t: "jq_trim (pair_text p) = pair_text p" "59 \<notin> set (pair_text p)"
    using pair_trim [OF k(1,3)] pair_no_semicolon [OF k(1,2)] p by (simp_all add: pair_text_def)
  show ?case
  proof (cases j)
    case Nil
    then show ?thesis using split_whole [OF t(2)] t(1) by (simp add: document_cookie_def)
  next
    case (Cons q qs)
    have "map jq_trim (js_split 59 (32 # s)) = map jq_trim (js_split 59 s)" for s
      using split_ne [of 59 s] by (cases "js_split 59 s") (simp_all add: trim_blank blank_def)
    then show ?thesis
      using split_part [OF t(2), of "32 # document_cookie (map pair_text j)"] t(1) Cons.IH k(4) Cons
      by (simp add: document_cookie_def del: js_split.simps)
  qed
qed simp

lemma starts_with_name:
  assumes "token n" "token m"
  shows "take (length n + 1) (m @ 61 # v) = n @ [61] \<longleftrightarrow> m = n"
proof
  assume t: "take (length n + 1) (m @ 61 # v) = n @ [61]"
  have "takeWhile (\<lambda>c. c \<noteq> 61) (n @ [61]) = n" "takeWhile (\<lambda>c. c \<noteq> 61) (m @ 61 # v) = m"
    using assms by (simp_all add: token_def)
  moreover have "m @ 61 # v = (n @ [61]) @ drop (length n + 1) (m @ 61 # v)"
    using t by (metis append_take_drop_id)
  moreover have "takeWhile (\<lambda>c. c \<noteq> 61) ((n @ [61]) @ r) = n" for r using assms(1) by (simp add: token_def)
  ultimately show "m = n" by metis
qed simp

lemma find_pairs:
  "token n \<Longrightarrow> jar_ok j \<Longrightarrow> map jq_trim cs = map pair_text j \<Longrightarrow>
     cookie_find n cs = (case map_of j n of None \<Rightarrow> Some None | Some v \<Rightarrow> map_option Some (decodeURIComponent v))"
proof (induction j arbitrary: cs)
  case (Cons p j)
  obtain m v where p: "p = (m, v)" by force
  obtain c cs' where c: "cs = c # cs'" "jq_trim c = m @ 61 # v" "map jq_trim cs' = map pair_text j"
    using Cons.prems(3) p by (cases cs) (auto simp: pair_text_def)
  have m: "token m" "jar_ok j" using Cons.prems(2) p by (auto simp: jar_ok_def)
  show ?case
  proof (cases "m = n")
    case True
    then show ?thesis using c p by (simp add: js_simps_eq Let_def)
  next
    case False
    then have "take (length n + 1) (m @ 61 # v) \<noteq> n @ [61]" using starts_with_name [OF Cons.prems(1) m(1)] by blast
    then show ?thesis using c p False Cons.IH [OF Cons.prems(1) m(2) c(3)] by (simp add: js_simps_eq Let_def)
  qed
qed simp

lemma cookie_get_map:
  assumes "token n" "jar_ok j"
  shows "cookie_get n (document_cookie (map pair_text j)) =
    (case map_of j n of None \<Rightarrow> Some None | Some v \<Rightarrow> map_option Some (decodeURIComponent v))"
proof (cases "j = []")
  case True
  then show ?thesis by (simp add: cookie_get_def document_cookie_def)
next
  case False
  then have "document_cookie (map pair_text j) \<noteq> []"
    by (cases j rule: remdups_adj.cases) (auto simp: document_cookie_def pair_text_def)
  then show ?thesis
    using find_pairs [OF assms split_cookies [OF assms(2) False]] by (simp add: cookie_get_def)
qed

section \<open>Writing\<close>

lemma encoded_chars:
  assumes "list_all code_point s" "x \<in> set (concat (map encode_point s))"
  shows "x \<noteq> 59 \<and> \<not> blank x"
proof -
  obtain c where "c \<in> set s" "x \<in> set (encode_point c)" using assms(2) by auto
  then have "unreserved x \<or> x = 37" using encode_chars assms(1) by (auto simp: list_all_iff)
  then show ?thesis by (auto simp: unreserved_def blank_def)
qed

text \<open>The pair of the text that is assigned, whatever attributes follow it.\<close>

lemma line_pair:
  assumes n: "token n" and line: "cookie_line utc now n (Some v) opts = Some line"
  shows "list_all code_point v" "own_pair line = pair_text (n, concat (map encode_point v))"
proof -
  show v: "list_all code_point v"
    using line by (auto simp: cookie_line_def encodeURIComponent_def Let_def split: option.splits if_splits)
  let ?e = "concat (map encode_point v)"
  define rest where "rest =
      (case ck_expires opts of
         None \<Rightarrow> []
       | Some (Days d) \<Rightarrow> if d = 0 then [] else js ''; expires='' @ utc (now + d * 24 * 60 * 60 * 1000)
       | Some (At t) \<Rightarrow> js ''; expires='' @ utc t) @
      (if ck_path opts = [] then [] else js ''; path='' @ ck_path opts) @
      (if ck_domain opts = [] then [] else js ''; domain='' @ ck_domain opts) @ (if ck_secure opts then js ''; secure'' else [])"
  have l: "line = pair_text (n, ?e) @ rest"
    using line v by (simp add: cookie_line_def encodeURIComponent_def pair_text_def rest_def js_simps_eq Let_def)
  have r: "rest = [] \<or> hd rest = 59"
    unfolding rest_def by (auto simp: js_def hd_append split: option.split expires.split)
  have "59 \<notin> set (pair_text (n, ?e))"
    using n encoded_chars [OF v] by (auto simp: pair_text_def token_def)
  then have "takeWhile (\<lambda>c. c \<noteq> 59) (pair_text (n, ?e) @ rest) = pair_text (n, ?e) @ takeWhile (\<lambda>c. c \<noteq> 59) rest"
    by (intro takeWhile_append2) auto
  moreover have "takeWhile (\<lambda>c. c \<noteq> 59) rest = []" using r by (cases rest) auto
  ultimately show "own_pair line = pair_text (n, ?e)" by (simp add: own_pair_def l)
qed

text \<open>
  C25: the pair of the text that the plugin assigns, with any options, is read back as the value that was set,
  whatever characters it has, wherever it is listed among other cookies (after none of the same name); and
  reading another name answers what it does without it.
\<close>

theorem cookie_set_get:
  assumes "token n" "jar_ok (before @ after)" "n \<notin> fst ` set before" "cookie_line utc now n (Some v) opts = Some line"
  shows "cookie_get n (document_cookie (map pair_text before @ own_pair line # map pair_text after)) = Some (Some v) \<and>
    (\<forall>m. token m \<longrightarrow> m \<noteq> n \<longrightarrow>
       cookie_get m (document_cookie (map pair_text before @ own_pair line # map pair_text after)) =
       cookie_get m (document_cookie (map pair_text (before @ after))))"
proof -
  let ?e = "concat (map encode_point v)"
  note l = line_pair [OF assms(1,4)]
  have e: "\<forall>x \<in> set ?e. x \<noteq> 59 \<and> \<not> blank x" using encoded_chars [OF l(1)] by blast
  have j: "jar_ok (before @ (n, ?e) # after)"
    using assms(1,2) e last_in_set [of ?e] unfolding jar_ok_def by auto
  have d: "map pair_text before @ own_pair line # map pair_text after = map pair_text (before @ (n, ?e) # after)"
    by (simp add: l(2))
  have "map_of before n = None" using assms(3) by (simp add: map_of_eq_None_iff)
  then show ?thesis
    unfolding d using cookie_get_map [OF _ j] cookie_get_map [OF _ assms(2)] assms(1) decode_encode [OF l(1)]
    by (auto simp: map_add_def split: option.split)
qed

text \<open>A value with a semicolon and characters of two, three and four bytes, with a path, between two cookies.\<close>

lemma cookie_set_get_witness:
  "cookie_get (js ''theme'')
     (document_cookie [js ''id=7'', own_pair (js ''theme='' @ js ''%C3%A9%3B%E2%82%AC%F0%9F%98%80'' @ js ''; path=/''), js ''x=''])
   = Some (Some [233, 59, 8364, 128512])"
proof -
  have t: "token (js ''theme'')" "jar_ok ([(js ''id'', js ''7'')] @ [(js ''x'', [])])" "js ''theme'' \<notin> fst ` set [(js ''id'', js ''7'')]"
    by (simp_all add: token_def js_def blank_def jar_ok_def)
  have l: "cookie_line (\<lambda>_. []) 0 (js ''theme'') (Some [233, 59, 8364, 128512])
      \<lparr>ck_expires = None, ck_path = js ''/'', ck_domain = [], ck_secure = False\<rparr> =
      Some (js ''theme='' @ js ''%C3%A9%3B%E2%82%AC%F0%9F%98%80'' @ js ''; path=/'')"
    by (simp add: cookie_line_def encodeURIComponent_def code_point_def surrogate_def encode_point_def unreserved_def
        utf8_def pct_def hex_digit_def js_def)
  have p: "pair_text (js ''id'', js ''7'') = js ''id=7''" "pair_text (js ''x'', []) = js ''x=''"
    by (simp_all add: pair_text_def js_def)
  show ?thesis using cookie_set_get [OF t l] by (simp add: p)
qed

text \<open>A cookie of another script with a lone percent sign makes reading throw.\<close>

lemma cookie_get_throws: "cookie_get (js ''tax'') (document_cookie [pair_text (js ''tax'', js ''19%'')]) = None"
proof -
  have "token (js ''tax'')" "jar_ok [(js ''tax'', js ''19%'')]" by (simp_all add: token_def jar_ok_def js_def blank_def)
  from cookie_get_map [OF this] show ?thesis by (simp add: js_def read_point_def)
qed

end
