(* ===== verification/Plug_Count.thy ===== *)
theory Plug_Count
  imports Vein_Prelude
begin

text \<open>
  The counters of the front page (\<open>js/count.js\<close>): four copies of one function, each with its own elements.
  An interval first shows 99 multiples of the rounded hundredth of the count, then counts on by one, and
  clears itself when the count is reached. The display holds the number last written to it.
\<close>

section \<open>State\<close>

record counter =
  cu_class :: string       \<comment> \<open>\<open>$display\<close>\<close>
  cu_count :: nat
  cu_speed :: nat
  cu_display :: nat
  cu_run_count :: nat
  cu_running :: bool       \<comment> \<open>the interval is armed\<close>

definition div_by :: nat where
  "div_by = 100"

definition start_counter :: "string \<Rightarrow> nat \<Rightarrow> nat \<Rightarrow> counter" where
  "start_counter cls n shown =
     \<lparr>cu_class = cls, cu_count = n, cu_speed = nat (js_round (of_nat n / of_nat div_by)), cu_display = shown,
      cu_run_count = 1, cu_running = True\<rparr>"

definition countUp :: "nat \<Rightarrow> nat \<Rightarrow> counter" where
  "countUp = start_counter ''.count''"

definition countUp2 :: "nat \<Rightarrow> nat \<Rightarrow> counter" where
  "countUp2 = start_counter ''.count2''"

definition countUp3 :: "nat \<Rightarrow> nat \<Rightarrow> counter" where
  "countUp3 = start_counter ''.count3''"

definition countUp4 :: "nat \<Rightarrow> nat \<Rightarrow> counter" where
  "countUp4 = start_counter ''.count4''"

text \<open>The handler of the interval.\<close>

definition count_tick :: "counter \<Rightarrow> counter" where
  "count_tick c =
     (if \<not> cu_running c then c
      else if cu_run_count c < div_by then c\<lparr>cu_display := cu_speed c * cu_run_count c, cu_run_count := cu_run_count c + 1\<rparr>
      else if cu_display c < cu_count c then c\<lparr>cu_display := cu_display c + 1\<rparr>
      else c\<lparr>cu_running := False\<rparr>)"

section \<open>The end of the count\<close>

lemma first_phase:
  assumes "cu_running c" "cu_run_count c = 1" "1 \<le> k" "k < div_by"
  shows "(count_tick ^^ k) c = c\<lparr>cu_display := cu_speed c * k, cu_run_count := k + 1\<rparr>"
  using assms(3,4)
proof (induction k rule: nat_induct_at_least)
  case base
  then show ?case using assms by (simp add: count_tick_def)
next
  case (Suc k)
  then show ?case using assms by (simp add: count_tick_def)
qed

lemma second_phase:
  assumes "cu_running c" "div_by \<le> cu_run_count c" "k \<le> cu_count c - cu_display c"
  shows "(count_tick ^^ k) c = c\<lparr>cu_display := cu_display c + k\<rparr>"
  using assms(3)
proof (induction k)
  case (Suc k)
  then show ?case using assms(1,2) by (simp add: count_tick_def)
qed simp

lemma stopped: "\<not> cu_running c \<Longrightarrow> (count_tick ^^ k) c = c"
  by (induction k) (simp_all add: count_tick_def)

lemma round_hundredth: "js_round (of_nat n / of_nat div_by) = int ((n + 50) div 100)"
proof -
  have "of_nat n / of_nat div_by + 1 / 2 = (of_int (int n + 50) / of_int 100 :: rat)" by (simp add: div_by_def field_simps)
  then have "js_round (of_nat n / of_nat div_by) = (int n + 50) div 100"
    unfolding js_round_def by (simp only: floor_divide_of_int_eq)
  then show ?thesis by (simp add: zdiv_int)
qed

definition ticks_needed :: "nat \<Rightarrow> nat" where
  "ticks_needed n = 100 + (n - 99 * ((n + 50) div 100))"

lemma counter_ends:
  assumes "c = start_counter cls n shown"
  shows "(count_tick ^^ ticks_needed n) c =
    c\<lparr>cu_display := max n (99 * cu_speed c), cu_run_count := 100, cu_running := False\<rparr>"
proof -
  let ?c1 = "c\<lparr>cu_display := cu_speed c * 99, cu_run_count := 100\<rparr>"
  let ?k = "n - 99 * cu_speed c"
  have s: "cu_speed c = (n + 50) div 100" "cu_count c = n" "cu_running c" "cu_run_count c = 1"
    by (simp_all add: assms start_counter_def round_hundredth)
  have t: "ticks_needed n = Suc (?k + 99)" by (simp add: ticks_needed_def s(1))
  have "(count_tick ^^ 99) c = ?c1" using first_phase [of c 99] s by (simp add: div_by_def)
  moreover have "(count_tick ^^ ?k) ?c1 = ?c1\<lparr>cu_display := cu_speed c * 99 + ?k\<rparr>"
    using second_phase [of ?c1 ?k] s by (simp add: div_by_def mult.commute)
  moreover have "cu_speed c * 99 + ?k = max n (99 * cu_speed c)" by simp
  ultimately have "(count_tick ^^ (?k + 99)) c = ?c1\<lparr>cu_display := max n (99 * cu_speed c)\<rparr>"
    by (simp only: funpow_add o_apply)
  then have "(count_tick ^^ Suc (?k + 99)) c = count_tick (?c1\<lparr>cu_display := max n (99 * cu_speed c)\<rparr>)"
    by (simp only: funpow.simps o_apply)
  then show ?thesis unfolding t using s by (simp add: count_tick_def div_by_def)
qed

text \<open>
  C36: Every counter comes to an end: after 100 ticks and one for each number the multiples leave out its
  interval is cleared for good. It then shows the count, or 99 times the rounded hundredth where that is more.
\<close>

theorem countUp_ends:
  assumes "ticks_needed n \<le> k"
  shows "\<not> cu_running ((count_tick ^^ k) (countUp n shown)) \<and>
    cu_display ((count_tick ^^ k) (countUp n shown)) = max n (99 * ((n + 50) div 100))"
proof -
  let ?c = "(count_tick ^^ ticks_needed n) (countUp n shown)"
  have c: "\<not> cu_running ?c" "cu_display ?c = max n (99 * ((n + 50) div 100))"
    unfolding countUp_def counter_ends [OF refl] by (simp_all add: start_counter_def round_hundredth)
  obtain d where "k = d + ticks_needed n" using assms le_Suc_ex by (metis add.commute)
  then show ?thesis using stopped [OF c(1), of d] c by (simp add: funpow_add)
qed

lemma countUp_ends_witness: "cu_display ((count_tick ^^ 200) (countUp 947 0)) = 947"
  using countUp_ends [of 947 200 0] by (simp add: ticks_needed_def)

text \<open>The counts of the page are reached exactly.\<close>

lemma page_counts: "\<forall>n \<in> {495, 947, 328, 10328}. max n (99 * ((n + 50) div 100)) = (n :: nat)"
  by simp

text \<open>A count whose hundredth is rounded up by much is passed: the counter of 150 ends at 198.\<close>

lemma countUp_overshoots: "cu_display ((count_tick ^^ 100) (countUp 150 0)) = 198"
  unfolding countUp_def using counter_ends [OF refl, of 150 "''.count''" 0]
  round_hundredth [of 150]
  by (simp add: ticks_needed_def start_counter_def)

end
