(* ===== verification/Plug_Tags.thy ===== *)
theory Plug_Tags
  imports Js_Text
begin

text \<open>
  The tags input (\<open>js/jquery.tagsinput.js\<close>): the hidden field with the tags joined by the delimiter (one
  character), the tags shown, the text field that takes new ones, and the calls of the callbacks. \<open>d\<close> is
  the delimiter; the settings are those of the element.
\<close>

section \<open>State\<close>

record tag_opts =
  tg_delimiter :: char
  tg_unique :: bool
  tg_minChars :: nat
  tg_maxChars :: "nat option"
  tg_default :: string
  tg_backspace :: bool       \<comment> \<open>\<open>removeWithBackspace\<close>\<close>

datatype tag_call = OnAdd string | OnRemove string | OnChange "string option"

record tags_input =
  tg_field :: string         \<comment> \<open>the value of the hidden field\<close>
  tg_shown :: "string list"
  tg_typed :: string         \<comment> \<open>the value of the text field\<close>
  tg_focused :: bool
  tg_invalid :: bool         \<comment> \<open>the class \<open>not_valid\<close>\<close>
  tg_calls :: "tag_call list"

section \<open>Strings\<close>

definition is_blank :: "char \<Rightarrow> bool" where
  "is_blank c \<longleftrightarrow> c \<in> {CHR '' '', CHR 0x09, CHR 0x0A, CHR 0x0B, CHR 0x0C, CHR 0x0D, CHR 0xA0}"

definition trim_text :: "string \<Rightarrow> string" where
  "trim_text s = rev (dropWhile is_blank (rev (dropWhile is_blank s)))"

section \<open>Operations\<close>

definition tagExist :: "char \<Rightarrow> string \<Rightarrow> tags_input \<Rightarrow> bool" where
  "tagExist d v s \<longleftrightarrow> v \<in> set (js_split d (tg_field s))"

definition updateTagsField :: "char \<Rightarrow> string list \<Rightarrow> tags_input \<Rightarrow> tags_input" where
  "updateTagsField d ts s = s\<lparr>tg_field := js_join [d] ts\<rparr>"

text \<open>The handlers of the text field for \<open>focus\<close> and \<open>blur\<close> that \<open>addTag\<close> triggers; its text is empty then.\<close>

definition tag_focus :: "tag_opts \<Rightarrow> tags_input \<Rightarrow> tags_input" where
  "tag_focus opts s =
     (let s = (if tg_typed s = tg_default opts then s\<lparr>tg_typed := []\<rparr> else s) in s\<lparr>tg_focused := True\<rparr>)"

definition addTag :: "tag_opts \<Rightarrow> bool \<Rightarrow> bool \<Rightarrow> bool \<Rightarrow> string \<Rightarrow> tags_input \<Rightarrow> tags_input" where
  "addTag opts focus callback unique value s =
     (let d = tg_delimiter opts;
          tagslist = (let ts = js_split d (tg_field s) in if hd ts = [] then [] else ts);
          value = trim_text value;
          skip = (unique \<and> tagExist d value s);
          s = (if skip then s\<lparr>tg_invalid := True\<rparr> else s)
      in if value \<noteq> [] \<and> \<not> skip then
           (let s = s\<lparr>tg_shown := tg_shown s @ [value]\<rparr>;
                tagslist = tagslist @ [value];
                s = s\<lparr>tg_typed := []\<rparr>;
                s = (if focus then tag_focus opts s else s\<lparr>tg_typed := tg_default opts, tg_focused := False\<rparr>);
                s = updateTagsField d tagslist s;
                s = (if callback then s\<lparr>tg_calls := tg_calls s @ [OnAdd value]\<rparr> else s)
            in s\<lparr>tg_calls := tg_calls s @ [OnChange (Some (last tagslist))]\<rparr>)
         else s)"

text \<open>The plugin's \<open>importTags\<close>; its last call passes the element after the last, which is undefined.\<close>

definition importTags :: "tag_opts \<Rightarrow> string \<Rightarrow> tags_input \<Rightarrow> tags_input" where
  "importTags opts val s =
     (let s = fold (addTag opts False False False) (js_split (tg_delimiter opts) val) (s\<lparr>tg_field := []\<rparr>)
      in s\<lparr>tg_calls := tg_calls s @ [OnChange None]\<rparr>)"

text \<open>The method \<open>importTags\<close> of the element takes the tags shown away first.\<close>

definition import_method :: "tag_opts \<Rightarrow> string \<Rightarrow> tags_input \<Rightarrow> tags_input" where
  "import_method opts val s = importTags opts val (s\<lparr>tg_shown := []\<rparr>)"

text \<open>The value as it is after \<open>unescape\<close>.\<close>

definition removeTag :: "tag_opts \<Rightarrow> string \<Rightarrow> tags_input \<Rightarrow> tags_input" where
  "removeTag opts value s =
     (let d = tg_delimiter opts;
          old = js_split d (tg_field s);
          s = s\<lparr>tg_shown := []\<rparr>;
          str = concat (map (\<lambda>t. d # t) (filter (\<lambda>t. t \<noteq> value) old));
          s = importTags opts str s
      in s\<lparr>tg_calls := tg_calls s @ [OnRemove value]\<rparr>)"

definition length_ok :: "tag_opts \<Rightarrow> string \<Rightarrow> bool" where
  "length_ok opts v \<longleftrightarrow>
     tg_minChars opts \<le> length v \<and> (case tg_maxChars opts of None \<Rightarrow> True | Some m \<Rightarrow> m = 0 \<or> length v \<le> m)"

definition tag_blur :: "tag_opts \<Rightarrow> tags_input \<Rightarrow> tags_input" where
  "tag_blur opts s =
     (let s = s\<lparr>tg_focused := False\<rparr> in
      if tg_typed s \<noteq> [] \<and> tg_typed s \<noteq> tg_default opts then
        (if length_ok opts (tg_typed s) then addTag opts True True (tg_unique opts) (tg_typed s) s else s)
      else s\<lparr>tg_typed := tg_default opts\<rparr>)"

text \<open>A key in the text field: the delimiter or the return key adds the text as a tag.\<close>

definition tag_keypress :: "tag_opts \<Rightarrow> char \<Rightarrow> tags_input \<Rightarrow> tags_input" where
  "tag_keypress opts c s =
     (if c = tg_delimiter opts \<or> c = CHR 0x0D then
        (if length_ok opts (tg_typed s) then addTag opts True True (tg_unique opts) (tg_typed s) s else s)
      else s\<lparr>tg_typed := tg_typed s @ [c]\<rparr>)"

text \<open>
  The backspace key in an empty text field: the text of the last tag shown (its value, two no-break spaces
  and the link, whose text is empty) without blanks and an \<open>x\<close> at its end is the tag to remove.
\<close>

definition last_tag_text :: "tags_input \<Rightarrow> string" where
  "last_tag_text s = (if tg_shown s = [] then [] else last (tg_shown s) @ [CHR 0xA0, CHR 0xA0])"

definition strip_x :: "string \<Rightarrow> string" where
  "strip_x t =
     (case rev t of
        c # b # r \<Rightarrow> if c = CHR ''x'' \<and> is_blank b then rev (dropWhile is_blank (b # r)) else t
      | _ \<Rightarrow> t)"

definition tag_backspace :: "tag_opts \<Rightarrow> tags_input \<Rightarrow> tags_input" where
  "tag_backspace opts s =
     (if tg_backspace opts \<and> tg_typed s = [] then tag_focus opts (removeTag opts (strip_x (last_tag_text s)) s)
      else s\<lparr>tg_typed := butlast (tg_typed s)\<rparr>)"

text \<open>The element as it is made, with the value it has.\<close>

definition new_tags :: "tag_opts \<Rightarrow> string \<Rightarrow> tags_input" where
  "new_tags opts val =
     (let s = \<lparr>tg_field = val, tg_shown = [], tg_typed = [], tg_focused = False, tg_invalid = False, tg_calls = []\<rparr>;
          s = (if val \<noteq> [] then importTags opts val s else s)
      in tag_blur opts (s\<lparr>tg_typed := tg_default opts\<rparr>))"

datatype tag_event = Focus | Blur | Key char | Paste string | Backspace | RemoveClick string

fun tag_step :: "tag_opts \<Rightarrow> tag_event \<Rightarrow> tags_input \<Rightarrow> tags_input" where
  "tag_step opts Focus s = tag_focus opts s"
| "tag_step opts Blur s = tag_blur opts s"
| "tag_step opts (Key c) s = tag_keypress opts c s"
| "tag_step opts (Paste t) s = s\<lparr>tg_typed := tg_typed s @ t\<rparr>"
| "tag_step opts Backspace s = tag_backspace opts s"
| "tag_step opts (RemoveClick t) s = removeTag opts t s"

section \<open>Splitting and joining\<close>

definition good_tag :: "char \<Rightarrow> string \<Rightarrow> bool" where
  "good_tag d t \<longleftrightarrow> t \<noteq> [] \<and> d \<notin> set t \<and> trim_text t = t"

lemma split_prefixed: "\<forall>t \<in> set ts. d \<notin> set t \<Longrightarrow> js_split d (concat (map (\<lambda>t. d # t) ts)) = [] # ts"
proof (induction ts)
  case (Cons t ts)
  have "js_split d (t @ concat (map (\<lambda>t. d # t) ts)) = t # ts"
  proof (cases ts)
    case Nil
    then show ?thesis using Cons.prems split_whole [of d t] by simp
  next
    case (Cons u us)
    then have "concat (map (\<lambda>t. d # t) ts) = d # (u @ concat (map (\<lambda>t. d # t) us))" by simp
    then show ?thesis using Cons.prems Cons.IH Cons split_part [of d t] by auto
  qed
  then show ?case by simp
qed simp

lemma trim_text_subset: "set (trim_text t) \<subseteq> set t"
  unfolding trim_text_def by (auto dest!: set_dropWhileD)

lemma trim_text_twice: "trim_text (trim_text t) = trim_text t"
proof -
  let ?b = "dropWhile is_blank"
  have idem: "?b (?b s) = ?b s" for s by (simp add: dropWhile_idem)
  let ?u = "rev (?b (rev (?b t)))"
  have "?b ?u = ?u"
  proof (cases ?u)
    case (Cons c r)
    have "\<exists>z. ?b t = ?u @ z"
      by (metis append_eq_appendI rev_append rev_rev_ident takeWhile_dropWhile_id)
    then obtain z where "?b t = c # r @ z" using Cons by auto
    then have "\<not> is_blank c" using hd_dropWhile [of is_blank t] by auto
    then show ?thesis using Cons by simp
  next
    case Nil
    then show ?thesis by (simp only: dropWhile.simps)
  qed
  then show ?thesis by (simp add: trim_text_def idem)
qed

lemma good_trim: "d \<notin> set v \<Longrightarrow> trim_text v \<noteq> [] \<Longrightarrow> good_tag d (trim_text v)"
  using trim_text_subset [of v] trim_text_twice [of v] by (auto simp: good_tag_def)

section \<open>The tags as a list\<close>

text \<open>The element shows the tags \<open>ts\<close>, and its field says the same.\<close>

definition has_tags :: "tag_opts \<Rightarrow> string list \<Rightarrow> tags_input \<Rightarrow> bool" where
  "has_tags opts ts s \<longleftrightarrow>
     tg_shown s = ts \<and> tg_field s = js_join [tg_delimiter opts] ts \<and> (\<forall>t \<in> set ts. good_tag (tg_delimiter opts) t)"

lemma has_tags_cong [simp]:
  "has_tags opts ts (s\<lparr>tg_typed := x\<rparr>) = has_tags opts ts s" "has_tags opts ts (s\<lparr>tg_focused := b\<rparr>) = has_tags opts ts s"
  "has_tags opts ts (s\<lparr>tg_invalid := b\<rparr>) = has_tags opts ts s" "has_tags opts ts (s\<lparr>tg_calls := cs\<rparr>) = has_tags opts ts s"
  "has_tags opts ts (tag_focus opts s) = has_tags opts ts s"
  by (simp_all add: has_tags_def tag_focus_def)

lemma field_tags:
  assumes "has_tags opts ts s"
  shows "(let us = js_split (tg_delimiter opts) (tg_field s) in if hd us = [] then [] else us) = ts"
    "v \<noteq> [] \<Longrightarrow> tagExist (tg_delimiter opts) v s = (v \<in> set ts)"
proof -
  have "js_split (tg_delimiter opts) (tg_field s) = (if ts = [] then [[]] else ts)"
    using assms split_join [of ts "tg_delimiter opts"] by (auto simp: has_tags_def good_tag_def)
  moreover have "ts \<noteq> [] \<Longrightarrow> hd ts \<noteq> []" using assms by (cases ts) (auto simp: has_tags_def good_tag_def)
  ultimately show "(let us = js_split (tg_delimiter opts) (tg_field s) in if hd us = [] then [] else us) = ts"
    "v \<noteq> [] \<Longrightarrow> tagExist (tg_delimiter opts) v s = (v \<in> set ts)"
    by (auto simp: tagExist_def)
qed

definition tag_added :: "bool \<Rightarrow> string \<Rightarrow> string list \<Rightarrow> string list" where
  "tag_added unique v ts = (if trim_text v = [] \<or> (unique \<and> trim_text v \<in> set ts) then ts else ts @ [trim_text v])"

lemma add_has_tags:
  assumes h: "has_tags opts ts s" and v: "tg_delimiter opts \<notin> set v"
  shows "has_tags opts (tag_added unique v ts) (addTag opts focus callback unique v s)"
proof (cases "trim_text v = [] \<or> (unique \<and> trim_text v \<in> set ts)")
  case True
  then have "addTag opts focus callback unique v s = s \<or> addTag opts focus callback unique v s = s\<lparr>tg_invalid := True\<rparr>"
    using field_tags(2) [OF h, of "trim_text v"] by (auto simp: addTag_def Let_def)
  then show ?thesis using h True by (auto simp: tag_added_def)
next
  case False
  have skip: "\<not> (unique \<and> tagExist (tg_delimiter opts) (trim_text v) s)"
    using False field_tags(2) [OF h, of "trim_text v"] by auto
  have "tg_shown (addTag opts focus callback unique v s) = ts @ [trim_text v]"
    "tg_field (addTag opts focus callback unique v s) = js_join [tg_delimiter opts] (ts @ [trim_text v])"
    using h False skip field_tags(1) [OF h]
    by (simp_all add: addTag_def Let_def updateTagsField_def tag_focus_def has_tags_def)
  then show ?thesis using h False good_trim [OF v] by (auto simp: has_tags_def tag_added_def)
qed

lemma import_has_tags:
  assumes "tg_shown s = []"
  shows "has_tags opts (fold (tag_added False) (js_split (tg_delimiter opts) val) []) (importTags opts val s)"
proof -
  have "has_tags opts (fold (tag_added False) vs ts) (fold (addTag opts False False False) vs s)"
    if "\<forall>v \<in> set vs. tg_delimiter opts \<notin> set v" "has_tags opts ts s" for vs ts s
    using that by (induction vs arbitrary: ts s) (simp_all add: add_has_tags)
  from this [OF _ , of "js_split (tg_delimiter opts) val" "[]" "s\<lparr>tg_field := []\<rparr>"]
  show ?thesis using assms split_free [of _ "tg_delimiter opts" val] by (auto simp: importTags_def Let_def has_tags_def)
qed

text \<open>The tags of a text: its parts without blanks around them, empty ones left out.\<close>

lemma fold_added: "fold (tag_added False) vs ts = ts @ filter (\<lambda>t. t \<noteq> []) (map trim_text vs)"
  by (induction vs arbitrary: ts) (simp_all add: tag_added_def)

lemma remove_has_tags:
  assumes h: "has_tags opts ts s"
  shows "has_tags opts (filter (\<lambda>t. t \<noteq> v) ts) (removeTag opts v s)"
proof -
  let ?d = "tg_delimiter opts"
  let ?old = "js_split ?d (tg_field s)"
  let ?rest = "filter (\<lambda>t. t \<noteq> v) ?old"
  have g: "\<forall>t \<in> set ts. good_tag ?d t" using h by (simp add: has_tags_def)
  have old: "?old = (if ts = [] then [[]] else ts)"
    using h split_join [of ts ?d] by (auto simp: has_tags_def good_tag_def)
  have "\<forall>t \<in> set ?rest. ?d \<notin> set t" using split_free [of _ ?d "tg_field s"] by auto
  then have sp: "js_split ?d (concat (map (\<lambda>t. ?d # t) ?rest)) = [] # ?rest" by (rule split_prefixed)
  have "filter (\<lambda>t. t \<noteq> []) (map trim_text ?rest) = filter (\<lambda>t. t \<noteq> v) ts"
  proof (cases "ts = []")
    case True
    then show ?thesis using old by (simp add: trim_text_def)
  next
    case False
    have "map trim_text (filter (\<lambda>t. t \<noteq> v) ts) = filter (\<lambda>t. t \<noteq> v) ts"
      using g by (intro map_idI) (auto simp: good_tag_def)
    moreover have "filter (\<lambda>t. t \<noteq> []) (filter (\<lambda>t. t \<noteq> v) ts) = filter (\<lambda>t. t \<noteq> v) ts"
      unfolding filter_filter by (rule filter_cong) (use g in \<open>auto simp: good_tag_def\<close>)
    ultimately show ?thesis using False old by simp
  qed
  moreover have "trim_text [] = []" by (simp add: trim_text_def)
  ultimately have "fold (tag_added False) (js_split ?d (concat (map (\<lambda>t. ?d # t) ?rest))) [] = filter (\<lambda>t. t \<noteq> v) ts"
    unfolding sp fold_added by simp
  then show ?thesis
    using import_has_tags [of "s\<lparr>tg_shown := []\<rparr>" opts "concat (map (\<lambda>t. ?d # t) ?rest)"]
    by (simp add: removeTag_def Let_def)
qed

text \<open>
  C19: adding a value without the delimiter in it, and removing a tag, act on the list of tags: \<open>addTag\<close>
  appends the value without the blanks around it unless it is empty or, where tags are unique, there already;
  \<open>removeTag\<close> takes every tag with the value out. Field and display agree before and after. A value with the
  delimiter in it, which can be pasted or passed to \<open>addTag\<close>, is not covered: it becomes one tag on display and
  several in the field (\<open>pasted_delimiter\<close> below).
\<close>

theorem tags_refine_list:
  assumes "has_tags opts ts s" "tg_delimiter opts \<notin> set v"
  shows "has_tags opts (tag_added unique v ts) (addTag opts focus callback unique v s) \<and>
    has_tags opts (filter (\<lambda>t. t \<noteq> w) ts) (removeTag opts w s)"
  using add_has_tags [OF assms] remove_has_tags [OF assms(1)] by blast

abbreviation demo_tag_opts :: tag_opts where
  "demo_tag_opts \<equiv> \<lparr>tg_delimiter = CHR '','', tg_unique = True, tg_minChars = 0, tg_maxChars = None,
     tg_default = ''add'', tg_backspace = True\<rparr>"

abbreviation two_tags :: tags_input where
  "two_tags \<equiv> \<lparr>tg_field = ''a,b'', tg_shown = [''a'', ''b''], tg_typed = [], tg_focused = True, tg_invalid = False, tg_calls = []\<rparr>"

lemma two_tags_ok: "has_tags demo_tag_opts [''a'', ''b''] two_tags"
  by (auto simp: has_tags_def good_tag_def trim_text_def is_blank_def)

lemma tags_refine_list_witness:
  "has_tags demo_tag_opts [''b''] (removeTag demo_tag_opts ''a'' two_tags)"
  using tags_refine_list [OF two_tags_ok, of "''c''" True False False "''a''"] by simp

section \<open>Histories\<close>

definition tags_inv :: "tag_opts \<Rightarrow> tags_input \<Rightarrow> bool" where
  "tags_inv opts s \<longleftrightarrow> (\<exists>ts. has_tags opts ts s \<and> (tg_unique opts \<longrightarrow> distinct ts)) \<and> tg_delimiter opts \<notin> set (tg_typed s)"

definition event_free :: "tag_opts \<Rightarrow> tag_event \<Rightarrow> bool" where
  "event_free opts e \<longleftrightarrow> (case e of Paste t \<Rightarrow> tg_delimiter opts \<notin> set t | _ \<Rightarrow> True)"

lemma distinct_added: "distinct ts \<Longrightarrow> unique \<Longrightarrow> distinct (tag_added unique v ts)"
  by (simp add: tag_added_def)

lemma add_typed:
  "tg_typed (addTag opts f cb u v s) \<in> {tg_typed s, [], tg_default opts}"
  by (simp add: addTag_def Let_def updateTagsField_def tag_focus_def)

lemma inv_add:
  assumes "tags_inv opts s" "tg_delimiter opts \<notin> set (tg_default opts)" "tg_delimiter opts \<notin> set v"
  shows "tags_inv opts (addTag opts f cb (tg_unique opts) v s)"
proof -
  obtain ts where ts: "has_tags opts ts s" "tg_unique opts \<longrightarrow> distinct ts" using assms(1) by (auto simp: tags_inv_def)
  have "tg_delimiter opts \<notin> set (tg_typed (addTag opts f cb (tg_unique opts) v s))"
    using add_typed [of opts f cb "tg_unique opts" v s] assms(1,2) by (auto simp: tags_inv_def)
  then show ?thesis
    using add_has_tags [OF ts(1) assms(3)] ts(2) distinct_added [of ts "tg_unique opts" v] unfolding tags_inv_def by blast
qed

lemma import_typed:
  "tg_typed (importTags opts val s) \<in> {tg_typed s, [], tg_default opts}"
proof -
  have "tg_typed (fold (addTag opts False False False) vs s) \<in> {tg_typed s, [], tg_default opts}" for vs s
  proof (induction vs arbitrary: s)
    case (Cons v vs)
    then have "tg_typed (fold (addTag opts False False False) vs (addTag opts False False False v s)) \<in>
        {tg_typed (addTag opts False False False v s), [], tg_default opts}" .
    then show ?case using add_typed [of opts False False False v s] by auto
  qed simp
  from this [of "js_split (tg_delimiter opts) val" "s\<lparr>tg_field := []\<rparr>"] show ?thesis by (simp add: importTags_def Let_def)
qed

lemma inv_remove:
  assumes "tags_inv opts s" "tg_delimiter opts \<notin> set (tg_default opts)"
  shows "tags_inv opts (removeTag opts v s)"
proof -
  obtain ts where ts: "has_tags opts ts s" "tg_unique opts \<longrightarrow> distinct ts" using assms(1) by (auto simp: tags_inv_def)
  have "tg_typed (removeTag opts v s) \<in> {tg_typed s, [], tg_default opts}"
    unfolding removeTag_def Let_def
    using import_typed [of opts _ "s\<lparr>tg_shown := []\<rparr>"] by simp
  then have "tg_delimiter opts \<notin> set (tg_typed (removeTag opts v s))" using assms by (auto simp: tags_inv_def)
  then show ?thesis using remove_has_tags [OF ts(1), of v] ts(2) distinct_filter unfolding tags_inv_def by blast
qed

lemma tags_inv_cong:
  "tags_inv opts (s\<lparr>tg_focused := b\<rparr>) = tags_inv opts s"
  "tags_inv opts s \<Longrightarrow> tg_delimiter opts \<notin> set t \<Longrightarrow> tags_inv opts (s\<lparr>tg_typed := t\<rparr>)"
  by (simp_all add: tags_inv_def)

lemma inv_focus: "tags_inv opts s \<Longrightarrow> tags_inv opts (tag_focus opts s)"
  by (auto simp: tags_inv_def tag_focus_def)

lemma inv_tag_step:
  assumes s: "tags_inv opts s" and e: "event_free opts e" and d: "tg_delimiter opts \<notin> set (tg_default opts)"
  shows "tags_inv opts (tag_step opts e s)"
proof -
  have typed: "tg_delimiter opts \<notin> set (tg_typed s)" using s by (simp add: tags_inv_def)
  have f: "tags_inv opts (s\<lparr>tg_focused := False\<rparr>)" using s by (simp add: tags_inv_cong)
  have k: "tags_inv opts (s\<lparr>tg_typed := tg_typed s @ [c]\<rparr>)" if "c \<noteq> tg_delimiter opts" for c
    by (rule tags_inv_cong(2) [OF s]) (use typed that in auto)
  have b: "tags_inv opts (s\<lparr>tg_typed := butlast (tg_typed s)\<rparr>)"
    by (rule tags_inv_cong(2) [OF s]) (use typed in_set_butlastD in fast)
  show ?thesis
  proof (cases e)
    case Blur
    have "tags_inv opts (addTag opts True True (tg_unique opts) (tg_typed s) (s\<lparr>tg_focused := False\<rparr>))"
      by (rule inv_add [OF f d typed])
    moreover have "tags_inv opts (s\<lparr>tg_focused := False, tg_typed := tg_default opts\<rparr>)" by (rule tags_inv_cong(2) [OF f d])
    ultimately show ?thesis using f Blur by (simp add: tag_blur_def Let_def)
  next
    case (Key c)
    then show ?thesis using s k inv_add [OF s d typed] by (simp add: tag_keypress_def)
  next
    case (Paste t)
    then show ?thesis using tags_inv_cong(2) [OF s, of "tg_typed s @ t"] typed e by (simp add: event_free_def)
  next
    case Backspace
    then show ?thesis using b inv_focus [OF inv_remove [OF s d]] by (simp add: tag_backspace_def)
  qed (use s d inv_focus inv_remove in simp_all)
qed

interpretation tags: event_machine "tag_step opts"
    "\<lambda>s. tags_inv opts s \<and> tg_delimiter opts \<notin> set (tg_default opts)" "event_free opts" for opts
  by unfold_locales (use inv_tag_step in blast)

text \<open>
  In every history of typing, pasting (of texts without the delimiter), leaving the field and removing
  tags, the tags shown are exactly the parts of the field's value; none is empty or has blanks around it,
  and where tags are unique no tag is there twice.
\<close>

theorem tags_history:
  assumes "tags_inv opts s0" "tg_delimiter opts \<notin> set (tg_default opts)" "\<forall>e \<in> set es. event_free opts e"
    "s = fold (tag_step opts) es s0"
  shows "tg_field s = js_join [tg_delimiter opts] (tg_shown s) \<and>
    (tg_shown s \<noteq> [] \<longrightarrow> js_split (tg_delimiter opts) (tg_field s) = tg_shown s) \<and>
    (\<forall>t \<in> set (tg_shown s). good_tag (tg_delimiter opts) t) \<and> (tg_unique opts \<longrightarrow> distinct (tg_shown s))"
proof -
  have "tags_inv opts s \<and> tg_delimiter opts \<notin> set (tg_default opts)"
    unfolding assms(4) by (rule tags.run_inv) (use assms(1-3) in simp_all)
  then obtain ts where ts: "has_tags opts ts s" "tg_unique opts \<longrightarrow> distinct ts" by (auto simp: tags_inv_def)
  then show ?thesis using split_join [of ts "tg_delimiter opts"] by (auto simp: has_tags_def good_tag_def)
qed

lemma tags_history_witness:
  "distinct (tg_shown (fold (tag_step demo_tag_opts) [Paste ''b '', Key CHR '','', Key CHR ''c'', Blur, RemoveClick ''a''] two_tags))"
proof -
  have i: "tags_inv demo_tag_opts two_tags" using two_tags_ok by (auto simp: tags_inv_def)
  show ?thesis
    using tags_history [OF i _ _ refl, of "[Paste ''b '', Key CHR '','', Key CHR ''c'', Blur, RemoveClick ''a'']"]
    by (simp only: event_free_def) simp
qed

section \<open>The backspace key\<close>

lemma trim_shorter: "trim_text (t @ [c]) \<noteq> t @ [c]" if "is_blank c"
proof
  assume e: "trim_text (t @ [c]) = t @ [c]"
  have "\<not> is_blank (last (trim_text s))" if "trim_text s \<noteq> []" for s
    using that hd_dropWhile [of is_blank "rev (dropWhile is_blank s)"] by (simp add: trim_text_def last_rev)
  from this [of "t @ [c]"] show False using that unfolding e by simp
qed

text \<open>
  The backspace key in an empty text field removes nothing: the text it takes from the display ends in
  two no-break spaces, and no tag does.
\<close>

theorem backspace_removes_nothing:
  assumes "has_tags opts ts s" "tg_typed s = []"
  shows "has_tags opts ts (tag_backspace opts s)"
proof (cases "tg_backspace opts")
  case True
  have "strip_x (last_tag_text s) \<notin> set ts"
  proof (cases "tg_shown s = []")
    case False
    have "strip_x (last_tag_text s) = last (tg_shown s) @ [CHR 0xA0, CHR 0xA0]"
      using False by (simp add: last_tag_text_def strip_x_def)
    moreover have "trim_text (t @ [CHR 0xA0, CHR 0xA0]) \<noteq> t @ [CHR 0xA0, CHR 0xA0]" for t
      using trim_shorter [of "CHR 0xA0" "t @ [CHR 0xA0]"] by (simp add: is_blank_def)
    ultimately show ?thesis using assms(1) by (metis good_tag_def has_tags_def)
  qed (use assms(1) in \<open>auto simp: last_tag_text_def strip_x_def has_tags_def\<close>)
  then have "filter (\<lambda>t. t \<noteq> strip_x (last_tag_text s)) ts = ts" by (auto simp: filter_id_conv)
  then show ?thesis
    using True assms(2) remove_has_tags [OF assms(1), of "strip_x (last_tag_text s)"] by (simp add: tag_backspace_def)
qed (use assms in \<open>simp add: tag_backspace_def\<close>)

lemma backspace_removes_nothing_witness: "tg_shown (tag_backspace demo_tag_opts two_tags) = [''a'', ''b'']"
  using backspace_removes_nothing [OF two_tags_ok] by (simp add: has_tags_def)

text \<open>A pasted text with the delimiter in it is shown as one tag and stored as two.\<close>

lemma pasted_delimiter:
  "let s = fold (tag_step demo_tag_opts) [Paste ''c,d'', Blur] two_tags
   in tg_shown s = [''a'', ''b'', ''c,d''] \<and> js_split CHR '','' (tg_field s) = [''a'', ''b'', ''c'', ''d'']"
  by code_simp

end
