(* ===== verification/Plug_Stepy.thy ===== *)
theory Plug_Stepy
  imports Vein_Prelude
begin

text \<open>
  The wizard (\<open>js/jquery.stepy.js\<close>): a form whose field sets are steps of which one is shown, the titles
  above it, the buttons and the checks of the fields. What the callbacks of the page answer and which
  fields are valid are inputs of each event; steps count from 0 in the state and from 1 in calls of \<open>step\<close>.
\<close>

section \<open>State\<close>

record wizard_opts =
  wo_form :: bool
  wo_validate :: bool
  wo_block :: bool
  wo_errorImage :: bool
  wo_description :: bool
  wo_titleClick :: bool
  wo_next :: bool          \<comment> \<open>there is a callback \<open>next\<close>\<close>
  wo_back :: bool
  wo_finish :: bool
  wo_finishButton :: bool
  wo_submit :: bool        \<comment> \<open>the finish element has the type \<open>submit\<close>\<close>

record wizard =
  wz_steps :: nat
  wz_shown :: "nat option"      \<comment> \<open>the step that is shown\<close>
  wz_title :: "nat option"      \<comment> \<open>the title with the class \<open>current-step\<close>\<close>
  wz_errors :: "nat set"        \<comment> \<open>the titles with the class \<open>error-image\<close>\<close>
  wz_next_at :: "nat set"       \<comment> \<open>the steps with a next button\<close>
  wz_back_at :: "nat set"
  wz_selected :: "int list"     \<comment> \<open>the calls of the callback \<open>select\<close>\<close>
  wz_submits :: nat

datatype wizard_error = LegendMissing nat | FinishMissing | NoCurrentTitle

section \<open>Starting\<close>

text \<open>\<open>legends\<close>: for each step whether it has a legend. \<open>None\<close> of the loop means that no step lacks one.\<close>

definition wizard_init :: "wizard_opts \<Rightarrow> bool list \<Rightarrow> bool \<Rightarrow> wizard_error + wizard" where
  "wizard_init opts legends has_finish =
     (let n = length legends in
      case (if wo_description opts then List.find (\<lambda>i. \<not> legends ! i) [0..<n] else None) of
        Some i \<Rightarrow> Inl (LegendMissing (i + 1))
      | None \<Rightarrow>
          if wo_finishButton opts \<and> \<not> has_finish then Inl FinishMissing
          else Inr \<lparr>wz_steps = n, wz_shown = (if n = 0 then None else Some 0), wz_title = (if n = 0 then None else Some 0),
                    wz_errors = {}, wz_next_at = {i. i + 1 < n}, wz_back_at = {i. 0 < i \<and> i < n}, wz_selected = [],
                    wz_submits = 0\<rparr>)"

section \<open>Operations\<close>

text \<open>\<open>eq\<close> counts from the end for a negative index.\<close>

definition jq_eq :: "nat \<Rightarrow> int \<Rightarrow> nat option" where
  "jq_eq n i = (if 0 \<le> i \<and> i < int n then Some (nat i) else if i < 0 \<and> 0 \<le> i + int n then Some (nat (i + int n)) else None)"

text \<open>\<open>valid i\<close>: for each field of step \<open>i\<close> whether it is valid.\<close>

definition wizard_validate :: "wizard_opts \<Rightarrow> (nat \<Rightarrow> bool list) \<Rightarrow> nat \<Rightarrow> wizard \<Rightarrow> bool \<times> wizard" where
  "wizard_validate opts valid i w =
     (if \<not> wo_form opts then (True, w)
      else
        (let isValid = list_all id (valid i)
         in (isValid,
             if wo_errorImage opts \<and> valid i \<noteq> []
             then w\<lparr>wz_errors := (if isValid then wz_errors w - {i} else insert i (wz_errors w))\<rparr> else w)))"

text \<open>The loop of \<open>step\<close> over the \<open>k\<close> steps from \<open>i\<close> on; the result is where it stopped.\<close>

fun validate_steps :: "wizard_opts \<Rightarrow> (nat \<Rightarrow> bool list) \<Rightarrow> nat \<Rightarrow> nat \<Rightarrow> bool \<Rightarrow> wizard \<Rightarrow> nat option \<times> wizard" where
  "validate_steps opts valid i 0 isValid w = (None, w)"
| "validate_steps opts valid i (Suc k) isValid w =
     (let (v, w) = wizard_validate opts valid i w; isValid = (isValid \<and> v)
      in if wo_block opts \<and> \<not> isValid then (Some i, w) else validate_steps opts valid (i + 1) k isValid w)"

definition wizard_step :: "wizard_opts \<Rightarrow> (nat \<Rightarrow> bool list) \<Rightarrow> int \<Rightarrow> wizard \<Rightarrow> wizard" where
  "wizard_step opts valid index w =
     (let index = index - 1;
          index = (if index > int (wz_steps w) - 1 then int (wz_steps w) - 1 else index);
          (stop, w) = (if wo_validate opts then validate_steps opts valid 0 (nat index) True w else (None, w));
          mx = (case stop of Some i \<Rightarrow> int i | None \<Rightarrow> index);
          at' = jq_eq (wz_steps w) mx
      in w\<lparr>wz_shown := at', wz_title := at', wz_selected := wz_selected w @ [mx + 1]\<rparr>)"

text \<open>The buttons of step \<open>i\<close>, and the titles; \<open>ok\<close> is what the callback answers.\<close>

definition next_click :: "wizard_opts \<Rightarrow> (nat \<Rightarrow> bool list) \<Rightarrow> bool \<Rightarrow> nat \<Rightarrow> wizard \<Rightarrow> wizard" where
  "next_click opts valid ok i w =
     (if i \<in> wz_next_at w \<and> (\<not> wo_next opts \<or> ok) then wizard_step opts valid (int i + 1 + 1) w else w)"

definition back_click :: "wizard_opts \<Rightarrow> (nat \<Rightarrow> bool list) \<Rightarrow> bool \<Rightarrow> nat \<Rightarrow> wizard \<Rightarrow> wizard" where
  "back_click opts valid ok i w =
     (if i \<in> wz_back_at w \<and> (\<not> wo_back opts \<or> ok) then wizard_step opts valid (int i - 1 + 1) w else w)"

definition title_click :: "wizard_opts \<Rightarrow> (nat \<Rightarrow> bool list) \<Rightarrow> bool \<Rightarrow> nat \<Rightarrow> wizard \<Rightarrow> wizard_error + wizard" where
  "title_click opts valid ok clicked w =
     (if \<not> wo_titleClick opts then Inr w
      else case wz_title w of
        None \<Rightarrow> Inl NoCurrentTitle
      | Some current \<Rightarrow>
          if clicked > current \<and> wo_next opts \<and> \<not> ok then Inr w
          else if clicked < current \<and> wo_back opts \<and> \<not> ok then Inr w
          else if clicked \<noteq> current then Inr (wizard_step opts valid (int clicked + 1) w)
          else Inr w)"

definition finish_click :: "wizard_opts \<Rightarrow> (nat \<Rightarrow> bool list) \<Rightarrow> bool \<Rightarrow> wizard \<Rightarrow> wizard" where
  "finish_click opts valid ok w =
     (if \<not> wo_finishButton opts then w
      else if wo_finish opts \<and> \<not> ok then w
      else if \<not> wo_form opts then w
      else if wo_submit opts then w\<lparr>wz_submits := wz_submits w + 1\<rparr>
      else if \<not> wo_validate opts then w\<lparr>wz_submits := wz_submits w + 1\<rparr>
      else (case wizard_validate opts valid (wz_steps w - 1) w of
              (v, w) \<Rightarrow> if v then w\<lparr>wz_submits := wz_submits w + 1\<rparr> else w))"

text \<open>The return key in a text field of step \<open>i\<close>; the finish button is in the last step.\<close>

definition enter_key :: "wizard_opts \<Rightarrow> (nat \<Rightarrow> bool list) \<Rightarrow> bool \<Rightarrow> nat \<Rightarrow> wizard \<Rightarrow> wizard" where
  "enter_key opts valid ok i w =
     (if i \<in> wz_next_at w then next_click opts valid ok i w
      else if i + 1 = wz_steps w then finish_click opts valid ok w else w)"

datatype wizard_event = NextClick bool nat | BackClick bool nat | TitleClick bool nat | FinishClick bool | EnterKey bool nat | StepCall int

text \<open>An event together with the fields that are valid when it comes; a click that throws changes nothing.\<close>

fun wizard_react :: "wizard_opts \<Rightarrow> (nat \<Rightarrow> bool list) \<times> wizard_event \<Rightarrow> wizard \<Rightarrow> wizard" where
  "wizard_react opts (valid, NextClick ok i) w = next_click opts valid ok i w"
| "wizard_react opts (valid, BackClick ok i) w = back_click opts valid ok i w"
| "wizard_react opts (valid, TitleClick ok i) w =
     (if i < wz_steps w then (case title_click opts valid ok i w of Inl _ \<Rightarrow> w | Inr w' \<Rightarrow> w') else w)"
| "wizard_react opts (valid, FinishClick ok) w = finish_click opts valid ok w"
| "wizard_react opts (valid, EnterKey ok i) w = enter_key opts valid ok i w"
| "wizard_react opts (valid, StepCall k) w = wizard_step opts valid k w"

section \<open>One step is shown\<close>

definition wizard_inv :: "nat \<Rightarrow> wizard \<Rightarrow> bool" where
  "wizard_inv n w \<longleftrightarrow> wz_steps w = n \<and> wz_next_at w = {i. i + 1 < n} \<and> wz_back_at w = {i. 0 < i \<and> i < n} \<and>
     (\<exists>k < n. wz_shown w = Some k \<and> wz_title w = Some k)"

text \<open>Calls of \<open>step\<close> with a number of a step, from 1.\<close>

definition step_ok :: "(nat \<Rightarrow> bool list) \<times> wizard_event \<Rightarrow> bool" where
  "step_ok e \<longleftrightarrow> (case snd e of StepCall k \<Rightarrow> 1 \<le> k | _ \<Rightarrow> True)"

lemma validate_keeps [simp]:
  "wz_steps (snd (wizard_validate opts valid i w)) = wz_steps w" "wz_next_at (snd (wizard_validate opts valid i w)) = wz_next_at w"
  "wz_back_at (snd (wizard_validate opts valid i w)) = wz_back_at w" "wz_shown (snd (wizard_validate opts valid i w)) = wz_shown w"
  "wz_title (snd (wizard_validate opts valid i w)) = wz_title w"
  by (simp_all add: wizard_validate_def Let_def)

lemma validate_result: "fst (wizard_validate opts valid i w) = (wo_form opts \<longrightarrow> list_all id (valid i))"
  by (simp add: wizard_validate_def Let_def)

lemma steps_keep [simp]:
  "wz_steps (snd (validate_steps opts valid i k b w)) = wz_steps w"
  "wz_next_at (snd (validate_steps opts valid i k b w)) = wz_next_at w"
  "wz_back_at (snd (validate_steps opts valid i k b w)) = wz_back_at w"
  by (induction k arbitrary: i b w) (simp_all add: Let_def case_prod_beta)

lemma no_block: "\<not> wo_block opts \<Longrightarrow> fst (validate_steps opts valid i k b w) = None"
  by (induction k arbitrary: i b w) (simp_all add: Let_def case_prod_beta)

lemma steps_stop:
  "fst (validate_steps opts valid i k True w) =
     (if wo_block opts \<and> wo_form opts then List.find (\<lambda>j. \<not> list_all id (valid j)) [i..<i + k] else None)"
proof (induction k arbitrary: i w)
  case (Suc k)
  have "[i..<i + Suc k] = i # [i + 1..<(i + 1) + k]" by (simp add: upt_conv_Cons)
  then show ?case using Suc.IH [of "i + 1"]
    by (cases "wo_block opts \<and> wo_form opts") (auto simp: Let_def case_prod_beta validate_result no_block)
qed simp

lemma step_shows:
  assumes "0 < wz_steps w" "1 \<le> index"
  shows "\<exists>k < wz_steps w. int k \<le> index - 1 \<and>
      wz_shown (wizard_step opts valid index w) = Some k \<and> wz_title (wizard_step opts valid index w) = Some k \<and>
      (wo_validate opts \<and> wo_block opts \<and> wo_form opts \<longrightarrow> (\<forall>j < k. list_all id (valid j))) \<and>
      ((\<forall>j. int j < index - 1 \<longrightarrow> list_all id (valid j)) \<longrightarrow> int k = min (index - 1) (int (wz_steps w) - 1))"
proof -
  define m where "m = nat (min (index - 1) (int (wz_steps w) - 1))"
  have m: "m < wz_steps w" "int m = min (index - 1) (int (wz_steps w) - 1)" using assms by (auto simp: m_def)
  have idx: "(if index - 1 > int (wz_steps w) - 1 then int (wz_steps w) - 1 else index - 1) = int m" using m(2) by auto
  define r where "r = (if wo_validate opts then validate_steps opts valid 0 m True w else (None, w))"
  define k where "k = (case fst r of Some i \<Rightarrow> i | None \<Rightarrow> m)"
  have k: "k \<le> m \<and> (wo_validate opts \<and> wo_block opts \<and> wo_form opts \<longrightarrow> (\<forall>j < k. list_all id (valid j))) \<and>
      ((\<forall>j < m. list_all id (valid j)) \<longrightarrow> k = m)"
  proof (cases "wo_validate opts \<and> wo_block opts \<and> wo_form opts")
    case True
    then have "fst r = List.find (\<lambda>j. \<not> list_all id (valid j)) [0..<m]" by (simp add: r_def steps_stop)
    then show ?thesis by (auto simp: k_def find_Some_iff find_None_iff split: option.split)
  next
    case False
    then have "fst r = None" by (auto simp: r_def steps_stop)
    then have "k = m" by (simp add: k_def)
    then show ?thesis using False by blast
  qed
  have r': "(if wo_validate opts then validate_steps opts valid 0 (nat (int m)) True w else (None, w)) = r"
    by (simp add: r_def)
  have "wz_steps (snd r) = wz_steps w" by (simp add: r_def)
  moreover have "(case fst r of Some i \<Rightarrow> int i | None \<Rightarrow> int m) = int k" by (simp add: k_def split: option.split)
  moreover have "jq_eq (wz_steps w) (int k) = Some k" using k m(1) by (simp add: jq_eq_def)
  ultimately have s: "wz_shown (wizard_step opts valid index w) = Some k \<and> wz_title (wizard_step opts valid index w) = Some k"
    unfolding wizard_step_def Let_def idx r' case_prod_beta by simp
  have "k < wz_steps w" "int k \<le> index - 1" using k m by auto
  moreover have "(\<forall>j. int j < index - 1 \<longrightarrow> list_all id (valid j)) \<longrightarrow> int k = min (index - 1) (int (wz_steps w) - 1)"
    using k m(2) by auto
  ultimately show ?thesis using s k by blast
qed

lemma step_inv:
  assumes "wizard_inv n w" "1 \<le> index"
  shows "wizard_inv n (wizard_step opts valid index w)"
proof -
  have "0 < wz_steps w" using assms(1) by (auto simp: wizard_inv_def)
  from step_shows [OF this assms(2), of opts valid] obtain k where
    "k < wz_steps w" "wz_shown (wizard_step opts valid index w) = Some k" "wz_title (wizard_step opts valid index w) = Some k"
    by blast
  moreover have "wz_steps (wizard_step opts valid index w) = wz_steps w"
    "wz_next_at (wizard_step opts valid index w) = wz_next_at w" "wz_back_at (wizard_step opts valid index w) = wz_back_at w"
    by (simp_all add: wizard_step_def Let_def case_prod_beta)
  ultimately show ?thesis using assms(1) by (simp add: wizard_inv_def)
qed

lemma finish_inv: "wizard_inv n w \<Longrightarrow> wizard_inv n (finish_click opts valid ok w)"
  by (simp add: finish_click_def wizard_inv_def case_prod_beta)

lemma next_inv: "wizard_inv n w \<Longrightarrow> wizard_inv n (next_click opts valid ok i w)"
  by (simp add: next_click_def step_inv)

lemma react_inv:
  assumes "wizard_inv n w" "step_ok e"
  shows "wizard_inv n (wizard_react opts e w)"
proof -
  obtain valid ev where e: "e = (valid, ev)" by force
  have title: "title_click opts valid ok i w = Inr w' \<Longrightarrow> wizard_inv n w'" for ok i w'
    using assms(1) step_inv [OF assms(1), of "int i + 1" opts valid]
    by (auto simp: title_click_def split: if_splits option.splits)
  have bk: "wizard_inv n (back_click opts valid ok i w)" for ok i
  proof (cases "i \<in> wz_back_at w")
    case True
    then have "1 \<le> int i - 1 + 1" using assms(1) by (auto simp: wizard_inv_def)
    then show ?thesis using assms(1) step_inv by (simp add: back_click_def)
  qed (use assms(1) in \<open>simp add: back_click_def\<close>)
  show ?thesis
    unfolding e using assms title bk
    by (cases ev) (auto simp: next_inv finish_inv enter_key_def step_ok_def e step_inv split: sum.split)
qed

interpretation wizard: event_machine "wizard_react opts" "wizard_inv n" step_ok for opts n
  by unfold_locales (rule react_inv)

lemma init_inv:
  "wizard_init opts legends f = Inr w \<Longrightarrow> legends \<noteq> [] \<Longrightarrow> wizard_inv (length legends) w"
  by (auto simp: wizard_init_def wizard_inv_def Let_def split: option.splits if_splits)

text \<open>
  C40: a wizard that has started shows exactly one of its steps, and marks the title of that step, after
  every history of clicks, keys and calls of \<open>step\<close> with a positive number, whatever the fields and callbacks
  answer.
\<close>

theorem wizard_history_one_step:
  assumes "wizard_init opts legends f = Inr w0" "legends \<noteq> []" "\<forall>e \<in> set es. step_ok e"
  shows "\<exists>k < length legends. wz_shown (fold (wizard_react opts) es w0) = Some k \<and>
    wz_title (fold (wizard_react opts) es w0) = Some k"
proof -
  have "wizard_inv (length legends) (fold (wizard_react opts) es w0)"
    by (rule wizard.run_inv [OF init_inv [OF assms(1,2)] assms(3)])
  then show ?thesis by (auto simp: wizard_inv_def)
qed

abbreviation blocking :: wizard_opts where
  "blocking \<equiv> \<lparr>wo_form = True, wo_validate = True, wo_block = True, wo_errorImage = True, wo_description = True,
     wo_titleClick = True, wo_next = False, wo_back = False, wo_finish = False, wo_finishButton = True, wo_submit = False\<rparr>"

abbreviation third :: wizard where
  "third \<equiv> \<lparr>wz_steps = 3, wz_shown = Some 0, wz_title = Some 0, wz_errors = {}, wz_next_at = {i. i + 1 < 3},
     wz_back_at = {i. 0 < i \<and> i < 3}, wz_selected = [], wz_submits = 0\<rparr>"

lemma wizard_history_one_step_witness:
  "\<exists>k < 3. wz_shown (fold (wizard_react blocking) [(\<lambda>_. [True], NextClick True 0), (\<lambda>_. [False], TitleClick True 2)] third) = Some k"
proof -
  have i: "wizard_init blocking [True, True, True] True = Inr third"
    by (simp add: wizard_init_def upt_rec numeral_3_eq_3)
  have "\<forall>e \<in> set [(\<lambda>_ :: nat. [True], NextClick True 0), (\<lambda>_. [False], TitleClick True 2)]. step_ok e" by (simp add: step_ok_def)
  from wizard_history_one_step [OF i _ this] show ?thesis by (auto simp: numeral_3_eq_3)
qed

text \<open>
  C16: with \<open>validate\<close> and \<open>block\<close> a call of \<open>step\<close> never gets past an invalid step: every step before the one
  it shows is valid, it shows no later step than it was asked for, and exactly that one (or the last) when
  all before it are valid.
\<close>

theorem wizard_blocks:
  assumes "wo_validate opts" "wo_block opts" "wo_form opts" "0 < wz_steps w" "1 \<le> index"
  shows "\<exists>k < wz_steps w. wz_shown (wizard_step opts valid index w) = Some k \<and> int k \<le> index - 1 \<and>
    (\<forall>j < k. list_all id (valid j)) \<and>
    ((\<forall>j. int j < index - 1 \<longrightarrow> list_all id (valid j)) \<longrightarrow> int k = min (index - 1) (int (wz_steps w) - 1))"
  using step_shows [OF assms(4,5), of opts valid] assms(1-3) by blast

lemma wizard_blocks_witness:
  "\<exists>k < 3. wz_shown (wizard_step blocking (\<lambda>i. [i \<noteq> 1]) 3 third) = Some k \<and> (\<forall>j < k. j \<noteq> 1)"
  using wizard_blocks [of blocking third 3 "\<lambda>i. [i \<noteq> 1]"] by auto

text \<open>
  A call of \<open>step\<close> with 0 shows the last step, past every check, and one further below shows none.
\<close>

theorem wizard_step_zero:
  assumes "0 < wz_steps w"
  shows "wz_shown (wizard_step opts valid 0 w) = Some (wz_steps w - 1) \<and>
    wz_shown (wizard_step opts valid (- int (wz_steps w)) w) = None"
  using assms by (simp add: wizard_step_def jq_eq_def nat_diff_distrib Let_def)

lemma wizard_step_zero_witness: "wz_shown (wizard_step blocking (\<lambda>_. [False]) 0 third) = Some 2"
  using wizard_step_zero [of third blocking "\<lambda>_. [False]"] by simp

text \<open>The finish button checks the last step only: without \<open>block\<close> a form is sent with an invalid first step.\<close>

lemma finish_ignores_steps:
  "wz_submits (fold (wizard_react (blocking\<lparr>wo_block := False\<rparr>))
     [(\<lambda>i. [i \<noteq> 0], StepCall 3), (\<lambda>i. [i \<noteq> 0], FinishClick True)] third) = 1"
  by (simp add: wizard_step_def finish_click_def wizard_validate_def Let_def numeral_2_eq_2 case_prod_beta)

end
