(* ===== verification/Dt_Regexp.thy ===== *)
theory Dt_Regexp
  imports Js_Text
begin

text \<open>
  The regular expressions of the table filter: \<open>_fnEscapeRegex\<close> and \<open>_fnFilterCreateSearch\<close> of
  \<open>jquery.dataTables.js\<close>, and \<open>RegExp.prototype.test\<close> on the patterns they build. The patterns made from an
  escaped input lie in a small fragment (literals, escapes, \<open>.\<close>, \<open>.*\<close>, \<open>.*?\<close>, lookahead, \<open>^\<close>, \<open>$\<close>), which is
  parsed and matched here as the language says; any other pattern (a regular expression that the page or
  the user gives) is left to the parameter \<open>engine\<close>. The last section shows what the searches mean.
\<close>

section \<open>Patterns\<close>

datatype re_item =
    ReChar char
  | ReDot
  | ReAny                     \<comment> \<open>\<open>.*\<close> and \<open>.*?\<close>, which differ in the match found, not in whether there is one\<close>
  | ReLook "re_item list"     \<comment> \<open>\<open>(?= )\<close>\<close>
  | ReStart
  | ReEnd

definition acEscape :: "char list" where
  "acEscape = ''/.*+?|()[]{}'' @ [CHR 0x5C] @ ''$^-''"

abbreviation backslash :: char where "backslash \<equiv> CHR 0x5C"

text \<open>What follows a dot: a quantifier that makes it \<open>.*\<close> or \<open>.*?\<close>, or nothing.\<close>

definition after_dot :: "string \<Rightarrow> re_item \<times> string" where
  "after_dot s =
     (if prefix ''*?'' s then (ReAny, drop 2 s) else if prefix ''*'' s then (ReAny, drop 1 s) else (ReDot, s))"

lemma after_dot_shorter: "length (snd (after_dot s)) \<le> length s"
  by (simp add: after_dot_def)

text \<open>The open lookaheads are a stack, each with its items in reverse.\<close>

function re_parse :: "re_item list list \<Rightarrow> string \<Rightarrow> re_item list option" where
  "re_parse st [] = (case st of [s] \<Rightarrow> Some (rev s) | _ \<Rightarrow> None)"
| "re_parse st (c # cs) =
     (case st of
        [] \<Rightarrow> None
      | s # ss \<Rightarrow>
          if c = backslash then
            (case cs of
               e # r \<Rightarrow> if e \<in> set acEscape then re_parse ((ReChar e # s) # ss) r else None
             | [] \<Rightarrow> None)
          else if c = CHR ''.'' then re_parse ((fst (after_dot cs) # s) # ss) (snd (after_dot cs))
          else if c = CHR ''('' then
            (if prefix ''?='' cs then re_parse ([] # s # ss) (drop 2 cs) else None)
          else if c = CHR '')'' then
            (case ss of t # ts \<Rightarrow> re_parse ((ReLook (rev s) # t) # ts) cs | [] \<Rightarrow> None)
          else if c = CHR ''^'' then re_parse ((ReStart # s) # ss) cs
          else if c = CHR ''$'' then re_parse ((ReEnd # s) # ss) cs
          else if c \<in> set acEscape \<and> c \<noteq> CHR ''/'' \<and> c \<noteq> CHR ''-'' then None
          else re_parse ((ReChar c # s) # ss) cs)"
  by pat_completeness auto
termination
  by (relation "measure (\<lambda>(st, s). length s)") (auto simp: less_Suc_eq_le after_dot_shorter)

section \<open>Matching\<close>

text \<open>
  \<open>re_match cf start items s\<close>: some prefix of \<open>s\<close> matches; \<open>start\<close> says that \<open>s\<close> is the whole input, and
  \<open>cf\<close> is the identity or the case folding of the flag \<open>i\<close>.
\<close>

function re_match :: "(char \<Rightarrow> char) \<Rightarrow> bool \<Rightarrow> re_item list \<Rightarrow> string \<Rightarrow> bool" where
  "re_match cf start [] s = True"
| "re_match cf start (ReChar c # its) s =
     (case s of x # xs \<Rightarrow> cf c = cf x \<and> re_match cf False its xs | [] \<Rightarrow> False)"
| "re_match cf start (ReDot # its) s =
     (case s of x # xs \<Rightarrow> \<not> line_end x \<and> re_match cf False its xs | [] \<Rightarrow> False)"
| "re_match cf start (ReAny # its) s =
     (re_match cf start its s \<or>
      (case s of x # xs \<Rightarrow> \<not> line_end x \<and> re_match cf False (ReAny # its) xs | [] \<Rightarrow> False))"
| "re_match cf start (ReLook js # its) s = (re_match cf start js s \<and> re_match cf start its s)"
| "re_match cf start (ReStart # its) s = (start \<and> re_match cf start its s)"
| "re_match cf start (ReEnd # its) s = (s = [] \<and> re_match cf start its s)"
  by pat_completeness auto
termination
  by (relation "measure (\<lambda>(_, _, its, s). size_list size its + length s)") auto

fun re_search :: "(char \<Rightarrow> char) \<Rightarrow> bool \<Rightarrow> re_item list \<Rightarrow> string \<Rightarrow> bool" where
  "re_search cf start its [] = re_match cf start its []"
| "re_search cf start its (x # xs) = (re_match cf start its (x # xs) \<or> re_search cf False its xs)"

definition case_fold :: "bool \<Rightarrow> char \<Rightarrow> char" where
  "case_fold ci = (if ci then upper else id)"

type_synonym re_engine = "string \<Rightarrow> bool \<Rightarrow> string \<Rightarrow> bool"

text \<open>\<open>new RegExp(src, ci ? "i" : "").test(s)\<close>\<close>

definition regexp_test :: "re_engine \<Rightarrow> string \<Rightarrow> bool \<Rightarrow> string \<Rightarrow> bool" where
  "regexp_test engine src ci s =
     (case re_parse [[]] src of
        Some its \<Rightarrow> re_search (case_fold ci) True its s
      | None \<Rightarrow> engine src ci s)"

section \<open>The searches of the filter\<close>

definition escapeRegex :: "string \<Rightarrow> string" where
  "escapeRegex s = concat (map (\<lambda>c. if c \<in> set acEscape then [backslash, c] else [c]) s)"

text \<open>The source text of the expression, and its flag.\<close>

definition filterCreateSearch :: "string \<Rightarrow> bool \<Rightarrow> bool \<Rightarrow> string" where
  "filterCreateSearch sSearch bRegex bSmart =
     (if bSmart then
        let asSearch = js_split CHR '' '' (if bRegex then sSearch else escapeRegex sSearch)
        in ''^(?=.*?'' @ js_join '')(?=.*?'' asSearch @ '').*$''
      else if bRegex then sSearch else escapeRegex sSearch)"

section \<open>What the searches mean\<close>

definition contains :: "bool \<Rightarrow> string \<Rightarrow> string \<Rightarrow> bool" where
  "contains ci t s \<longleftrightarrow> sublist (map (case_fold ci) t) (map (case_fold ci) s)"

definition plain_search :: "bool \<Rightarrow> bool \<Rightarrow> string \<Rightarrow> string \<Rightarrow> bool" where
  "plain_search smart ci q s \<longleftrightarrow>
     (if smart then \<forall>t \<in> set (js_split CHR '' '' q). contains ci t s else contains ci q s)"

lemma match_chars: "re_match cf st (map ReChar t) s \<longleftrightarrow> prefix (map cf t) (map cf s)"
proof (induction t arbitrary: s st)
  case (Cons c t)
  then show ?case by (cases s) auto
qed simp

lemma search_chars: "re_search cf st (map ReChar t) s \<longleftrightarrow> sublist (map cf t) (map cf s)"
  by (induction s arbitrary: st) (auto simp: match_chars sublist_Cons_right)

lemma match_any_chars:
  "\<forall>c \<in> set s. \<not> line_end c \<Longrightarrow>
   re_match cf st (ReAny # map ReChar t) s \<longleftrightarrow> sublist (map cf t) (map cf s)"
  by (induction s arbitrary: st) (auto simp: match_chars sublist_Cons_right)

lemma match_any_end: "\<forall>c \<in> set s. \<not> line_end c \<Longrightarrow> re_match cf st [ReAny, ReEnd] s"
  by (induction s arbitrary: st) auto

lemma parse_escaped:
  "re_parse (s # ss) (escapeRegex t @ r) = re_parse ((rev (map ReChar t) @ s) # ss) r"
proof (induction t arbitrary: s)
  case (Cons c t)
  have sp: "c \<notin> set acEscape \<Longrightarrow> c \<noteq> backslash \<and> c \<noteq> CHR ''.'' \<and> c \<noteq> CHR ''('' \<and> c \<noteq> CHR '')'' \<and> c \<noteq> CHR ''^'' \<and> c \<noteq> CHR ''$''"
    by (auto simp: acEscape_def)
  show ?case
  proof (cases "c \<in> set acEscape")
    case True
    then show ?thesis using Cons [of "ReChar c # s"] by (simp add: escapeRegex_def)
  next
    case False
    then show ?thesis using Cons [of "ReChar c # s"] sp by (simp add: escapeRegex_def)
  qed
qed (simp add: escapeRegex_def)

lemma split_escaped: "js_split CHR '' '' (escapeRegex q) = map escapeRegex (js_split CHR '' '' q)"
proof (induction q)
  case (Cons c q)
  obtain x xs where x: "js_split CHR '' '' q = x # xs" using split_ne [of "CHR '' ''" q] by (cases "js_split CHR '' '' q") auto
  have "CHR '' '' \<notin> set acEscape" by (simp add: acEscape_def)
  then show ?case using Cons x by (auto simp: escapeRegex_def)
qed (simp add: escapeRegex_def)

lemma parse_smart_tail:
  "re_parse ([ReAny] # [st]) (escapeRegex t @ concat (map (\<lambda>u. '')(?=.*?'' @ escapeRegex u) ts) @ '').*$'')
   = Some (rev st @ ReLook (ReAny # map ReChar t) # map (\<lambda>u. ReLook (ReAny # map ReChar u)) ts @ [ReAny, ReEnd])"
proof (induction ts arbitrary: t st)
  case Nil
  show ?case by (simp add: parse_escaped after_dot_def)
next
  case (Cons u ts)
  have "re_parse ([ReAny] # [st]) (escapeRegex t @ concat (map (\<lambda>u. '')(?=.*?'' @ escapeRegex u) (u # ts)) @ '').*$'')
    = re_parse ([ReAny] # [ReLook (ReAny # map ReChar t) # st])
        (escapeRegex u @ concat (map (\<lambda>u. '')(?=.*?'' @ escapeRegex u) ts) @ '').*$'')"
    by (simp add: parse_escaped after_dot_def)
  then show ?case using Cons by simp
qed

lemma join_concat: "js_join sep (map f (t # ts)) = f t @ concat (map (\<lambda>u. sep @ f u) ts)"
  by (induction ts arbitrary: t) auto

lemma parse_smart:
  "re_parse [[]] (filterCreateSearch q False True) =
     Some (ReStart # map (\<lambda>t. ReLook (ReAny # map ReChar t)) (js_split CHR '' '' q) @ [ReAny, ReEnd])"
proof -
  obtain t ts where t: "js_split CHR '' '' q = t # ts" using split_ne [of "CHR '' ''" q] by (cases "js_split CHR '' '' q") auto
  have "filterCreateSearch q False True =
      ''^(?=.*?'' @ escapeRegex t @ concat (map (\<lambda>u. '')(?=.*?'' @ escapeRegex u) ts) @ '').*$''"
    using t join_concat [of "'')(?=.*?''" escapeRegex t ts] by (simp add: filterCreateSearch_def split_escaped)
  then show ?thesis using parse_smart_tail [of "[ReStart]" t ts] t by (simp add: after_dot_def)
qed

lemma parse_plain: "re_parse [[]] (filterCreateSearch q False False) = Some (map ReChar q)"
  using parse_escaped [of "[]" "[]" q "[]"] by (simp add: filterCreateSearch_def rev_map)

lemma search_start: "re_search cf st (ReStart # its) s \<longleftrightarrow> st \<and> re_match cf st its s"
proof -
  have "\<not> re_search cf False (ReStart # its) s" by (induction s) auto
  then show ?thesis by (cases s) (auto simp: list.case_eq_if)
qed

lemma match_looks:
  "re_match cf st (map (\<lambda>t. ReLook (ReAny # map ReChar t)) ts @ its) s \<longleftrightarrow>
     (\<forall>t \<in> set ts. re_match cf st (ReAny # map ReChar t) s) \<and> re_match cf st its s"
  by (induction ts) (auto simp del: re_match.simps(4))

lemma regexp_plain_search:
  assumes "\<forall>c \<in> set s. \<not> line_end c"
  shows "regexp_test engine (filterCreateSearch q False smart) ci s = plain_search smart ci q s"
proof (cases smart)
  case True
  then show ?thesis
    using assms match_any_end [OF assms] match_any_chars [OF assms]
    by (simp add: regexp_test_def parse_smart search_start match_looks plain_search_def contains_def del: re_match.simps(4))
next
  case False
  then show ?thesis by (simp add: regexp_test_def parse_plain plain_search_def contains_def search_chars)
qed

lemma contains_prefix: "contains ci (t @ u) s \<Longrightarrow> contains ci t s"
  unfolding contains_def by (metis map_append prefixI prefix_imp_sublist sublist_order.order_trans)

text \<open>Typing on at the end of a search can only drop rows: the refinement of \<open>_fnFilter\<close> is sound.\<close>

lemma plain_search_extend: "plain_search smart ci (q @ r) s \<Longrightarrow> plain_search smart ci q s"
proof (cases smart)
  case True
  assume a: "plain_search smart ci (q @ r) s"
  let ?q = "js_split CHR '' '' q"
  have n: "?q \<noteq> []" by (rule split_ne)
  have "contains ci t s" if t: "t \<in> set ?q" for t
  proof -
    have "t \<in> set (butlast ?q) \<or> t = last ?q" using t n by (cases ?q rule: rev_cases) auto
    then show ?thesis
      using a True contains_prefix [of ci "last ?q" "hd (js_split CHR '' '' r)" s]
      by (auto simp: plain_search_def split_append)
  qed
  then show ?thesis using True by (simp add: plain_search_def)
qed (auto simp: plain_search_def dest: contains_prefix)

end
