(* ===== verification/Dt_Data.thy ===== *)
theory Dt_Data
  imports Dt_Regexp
begin

text \<open>
  The state of a table (\<open>jquery.dataTables.js\<close>, the settings object) and the operations on its data: reading
  and writing cells, types of columns, nodes of rows, adding, deleting and clearing. The table is filled and
  processed in the browser (not by a server), its rows are arrays with a cell for each column, every row has
  its \<open>tr\<close> node from the start (no deferred rendering), and columns have no render functions.
\<close>

section \<open>State\<close>

datatype dt_cell = CText string | CNum int | CNull

datatype dt_type = TString | TNumeric | TDate | THtml

datatype dt_dir = Asc | Desc

text \<open>A column of \<open>aoColumns\<close>; \<open>co_type\<close> is \<open>None\<close> while \<open>sType\<close> is \<open>null\<close>.\<close>

record dt_column =
  co_type :: "dt_type option"        \<comment> \<open>\<open>sType\<close>\<close>
  co_autoType :: bool
  co_visible :: bool
  co_searchable :: bool
  co_sortable :: bool
  co_dataSort :: "nat list"          \<comment> \<open>\<open>aDataSort\<close>\<close>
  co_asSorting :: "dt_dir list"
  co_default :: "dt_cell"            \<comment> \<open>\<open>sDefaultContent\<close>\<close>

text \<open>A row of \<open>aoData\<close>: its data, its node, and the content of the cells of that node in column order.\<close>

record dt_row =
  ro_data :: "dt_cell list"
  ro_node :: nat
  ro_cells :: "string list"

record dt_search =
  se_search :: string
  se_regex :: bool
  se_smart :: bool
  se_caseInsensitive :: bool

text \<open>What is on the page in the body of the table: nodes of rows, or the message for an empty table.\<close>

datatype dt_shown = ShowRows "nat list" | ShowEmpty

record dt_table =
  dt_columns :: "dt_column list"
  dt_data :: "dt_row list"
  dt_master :: "nat list"            \<comment> \<open>\<open>aiDisplayMaster\<close>\<close>
  dt_display :: "nat list"           \<comment> \<open>\<open>aiDisplay\<close>\<close>
  dt_dataSearch :: "string list"     \<comment> \<open>\<open>asDataSearch\<close>\<close>
  dt_prev :: dt_search               \<comment> \<open>\<open>oPreviousSearch\<close>\<close>
  dt_preCols :: "dt_search list"     \<comment> \<open>\<open>aoPreSearchCols\<close>\<close>
  dt_start :: int
  dt_length :: int
  dt_end :: int
  dt_sorting :: "(nat \<times> dt_dir \<times> nat option) list"   \<comment> \<open>\<open>aaSorting\<close>\<close>
  dt_sortFixed :: "(nat \<times> dt_dir \<times> nat option) list option"
  dt_rowIndex :: "nat \<Rightarrow> nat option"   \<comment> \<open>the property \<open>_DT_RowIndex\<close> of each node\<close>
  dt_nextNode :: nat
  dt_shown :: dt_shown
  dt_threw :: bool                   \<comment> \<open>an exception has ended the last call\<close>

text \<open>What the page decides once, and what the browser computes.\<close>

record dt_env =
  en_filter :: bool                  \<comment> \<open>\<open>bFilter\<close>\<close>
  en_sort :: bool                    \<comment> \<open>\<open>bSort\<close>\<close>
  en_paginate :: bool                \<comment> \<open>\<open>bPaginate\<close>\<close>
  en_engine :: re_engine             \<comment> \<open>regular expressions of the user\<close>
  en_htmlText :: "string \<Rightarrow> string"  \<comment> \<open>\<open>$('<div>').html(s).text()\<close>\<close>
  en_dateParse :: "string \<Rightarrow> int option"
  en_custom :: "(dt_cell list \<Rightarrow> nat \<Rightarrow> bool) list"   \<comment> \<open>\<open>afnFiltering\<close>\<close>

section \<open>Cells\<close>

text \<open>\<open>_fnGetCellData\<close>; only \<open>'display'\<close> is treated on its own.\<close>

definition getCellData :: "dt_table \<Rightarrow> nat \<Rightarrow> nat \<Rightarrow> bool \<Rightarrow> dt_cell" where
  "getCellData s iRow iCol display =
     (let oCol = dt_columns s ! iCol; oData = ro_data (dt_data s ! iRow) in
      if length oData \<le> iCol then co_default oCol
      else
        let sData = oData ! iCol;
            sData = (if sData = CNull then co_default oCol else sData)
        in if display \<and> sData = CNull then CText [] else sData)"

text \<open>\<open>data[i] = val\<close> on a row; a gap before \<open>i\<close> reads as no data, like \<open>null\<close> does.\<close>

definition put_cell :: "dt_cell list \<Rightarrow> nat \<Rightarrow> dt_cell \<Rightarrow> dt_cell list" where
  "put_cell cs i v = (if i < length cs then cs[i := v] else cs @ replicate (i - length cs) CNull @ [v])"

definition setCellData :: "nat \<Rightarrow> nat \<Rightarrow> dt_cell \<Rightarrow> dt_table \<Rightarrow> dt_table" where
  "setCellData iRow iCol val s =
     s\<lparr>dt_data := (dt_data s)[iRow := (dt_data s ! iRow)\<lparr>ro_data := put_cell (ro_data (dt_data s ! iRow)) iCol val\<rparr>]\<rparr>"

text \<open>\<open>_fnGetColumns\<close> with \<open>'bVisible'\<close> and \<open>'bSearchable'\<close>.\<close>

definition getColumns :: "(dt_column \<Rightarrow> bool) \<Rightarrow> dt_table \<Rightarrow> nat list" where
  "getColumns p s = filter (\<lambda>i. p (dt_columns s ! i)) [0..<length (dt_columns s)]"

definition visibleToColumnIndex :: "dt_table \<Rightarrow> nat \<Rightarrow> nat option" where
  "visibleToColumnIndex s iMatch =
     (let aiVis = getColumns co_visible s in if iMatch < length aiVis then Some (aiVis ! iMatch) else None)"

fun index_in :: "'a \<Rightarrow> 'a list \<Rightarrow> nat option" where
  "index_in x [] = None"
| "index_in x (y # ys) = (if x = y then Some 0 else map_option Suc (index_in x ys))"

definition columnIndexToVisible :: "dt_table \<Rightarrow> nat \<Rightarrow> nat option" where
  "columnIndexToVisible s iMatch = index_in iMatch (getColumns co_visible s)"

definition getRowData :: "dt_table \<Rightarrow> nat \<Rightarrow> nat list \<Rightarrow> dt_cell list" where
  "getRowData s iRow cols = map (\<lambda>c. getCellData s iRow c False) cols"

section \<open>Types\<close>

text \<open>The tests of \<open>aTypes\<close>, in their order.\<close>

definition numeric_text :: "string \<Rightarrow> bool" where
  "numeric_text s =
     (case s of
        [] \<Rightarrow> True
      | c # cs \<Rightarrow>
          c \<in> set ''0123456789-'' \<and> (\<forall>d \<in> set cs. d \<in> set ''0123456789.'') \<and> length (filter (\<lambda>d. d = CHR ''.'') cs) \<le> 1)"

fun text_of :: "dt_cell \<Rightarrow> string" where
  "text_of (CText t) = t"
| "text_of (CNum n) = show_int n"
| "text_of CNull = ''null''"

definition detectType :: "dt_env \<Rightarrow> dt_cell \<Rightarrow> dt_type" where
  "detectType env v =
     (if (case v of CNum _ \<Rightarrow> True | CText t \<Rightarrow> numeric_text t | CNull \<Rightarrow> False) then TNumeric
      else if en_dateParse env (text_of v) \<noteq> None \<or> v = CText [] then TDate
      else if (case v of CText t \<Rightarrow> CHR ''<'' \<in> set t \<and> CHR ''>'' \<in> set t | _ \<Rightarrow> False) then THtml
      else TString)"

text \<open>The column type after one more value: \<open>string\<close> is the fallback, \<open>html\<close> stays.\<close>

definition columnType :: "dt_env \<Rightarrow> dt_cell \<Rightarrow> dt_column \<Rightarrow> dt_column" where
  "columnType env v oCol =
     (if co_autoType oCol \<and> co_type oCol \<noteq> Some TString \<and> v \<noteq> CNull \<and> v \<noteq> CText [] then
        let this = detectType env v in
        if co_type oCol = None then oCol\<lparr>co_type := Some this\<rparr>
        else if co_type oCol \<noteq> Some this \<and> co_type oCol \<noteq> Some THtml then oCol\<lparr>co_type := Some TString\<rparr>
        else oCol
      else oCol)"

section \<open>Drawing\<close>

text \<open>\<open>_fnCalculateEnd\<close>\<close>

definition calculateEnd :: "dt_env \<Rightarrow> dt_table \<Rightarrow> dt_table" where
  "calculateEnd env s =
     (let n = int (length (dt_display s)) in
      s\<lparr>dt_end := if \<not> en_paginate env then n
                  else if dt_start s + dt_length s > n \<or> dt_length s = - 1 then n
                  else dt_start s + dt_length s\<rparr>)"

text \<open>The node that \<open>_fnDraw\<close> finds at position \<open>j\<close> of \<open>aiDisplay\<close>; \<open>None\<close> is the exception for no row.\<close>

definition node_at :: "dt_table \<Rightarrow> int \<Rightarrow> nat option" where
  "node_at s j =
     (case js_nth (dt_display s) j of
        None \<Rightarrow> None
      | Some k \<Rightarrow> map_option ro_node (js_nth (dt_data s) (int k)))"

text \<open>\<open>_fnDraw\<close>: the rows from \<open>_iDisplayStart\<close> to before \<open>_iDisplayEnd\<close>.\<close>

definition draw :: "dt_table \<Rightarrow> dt_table" where
  "draw s =
     (if dt_display s = [] then s\<lparr>dt_shown := ShowEmpty\<rparr>
      else
        (case those (map (node_at s) [dt_start s..dt_end s - 1]) of
           Some ns \<Rightarrow> s\<lparr>dt_shown := ShowRows ns\<rparr>
         | None \<Rightarrow> s\<lparr>dt_threw := True\<rparr>))"

section \<open>Rows\<close>

definition html_of :: "dt_cell \<Rightarrow> string" where
  "html_of v = (case v of CText t \<Rightarrow> t | CNum n \<Rightarrow> show_int n | CNull \<Rightarrow> [])"

text \<open>\<open>_fnCreateTr\<close>\<close>

definition createTr :: "nat \<Rightarrow> dt_table \<Rightarrow> dt_table" where
  "createTr iRow s =
     (let n = dt_nextNode s;
          cells = map (\<lambda>i. html_of (getCellData s iRow i True)) [0..<length (dt_columns s)]
      in s\<lparr>dt_data := (dt_data s)[iRow := (dt_data s ! iRow)\<lparr>ro_node := n, ro_cells := cells\<rparr>],
           dt_rowIndex := (dt_rowIndex s)(n := Some iRow), dt_nextNode := Suc n\<rparr>)"

text \<open>One column of the loop in \<open>_fnAddData\<close>.\<close>

definition add_column :: "dt_env \<Rightarrow> nat \<Rightarrow> nat \<Rightarrow> dt_table \<Rightarrow> dt_table" where
  "add_column env iRow i s =
     (let s = setCellData iRow i (getCellData s iRow i False) s
      in s\<lparr>dt_columns := (dt_columns s)[i := columnType env (getCellData s iRow i False) (dt_columns s ! i)]\<rparr>)"

text \<open>\<open>_fnAddData\<close>\<close>

definition addData :: "dt_env \<Rightarrow> dt_cell list \<Rightarrow> dt_table \<Rightarrow> dt_table" where
  "addData env aDataSupplied s =
     (let iRow = length (dt_data s);
          s = s\<lparr>dt_data := dt_data s @ [\<lparr>ro_data = aDataSupplied, ro_node = 0, ro_cells = []\<rparr>]\<rparr>;
          s = fold (add_column env iRow) [0..<length (dt_columns s)] s;
          s = s\<lparr>dt_master := dt_master s @ [iRow]\<rparr>
      in createTr iRow s)"

text \<open>
  \<open>_fnDeleteIndex\<close>: the indices above the target go down by one, then the last entry that is the target
  goes. The target \<open>None\<close> is \<open>null\<close> (a node that is no row), which no index equals and which counts as 0
  in \<open>>\<close>.
\<close>

definition deleteIndex :: "nat list \<Rightarrow> nat option \<Rightarrow> nat list" where
  "deleteIndex a iTarget =
     (let a' = map (\<lambda>x. if Some x \<noteq> iTarget \<and> x > (case iTarget of None \<Rightarrow> 0 | Some t \<Rightarrow> t) then x - 1 else x) a
      in case index_in iTarget (rev (map Some a)) of
           None \<Rightarrow> a'
         | Some k \<Rightarrow> js_splice a' (length a - 1 - k) 1 [])"

definition reindex :: "dt_table \<Rightarrow> dt_table" where
  "reindex s =
     s\<lparr>dt_rowIndex := fold (\<lambda>(i, r) f. f(ro_node r := Some i)) (enumerate 0 (dt_data s)) (dt_rowIndex s)\<rparr>"

text \<open>
  The part of \<open>fnDeleteRow\<close> that takes the row out of the arrays. A row that the filter hides has position
  \<open>-1\<close> in \<open>aiDisplay\<close>, and \<open>splice(-1, 1)\<close> takes the last entry of \<open>asDataSearch\<close>.
\<close>

definition remove_row :: "nat option \<Rightarrow> dt_table \<Rightarrow> dt_table" where
  "remove_row iAODataIndex s =
     (let s = reindex (s\<lparr>dt_data := js_splice (dt_data s) (case iAODataIndex of None \<Rightarrow> 0 | Some i \<Rightarrow> i) 1 []\<rparr>);
          s = s\<lparr>dt_dataSearch :=
                  (case index_in iAODataIndex (map Some (dt_display s)) of
                     Some k \<Rightarrow> js_splice (dt_dataSearch s) k 1 []
                   | None \<Rightarrow> butlast (dt_dataSearch s))\<rparr>
      in s\<lparr>dt_master := deleteIndex (dt_master s) iAODataIndex,
           dt_display := deleteIndex (dt_display s) iAODataIndex\<rparr>)"

text \<open>\<open>_fnClearTable\<close>\<close>

definition clearTable :: "dt_env \<Rightarrow> dt_table \<Rightarrow> dt_table" where
  "clearTable env s = calculateEnd env (s\<lparr>dt_data := [], dt_master := [], dt_display := []\<rparr>)"

end
