(* ===== verification/Dt_Sort.thy ===== *)
theory Dt_Sort
  imports Dt_Data
begin

text \<open>
  Sorting (\<open>_fnSort\<close> of \<open>jquery.dataTables.js\<close> up to the filtering it ends with, the comparison functions of
  \<open>oSort\<close>, the click handler of \<open>_fnSortAttachListener\<close>). \<open>Array.prototype.sort\<close> is an insertion sort that is
  stable, as the language asks; the theorems show that the result does not depend on the algorithm, because
  the comparison ends with the current position of the rows.
\<close>

section \<open>Comparing rows\<close>

text \<open>What the \<open>-pre\<close> functions make of a cell: text in lower case, or a number.\<close>

datatype sort_key = KText string | KNum jsnum

text \<open>\<open>string-pre\<close>, \<open>html-pre\<close>, \<open>date-pre\<close>, \<open>numeric-pre\<close>; \<open>None\<close> where \<open>a.replace\<close> is not a function.\<close>

definition sort_pre :: "dt_env \<Rightarrow> dt_type \<Rightarrow> dt_cell \<Rightarrow> sort_key option" where
  "sort_pre env ty a =
     (case ty of
        TString \<Rightarrow>
          Some (KText (toLowerCase (case a of CText t \<Rightarrow> t | CNum n \<Rightarrow> show_int n | CNull \<Rightarrow> [])))
      | THtml \<Rightarrow>
          (case a of CText t \<Rightarrow> Some (KText (toLowerCase (strip_tags t))) | _ \<Rightarrow> None)
      | TDate \<Rightarrow>
          Some (KNum (case en_dateParse env (text_of a) of
                        Some x \<Rightarrow> Fin (of_int x)
                      | None \<Rightarrow>
                          (case en_dateParse env ''01/01/1970 00:00:00'' of Some x \<Rightarrow> Fin (of_int x) | None \<Rightarrow> NaN)))
      | TNumeric \<Rightarrow>
          Some (KNum (case a of
                        CText t \<Rightarrow> if t = ''-'' \<or> t = [] then Fin 0 else string_to_num t
                      | CNum n \<Rightarrow> Fin (of_int n)
                      | CNull \<Rightarrow> Fin 0)))"

definition type_of :: "dt_column \<Rightarrow> dt_type" where
  "type_of c = (case co_type c of Some t \<Rightarrow> t | None \<Rightarrow> TString)"

text \<open>The ascending functions; the descending ones have the arguments the other way round.\<close>

fun key_asc :: "sort_key \<Rightarrow> sort_key \<Rightarrow> jsnum" where
  "key_asc (KText x) (KText y) = (if str_less x y then Fin (- 1) else if str_less y x then Fin 1 else Fin 0)"
| "key_asc (KNum x) (KNum y) = x - y"
| "key_asc _ _ = Fin 0"

definition key_cmp :: "dt_dir \<Rightarrow> sort_key \<Rightarrow> sort_key \<Rightarrow> jsnum" where
  "key_cmp dir x y = (case dir of Asc \<Rightarrow> key_asc x y | Desc \<Rightarrow> key_asc y x)"

text \<open>The columns compared, in order, each with its direction: \<open>aDataSort\<close> of each entry of \<open>aaSort\<close>.\<close>

definition sort_columns :: "dt_table \<Rightarrow> (nat \<times> dt_dir \<times> nat option) list \<Rightarrow> (nat \<times> dt_dir) list" where
  "sort_columns s aaSort = concat (map (\<lambda>(c, dir, _). map (\<lambda>d. (d, dir)) (co_dataSort (dt_columns s ! c))) aaSort)"

text \<open>\<open>_aSortData\<close> of a row, for those columns; \<open>None\<close> where preparing a cell throws.\<close>

definition sort_data :: "dt_env \<Rightarrow> dt_table \<Rightarrow> (nat \<times> dt_dir) list \<Rightarrow> nat \<Rightarrow> sort_key list option" where
  "sort_data env s cols i =
     those (map (\<lambda>(c, _). sort_pre env (type_of (dt_columns s ! c)) (getCellData s i c False)) cols)"

text \<open>The comparison function: the first difference decides, \<open>NaN\<close> included, then the position.\<close>

fun cmp_keys :: "dt_dir list \<Rightarrow> sort_key list \<times> int \<Rightarrow> sort_key list \<times> int \<Rightarrow> jsnum" where
  "cmp_keys (dir # dirs) (x # xs, p) (y # ys, q) =
     (let iTest = key_cmp dir x y in if iTest \<noteq> Fin 0 then iTest else cmp_keys dirs (xs, p) (ys, q))"
| "cmp_keys _ (_, p) (_, q) = Fin (of_int (p - q))"

section \<open>\<open>Array.prototype.sort\<close>\<close>

fun sort_insert :: "('a \<Rightarrow> 'a \<Rightarrow> jsnum) \<Rightarrow> 'a \<Rightarrow> 'a list \<Rightarrow> 'a list" where
  "sort_insert cmp x [] = [x]"
| "sort_insert cmp x (y # ys) = (if cmp x y > Fin 0 then y # sort_insert cmp x ys else x # y # ys)"

definition array_sort :: "('a \<Rightarrow> 'a \<Rightarrow> jsnum) \<Rightarrow> 'a list \<Rightarrow> 'a list" where
  "array_sort cmp xs = foldr (sort_insert cmp) xs []"

section \<open>\<open>_fnSort\<close>\<close>

definition aaSort_of :: "dt_table \<Rightarrow> (nat \<times> dt_dir \<times> nat option) list" where
  "aaSort_of s = (case dt_sortFixed s of Some f \<Rightarrow> f @ dt_sorting s | None \<Rightarrow> dt_sorting s)"

text \<open>
  The new \<open>aiDisplayMaster\<close>; \<open>None\<close> when preparing the data throws, which is before anything is changed.
  A row is compared by its keys and its position in the old array (\<open>aiOrig\<close>).
\<close>

definition sort_master :: "dt_env \<Rightarrow> dt_table \<Rightarrow> nat list option" where
  "sort_master env s =
     (let aaSort = aaSort_of s; cols = sort_columns s aaSort in
      if dt_sorting s = [] \<and> dt_sortFixed s = None then Some (dt_master s)
      else
        (case those (map (sort_data env s cols) [0..<length (dt_data s)]) of
           None \<Rightarrow> None
         | Some sd \<Rightarrow>
             Some (map fst (array_sort (\<lambda>(a, p) (b, q). cmp_keys (map snd cols) (sd ! a, int p) (sd ! b, int q))
                             (zip (dt_master s) [0..<length (dt_master s)])))))"

section \<open>Clicks on the header\<close>

text \<open>\<open>asSorting[iNext]\<close>, where \<open>iNext\<close> is one more than the index kept (\<open>undefined + 1\<close> is no index).\<close>

definition next_sorting :: "dt_table \<Rightarrow> nat \<Rightarrow> nat option \<Rightarrow> (dt_dir \<times> nat) option" where
  "next_sorting s iColumn k =
     (case k of
        None \<Rightarrow> None
      | Some i \<Rightarrow>
          let dirs = co_asSorting (dt_columns s ! iColumn) in
          if Suc i < length dirs then Some (dirs ! Suc i, Suc i) else None)"

fun shift_sorting :: "dt_table \<Rightarrow> nat \<Rightarrow> (nat \<times> dt_dir \<times> nat option) list \<Rightarrow> (nat \<times> dt_dir \<times> nat option) list" where
  "shift_sorting s iDataIndex [] = [(iDataIndex, co_asSorting (dt_columns s ! iDataIndex) ! 0, Some 0)]"
| "shift_sorting s iDataIndex ((c, d, k) # rest) =
     (if c = iDataIndex then
        (case next_sorting s c k of None \<Rightarrow> rest | Some (d', k') \<Rightarrow> (c, d', Some k') # rest)
      else (c, d, k) # shift_sorting s iDataIndex rest)"

text \<open>The new \<open>aaSorting\<close> of a click, with or without the shift key.\<close>

definition click_sorting :: "dt_table \<Rightarrow> nat \<Rightarrow> bool \<Rightarrow> (nat \<times> dt_dir \<times> nat option) list" where
  "click_sorting s iDataIndex shiftKey =
     (let dirs = co_asSorting (dt_columns s ! iDataIndex) in
      if shiftKey then shift_sorting s iDataIndex (dt_sorting s)
      else
        (case dt_sorting s of
           [(c, d, k)] \<Rightarrow>
             if c = iDataIndex then
               (case next_sorting s c k of
                  None \<Rightarrow> [(c, dirs ! 0, Some 0)]
                | Some (d', k') \<Rightarrow> [(c, d', Some k')])
             else [(iDataIndex, dirs ! 0, Some 0)]
         | _ \<Rightarrow> [(iDataIndex, dirs ! 0, Some 0)]))"

end
