(* ===== verification/Dt_Sort_Props.thy ===== *)
theory Dt_Sort_Props
  imports Dt_Sort "HOL-Library.Multiset"
begin

text \<open>
  What sorting gives: the same rows, in the lexicographic order of their keys with the direction of each
  column, rows with equal keys in the order they had; and that there is only one such result, so that every
  correct sorting algorithm gives it.
\<close>

section \<open>The order\<close>

fun key_less :: "dt_dir \<Rightarrow> sort_key \<Rightarrow> sort_key \<Rightarrow> bool" where
  "key_less Asc (KText x) (KText y) = str_less x y"
| "key_less Desc (KText x) (KText y) = str_less y x"
| "key_less Asc (KNum x) (KNum y) = (x < y)"
| "key_less Desc (KNum x) (KNum y) = (y < x)"
| "key_less _ _ _ = False"

fun keys_less :: "dt_dir list \<Rightarrow> sort_key list \<Rightarrow> sort_key list \<Rightarrow> bool" where
  "keys_less (d # ds) (x # xs) (y # ys) = (key_less d x y \<or> x = y \<and> keys_less ds xs ys)"
| "keys_less _ _ _ = False"

definition comes_before :: "dt_dir list \<Rightarrow> sort_key list \<times> int \<Rightarrow> sort_key list \<times> int \<Rightarrow> bool" where
  "comes_before ds a b \<longleftrightarrow> keys_less ds (fst a) (fst b) \<or> fst a = fst b \<and> snd a < snd b"

text \<open>Keys of the columns: text or a finite number, the same for all rows.\<close>

fun key_kind :: "bool \<Rightarrow> sort_key \<Rightarrow> bool" where
  "key_kind True (KText _) = True"
| "key_kind False (KNum x) = is_fin x"
| "key_kind _ _ = False"

definition keys_ok :: "bool list \<Rightarrow> dt_dir list \<Rightarrow> sort_key list \<Rightarrow> bool" where
  "keys_ok kinds ds ks \<longleftrightarrow> length ds = length kinds \<and> list_all2 key_kind kinds ks"

lemma keys_ok_Cons:
  "keys_ok kinds (d # ds) xs \<longleftrightarrow>
     (\<exists>k ks x xs'. kinds = k # ks \<and> xs = x # xs' \<and> key_kind k x \<and> keys_ok ks ds xs')"
  by (cases kinds; cases xs) (auto simp: keys_ok_def)

lemma is_finE: assumes "is_fin x" obtains r where "x = Fin r"
  using assms by (cases x) (auto simp: is_fin_def)

lemma key_cases:
  assumes "key_kind k x" "key_kind k y"
  obtains (words) s t where "x = KText s" "y = KText t" | (num) a b where "x = KNum (Fin a)" "y = KNum (Fin b)"
  using assms by (cases k; cases x; cases y) (auto elim!: is_finE)

lemma key_cmp_less:
  assumes "key_kind k x" "key_kind k y"
  shows "key_cmp d x y > Fin 0 \<longleftrightarrow> key_less d y x" "key_cmp d x y = Fin 0 \<longleftrightarrow> x = y"
    "key_less d x y \<or> x = y \<or> key_less d y x"
proof -
  show "key_cmp d x y > Fin 0 \<longleftrightarrow> key_less d y x"
    by (rule key_cases [OF assms]; cases d)
      (auto simp: key_cmp_def dest: str_less_trans)
  show "key_cmp d x y = Fin 0 \<longleftrightarrow> x = y"
    by (rule key_cases [OF assms]; cases d) (use str_less_linear in \<open>auto simp: key_cmp_def\<close>)
  show "key_less d x y \<or> x = y \<or> key_less d y x"
    by (rule key_cases [OF assms]; cases d) (use str_less_linear in auto)
qed

lemma key_less_irrefl [simp]: "\<not> key_less d x x"
proof (cases x)
  case (KNum n)
  then show ?thesis by (cases d; cases n) auto
qed (cases d; simp)

lemma key_less_trans:
  assumes "key_kind k x" "key_kind k y" "key_kind k z" "key_less d x y" "key_less d y z"
  shows "key_less d x z"
  using assms by (cases k; cases d; cases x; cases y; cases z) (auto dest: str_less_trans elim!: is_finE)

lemma cmp_keys_before:
  "keys_ok kinds ds xs \<Longrightarrow> keys_ok kinds ds ys \<Longrightarrow>
   cmp_keys ds (xs, p) (ys, q) > Fin 0 \<longleftrightarrow> comes_before ds (ys, q) (xs, p)"
proof (induction ds arbitrary: kinds xs ys)
  case (Cons d ds)
  then obtain k ks x xs' y ys' where l: "kinds = k # ks" "xs = x # xs'" "ys = y # ys'"
    by (cases kinds; cases xs; cases ys) (auto simp: keys_ok_def)
  have k: "key_kind k x" "key_kind k y" and ok: "keys_ok ks ds xs'" "keys_ok ks ds ys'"
    using Cons.prems l by (auto simp: keys_ok_def)
  show ?case
    using Cons.IH [OF ok] key_cmp_less [OF k, of d] l
    by (auto simp: comes_before_def Let_def)
qed (auto simp: comes_before_def keys_ok_def)

lemma before_linear:
  assumes "keys_ok kinds ds xs" "keys_ok kinds ds ys"
  shows "comes_before ds (xs, p) (ys, q) \<or> (xs, p) = (ys, q) \<or> comes_before ds (ys, q) (xs, p)"
  using assms
proof (induction ds arbitrary: kinds xs ys)
  case (Cons d ds)
  then obtain k ks x xs' y ys' where l: "kinds = k # ks" "xs = x # xs'" "ys = y # ys'"
    by (cases kinds; cases xs; cases ys) (auto simp: keys_ok_def)
  have k: "key_kind k x" "key_kind k y" and ok: "keys_ok ks ds xs'" "keys_ok ks ds ys'"
    using Cons.prems l by (auto simp: keys_ok_def)
  show ?case using Cons.IH [OF ok] key_cmp_less(3) [OF k, of d] l by (auto simp: comes_before_def)
qed (auto simp: comes_before_def keys_ok_def)

lemma keys_less_trans:
  "keys_ok kinds ds xs \<Longrightarrow> keys_ok kinds ds ys \<Longrightarrow> keys_ok kinds ds zs \<Longrightarrow>
   keys_less ds xs ys \<Longrightarrow> keys_less ds ys zs \<Longrightarrow> keys_less ds xs zs"
proof (induction ds arbitrary: kinds xs ys zs)
  case (Cons d ds)
  obtain k ks x xs' where 1: "kinds = k # ks" "xs = x # xs'" "key_kind k x" "keys_ok ks ds xs'"
    using Cons.prems(1) unfolding keys_ok_Cons by blast
  obtain y ys' where 2: "ys = y # ys'" "key_kind k y" "keys_ok ks ds ys'"
    using Cons.prems(2) 1(1) unfolding keys_ok_Cons by blast
  obtain z zs' where 3: "zs = z # zs'" "key_kind k z" "keys_ok ks ds zs'"
    using Cons.prems(3) 1(1) unfolding keys_ok_Cons by blast
  note l = 1(2) 2(1) 3(1) and k = 1(3) 2(2) 3(2) and ok = 1(4) 2(3) 3(3)
  have "key_less d x y \<or> x = y \<and> keys_less ds xs' ys'" "key_less d y z \<or> y = z \<and> keys_less ds ys' zs'"
    using Cons.prems(4,5) l by simp_all
  then have "key_less d x z \<or> x = z \<and> keys_less ds xs' zs'"
    using Cons.IH [OF ok] key_less_trans [OF k, of d] by blast
  then show ?case using l by simp
qed simp

lemma keys_less_irrefl: "keys_ok kinds ds xs \<Longrightarrow> \<not> keys_less ds xs xs"
proof (induction ds arbitrary: kinds xs)
  case (Cons d ds)
  then show ?case
    by (cases kinds; cases xs) (auto simp: keys_ok_def)
qed simp

lemma before_trans:
  assumes "keys_ok kinds ds (fst a)" "keys_ok kinds ds (fst b)" "keys_ok kinds ds (fst c)"
    "comes_before ds a b" "comes_before ds b c"
  shows "comes_before ds a c"
  using assms keys_less_trans [of kinds ds "fst a" "fst b" "fst c"] by (auto simp: comes_before_def)

lemma before_irrefl: "keys_ok kinds ds (fst a) \<Longrightarrow> \<not> comes_before ds a a"
  by (auto simp: comes_before_def dest: keys_less_irrefl)

section \<open>Insertion sort\<close>

lemma mset_sort_insert: "mset (sort_insert cmp x ys) = add_mset x (mset ys)"
  by (induction ys) auto

lemma mset_array_sort: "mset (array_sort cmp xs) = mset xs"
  by (induction xs) (simp_all add: array_sort_def mset_sort_insert)

lemma set_array_sort: "set (array_sort cmp xs) = set xs"
  by (metis mset_array_sort set_mset_mset)

lemma set_sort_insert: "set (sort_insert cmp x ys) = insert x (set ys)"
  by (metis list.simps(15) mset_sort_insert set_mset_add_mset_insert set_mset_mset)

text \<open>A comparison that decides a strict order \<open>R\<close> which is linear on the list.\<close>

lemma sort_insert_sorted:
  assumes "sorted_wrt R ys"
    and cmp: "\<And>a b. a \<in> insert x (set ys) \<Longrightarrow> b \<in> insert x (set ys) \<Longrightarrow> cmp a b > Fin 0 \<longleftrightarrow> R b a"
    and lin: "\<And>y. y \<in> set ys \<Longrightarrow> R x y \<or> R y x"
    and trans: "transp_on (insert x (set ys)) R"
  shows "sorted_wrt R (sort_insert cmp x ys)"
  using assms
proof (induction ys)
  case (Cons y ys)
  have ih: "sorted_wrt R (sort_insert cmp x ys)"
  proof (rule Cons.IH)
    show "sorted_wrt R ys" using Cons.prems(1) by simp
    show "\<And>a b. a \<in> insert x (set ys) \<Longrightarrow> b \<in> insert x (set ys) \<Longrightarrow> cmp a b > Fin 0 \<longleftrightarrow> R b a"
      by (rule Cons.prems(2)) auto
    show "\<And>z. z \<in> set ys \<Longrightarrow> R x z \<or> R z x" by (rule Cons.prems(3)) simp
    show "transp_on (insert x (set ys)) R" by (rule transp_on_subset [OF Cons.prems(4)]) auto
  qed
  have c: "cmp x y > Fin 0 \<longleftrightarrow> R y x" by (rule Cons.prems(2)) auto
  have ys: "\<forall>z \<in> set ys. R y z" using Cons.prems(1) by simp
  show ?case
  proof (cases "R y x")
    case True
    then show ?thesis using c ih ys by (simp add: set_sort_insert)
  next
    case False
    then have "R x y" using Cons.prems(3) [of y] by auto
    then have "\<forall>z \<in> set ys. R x z" using ys by (auto intro: transp_onD [OF Cons.prems(4), of x y])
    then show ?thesis using False c \<open>R x y\<close> Cons.prems(1) by simp
  qed
qed simp

lemma array_sort_sorted:
  assumes "distinct xs"
    and cmp: "\<And>a b. a \<in> set xs \<Longrightarrow> b \<in> set xs \<Longrightarrow> cmp a b > Fin 0 \<longleftrightarrow> R b a"
    and lin: "\<And>a b. a \<in> set xs \<Longrightarrow> b \<in> set xs \<Longrightarrow> a \<noteq> b \<Longrightarrow> R a b \<or> R b a"
    and trans: "transp_on (set xs) R"
  shows "sorted_wrt R (array_sort cmp xs)"
  using assms
proof (induction xs)
  case (Cons x xs)
  have ih: "sorted_wrt R (array_sort cmp xs)"
  proof (rule Cons.IH)
    show "distinct xs" using Cons.prems(1) by simp
    show "\<And>a b. a \<in> set xs \<Longrightarrow> b \<in> set xs \<Longrightarrow> cmp a b > Fin 0 \<longleftrightarrow> R b a" by (rule Cons.prems(2)) auto
    show "\<And>a b. a \<in> set xs \<Longrightarrow> b \<in> set xs \<Longrightarrow> a \<noteq> b \<Longrightarrow> R a b \<or> R b a" by (rule Cons.prems(3)) auto
    show "transp_on (set xs) R" by (rule transp_on_subset [OF Cons.prems(4)]) auto
  qed
  have st: "array_sort cmp (x # xs) = sort_insert cmp x (array_sort cmp xs)" by (simp add: array_sort_def)
  have "sorted_wrt R (sort_insert cmp x (array_sort cmp xs))"
  proof (rule sort_insert_sorted [OF ih], unfold set_array_sort)
    show "\<And>a b. a \<in> insert x (set xs) \<Longrightarrow> b \<in> insert x (set xs) \<Longrightarrow> cmp a b > Fin 0 \<longleftrightarrow> R b a"
      by (rule Cons.prems(2)) auto
    show "\<And>y. y \<in> set xs \<Longrightarrow> R x y \<or> R y x" by (rule Cons.prems(3)) (use Cons.prems(1) in auto)
    show "transp_on (insert x (set xs)) R" using Cons.prems(4) by simp
  qed
  then show ?case by (simp only: st)
qed (simp add: array_sort_def)

lemma sorted_unique:
  assumes "sorted_wrt R xs" "sorted_wrt R ys" "mset xs = mset ys"
    and irr: "\<And>a b. a \<in> set xs \<Longrightarrow> b \<in> set xs \<Longrightarrow> R a b \<Longrightarrow> \<not> R b a"
  shows "xs = ys"
  using assms
proof (induction xs arbitrary: ys)
  case Nil
  show ?case using Nil.prems(3) by simp
next
  case (Cons x xs)
  obtain y ys' where y: "ys = y # ys'" using Cons.prems(3) by (cases ys) auto
  have s: "set ys = insert x (set xs)" using Cons.prems(3) by (metis list.simps(15) set_mset_mset)
  have "x = y"
  proof (rule ccontr)
    assume n: "x \<noteq> y"
    have "y \<in> set xs" using s y n by auto
    then have "R x y" using Cons.prems(1) by simp
    moreover have "x \<in> set ys'" using s y n by auto
    then have "R y x" using Cons.prems(2) y by simp
    ultimately show False using Cons.prems(4) [of x y] \<open>y \<in> set xs\<close> by (metis list.set_intros)
  qed
  moreover have "xs = ys'"
  proof (rule Cons.IH)
    show "sorted_wrt R xs" "sorted_wrt R ys'" "mset xs = mset ys'" using Cons.prems(1-3) y \<open>x = y\<close> by simp_all
    show "\<And>a b. a \<in> set xs \<Longrightarrow> b \<in> set xs \<Longrightarrow> R a b \<Longrightarrow> \<not> R b a" by (rule Cons.prems(4)) auto
  qed
  ultimately show ?case using y by simp
qed

section \<open>The new order of a table\<close>

lemma those_map_Some: "those (map f xs) = Some ys \<longleftrightarrow> (\<forall>x \<in> set xs. f x \<noteq> None) \<and> ys = map (the \<circ> f) xs"
  by (induction xs arbitrary: ys) (auto split: option.splits)

lemma index_in_nth: "distinct xs \<Longrightarrow> i < length xs \<Longrightarrow> index_in (xs ! i) xs = Some i"
proof (induction xs arbitrary: i)
  case (Cons x xs)
  then show ?case by (cases i) auto
qed simp

definition sort_cols :: "dt_table \<Rightarrow> (nat \<times> dt_dir) list" where
  "sort_cols s = sort_columns s (aaSort_of s)"

definition row_keys :: "dt_env \<Rightarrow> dt_table \<Rightarrow> nat \<Rightarrow> sort_key list" where
  "row_keys env s a = the (sort_data env s (sort_cols s) a)"

text \<open>Every cell of a sorted column has a key, and numbers are finite.\<close>

definition sortable :: "dt_env \<Rightarrow> dt_table \<Rightarrow> bool" where
  "sortable env s \<longleftrightarrow>
     (\<forall>i < length (dt_data s).
        case sort_data env s (sort_cols s) i of
          None \<Rightarrow> False
        | Some ks \<Rightarrow> \<forall>k \<in> set ks. case k of KNum x \<Rightarrow> is_fin x | KText _ \<Rightarrow> True)"

text \<open>The specification of a sorted order: the same rows, by keys, then by their position before.\<close>

definition sorted_from :: "dt_env \<Rightarrow> dt_table \<Rightarrow> nat list \<Rightarrow> bool" where
  "sorted_from env s m \<longleftrightarrow>
     mset m = mset (dt_master s) \<and>
     sorted_wrt (\<lambda>a b. comes_before (map snd (sort_cols s))
       (row_keys env s a, int (the (index_in a (dt_master s))))
       (row_keys env s b, int (the (index_in b (dt_master s))))) m"

definition col_kinds :: "dt_table \<Rightarrow> bool list" where
  "col_kinds s = map (\<lambda>(c, _). type_of (dt_columns s ! c) \<in> {TString, THtml}) (sort_cols s)"

lemma pre_kind:
  "sort_pre env ty a = Some k \<Longrightarrow> (case k of KNum x \<Rightarrow> is_fin x | KText _ \<Rightarrow> True) \<Longrightarrow> key_kind (ty \<in> {TString, THtml}) k"
  by (auto simp: sort_pre_def split: dt_type.splits dt_cell.splits option.splits if_splits)

lemma sortable_keys:
  assumes "sortable env s" "a < length (dt_data s)"
  shows "sort_data env s (sort_cols s) a = Some (row_keys env s a)"
    and "keys_ok (col_kinds s) (map snd (sort_cols s)) (row_keys env s a)"
proof -
  let ?f = "\<lambda>(c, _). sort_pre env (type_of (dt_columns s ! c)) (getCellData s a c False)"
  obtain ks where ks: "sort_data env s (sort_cols s) a = Some ks"
    and fin: "\<forall>k \<in> set ks. case k of KNum x \<Rightarrow> is_fin x | KText _ \<Rightarrow> True"
    using assms by (auto simp: sortable_def split: option.splits)
  then show r: "sort_data env s (sort_cols s) a = Some (row_keys env s a)" by (simp add: row_keys_def)
  have e: "\<forall>x \<in> set (sort_cols s). ?f x \<noteq> None" "ks = map (the \<circ> ?f) (sort_cols s)"
    using ks unfolding sort_data_def those_map_Some by auto
  have "list_all2 key_kind (col_kinds s) ks"
    unfolding col_kinds_def e(2) list_all2_map1 list_all2_map2
  proof (rule list.rel_refl_strong)
    fix x assume x: "x \<in> set (sort_cols s)"
    obtain c d where c: "x = (c, d)" by force
    obtain k where k: "?f x = Some k" using e(1) x by auto
    then have "k \<in> set ks" using x by (auto simp: e(2) image_iff intro!: bexI [of _ x])
    then show "key_kind (case x of (c, _) \<Rightarrow> type_of (dt_columns s ! c) \<in> {TString, THtml}) ((the \<circ> ?f) x)"
      using pre_kind [of env _ _ k] fin k c by simp
  qed
  then show "keys_ok (col_kinds s) (map snd (sort_cols s)) (row_keys env s a)"
    using ks r by (simp add: keys_ok_def col_kinds_def)
qed

lemma zip_position:
  assumes "distinct xs" "z \<in> set (zip xs [0..<length xs])"
  shows "fst z \<in> set xs" "index_in (fst z) xs = Some (snd z)"
  using assms index_in_nth [of xs] by (auto simp: set_zip)

lemma sort_by_position:
  assumes so: "sortable env s" and d: "distinct (dt_master s)" and r: "set (dt_master s) \<subseteq> {..<length (dt_data s)}"
    and cmp: "\<And>a p b q. a \<in> set (dt_master s) \<Longrightarrow> b \<in> set (dt_master s) \<Longrightarrow>
      cmp (a, p) (b, q) = cmp_keys (map snd (sort_cols s)) (row_keys env s a, int p) (row_keys env s b, int q)"
  shows "sorted_from env s (map fst (array_sort cmp (zip (dt_master s) [0..<length (dt_master s)])))"
proof -
  let ?ds = "map snd (sort_cols s)"
  let ?zs = "zip (dt_master s) [0..<length (dt_master s)]"
  let ?kf = "\<lambda>z. (row_keys env s (fst z), int (snd z))"
  let ?R = "\<lambda>z w. comes_before ?ds (?kf z) (?kf w)"
  have ok: "keys_ok (col_kinds s) ?ds (row_keys env s (fst z))" if "z \<in> set ?zs" for z
    using sortable_keys(2) [OF so] zip_position(1) [OF d that] r by auto
  have "sorted_wrt ?R (array_sort cmp ?zs)"
  proof (rule array_sort_sorted)
    show "distinct ?zs" using d by (simp add: distinct_zipI1)
    show "cmp z w > Fin 0 \<longleftrightarrow> ?R w z" if "z \<in> set ?zs" "w \<in> set ?zs" for z w
      using cmp [of "fst z" "fst w" "snd z" "snd w"] zip_position(1) [OF d] that
        cmp_keys_before [OF ok [OF that(1)] ok [OF that(2)]] by simp
    show "?R z w \<or> ?R w z" if "z \<in> set ?zs" "w \<in> set ?zs" "z \<noteq> w" for z w
    proof -
      have "snd z \<noteq> snd w"
        using zip_position(2) [OF d that(1)] zip_position(2) [OF d that(2)] that d
        by (auto simp: set_zip nth_eq_iff_index_eq)
      then show ?thesis using before_linear [OF ok [OF that(1)] ok [OF that(2)], of "int (snd z)" "int (snd w)"] by auto
    qed
    show "transp_on (set ?zs) ?R"
    proof (rule transp_onI)
      fix x y z assume "x \<in> set ?zs" "y \<in> set ?zs" "z \<in> set ?zs" "?R x y" "?R y z"
      then show "?R x z" using before_trans [of "col_kinds s" ?ds "?kf x" "?kf y" "?kf z"] ok by simp
    qed
  qed
  then have sw: "sorted_wrt (\<lambda>a b. comes_before ?ds (row_keys env s a, int (the (index_in a (dt_master s))))
      (row_keys env s b, int (the (index_in b (dt_master s))))) (map fst (array_sort cmp ?zs))"
    unfolding sorted_wrt_map
    by (rule sorted_wrt_mono_rel [rotated]) (use zip_position(2) [OF d] in \<open>simp add: set_array_sort\<close>)
  have "mset (map fst (array_sort cmp ?zs)) = mset (map fst ?zs)" by (simp only: mset_map mset_array_sort)
  also have "map fst ?zs = dt_master s" by simp
  finally have "mset (map fst (array_sort cmp ?zs)) = mset (dt_master s)" .
  then show ?thesis using sw by (simp add: sorted_from_def)
qed

lemma sorted_from_unique:
  assumes "sortable env s" "set (dt_master s) \<subseteq> {..<length (dt_data s)}" "sorted_from env s m" "sorted_from env s m'"
  shows "m = m'"
proof (rule sorted_unique)
  let ?k = "\<lambda>a. (row_keys env s a, int (the (index_in a (dt_master s))))"
  let ?R = "\<lambda>a b. comes_before (map snd (sort_cols s)) (?k a) (?k b)"
  show "sorted_wrt ?R m" "sorted_wrt ?R m'" "mset m = mset m'" using assms(3,4) by (simp_all add: sorted_from_def)
  have "set m = set (dt_master s)" using assms(3) unfolding sorted_from_def by (metis set_mset_mset)
  then have ok: "keys_ok (col_kinds s) (map snd (sort_cols s)) (row_keys env s a)" if "a \<in> set m" for a
    using sortable_keys(2) [OF assms(1)] assms(2) that by auto
  show "\<not> ?R b a" if "a \<in> set m" "b \<in> set m" "?R a b" for a b
    using before_trans [of "col_kinds s" _ "?k a" "?k b" "?k a"] before_irrefl [of "col_kinds s" _ "?k a"]
      ok [OF that(1)] ok [OF that(2)] that(3) by auto
qed

lemma sort_master_result:
  assumes so: "sortable env s" and d: "distinct (dt_master s)" and r: "set (dt_master s) \<subseteq> {..<length (dt_data s)}"
  shows "\<exists>m. sort_master env s = Some m \<and> sorted_from env s m"
proof (cases "dt_sorting s = [] \<and> dt_sortFixed s = None")
  case True
  have c: "sort_cols s = []" using True by (simp add: sort_cols_def sort_columns_def aaSort_of_def)
  have "sorted_from env s (dt_master s)"
    using index_in_nth [OF d] by (simp add: sorted_from_def c sorted_wrt_iff_nth_less comes_before_def row_keys_def sort_data_def)
  then show ?thesis using True by (simp add: sort_master_def)
next
  case False
  have sd: "those (map (sort_data env s (sort_cols s)) [0..<length (dt_data s)]) =
      Some (map (row_keys env s) [0..<length (dt_data s)])"
    unfolding those_map_Some using sortable_keys(1) [OF so] by simp
  let ?cmp = "\<lambda>(a, p) (b, q). cmp_keys (map snd (sort_cols s))
      (map (row_keys env s) [0..<length (dt_data s)] ! a, int p) (map (row_keys env s) [0..<length (dt_data s)] ! b, int q)"
  have "sorted_from env s (map fst (array_sort ?cmp (zip (dt_master s) [0..<length (dt_master s)])))"
    by (rule sort_by_position [OF so d r]) (use r in \<open>simp add: subset_iff\<close>)
  then show ?thesis using False sd unfolding sort_master_def Let_def by (auto simp: sort_cols_def)
qed

text \<open>
  C6: Sorting gives a permutation of the rows in the order of their keys, column by column and each in its
  direction, with rows that agree left in their order; and any such permutation is what the table shows.
\<close>

theorem table_sort_exact:
  assumes "sortable env s" "distinct (dt_master s)" "set (dt_master s) \<subseteq> {..<length (dt_data s)}"
  shows "sort_master env s = Some m \<longleftrightarrow> sorted_from env s m"
  using sort_master_result [OF assms] by (auto dest: sorted_from_unique [OF assms(1,3)])

text \<open>Three rows, by their second column in descending order; the rows that agree in it keep their order.\<close>

definition sort_env :: dt_env where
  "sort_env = \<lparr>en_filter = True, en_sort = True, en_paginate = True, en_engine = (\<lambda>_ _ _. False), en_htmlText = id,
     en_dateParse = (\<lambda>_. None), en_custom = []\<rparr>"

definition sort_table :: dt_table where
  "sort_table =
     (let col = (\<lambda>i ty. \<lparr>co_type = Some ty, co_autoType = True, co_visible = True, co_searchable = True,
                   co_sortable = True, co_dataSort = [i], co_asSorting = [Asc, Desc], co_default = CNull\<rparr>);
          row = (\<lambda>n a b. \<lparr>ro_data = [CText a, CText b], ro_node = n, ro_cells = [a, b]\<rparr>);
          q = \<lparr>se_search = [], se_regex = False, se_smart = True, se_caseInsensitive = True\<rparr>
      in \<lparr>dt_columns = [col 0 TString, col 1 TNumeric],
          dt_data = [row 0 ''beta'' ''9'', row 1 ''Alpha'' ''10'', row 2 ''gamma'' ''9''],
          dt_master = [0, 1, 2], dt_display = [0, 1, 2], dt_dataSearch = [], dt_prev = q, dt_preCols = [q, q],
          dt_start = 0, dt_length = 10, dt_end = 3, dt_sorting = [(1, Desc, None)], dt_sortFixed = None,
          dt_rowIndex = (\<lambda>_. None), dt_nextNode = 3, dt_shown = ShowEmpty, dt_threw = False\<rparr>)"

lemma table_sort_exact_witness: "sort_master sort_env sort_table = Some [1, 0, 2] \<longleftrightarrow> sorted_from sort_env sort_table [1, 0, 2]"
proof (rule table_sort_exact)
  show "sortable sort_env sort_table" by code_simp
  show "distinct (dt_master sort_table)" by code_simp
  show "set (dt_master sort_table) \<subseteq> {..<length (dt_data sort_table)}"
    by (simp add: sort_table_def Let_def)
qed

lemma sort_table_result: "sort_master sort_env sort_table = Some [1, 0, 2]"
  by code_simp

end
