(* ===== verification/Dt_Table.thy ===== *)
theory Dt_Table
  imports Dt_Sort
begin

text \<open>
  Filtering, paging and the calls of the page (\<open>jquery.dataTables.js\<close>): \<open>_fnFilter\<close> with its refinement of the
  last result, \<open>_fnFilterColumn\<close>, \<open>_fnFilterCustom\<close>, \<open>_fnFilterComplete\<close>, \<open>_fnSort\<close> to its end, \<open>_fnReDraw\<close>,
  \<open>_fnPageChange\<close>, the length menu, and the functions of the API that change the table. A call that throws
  stops there (\<open>dt_threw\<close>).
\<close>

definition andThen :: "(dt_table \<Rightarrow> dt_table) \<Rightarrow> dt_table \<Rightarrow> dt_table" where
  "andThen f s = (if dt_threw s then s else f s)"

section \<open>Searchable text\<close>

text \<open>\<open>_fnBuildSearchRow\<close>\<close>

definition buildSearchRow :: "dt_env \<Rightarrow> dt_cell list \<Rightarrow> string" where
  "buildSearchRow env aData =
     (let sSearch = js_join ''  '' (map html_of aData)
      in flat_lines (if CHR ''&'' \<in> set sSearch then en_htmlText env sSearch else sSearch))"

definition searchRow :: "dt_env \<Rightarrow> dt_table \<Rightarrow> nat \<Rightarrow> string" where
  "searchRow env s i = buildSearchRow env (getRowData s i (getColumns co_searchable s))"

text \<open>\<open>_fnBuildSearchArray\<close>\<close>

definition buildSearchArray :: "dt_env \<Rightarrow> bool \<Rightarrow> dt_table \<Rightarrow> dt_table" where
  "buildSearchArray env iMaster s =
     s\<lparr>dt_dataSearch := map (searchRow env s) (if iMaster then dt_master s else dt_display s)\<rparr>"

text \<open>\<open>_fnDataToSearch\<close>; a number in a column of type \<open>html\<close> has no \<open>replace\<close>.\<close>

definition dataToSearch :: "dt_cell \<Rightarrow> dt_type option \<Rightarrow> string option" where
  "dataToSearch sData sType =
     (case sData of
        CNull \<Rightarrow> Some []
      | CText t \<Rightarrow> Some (if sType = Some THtml then strip_tags (flat_lines t) else flat_lines t)
      | CNum n \<Rightarrow> if sType = Some THtml then None else Some (show_int n))"

section \<open>Filters\<close>

definition search_test :: "dt_env \<Rightarrow> dt_search \<Rightarrow> string \<Rightarrow> bool" where
  "search_test env q =
     regexp_test (en_engine env) (filterCreateSearch (se_search q) (se_regex q) (se_smart q)) (se_caseInsensitive q)"

text \<open>
  The loop over \<open>asDataSearch\<close> when the old result is refined; \<open>k\<close> is \<open>i - iIndexCorrector\<close>, the place in
  \<open>aiDisplay\<close> that belongs to entry \<open>i\<close>.
\<close>

fun refine_display :: "(string \<Rightarrow> bool) \<Rightarrow> nat \<Rightarrow> string list \<Rightarrow> nat list \<Rightarrow> nat list" where
  "refine_display test k [] display = display"
| "refine_display test k (d # ds) display =
     (if test d then refine_display test (Suc k) ds display
      else refine_display test k ds (js_splice display k 1 []))"

text \<open>\<open>_fnFilter\<close>\<close>

definition filter_global :: "dt_env \<Rightarrow> dt_search \<Rightarrow> bool \<Rightarrow> dt_table \<Rightarrow> dt_table" where
  "filter_global env q iForce s =
     (let prev = se_search (dt_prev s) in
      if se_search q = [] then s\<lparr>dt_display := dt_master s\<rparr>
      else if length (dt_display s) = length (dt_master s) \<or> length prev > length (se_search q) \<or>
              iForce \<or> en_custom env \<noteq> [] \<or> \<not> prefix prev (se_search q) then
        let s = buildSearchArray env True s
        in s\<lparr>dt_display := map fst (filter (\<lambda>(i, d). search_test env q d) (zip (dt_master s) (dt_dataSearch s)))\<rparr>
      else s\<lparr>dt_display := refine_display (search_test env q) 0 (dt_dataSearch s) (dt_display s)\<rparr>)"

text \<open>
  The loop of \<open>_fnFilterColumn\<close> from the last row to the first: the rows that stay, in reverse, and whether
  a row has thrown, which leaves the rest as it was.
\<close>

fun filter_back :: "('a \<Rightarrow> bool option) \<Rightarrow> 'a list \<Rightarrow> 'a list \<times> bool" where
  "filter_back f [] = ([], False)"
| "filter_back f (k # ks) =
     (case f k of
        None \<Rightarrow> (k # ks, True)
      | Some b \<Rightarrow> (case filter_back f ks of (r, t) \<Rightarrow> (if b then k # r else r, t)))"

definition column_text :: "dt_table \<Rightarrow> nat \<Rightarrow> nat \<Rightarrow> string option" where
  "column_text s iColumn i = dataToSearch (getCellData s i iColumn False) (co_type (dt_columns s ! iColumn))"

definition filterColumn :: "dt_env \<Rightarrow> nat \<Rightarrow> dt_table \<Rightarrow> dt_table" where
  "filterColumn env iColumn s =
     (let q = dt_preCols s ! iColumn in
      if se_search q = [] then s
      else
        (case filter_back (\<lambda>i. map_option (search_test env q) (column_text s iColumn i)) (rev (dt_display s)) of
           (r, t) \<Rightarrow> s\<lparr>dt_display := rev r, dt_threw := t\<rparr>))"

text \<open>\<open>_fnFilterCustom\<close>: each function in turn drops rows from the display.\<close>

definition filterCustom :: "dt_env \<Rightarrow> dt_table \<Rightarrow> dt_table" where
  "filterCustom env s =
     fold (\<lambda>f s. s\<lparr>dt_display := filter (\<lambda>i. f (getRowData s i (getColumns co_searchable s)) i) (dt_display s)\<rparr>)
       (en_custom env) s"

text \<open>\<open>_fnFilterComplete\<close>\<close>

definition filterComplete :: "dt_env \<Rightarrow> dt_search \<Rightarrow> bool \<Rightarrow> dt_table \<Rightarrow> dt_table" where
  "filterComplete env oInput iForce s =
     (let s = (filter_global env oInput iForce s)\<lparr>dt_prev := oInput\<rparr>;
          s = fold (\<lambda>i. andThen (filterColumn env i)) [0..<length (dt_preCols s)] s
      in andThen (buildSearchArray env False)
           (andThen draw
             (andThen (\<lambda>s. calculateEnd env (s\<lparr>dt_start := 0\<rparr>))
               (andThen (filterCustom env) s))))"

text \<open>\<open>_fnSort\<close> and \<open>_fnReDraw\<close>\<close>

definition table_sort :: "dt_env \<Rightarrow> dt_table \<Rightarrow> dt_table" where
  "table_sort env s =
     (case sort_master env s of
        None \<Rightarrow> s\<lparr>dt_threw := True\<rparr>
      | Some m \<Rightarrow>
          let s = s\<lparr>dt_master := m\<rparr> in
          if en_filter env then filterComplete env (dt_prev s) True s
          else draw (calculateEnd env (s\<lparr>dt_display := dt_master s, dt_start := 0\<rparr>)))"

definition reDraw :: "dt_env \<Rightarrow> dt_table \<Rightarrow> dt_table" where
  "reDraw env s =
     (if en_sort env then table_sort env s
      else if en_filter env then filterComplete env (dt_prev s) False s
      else draw (calculateEnd env s))"

section \<open>Pages\<close>

datatype dt_page = First | Previous | Next | Last | PageNumber int

text \<open>
  \<open>parseInt(a / b, 10)\<close> for \<open>0 < b\<close>: the integer part, except that a quotient below \<open>10 ^ -6\<close> is written with
  an exponent, of which \<open>parseInt\<close> reads the first digit.
\<close>

function lead_digit :: "nat \<Rightarrow> nat \<Rightarrow> nat" where
  "lead_digit a b = (if a = 0 \<or> b \<le> a then a div b else lead_digit (10 * a) b)"
  by auto
termination
  by (relation "measure (\<lambda>(a, b). b - a)") auto

declare lead_digit.simps [simp del]

definition parse_quotient :: "int \<Rightarrow> int \<Rightarrow> int" where
  "parse_quotient a b =
     (if a \<noteq> 0 \<and> \<bar>a\<bar> * 1000000 < b then sgn a * int (lead_digit (nat \<bar>a\<bar>) (nat b))
      else sgn a * (\<bar>a\<bar> div b))"

text \<open>\<open>_fnPageChange\<close>; the display length is not 0.\<close>

definition pageChange :: "dt_page \<Rightarrow> dt_table \<Rightarrow> dt_table" where
  "pageChange mAction s =
     (let n = int (length (dt_display s)); len = dt_length s; start = dt_start s in
      s\<lparr>dt_start :=
         (case mAction of
            PageNumber p \<Rightarrow> if p * len > n then 0 else p * len
          | First \<Rightarrow> 0
          | Previous \<Rightarrow> if len \<ge> 0 then max 0 (start - len) else 0
          | Next \<Rightarrow> if len \<ge> 0 then (if start + len < n then start + len else start) else 0
          | Last \<Rightarrow> if len \<ge> 0 then (let iPages = parse_quotient (n - 1) len + 1 in (iPages - 1) * len) else 0)\<rparr>)"

text \<open>A click on a button of the pager draws only when the page has changed.\<close>

definition pager_click :: "dt_env \<Rightarrow> dt_page \<Rightarrow> dt_table \<Rightarrow> dt_table" where
  "pager_click env mAction s =
     (let t = pageChange mAction s in
      if dt_start s \<noteq> dt_start t then draw (calculateEnd env t) else t)"

text \<open>The length menu.\<close>

definition lengthChange :: "dt_env \<Rightarrow> int \<Rightarrow> dt_table \<Rightarrow> dt_table" where
  "lengthChange env iVal s =
     (let s = calculateEnd env (s\<lparr>dt_length := iVal\<rparr>);
          s = (if dt_end s = int (length (dt_display s)) then s\<lparr>dt_start := max 0 (dt_end s - dt_length s)\<rparr> else s);
          s = (if dt_length s = - 1 then s\<lparr>dt_start := 0\<rparr> else s)
      in draw s)"

section \<open>The API\<close>

definition fnAddData :: "dt_env \<Rightarrow> dt_cell list list \<Rightarrow> bool \<Rightarrow> dt_table \<Rightarrow> dt_table" where
  "fnAddData env mData bRedraw s =
     (if mData = [] then s
      else
        let s = fold (addData env) mData s;
            s = s\<lparr>dt_display := dt_master s\<rparr>
        in if bRedraw then reDraw env s else s)"

definition fnDeleteRow :: "dt_env \<Rightarrow> nat option \<Rightarrow> bool \<Rightarrow> dt_table \<Rightarrow> dt_table" where
  "fnDeleteRow env iAODataIndex bRedraw s =
     (let s = remove_row iAODataIndex s;
          s = (if dt_start s \<ge> int (length (dt_display s)) then s\<lparr>dt_start := max 0 (dt_start s - dt_length s)\<rparr> else s)
      in if bRedraw then draw (calculateEnd env s) else s)"

text \<open>\<open>asDataSearch[k] = v\<close>; entries that a gap leaves are \<open>undefined\<close>, which \<open>test\<close> reads as a word.\<close>

definition put_search :: "string list \<Rightarrow> nat \<Rightarrow> string \<Rightarrow> string list" where
  "put_search ds k v = (if k < length ds then ds[k := v] else ds @ replicate (k - length ds) ''undefined'' @ [v])"

definition update_search :: "dt_env \<Rightarrow> nat \<Rightarrow> dt_table \<Rightarrow> dt_table" where
  "update_search env iRow s =
     (case index_in iRow (dt_display s) of
        Some k \<Rightarrow> s\<lparr>dt_dataSearch := put_search (dt_dataSearch s) k (searchRow env s iRow)\<rparr>
      | None \<Rightarrow> s)"

text \<open>\<open>fnUpdate\<close> of one cell without a redraw; then of a row.\<close>

definition update_cell :: "dt_env \<Rightarrow> dt_cell \<Rightarrow> nat \<Rightarrow> nat \<Rightarrow> dt_table \<Rightarrow> dt_table" where
  "update_cell env mData iRow iColumn s =
     (let s = setCellData iRow iColumn mData s;
          row = dt_data s ! iRow;
          sDisplay = html_of (getCellData s iRow iColumn True);
          s = s\<lparr>dt_data := (dt_data s)[iRow := row\<lparr>ro_cells := (ro_cells row)[iColumn := sDisplay]\<rparr>]\<rparr>
      in update_search env iRow s)"

definition update_row :: "dt_env \<Rightarrow> dt_cell list \<Rightarrow> nat \<Rightarrow> dt_table \<Rightarrow> dt_table" where
  "update_row env mData iRow s =
     (let s = s\<lparr>dt_data := (dt_data s)[iRow := (dt_data s ! iRow)\<lparr>ro_data := mData\<rparr>]\<rparr>;
          s = fold (\<lambda>i s. update_cell env (getCellData s iRow i False) iRow i s) [0..<length (dt_columns s)] s
      in update_search env iRow s)"

definition fnDraw :: "dt_env \<Rightarrow> bool \<Rightarrow> dt_table \<Rightarrow> dt_table" where
  "fnDraw env bComplete s = (if bComplete then reDraw env s else draw (calculateEnd env s))"

definition fnFilter :: "dt_env \<Rightarrow> dt_search \<Rightarrow> nat option \<Rightarrow> dt_table \<Rightarrow> dt_table" where
  "fnFilter env q iColumn s =
     (if \<not> en_filter env then s
      else
        (case iColumn of
           None \<Rightarrow> filterComplete env q True s
         | Some i \<Rightarrow> filterComplete env (dt_prev s) True (s\<lparr>dt_preCols := (dt_preCols s)[i := q]\<rparr>)))"

text \<open>The \<open>keyup\<close> handler of the search field of \<open>_fnFeatureHtmlFilter\<close>.\<close>

definition filter_keyup :: "dt_env \<Rightarrow> string \<Rightarrow> dt_table \<Rightarrow> dt_table" where
  "filter_keyup env val s =
     (if val \<noteq> se_search (dt_prev s) then filterComplete env ((dt_prev s)\<lparr>se_search := val\<rparr>) False s else s)"

definition fnSort :: "dt_env \<Rightarrow> (nat \<times> dt_dir \<times> nat option) list \<Rightarrow> dt_table \<Rightarrow> dt_table" where
  "fnSort env aaSort s = table_sort env (s\<lparr>dt_sorting := aaSort\<rparr>)"

definition sort_click :: "dt_env \<Rightarrow> nat \<Rightarrow> bool \<Rightarrow> dt_table \<Rightarrow> dt_table" where
  "sort_click env iDataIndex shiftKey s =
     (if \<not> co_sortable (dt_columns s ! iDataIndex) then s
      else table_sort env (s\<lparr>dt_sorting := click_sorting s iDataIndex shiftKey\<rparr>))"

definition fnClearTable :: "dt_env \<Rightarrow> bool \<Rightarrow> dt_table \<Rightarrow> dt_table" where
  "fnClearTable env bRedraw s = (let s = clearTable env s in if bRedraw then draw s else s)"

definition fnPageChange :: "dt_env \<Rightarrow> dt_page \<Rightarrow> bool \<Rightarrow> dt_table \<Rightarrow> dt_table" where
  "fnPageChange env mAction bRedraw s =
     (let s = calculateEnd env (pageChange mAction s) in if bRedraw then draw s else s)"

end
