(* ===== verification/Dt_Filter_Props.thy ===== *)
theory Dt_Filter_Props
  imports Dt_Table
begin

text \<open>
  What filtering gives: after \<open>_fnFilterComplete\<close> the display holds the rows of the master array that match the
  global search, the column searches and the custom filters, in the order of the master array, whether the
  code has searched all rows or refined the last result; and the table shows the first page of them.
\<close>

section \<open>Tables of text\<close>

fun is_text :: "dt_cell \<Rightarrow> bool" where
  "is_text (CText _) = True"
| "is_text _ = False"

text \<open>Every row has a cell of text for each column: what a table read from the page has.\<close>

definition text_table :: "dt_table \<Rightarrow> bool" where
  "text_table s \<longleftrightarrow>
     (\<forall>r \<in> set (dt_data s). length (ro_data r) = length (dt_columns s) \<and> list_all is_text (ro_data r))"

lemma text_cell:
  assumes "text_table s" "i < length (dt_data s)" "c < length (dt_columns s)"
  obtains t where "getCellData s i c b = CText t" "ro_data (dt_data s ! i) ! c = CText t"
proof -
  have r: "dt_data s ! i \<in> set (dt_data s)" using assms by simp
  then have "is_text (ro_data (dt_data s ! i) ! c)"
    using assms unfolding text_table_def by (simp add: list_all_length)
  then obtain t where t: "ro_data (dt_data s ! i) ! c = CText t" by (cases "ro_data (dt_data s ! i) ! c") auto
  have "\<not> length (ro_data (dt_data s ! i)) \<le> c" using assms r unfolding text_table_def by auto
  then show ?thesis using t that by (simp add: getCellData_def Let_def)
qed

section \<open>Matching rows\<close>

definition global_match :: "dt_env \<Rightarrow> dt_table \<Rightarrow> dt_search \<Rightarrow> nat \<Rightarrow> bool" where
  "global_match env s q i \<longleftrightarrow> se_search q = [] \<or> search_test env q (searchRow env s i)"

definition column_match :: "dt_env \<Rightarrow> dt_table \<Rightarrow> nat \<Rightarrow> nat \<Rightarrow> bool" where
  "column_match env s c i \<longleftrightarrow>
     (let q = dt_preCols s ! c in
      se_search q = [] \<or> (case column_text s c i of Some t \<Rightarrow> search_test env q t | None \<Rightarrow> False))"

definition custom_match :: "dt_env \<Rightarrow> dt_table \<Rightarrow> nat \<Rightarrow> bool" where
  "custom_match env s i \<longleftrightarrow> (\<forall>f \<in> set (en_custom env). f (getRowData s i (getColumns co_searchable s)) i)"

text \<open>What the searches ask of a row.\<close>

definition row_matches :: "dt_env \<Rightarrow> dt_table \<Rightarrow> dt_search \<Rightarrow> nat \<Rightarrow> bool" where
  "row_matches env s q i \<longleftrightarrow>
     global_match env s q i \<and> (\<forall>c < length (dt_preCols s). column_match env s c i) \<and> custom_match env s i"

named_theorems view_simps \<open>fields that reading a cell does not look at\<close>

lemma getCellData_cong:
  "dt_columns s = dt_columns t \<Longrightarrow> dt_data s = dt_data t \<Longrightarrow> getCellData s = getCellData t"
  by (intro ext) (simp add: getCellData_def)

lemma getColumns_cong: "dt_columns s = dt_columns t \<Longrightarrow> getColumns p s = getColumns p t"
  by (simp add: getColumns_def)

lemma getRowData_cong:
  "dt_columns s = dt_columns t \<Longrightarrow> dt_data s = dt_data t \<Longrightarrow> getRowData s = getRowData t"
  using getCellData_cong [of s t] by (intro ext) (simp add: getRowData_def)

lemma searchRow_cong:
  "dt_columns s = dt_columns t \<Longrightarrow> dt_data s = dt_data t \<Longrightarrow> searchRow env s = searchRow env t"
  using getRowData_cong [of s t] getColumns_cong [of s t] by (intro ext) (simp add: searchRow_def)

lemma row_matches_cong:
  "dt_columns s = dt_columns t \<Longrightarrow> dt_data s = dt_data t \<Longrightarrow> dt_preCols s = dt_preCols t \<Longrightarrow>
   row_matches env s = row_matches env t"
  using getRowData_cong [of s t] getColumns_cong [of s t] searchRow_cong [of s t] getCellData_cong [of s t]
  by (intro ext) (simp add: row_matches_def global_match_def column_match_def custom_match_def column_text_def)

section \<open>The loops\<close>

lemma filter_back_all:
  "\<forall>x \<in> set xs. f x \<noteq> None \<Longrightarrow> filter_back f xs = (filter (the \<circ> f) xs, False)"
  by (induction xs) (auto split: option.splits)

lemma map_filter_zip: "map fst (filter (\<lambda>(i, d). P d) (zip xs (map g xs))) = filter (P \<circ> g) xs"
  by (induction xs) auto

lemma refine_aligned:
  "refine_display P (length ys) (map g xs) (ys @ xs) = ys @ filter (P \<circ> g) xs"
proof (induction xs arbitrary: ys)
  case (Cons x xs)
  show ?case
  proof (cases "P (g x)")
    case True
    then show ?thesis using Cons [of "ys @ [x]"] by simp
  next
    case False
    then show ?thesis using Cons [of ys] by (simp add: js_splice_def)
  qed
qed simp

lemma column_text_Some: "text_table s \<Longrightarrow> i < length (dt_data s) \<Longrightarrow> c < length (dt_columns s) \<Longrightarrow> column_text s c i \<noteq> None"
  by (erule (2) text_cell [of s i c False]) (simp add: column_text_def dataToSearch_def)

lemma filterColumn_text:
  assumes "text_table s" "set (dt_display s) \<subseteq> {..<length (dt_data s)}" "c < length (dt_columns s)"
    "\<not> dt_threw s"
  shows "filterColumn env c s = s\<lparr>dt_display := filter (column_match env s c) (dt_display s)\<rparr>"
proof (cases "se_search (dt_preCols s ! c) = []")
  case True
  then show ?thesis by (simp add: filterColumn_def column_match_def Let_def)
next
  case False
  let ?f = "\<lambda>i. map_option (search_test env (dt_preCols s ! c)) (column_text s c i)"
  have n: "\<forall>x \<in> set (rev (dt_display s)). ?f x \<noteq> None" using column_text_Some [OF assms(1)] assms(2,3) by auto
  have "filter (the \<circ> ?f) (dt_display s) = filter (column_match env s c) (dt_display s)"
    using n False by (intro filter_cong) (auto simp: column_match_def Let_def)
  then show ?thesis
    using False filter_back_all [OF n] assms(4) by (simp add: filterColumn_def Let_def rev_filter)
qed

lemma filterColumns_text:
  assumes "text_table s" "set (dt_display s) \<subseteq> {..<length (dt_data s)}" "n \<le> length (dt_columns s)"
    "\<not> dt_threw s"
  shows "fold (\<lambda>i. andThen (filterColumn env i)) [0..<n] s =
           s\<lparr>dt_display := filter (\<lambda>i. \<forall>c < n. column_match env s c i) (dt_display s)\<rparr>"
  using assms(3)
proof (induction n)
  case (Suc n)
  let ?t = "s\<lparr>dt_display := filter (\<lambda>i. \<forall>c < n. column_match env s c i) (dt_display s)\<rparr>"
  have "filterColumn env n ?t = ?t\<lparr>dt_display := filter (column_match env ?t n) (dt_display ?t)\<rparr>"
    by (rule filterColumn_text) (use assms Suc in \<open>auto simp: text_table_def\<close>)
  moreover have "column_match env ?t n = column_match env s n"
    using getCellData_cong [of ?t s] by (intro ext) (simp add: column_match_def column_text_def)
  ultimately show ?case
    using Suc assms(4) by (simp add: andThen_def conj_commute less_Suc_eq all_conj_distrib imp_conjL)
qed simp

lemma filterCustom_display:
  "filterCustom env s = s\<lparr>dt_display := filter (custom_match env s) (dt_display s)\<rparr>"
proof -
  have "fold (\<lambda>f s. s\<lparr>dt_display := filter (\<lambda>i. f (getRowData s i (getColumns co_searchable s)) i) (dt_display s)\<rparr>) fs s
      = s\<lparr>dt_display := filter (\<lambda>i. \<forall>f \<in> set fs. f (getRowData s i (getColumns co_searchable s)) i) (dt_display s)\<rparr>" for fs
  proof (induction fs arbitrary: s)
    case (Cons f fs)
    let ?t = "s\<lparr>dt_display := filter (\<lambda>i. f (getRowData s i (getColumns co_searchable s)) i) (dt_display s)\<rparr>"
    show ?case using Cons [of ?t] getRowData_cong [of ?t s] getColumns_cong [of ?t s] by (simp add: conj_commute)
  qed simp
  then show ?thesis by (simp add: filterCustom_def custom_match_def [abs_def])
qed

section \<open>The global filter\<close>

lemma search_row_flat: "\<forall>c \<in> set (searchRow env s i). \<not> line_end c"
  using flat_lines_flat by (auto simp: searchRow_def buildSearchRow_def Let_def)

lemma search_test_plain:
  assumes "\<not> se_regex q"
  shows "search_test env q (searchRow env s i) =
    plain_search (se_smart q) (se_caseInsensitive q) (se_search q) (searchRow env s i)"
  using assms regexp_plain_search [OF search_row_flat [of env s i]] by (simp add: search_test_def)

text \<open>The last result, as the code keeps it: the rows that match, and (unless these are all rows) their text
  beside them.\<close>

definition last_result :: "dt_env \<Rightarrow> dt_table \<Rightarrow> bool" where
  "last_result env s \<longleftrightarrow>
     dt_display s = filter (row_matches env s (dt_prev s)) (dt_master s) \<and>
     (length (dt_display s) \<noteq> length (dt_master s) \<longrightarrow> dt_dataSearch s = map (searchRow env s) (dt_display s))"

text \<open>A plain search with the flags of the last one, as the search field makes it.\<close>

definition same_flags :: "dt_search \<Rightarrow> dt_search \<Rightarrow> bool" where
  "same_flags p q \<longleftrightarrow>
     \<not> se_regex p \<and> \<not> se_regex q \<and> se_smart p = se_smart q \<and> se_caseInsensitive p = se_caseInsensitive q"

lemma global_match_extend:
  assumes "same_flags p q" "prefix (se_search p) (se_search q)" "global_match env s q i" "se_search q \<noteq> []"
  shows "global_match env s p i"
  using assms search_test_plain [of p env s i] search_test_plain [of q env s i]
  by (auto simp: global_match_def same_flags_def prefix_def plain_search_extend)

text \<open>The rows that the code keeps, whichever way it takes, once the other filters have been applied to them.\<close>

lemma filter_global_display:
  assumes "iForce \<or> last_result env s \<and> same_flags (dt_prev s) q"
  obtains D ds where "filter_global env q iForce s = s\<lparr>dt_display := D, dt_dataSearch := ds\<rparr>"
    "filter (\<lambda>i. (\<forall>c < length (dt_preCols s). column_match env s c i) \<and> custom_match env s i) D =
       filter (row_matches env s q) (dt_master s)" "set D \<subseteq> set (dt_master s)"
proof -
  let ?o = "\<lambda>i. (\<forall>c < length (dt_preCols s). column_match env s c i) \<and> custom_match env s i"
  let ?full = "length (dt_display s) = length (dt_master s) \<or> length (se_search (dt_prev s)) > length (se_search q) \<or>
              iForce \<or> en_custom env \<noteq> [] \<or> \<not> prefix (se_search (dt_prev s)) (se_search q)"
  have rm: "row_matches env s p i \<longleftrightarrow> global_match env s p i \<and> ?o i" for p i by (simp add: row_matches_def)
  show ?thesis
  proof (cases "se_search q = []")
    case True
    then have "filter_global env q iForce s = s\<lparr>dt_display := dt_master s, dt_dataSearch := dt_dataSearch s\<rparr>"
      by (simp add: filter_global_def)
    then show ?thesis
      by (rule that) (use True in \<open>auto simp: rm global_match_def intro!: filter_cong\<close>)
  next
    case n: False
    show ?thesis
    proof (cases ?full)
      case True
      let ?t = "buildSearchArray env True s"
      have "filter_global env q iForce s = s\<lparr>dt_display := filter (search_test env q \<circ> searchRow env s) (dt_master s),
          dt_dataSearch := map (searchRow env s) (dt_master s)\<rparr>"
        using n True map_filter_zip [of "search_test env q" "dt_master s" "searchRow env s"]
        by (simp add: filter_global_def buildSearchArray_def Let_def split_def)
      then show ?thesis
        by (rule that) (use n in \<open>auto simp: rm global_match_def comp_def intro!: filter_cong\<close>)
    next
      case False
      then have l: "last_result env s" "same_flags (dt_prev s) q" using assms by auto
      have p: "prefix (se_search (dt_prev s)) (se_search q)" using False by simp
      have "filter_global env q iForce s =
          s\<lparr>dt_display := filter (search_test env q \<circ> searchRow env s) (dt_display s), dt_dataSearch := dt_dataSearch s\<rparr>"
        using n False l(1) refine_aligned [of "search_test env q" "[]" "searchRow env s" "dt_display s"]
        by (simp add: filter_global_def last_result_def)
      then show ?thesis
      proof (rule that)
        show "filter ?o (filter (search_test env q \<circ> searchRow env s) (dt_display s)) = filter (row_matches env s q) (dt_master s)"
        proof -
          have e: "global_match env s q i \<Longrightarrow> global_match env s (dt_prev s) i" for i
            by (rule global_match_extend [OF l(2) p _ n])
          have "search_test env q \<circ> searchRow env s = global_match env s q"
            using n by (intro ext) (simp add: global_match_def)
          then show ?thesis using l(1) e by (auto simp: last_result_def rm intro!: filter_cong)
        qed
        show "set (filter (search_test env q \<circ> searchRow env s) (dt_display s)) \<subseteq> set (dt_master s)"
          using l(1) by (auto simp: last_result_def)
      qed
    qed
  qed
qed

end
