(* ===== verification/Dt_Invariant.thy ===== *)
theory Dt_Invariant
  imports Dt_Filter_Props Dt_Sort_Props
begin

text \<open>
  What a table keeps in every history: the arrays of indices fit the data, every node knows its row, the
  display is the filtered master array, and the page on show is the page of it that \<open>_iDisplayStart\<close> and
  \<open>_iDisplayLength\<close> say. The operations of \<open>Dt_Table\<close> are shown to keep it one by one.
\<close>

section \<open>Drawing a page\<close>

definition page_rows :: "dt_env \<Rightarrow> dt_table \<Rightarrow> 'a list \<Rightarrow> 'a list" where
  "page_rows env s xs =
     (let rest = drop (nat (dt_start s)) xs in
      if \<not> en_paginate env \<or> dt_length s = - 1 then rest else take (nat (dt_length s)) rest)"

definition page_view :: "dt_env \<Rightarrow> dt_table \<Rightarrow> nat list \<Rightarrow> dt_shown" where
  "page_view env s xs =
     (if xs = [] then ShowEmpty else ShowRows (map (\<lambda>k. ro_node (dt_data s ! k)) (page_rows env s xs)))"

definition display_length_ok :: "dt_table \<Rightarrow> bool" where
  "display_length_ok s \<longleftrightarrow> dt_length s > 0 \<or> dt_length s = - 1"

lemma map_nth_upto:
  assumes "0 \<le> a" "b \<le> int (length xs)"
  shows "map (\<lambda>j. xs ! nat j) [a..b - 1] = take (nat (b - a)) (drop (nat a) xs)"
  using assms by (intro nth_equalityI) (auto simp: nth_upto nat_add_distrib)

lemma calculateEnd_end:
  "dt_end (calculateEnd env s) =
     (if en_paginate env \<and> dt_length s \<noteq> - 1 then min (dt_start s + dt_length s) (int (length (dt_display s)))
      else int (length (dt_display s)))"
  by (auto simp: calculateEnd_def Let_def)

lemma calculateEnd_frame [simp]:
  "dt_columns (calculateEnd env s) = dt_columns s" "dt_data (calculateEnd env s) = dt_data s"
  "dt_master (calculateEnd env s) = dt_master s" "dt_display (calculateEnd env s) = dt_display s"
  "dt_dataSearch (calculateEnd env s) = dt_dataSearch s" "dt_prev (calculateEnd env s) = dt_prev s"
  "dt_preCols (calculateEnd env s) = dt_preCols s" "dt_start (calculateEnd env s) = dt_start s"
  "dt_length (calculateEnd env s) = dt_length s" "dt_sorting (calculateEnd env s) = dt_sorting s"
  "dt_sortFixed (calculateEnd env s) = dt_sortFixed s" "dt_rowIndex (calculateEnd env s) = dt_rowIndex s"
  "dt_nextNode (calculateEnd env s) = dt_nextNode s" "dt_shown (calculateEnd env s) = dt_shown s"
  "dt_threw (calculateEnd env s) = dt_threw s"
  by (simp_all add: calculateEnd_def Let_def)

lemma page_rows_end:
  assumes "0 \<le> dt_start s" "display_length_ok s"
  shows "take (nat (dt_end (calculateEnd env s) - dt_start s)) (drop (nat (dt_start s)) (dt_display s)) = page_rows env s (dt_display s)"
proof (cases "en_paginate env \<and> dt_length s \<noteq> - 1")
  case True
  then show ?thesis
    using assms by (auto simp: page_rows_def calculateEnd_end Let_def min_def display_length_ok_def nat_diff_distrib)
next
  case False
  then show ?thesis using assms by (auto simp: page_rows_def calculateEnd_end Let_def)
qed

lemma draw_page:
  assumes "set (dt_display s) \<subseteq> {..<length (dt_data s)}" "0 \<le> dt_start s" "display_length_ok s"
  shows "draw (calculateEnd env s) = (calculateEnd env s)\<lparr>dt_shown := page_view env s (dt_display s)\<rparr>"
proof -
  let ?t = "calculateEnd env s"
  have f: "dt_display ?t = dt_display s" "dt_start ?t = dt_start s" "dt_data ?t = dt_data s"
    by simp_all
  have e: "dt_end ?t \<le> int (length (dt_display s))" by (simp add: calculateEnd_end)
  have n: "node_at ?t j = Some (ro_node (dt_data s ! (dt_display s ! nat j)))" if "j \<in> set [dt_start s..dt_end ?t - 1]" for j
  proof -
    have "0 \<le> j" "nat j < length (dt_display s)" using that e assms(2) by auto
    moreover have "dt_display s ! nat j < length (dt_data s)" using assms(1) calculation nth_mem by blast
    ultimately show ?thesis using f by (simp add: node_at_def js_nth_def)
  qed
  have "those (map (node_at ?t) [dt_start s..dt_end ?t - 1]) =
      Some (map (\<lambda>j. ro_node (dt_data s ! (dt_display s ! nat j))) [dt_start s..dt_end ?t - 1])"
    using n by (induction "[dt_start s..dt_end ?t - 1]") (auto simp: those_map_Some)
  moreover have "map (\<lambda>j. ro_node (dt_data s ! (dt_display s ! nat j))) [dt_start s..dt_end ?t - 1] =
      map (\<lambda>k. ro_node (dt_data s ! k)) (page_rows env s (dt_display s))"
    using map_nth_upto [OF assms(2) e] page_rows_end [OF assms(2,3), of env]
    by (metis (no_types, lifting) comp_apply list.map_comp map_eq_conv)
  ultimately show ?thesis by (simp add: draw_def f page_view_def calculateEnd_def Let_def)
qed

section \<open>\<open>_fnFilterComplete\<close>, sorting and redrawing\<close>

definition table_wf :: "dt_table \<Rightarrow> bool" where
  "table_wf s \<longleftrightarrow>
     distinct (dt_master s) \<and> set (dt_master s) = {..<length (dt_data s)} \<and> text_table s \<and>
     length (dt_preCols s) = length (dt_columns s) \<and>
     (\<forall>c \<in> set (dt_columns s). set (co_dataSort c) \<subseteq> {..<length (dt_columns s)} \<and> co_asSorting c \<noteq> []) \<and>
     (\<forall>e \<in> set (aaSort_of s). fst e < length (dt_columns s)) \<and>
     (\<forall>i < length (dt_data s). dt_rowIndex s (ro_node (dt_data s ! i)) = Some i \<and> ro_node (dt_data s ! i) < dt_nextNode s) \<and>
     (\<forall>r \<in> set (dt_data s). length (ro_cells r) = length (dt_columns s))"

text \<open>The page begins at a row, at the first one when all rows are on one page.\<close>

definition page_start_ok :: "dt_table \<Rightarrow> bool" where
  "page_start_ok s \<longleftrightarrow>
     dt_display s = [] \<or>
     dt_start s < int (length (dt_display s)) \<and> (dt_length s = - 1 \<longrightarrow> dt_start s = 0)"

definition table_inv :: "dt_env \<Rightarrow> dt_table \<Rightarrow> bool" where
  "table_inv env s \<longleftrightarrow>
     table_wf s \<and> display_length_ok s \<and> \<not> dt_threw s \<and> last_result env s \<and> \<not> se_regex (dt_prev s) \<and>
     0 \<le> dt_start s \<and> page_start_ok s \<and>
     dt_end s = dt_end (calculateEnd env s) \<and> dt_shown s = page_view env s (dt_display s)"

text \<open>The fields that the structure of a table rests on.\<close>

lemma table_wf_cong:
  "dt_master s = dt_master t \<Longrightarrow> dt_data s = dt_data t \<Longrightarrow> dt_columns s = dt_columns t \<Longrightarrow>
   dt_preCols s = dt_preCols t \<Longrightarrow> dt_sorting s = dt_sorting t \<Longrightarrow> dt_sortFixed s = dt_sortFixed t \<Longrightarrow>
   dt_rowIndex s = dt_rowIndex t \<Longrightarrow> dt_nextNode s = dt_nextNode t \<Longrightarrow> table_wf s = table_wf t"
  unfolding table_wf_def text_table_def aaSort_of_def by (simp only:)

lemma filterComplete_text:
  assumes tt: "text_table s" and m: "set (dt_master s) \<subseteq> {..<length (dt_data s)}" and th: "\<not> dt_threw s"
    and pc: "length (dt_preCols s) \<le> length (dt_columns s)" and lo: "display_length_ok s"
    and how: "iForce \<or> last_result env s \<and> same_flags (dt_prev s) q"
  shows "\<exists>D. D = filter (row_matches env s q) (dt_master s) \<and>
     filterComplete env q iForce s =
       (calculateEnd env (s\<lparr>dt_prev := q, dt_display := D, dt_start := 0\<rparr>))
         \<lparr>dt_dataSearch := map (searchRow env s) D, dt_shown := page_view env (s\<lparr>dt_start := 0\<rparr>) D\<rparr>"
proof -
  obtain D0 ds where g: "filter_global env q iForce s = s\<lparr>dt_display := D0, dt_dataSearch := ds\<rparr>"
    and D: "filter (\<lambda>i. (\<forall>c < length (dt_preCols s). column_match env s c i) \<and> custom_match env s i) D0 =
       filter (row_matches env s q) (dt_master s)" and sub: "set D0 \<subseteq> set (dt_master s)"
    by (rule filter_global_display [OF how]) (rule that)
  let ?D = "filter (row_matches env s q) (dt_master s)"
  let ?t = "s\<lparr>dt_display := D0, dt_dataSearch := ds, dt_prev := q\<rparr>"
  have cm: "column_match env ?t c = column_match env s c" for c
    using getCellData_cong [of ?t s] by (intro ext) (simp add: column_match_def column_text_def)
  have "fold (\<lambda>i. andThen (filterColumn env i)) [0..<length (dt_preCols s)] ?t =
      ?t\<lparr>dt_display := filter (\<lambda>i. \<forall>c < length (dt_preCols s). column_match env ?t c i) (dt_display ?t)\<rparr>"
    by (rule filterColumns_text) (use tt sub m pc th in \<open>auto simp: text_table_def\<close>)
  then have c: "fold (\<lambda>i. andThen (filterColumn env i)) [0..<length (dt_preCols s)] ?t =
      ?t\<lparr>dt_display := filter (\<lambda>i. \<forall>c < length (dt_preCols s). column_match env s c i) D0\<rparr>" (is "_ = ?u") by (simp add: cm)
  have cu: "custom_match env ?u = custom_match env s"
    using getRowData_cong [of ?u s] getColumns_cong [of ?u s] by (intro ext) (simp add: custom_match_def)
  have "filterCustom env ?u = s\<lparr>dt_display := ?D, dt_dataSearch := ds, dt_prev := q\<rparr>"
    using filterCustom_display [of env ?u] D unfolding cu by (simp add: conj_commute)
  moreover have "draw (calculateEnd env (s\<lparr>dt_display := ?D, dt_dataSearch := ds, dt_prev := q, dt_start := 0\<rparr>)) =
      (calculateEnd env (s\<lparr>dt_display := ?D, dt_dataSearch := ds, dt_prev := q, dt_start := 0\<rparr>))
        \<lparr>dt_shown := page_view env (s\<lparr>dt_start := 0\<rparr>) ?D\<rparr>"
    using m lo by (subst draw_page) (auto simp: display_length_ok_def page_view_def page_rows_def Let_def)
  moreover have "searchRow env (calculateEnd env (s\<lparr>dt_display := ?D, dt_dataSearch := ds, dt_prev := q, dt_start := 0\<rparr>)
        \<lparr>dt_shown := page_view env (s\<lparr>dt_start := 0\<rparr>) ?D\<rparr>) = searchRow env s"
    by (rule searchRow_cong) simp_all
  ultimately have "filterComplete env q iForce s =
       (calculateEnd env (s\<lparr>dt_display := ?D, dt_dataSearch := ds, dt_prev := q, dt_start := 0\<rparr>))
         \<lparr>dt_shown := page_view env (s\<lparr>dt_start := 0\<rparr>) ?D, dt_dataSearch := map (searchRow env s) ?D\<rparr>"
    using th unfolding filterComplete_def Let_def g by (simp add: c andThen_def buildSearchArray_def)
  also have "\<dots> = (calculateEnd env (s\<lparr>dt_prev := q, dt_display := ?D, dt_start := 0\<rparr>))
         \<lparr>dt_dataSearch := map (searchRow env s) ?D, dt_shown := page_view env (s\<lparr>dt_start := 0\<rparr>) ?D\<rparr>"
    by (simp add: calculateEnd_def Let_def)
  finally have "filterComplete env q iForce s =
       (calculateEnd env (s\<lparr>dt_prev := q, dt_display := ?D, dt_start := 0\<rparr>))
         \<lparr>dt_dataSearch := map (searchRow env s) ?D, dt_shown := page_view env (s\<lparr>dt_start := 0\<rparr>) ?D\<rparr>" .
  then show ?thesis by blast
qed

lemma filterComplete_inv:
  assumes wf: "table_wf s" and lo: "display_length_ok s" and th: "\<not> dt_threw s" and q: "\<not> se_regex q"
    and how: "iForce \<or> last_result env s \<and> same_flags (dt_prev s) q"
  shows "table_inv env (filterComplete env q iForce s)"
proof -
  let ?D = "filter (row_matches env s q) (dt_master s)"
  let ?t = "(calculateEnd env (s\<lparr>dt_prev := q, dt_display := ?D, dt_start := 0\<rparr>))
         \<lparr>dt_dataSearch := map (searchRow env s) ?D, dt_shown := page_view env (s\<lparr>dt_start := 0\<rparr>) ?D\<rparr>"
  have e: "filterComplete env q iForce s = ?t"
    using filterComplete_text [OF _ _ th _ lo how] wf by (auto simp: table_wf_def)
  have "searchRow env ?t = searchRow env s" by (rule searchRow_cong) simp_all
  moreover have "row_matches env ?t = row_matches env s" by (rule row_matches_cong) simp_all
  moreover have "table_wf ?t = table_wf s" by (rule table_wf_cong) simp_all
  moreover have "display_length_ok ?t" using lo by (simp add: display_length_ok_def)
  moreover have "page_view env ?t ?D = page_view env (s\<lparr>dt_start := 0\<rparr>) ?D"
    by (simp add: page_view_def page_rows_def Let_def)
  moreover have "dt_end ?t = dt_end (calculateEnd env ?t)" by (simp add: calculateEnd_end)
  ultimately show ?thesis using wf th q unfolding e table_inv_def last_result_def by (simp add: page_start_ok_def)
qed

lemma those_Some: "(\<And>x. x \<in> set xs \<Longrightarrow> f x \<noteq> None) \<Longrightarrow> those (map f xs) = Some (map (the \<circ> f) xs)"
  by (simp add: those_map_Some)

lemma sort_pre_text: "sort_pre env ty (CText t) \<noteq> None"
  by (auto simp: sort_pre_def split: dt_type.splits)

lemma sort_cols_range:
  assumes "table_wf s" "(c, d) \<in> set (sort_cols s)"
  shows "c < length (dt_columns s)"
proof -
  obtain e where e: "e \<in> set (aaSort_of s)" "c \<in> set (co_dataSort (dt_columns s ! fst e))"
    using assms(2) by (auto simp: sort_cols_def sort_columns_def)
  moreover have "fst e < length (dt_columns s)" using assms(1) e(1) by (auto simp: table_wf_def)
  ultimately show ?thesis using assms(1) nth_mem by (fastforce simp: table_wf_def)
qed

lemma sort_master_text:
  assumes "table_wf s"
  obtains m where "sort_master env s = Some m" "mset m = mset (dt_master s)"
proof (cases "dt_sorting s = [] \<and> dt_sortFixed s = None")
  case True
  then show ?thesis using that [of "dt_master s"] by (simp add: sort_master_def)
next
  case False
  have "sort_data env s (sort_cols s) i \<noteq> None" if i: "i < length (dt_data s)" for i
  proof -
    have "sort_pre env (type_of (dt_columns s ! c)) (getCellData s i c False) \<noteq> None" if "(c, d) \<in> set (sort_cols s)" for c d
      using assms i sort_cols_range [OF assms that] sort_pre_text
      by (metis text_cell table_wf_def)
    then show ?thesis unfolding sort_data_def by (subst those_Some) auto
  qed
  then have "those (map (sort_data env s (sort_cols s)) [0..<length (dt_data s)]) =
      Some (map (the \<circ> sort_data env s (sort_cols s)) [0..<length (dt_data s)])"
    by (intro those_Some) auto
  then obtain cmp where m: "sort_master env s = Some (map fst (array_sort cmp (zip (dt_master s) [0..<length (dt_master s)])))"
    using False by (auto simp: sort_master_def Let_def sort_cols_def)
  have "mset (map fst (array_sort cmp (zip (dt_master s) [0..<length (dt_master s)]))) = mset (dt_master s)"
    by (simp only: mset_map mset_array_sort) (simp flip: mset_map)
  then show ?thesis using m that by blast
qed

lemma table_sort_inv:
  assumes wf: "table_wf s" and "display_length_ok s" "\<not> dt_threw s" "\<not> se_regex (dt_prev s)" "en_filter env"
  shows "table_inv env (table_sort env s)"
proof -
  obtain m where m: "sort_master env s = Some m" "mset m = mset (dt_master s)" by (rule sort_master_text [OF wf])
  then have "distinct m" "set m = set (dt_master s)"
    using wf mset_eq_imp_distinct_iff [OF m(2)] mset_eq_setD [OF m(2)] by (simp_all add: table_wf_def)
  then have "table_wf (s\<lparr>dt_master := m\<rparr>)" using wf by (simp add: table_wf_def text_table_def aaSort_of_def cong: option.case_cong)
  then have "table_inv env (filterComplete env (dt_prev s) True (s\<lparr>dt_master := m\<rparr>))"
    by (rule filterComplete_inv) (use assms in \<open>auto simp: display_length_ok_def\<close>)
  then show ?thesis using m(1) assms(5) by (simp add: table_sort_def)
qed

lemma reDraw_inv:
  assumes "table_wf s" "display_length_ok s" "\<not> dt_threw s" "\<not> se_regex (dt_prev s)" "en_filter env" "en_sort env"
  shows "table_inv env (reDraw env s)"
  using table_sort_inv [OF assms(1-5)] assms(6) by (simp add: reDraw_def)

lemma draw_inv:
  assumes wf: "table_wf s" and "display_length_ok s" "\<not> dt_threw s" "last_result env s" "\<not> se_regex (dt_prev s)"
    and st: "0 \<le> dt_start s" "page_start_ok s"
  shows "table_inv env (draw (calculateEnd env s))"
proof -
  have sub: "set (dt_display s) \<subseteq> {..<length (dt_data s)}" using assms by (auto simp: table_wf_def last_result_def)
  let ?t = "(calculateEnd env s)\<lparr>dt_shown := page_view env s (dt_display s)\<rparr>"
  have "searchRow env ?t = searchRow env s" by (rule searchRow_cong) simp_all
  moreover have "row_matches env ?t = row_matches env s" by (rule row_matches_cong) simp_all
  moreover have "table_wf ?t = table_wf s" by (rule table_wf_cong) simp_all
  moreover have "page_view env ?t (dt_display s) = page_view env s (dt_display s)" by (simp add: page_view_def page_rows_def Let_def)
  moreover have "dt_end ?t = dt_end (calculateEnd env ?t)" by (simp add: calculateEnd_end)
  moreover have "display_length_ok ?t = display_length_ok s" by (simp add: display_length_ok_def)
  ultimately show ?thesis
    using assms unfolding draw_page [OF sub st(1) assms(2)] table_inv_def last_result_def by (simp add: page_start_ok_def)
qed

section \<open>Adding rows\<close>

abbreviation col_shape :: "dt_column \<Rightarrow> dt_column" where
  "col_shape c \<equiv> c\<lparr>co_type := None\<rparr>"

lemma columnType_shape: "col_shape (columnType env v c) = col_shape c"
  by (simp add: columnType_def Let_def)

lemma shapes_eq:
  assumes "map col_shape cs = map col_shape ds"
  shows "length cs = length ds" "i < length ds \<Longrightarrow> col_shape (cs ! i) = col_shape (ds ! i)"
  using assms by (auto dest: map_eq_imp_length_eq) (metis assms length_map nth_map)

lemma shape_fields: "col_shape c = col_shape d \<Longrightarrow> co_dataSort c = co_dataSort d \<and> co_asSorting c = co_asSorting d"
  by (metis dt_column.select_convs(6,7) dt_column.surjective dt_column.update_convs(1))

text \<open>Storing a cell of text where it is changes nothing, so that the loop of \<open>_fnAddData\<close> finds the types only.\<close>

lemma add_column_text:
  assumes "iRow < length (dt_data s)" "i < length (ro_data (dt_data s ! iRow))" "list_all is_text (ro_data (dt_data s ! iRow))"
  shows "\<exists>c. add_column env iRow i s = s\<lparr>dt_columns := (dt_columns s)[i := columnType env c (dt_columns s ! i)]\<rparr>"
proof -
  have "is_text (ro_data (dt_data s ! iRow) ! i)" using assms by (simp add: list_all_length)
  then obtain t where t: "ro_data (dt_data s ! iRow) ! i = CText t" by (cases "ro_data (dt_data s ! iRow) ! i") auto
  have g: "getCellData s iRow i False = CText t" using assms t by (simp add: getCellData_def)
  have "put_cell (ro_data (dt_data s ! iRow)) i (CText t) = ro_data (dt_data s ! iRow)"
    using assms t by (metis list_update_id put_cell_def)
  then have "setCellData iRow i (CText t) s = s" by (simp add: setCellData_def)
  then show ?thesis using g by (auto simp: add_column_def)
qed

lemma add_columns_text:
  assumes "iRow < length (dt_data s)" "n \<le> length (ro_data (dt_data s ! iRow))" "list_all is_text (ro_data (dt_data s ! iRow))"
  shows "\<exists>cs. fold (add_column env iRow) [0..<n] s = s\<lparr>dt_columns := cs\<rparr> \<and> map col_shape cs = map col_shape (dt_columns s)"
  using assms(2)
proof (induction n)
  case 0
  then show ?case by (intro exI [of _ "dt_columns s"]) simp
next
  case (Suc n)
  then obtain cs where cs: "fold (add_column env iRow) [0..<n] s = s\<lparr>dt_columns := cs\<rparr>"
    "map col_shape cs = map col_shape (dt_columns s)" by auto
  obtain c where c: "add_column env iRow n (s\<lparr>dt_columns := cs\<rparr>) = s\<lparr>dt_columns := cs[n := columnType env c (cs ! n)]\<rparr>"
    using add_column_text [of iRow "s\<lparr>dt_columns := cs\<rparr>" n env] assms Suc.prems by auto
  have "map col_shape (cs[n := columnType env c (cs ! n)]) = map col_shape cs"
    by (simp add: map_update columnType_shape) (metis list_update_id map_update)
  then show ?case using cs c by auto
qed

definition text_row :: "dt_table \<Rightarrow> dt_cell list \<Rightarrow> bool" where
  "text_row s row \<longleftrightarrow> length row = length (dt_columns s) \<and> list_all is_text row"

lemma addData_fields:
  assumes "text_row s row"
  shows "\<exists>cs. addData env row s =
     s\<lparr>dt_columns := cs, dt_data := dt_data s @ [\<lparr>ro_data = row, ro_node = dt_nextNode s, ro_cells = map html_of row\<rparr>],
       dt_master := dt_master s @ [length (dt_data s)],
       dt_rowIndex := (dt_rowIndex s)(dt_nextNode s := Some (length (dt_data s))), dt_nextNode := Suc (dt_nextNode s)\<rparr> \<and>
     map col_shape cs = map col_shape (dt_columns s)"
proof -
  let ?s = "s\<lparr>dt_data := dt_data s @ [\<lparr>ro_data = row, ro_node = 0, ro_cells = []\<rparr>]\<rparr>"
  obtain cs where cs: "fold (add_column env (length (dt_data s))) [0..<length (dt_columns ?s)] ?s = ?s\<lparr>dt_columns := cs\<rparr>"
    "map col_shape cs = map col_shape (dt_columns s)"
    using add_columns_text [of "length (dt_data s)" ?s "length (dt_columns s)" env] assms by (auto simp: text_row_def)
  let ?t = "?s\<lparr>dt_columns := cs, dt_master := dt_master s @ [length (dt_data s)]\<rparr>"
  have l: "length row = length cs" using assms shapes_eq(1) [OF cs(2)] by (simp add: text_row_def)
  have "getCellData ?t (length (dt_data s)) i True = row ! i" if i: "i < length cs" for i
  proof -
    have "is_text (row ! i)" using assms i l by (simp add: text_row_def list_all_length)
    then show ?thesis using i l by (cases "row ! i") (simp_all add: getCellData_def)
  qed
  then have c: "map (\<lambda>i. html_of (getCellData ?t (length (dt_data s)) i True)) [0..<length cs] = map html_of row"
    using l by (intro nth_equalityI) simp_all
  have "addData env row s =
     s\<lparr>dt_columns := cs, dt_data := dt_data s @ [\<lparr>ro_data = row, ro_node = dt_nextNode s, ro_cells = map html_of row\<rparr>],
       dt_master := dt_master s @ [length (dt_data s)],
       dt_rowIndex := (dt_rowIndex s)(dt_nextNode s := Some (length (dt_data s))), dt_nextNode := Suc (dt_nextNode s)\<rparr>"
    unfolding addData_def Let_def cs(1) createTr_def using c by simp
  then show ?thesis using cs(2) by blast
qed

lemma addData_wf:
  assumes wf: "table_wf s" and row: "text_row s row"
  shows "table_wf (addData env row s)"
proof -
  obtain cs where a: "addData env row s =
     s\<lparr>dt_columns := cs, dt_data := dt_data s @ [\<lparr>ro_data = row, ro_node = dt_nextNode s, ro_cells = map html_of row\<rparr>],
       dt_master := dt_master s @ [length (dt_data s)],
       dt_rowIndex := (dt_rowIndex s)(dt_nextNode s := Some (length (dt_data s))), dt_nextNode := Suc (dt_nextNode s)\<rparr>"
    and sh: "map col_shape cs = map col_shape (dt_columns s)"
    using addData_fields [OF row, of env] by blast
  have l: "length cs = length (dt_columns s)" by (rule shapes_eq(1) [OF sh])
  have "set (co_dataSort c) \<subseteq> {..<length cs} \<and> co_asSorting c \<noteq> []" if c: "c \<in> set cs" for c
  proof -
    obtain i where i: "i < length cs" "c = cs ! i" using c by (auto simp: in_set_conv_nth)
    then have f: "co_dataSort c = co_dataSort (dt_columns s ! i) \<and> co_asSorting c = co_asSorting (dt_columns s ! i)"
      using shape_fields [OF shapes_eq(2) [OF sh]] l by simp
    have "dt_columns s ! i \<in> set (dt_columns s)" using i l by simp
    then have "set (co_dataSort (dt_columns s ! i)) \<subseteq> {..<length (dt_columns s)} \<and> co_asSorting (dt_columns s ! i) \<noteq> []"
      using wf unfolding table_wf_def by blast
    then show ?thesis using f l by simp
  qed
  then show ?thesis
    using wf row l unfolding a table_wf_def text_table_def
    by (auto simp: text_row_def nth_append less_Suc_eq aaSort_of_def cong: option.case_cong)
qed

lemma addData_frame:
  assumes "text_row s row"
  shows "dt_length (addData env row s) = dt_length s" "dt_threw (addData env row s) = dt_threw s"
    "dt_prev (addData env row s) = dt_prev s" "length (dt_columns (addData env row s)) = length (dt_columns s)"
proof -
  obtain cs where a: "addData env row s =
     s\<lparr>dt_columns := cs, dt_data := dt_data s @ [\<lparr>ro_data = row, ro_node = dt_nextNode s, ro_cells = map html_of row\<rparr>],
       dt_master := dt_master s @ [length (dt_data s)],
       dt_rowIndex := (dt_rowIndex s)(dt_nextNode s := Some (length (dt_data s))), dt_nextNode := Suc (dt_nextNode s)\<rparr>"
    and sh: "map col_shape cs = map col_shape (dt_columns s)"
    using addData_fields [OF assms, of env] by blast
  show "dt_length (addData env row s) = dt_length s" "dt_threw (addData env row s) = dt_threw s"
    "dt_prev (addData env row s) = dt_prev s" "length (dt_columns (addData env row s)) = length (dt_columns s)"
    unfolding a using shapes_eq(1) [OF sh] by simp_all
qed

lemma addRows_keep:
  assumes "table_wf s" "\<forall>row \<in> set rows. text_row s row"
  shows "table_wf (fold (addData env) rows s) \<and> dt_length (fold (addData env) rows s) = dt_length s \<and>
    dt_threw (fold (addData env) rows s) = dt_threw s \<and> dt_prev (fold (addData env) rows s) = dt_prev s"
  using assms
proof (induction rows arbitrary: s)
  case (Cons row rows)
  then show ?case
    using addData_wf [of s row env] addData_frame [of s row env] Cons.IH [of "addData env row s"]
    by (simp add: text_row_def)
qed simp

lemma fnAddData_inv:
  assumes "table_inv env s" "\<forall>row \<in> set rows. text_row s row" "en_filter env" "en_sort env"
  shows "table_inv env (fnAddData env rows True s)"
proof (cases "rows = []")
  case True
  then show ?thesis using assms(1) by (simp add: fnAddData_def)
next
  case False
  let ?t = "fold (addData env) rows s"
  have k: "table_wf ?t" "dt_length ?t = dt_length s" "\<not> dt_threw ?t" "dt_prev ?t = dt_prev s"
    using addRows_keep [of s rows env] assms(1,2) by (auto simp: table_inv_def)
  have "table_wf (?t\<lparr>dt_display := dt_master ?t\<rparr>) = table_wf ?t" by (rule table_wf_cong) simp_all
  then have "table_inv env (reDraw env (?t\<lparr>dt_display := dt_master ?t\<rparr>))"
    by (intro reDraw_inv) (use k assms in \<open>auto simp: table_inv_def display_length_ok_def\<close>)
  then show ?thesis using False by (simp add: fnAddData_def Let_def)
qed

end
