(* ===== verification/Dt_Rows.thy ===== *)
theory Dt_Rows
  imports Dt_Invariant
begin

text \<open>
  Deleting and updating rows: the indices of the other rows move with their data, so that they stay on show;
  a row that is deleted while the filter hides it leaves the search array one entry short.
\<close>

section \<open>Indices\<close>

definition dec_above :: "nat \<Rightarrow> nat \<Rightarrow> nat" where
  "dec_above t x = (if x > t then x - 1 else x)"

lemma index_in_None: "index_in x xs = None \<longleftrightarrow> x \<notin> set xs"
  by (induction xs) auto

lemma index_in_append: "x \<notin> set xs \<Longrightarrow> index_in x (xs @ x # ys) = Some (length xs)"
  by (induction xs) auto

lemma deleteIndex_distinct:
  assumes "distinct a"
  shows "deleteIndex a (Some t) = map (dec_above t) (filter (\<lambda>x. x \<noteq> t) a)"
proof (cases "t \<in> set a")
  case False
  then have "filter (\<lambda>x. x \<noteq> t) a = a" by (auto simp: filter_id_conv)
  moreover have "index_in (Some t) (rev (map Some a)) = None" using False by (auto simp: index_in_None)
  ultimately show ?thesis using False by (auto simp: deleteIndex_def dec_above_def)
next
  case True
  then obtain xs ys where a: "a = xs @ t # ys" by (meson split_list)
  have n: "t \<notin> set xs" "t \<notin> set ys" using assms a by auto
  have "index_in (Some t) (rev (map Some a)) = Some (length ys)"
    using index_in_append [of "Some t" "rev (map Some ys)" "rev (map Some xs)"] n by (simp add: a image_iff)
  moreover have "filter (\<lambda>x. x \<noteq> t) xs = xs" "filter (\<lambda>x. x \<noteq> t) ys = ys" using n by (auto simp: filter_id_conv)
  moreover have "(\<lambda>x. if Some x \<noteq> Some t \<and> t < x then x - 1 else x) = dec_above t" by (auto simp: dec_above_def)
  ultimately show ?thesis by (simp add: deleteIndex_def a js_splice_def)
qed

lemma dec_above_inj: "inj_on (dec_above t) (- {t})"
  by (auto simp: inj_on_def dec_above_def split: if_splits)

lemma dec_above_image: "t < n \<Longrightarrow> dec_above t ` ({..<n} - {t}) = {..<n - 1}"
proof (intro equalityI subsetI)
  fix x assume "t < n" "x \<in> {..<n - 1}"
  then show "x \<in> dec_above t ` ({..<n} - {t})"
    by (intro image_eqI [of _ _ "if x < t then x else Suc x"]) (auto simp: dec_above_def)
qed (auto simp: dec_above_def)

lemma nth_splice_dec: "t < length xs \<Longrightarrow> k < length xs \<Longrightarrow> k \<noteq> t \<Longrightarrow> js_splice xs t 1 [] ! dec_above t k = xs ! k"
  by (auto simp: js_splice_def dec_above_def nth_append)

text \<open>\<open>reindex\<close>: every node of a row gets the index of that row.\<close>

lemma fold_index_other:
  "x \<notin> ro_node ` set rs \<Longrightarrow> fold (\<lambda>(i, r) f. f(ro_node r := Some i)) (enumerate n rs) f x = f x"
  by (induction rs arbitrary: n f) auto

lemma fold_index:
  assumes "distinct (map ro_node rs)" "i < length rs"
  shows "fold (\<lambda>(i, r) f. f(ro_node r := Some i)) (enumerate n rs) f (ro_node (rs ! i)) = Some (n + i)"
  using assms
proof (induction rs arbitrary: n f i)
  case (Cons r rs)
  show ?case
  proof (cases i)
    case 0
    then show ?thesis using Cons.prems fold_index_other [of "ro_node r" rs "Suc n" "f(ro_node r := Some n)"]
      by (simp del: fun_upd_apply) simp
  next
    case (Suc j)
    then show ?thesis using Cons.prems Cons.IH [of j "Suc n" "f(ro_node r := Some n)"] by (simp del: fun_upd_apply)
  qed
qed simp

lemma nodes_distinct:
  assumes "\<forall>i < length rs. f (ro_node (rs ! i)) = Some i"
  shows "distinct (map ro_node rs)"
  using assms by (auto simp: distinct_conv_nth) (metis option.inject)

lemma reindex_index:
  "distinct (map ro_node (dt_data s)) \<Longrightarrow> i < length (dt_data s) \<Longrightarrow>
   dt_rowIndex (reindex s) (ro_node (dt_data s ! i)) = Some i"
  using fold_index [of "dt_data s" i 0] by (simp add: reindex_def)

section \<open>Deleting\<close>

text \<open>The arrays after the row at \<open>t\<close> has gone.\<close>

lemma remove_row_fields:
  assumes "distinct (dt_master s)" "distinct (dt_display s)" "index_in t (dt_display s) = Some k"
  shows "remove_row (Some t) s = (reindex (s\<lparr>dt_data := js_splice (dt_data s) t 1 []\<rparr>))
    \<lparr>dt_dataSearch := js_splice (dt_dataSearch s) k 1 [],
     dt_master := map (dec_above t) (filter (\<lambda>x. x \<noteq> t) (dt_master s)),
     dt_display := map (dec_above t) (filter (\<lambda>x. x \<noteq> t) (dt_display s))\<rparr>"
proof -
  have i: "index_in (Some t) (map Some xs) = index_in t xs" for xs :: "nat list" by (induction xs) auto
  show ?thesis
    using assms by (simp add: remove_row_def Let_def i deleteIndex_distinct reindex_def)
qed

lemma splice_display:
  assumes "distinct xs" "index_in t xs = Some k"
  shows "js_splice xs k 1 [] = filter (\<lambda>x. x \<noteq> t) xs"
  using assms
proof (induction xs arbitrary: k)
  case (Cons x xs)
  show ?case
  proof (cases "t = x")
    case True
    then have "filter (\<lambda>y. y \<noteq> t) xs = xs" using Cons.prems(1) by (auto simp: filter_id_conv)
    then show ?thesis using True Cons.prems(2) by (simp add: js_splice_def)
  next
    case False
    then obtain j where "index_in t xs = Some j" "k = Suc j" using Cons.prems by auto
    then show ?thesis using Cons.IH [of j] Cons.prems False by (simp add: js_splice_def)
  qed
qed simp

lemma js_splice_map: "js_splice (map f xs) k n [] = map f (js_splice xs k n [])"
  by (simp add: js_splice_def take_map drop_map)

text \<open>What a read of a row gives after another one has gone.\<close>

lemma getCellData_removed:
  assumes "t < length (dt_data s)" "i < length (dt_data s)" "i \<noteq> t"
    "dt_data s' = js_splice (dt_data s) t 1 []" "dt_columns s' = dt_columns s"
  shows "getCellData s' (dec_above t i) = getCellData s i"
  using nth_splice_dec [OF assms(1,2,3)] assms(4,5) by (intro ext) (simp add: getCellData_def)

lemma row_matches_removed:
  assumes "t < length (dt_data s)" "i < length (dt_data s)" "i \<noteq> t"
    "dt_data s' = js_splice (dt_data s) t 1 []" "dt_columns s' = dt_columns s" "dt_preCols s' = dt_preCols s"
    and "en_custom env = []"
  shows "row_matches env s' q (dec_above t i) = row_matches env s q i"
    and "searchRow env s' (dec_above t i) = searchRow env s i"
proof -
  note c = getCellData_removed [OF assms(1-5)]
  have r: "getRowData s' (dec_above t i) = getRowData s i" using c by (intro ext) (simp add: getRowData_def)
  then show sr: "searchRow env s' (dec_above t i) = searchRow env s i"
    using getColumns_cong [of s' s] assms(5) by (simp add: searchRow_def)
  show "row_matches env s' q (dec_above t i) = row_matches env s q i"
    using c sr assms(5-7) by (simp add: row_matches_def global_match_def column_match_def column_text_def custom_match_def)
qed

lemma distinct_js_splice: "distinct xs \<Longrightarrow> distinct (js_splice xs i k [])"
  by (simp add: js_splice_def set_take_disj_set_drop_if_distinct)

lemma length_without: "distinct xs \<Longrightarrow> t \<in> set xs \<Longrightarrow> Suc (length (filter (\<lambda>x. x \<noteq> t) xs)) = length xs"
proof (induction xs)
  case (Cons x xs)
  show ?case
  proof (cases "x = t")
    case True
    then have "filter (\<lambda>x. x \<noteq> t) xs = xs" using Cons.prems by (auto simp: filter_id_conv)
    then show ?thesis using True by simp
  qed (use Cons in auto)
qed simp

lemma remove_row_wf:
  assumes wf: "table_wf s" and t: "t < length (dt_data s)" and d: "distinct (dt_display s)" and k: "index_in t (dt_display s) = Some k"
  shows "table_wf (remove_row (Some t) s)"
proof -
  let ?s = "s\<lparr>dt_data := js_splice (dt_data s) t 1 []\<rparr>"
  have m: "distinct (dt_master s)" "set (dt_master s) = {..<length (dt_data s)}" using wf by (simp_all add: table_wf_def)
  have sub: "set (js_splice (dt_data s) t 1 []) \<subseteq> set (dt_data s)" using set_js_splice_subset [of "dt_data s" t 1 "[]"] by simp
  have len: "length (js_splice (dt_data s) t 1 []) = length (dt_data s) - 1" using t by (simp add: js_splice_def)
  have nd: "distinct (map ro_node (dt_data s))" by (rule nodes_distinct [of _ "dt_rowIndex s"]) (use wf in \<open>simp add: table_wf_def\<close>)
  then have nd': "distinct (map ro_node (dt_data ?s))" using distinct_js_splice [OF nd, of t 1] by (simp add: js_splice_map)
  have ma: "distinct (map (dec_above t) (filter (\<lambda>x. x \<noteq> t) (dt_master s)))"
    using m by (auto simp: distinct_map intro: inj_on_subset [OF dec_above_inj])
  have ms: "dec_above t ` (set (dt_master s) - {t}) = {..<length (dt_data s) - 1}" using dec_above_image [OF t] m by simp
  have no: "dt_rowIndex (reindex ?s) (ro_node (dt_data ?s ! i)) = Some i \<and> ro_node (dt_data ?s ! i) < dt_nextNode s"
    if i: "i < length (dt_data ?s)" for i
  proof -
    have "dt_data ?s ! i \<in> set (dt_data s)" using i sub nth_mem by fastforce
    then have "ro_node (dt_data ?s ! i) < dt_nextNode s" using wf unfolding table_wf_def by (metis in_set_conv_nth)
    then show ?thesis using reindex_index [OF nd' i] by simp
  qed
  let ?r = "remove_row (Some t) s"
  have f: "dt_data ?r = dt_data ?s" "dt_columns ?r = dt_columns s" "dt_preCols ?r = dt_preCols s"
    "dt_master ?r = map (dec_above t) (filter (\<lambda>x. x \<noteq> t) (dt_master s))" "dt_nextNode ?r = dt_nextNode s"
    "dt_rowIndex ?r = dt_rowIndex (reindex ?s)" "dt_sorting ?r = dt_sorting s" "dt_sortFixed ?r = dt_sortFixed s"
    by (simp_all add: remove_row_fields [OF m(1) d k] reindex_def)
  have ao: "aaSort_of ?r = aaSort_of s" unfolding aaSort_of_def f ..
  have fs: "set (filter (\<lambda>x. x \<noteq> t) (dt_master s)) = set (dt_master s) - {t}" by auto
  have tx: "\<forall>r \<in> set (dt_data ?s). length (ro_data r) = length (dt_columns s) \<and> list_all is_text (ro_data r)"
    "\<forall>r \<in> set (dt_data ?s). length (ro_cells r) = length (dt_columns s)"
    using wf sub by (auto simp: table_wf_def text_table_def)
  have ms': "set (map (dec_above t) (filter (\<lambda>x. x \<noteq> t) (dt_master s))) = {..<length (dt_data ?s)}"
    unfolding set_map fs using ms len by simp
  show ?thesis
    unfolding table_wf_def text_table_def f ao using wf ma ms' no tx by (simp add: table_wf_def)
qed

lemma remove_row_result:
  assumes wf: "table_wf s" and lr: "last_result env s" and t: "t \<in> set (dt_display s)" and cu: "en_custom env = []"
  shows "last_result env (remove_row (Some t) s)"
proof -
  have m: "distinct (dt_master s)" "set (dt_master s) = {..<length (dt_data s)}" using wf by (simp_all add: table_wf_def)
  have D: "dt_display s = filter (row_matches env s (dt_prev s)) (dt_master s)" using lr by (simp add: last_result_def)
  then have d: "distinct (dt_display s)" and tl: "t < length (dt_data s)" and tm: "t \<in> set (dt_master s)"
    and dl: "set (dt_display s) \<subseteq> {..<length (dt_data s)}" using m t by auto
  obtain k where k: "index_in t (dt_display s) = Some k" using t index_in_None by (metis option.exhaust)
  let ?s = "remove_row (Some t) s"
  have f: "dt_data ?s = js_splice (dt_data s) t 1 []" "dt_columns ?s = dt_columns s" "dt_preCols ?s = dt_preCols s"
    "dt_prev ?s = dt_prev s" "dt_dataSearch ?s = js_splice (dt_dataSearch s) k 1 []"
    "dt_master ?s = map (dec_above t) (filter (\<lambda>x. x \<noteq> t) (dt_master s))"
    "dt_display ?s = map (dec_above t) (filter (\<lambda>x. x \<noteq> t) (dt_display s))"
    by (simp_all add: remove_row_fields [OF m(1) d k] reindex_def)
  have r: "row_matches env ?s q (dec_above t i) = row_matches env s q i" "searchRow env ?s (dec_above t i) = searchRow env s i"
    if "i < length (dt_data s)" "i \<noteq> t" for i q
    using row_matches_removed [OF tl that f(1-3) cu] by auto
  have "dt_display ?s = filter (row_matches env ?s (dt_prev ?s)) (dt_master ?s)"
    unfolding f(4,6,7) filter_map using m(2) r D by (auto intro!: arg_cong [of _ _ "map (dec_above t)"] filter_cong)
  moreover have "dt_dataSearch ?s = map (searchRow env ?s) (dt_display ?s)" if n: "length (dt_display ?s) \<noteq> length (dt_master ?s)"
  proof -
    have "length (dt_display s) \<noteq> length (dt_master s)" using n length_without [OF d t] length_without [OF m(1) tm] f(6,7) by auto
    then have "dt_dataSearch ?s = map (searchRow env s) (filter (\<lambda>x. x \<noteq> t) (dt_display s))"
      using lr splice_display [OF d k] by (simp add: f(5) last_result_def js_splice_map)
    also have "\<dots> = map (searchRow env ?s) (dt_display ?s)" unfolding f(7) using r dl by auto
    finally show ?thesis .
  qed
  ultimately show ?thesis by (simp add: last_result_def)
qed

lemma fnDeleteRow_inv:
  assumes inv: "table_inv env s" and t: "t \<in> set (dt_display s)" and cu: "en_custom env = []"
  shows "table_inv env (fnDeleteRow env (Some t) True s)"
proof -
  have wf: "table_wf s" and lr: "last_result env s" using inv by (simp_all add: table_inv_def)
  have m: "distinct (dt_master s)" and d: "distinct (dt_display s)" and tl: "t < length (dt_data s)"
    using wf lr t by (auto simp: table_wf_def last_result_def)
  obtain k where k: "index_in t (dt_display s) = Some k" using t index_in_None by (metis option.exhaust)
  let ?s = "remove_row (Some t) s"
  let ?t = "if dt_start ?s \<ge> int (length (dt_display ?s)) then ?s\<lparr>dt_start := max 0 (dt_start ?s - dt_length ?s)\<rparr> else ?s"
  have fr: "dt_length ?s = dt_length s" "dt_threw ?s = dt_threw s" "dt_prev ?s = dt_prev s" "dt_start ?s = dt_start s"
    by (simp_all add: remove_row_fields [OF m d k] reindex_def)
  have n: "int (length (dt_display ?s)) = int (length (dt_display s)) - 1"
  proof -
    have "length (dt_display ?s) = length (filter (\<lambda>x. x \<noteq> t) (dt_display s))"
      by (simp add: remove_row_fields [OF m d k] reindex_def)
    then show ?thesis using length_without [OF d t] by simp
  qed
  have ne: "dt_display ?s \<noteq> [] \<Longrightarrow> 1 < length (dt_display s)" using n by (cases "dt_display ?s") auto
  have st: "0 \<le> dt_start s" "dt_start s < int (length (dt_display s))" "display_length_ok s" "dt_length s = - 1 \<Longrightarrow> dt_start s = 0"
    using inv t by (auto simp: table_inv_def page_start_ok_def)
  have w: "table_wf ?s" by (rule remove_row_wf [OF wf tl d k])
  have "table_wf (?s\<lparr>dt_start := x\<rparr>) = table_wf ?s" for x by (rule table_wf_cong) simp_all
  then have wt: "table_wf ?t" using w by simp
  have lt: "last_result env ?t"
  proof -
    have "last_result env (?s\<lparr>dt_start := x\<rparr>) = last_result env ?s" for x
      using row_matches_cong [of "?s\<lparr>dt_start := x\<rparr>" ?s env] searchRow_cong [of "?s\<lparr>dt_start := x\<rparr>" ?s env]
      by (simp add: last_result_def)
    then show ?thesis using remove_row_result [OF wf lr t cu] by simp
  qed
  have "table_inv env (draw (calculateEnd env ?t))"
    by (rule draw_inv [OF wt _ _ lt]) (use inv fr n st ne in \<open>auto simp: table_inv_def display_length_ok_def page_start_ok_def\<close>)
  then show ?thesis by (simp add: fnDeleteRow_def Let_def)
qed

end
