(* ===== verification/Dt_History.thy ===== *)
theory Dt_History
  imports Dt_Rows
begin

text \<open>
  Histories of a table: the calls of the page and the clicks and keys of the user as events, which of them
  the theorems allow, and what holds after every admissible history. The last section has the calls that
  break it.
\<close>

section \<open>Updates\<close>

lemma update_cell_fields:
  assumes "i < length (dt_data s)" "c < length (ro_data (dt_data s ! i))" "is_text v"
  shows "\<exists>ds. update_cell env v i c s =
    s\<lparr>dt_data := (dt_data s)[i := (dt_data s ! i)\<lparr>ro_data := (ro_data (dt_data s ! i))[c := v],
        ro_cells := (ro_cells (dt_data s ! i))[c := html_of v]\<rparr>],
      dt_dataSearch := ds\<rparr>"
proof -
  let ?row = "(dt_data s ! i)\<lparr>ro_data := (ro_data (dt_data s ! i))[c := v]\<rparr>"
  let ?s = "s\<lparr>dt_data := (dt_data s)[i := ?row]\<rparr>"
  let ?t = "s\<lparr>dt_data := (dt_data s)[i := ?row\<lparr>ro_cells := (ro_cells (dt_data s ! i))[c := html_of v]\<rparr>]\<rparr>"
  have "getCellData ?s i c True = v" using assms by (cases v) (simp_all add: getCellData_def)
  then have "update_cell env v i c s = update_search env i ?t"
    using assms by (simp add: update_cell_def setCellData_def put_cell_def Let_def)
  moreover have "\<exists>ds. update_search env i u = u\<lparr>dt_dataSearch := ds\<rparr>" for u
    by (cases "index_in i (dt_display u)") (auto simp: update_search_def intro: exI [of _ "dt_dataSearch u"])
  ultimately show ?thesis by (metis dt_row.update_convs)
qed

text \<open>A cell of a row, and what is written into it.\<close>

definition cell_in :: "dt_table \<Rightarrow> nat \<times> nat \<times> dt_cell \<Rightarrow> bool" where
  "cell_in s u = (case u of (i, c, v) \<Rightarrow> i < length (dt_data s) \<and> c < length (dt_columns s) \<and> is_text v)"

lemma update_cell_keep:
  assumes wf: "table_wf s" and u: "cell_in s (i, c, v)"
  shows "table_wf (update_cell env v i c s)"
    and "dt_length (update_cell env v i c s) = dt_length s" "dt_threw (update_cell env v i c s) = dt_threw s"
    and "dt_prev (update_cell env v i c s) = dt_prev s" "dt_columns (update_cell env v i c s) = dt_columns s"
    and "length (dt_data (update_cell env v i c s)) = length (dt_data s)"
proof -
  let ?r = "dt_data s ! i"
  have i: "i < length (dt_data s)" and c: "c < length (dt_columns s)" and v: "is_text v"
    using u by (simp_all add: cell_in_def)
  then have r: "length (ro_data ?r) = length (dt_columns s)" "list_all is_text (ro_data ?r)" "length (ro_cells ?r) = length (dt_columns s)"
    using wf nth_mem by (auto simp: table_wf_def text_table_def)
  let ?cells = "(ro_cells ?r)[c := html_of v]"
  obtain ds where e: "update_cell env v i c s =
    s\<lparr>dt_data := (dt_data s)[i := ?r\<lparr>ro_data := (ro_data ?r)[c := v], ro_cells := ?cells\<rparr>], dt_dataSearch := ds\<rparr>"
    using update_cell_fields [OF i, of c v env] c v r(1) by auto
  show "dt_length (update_cell env v i c s) = dt_length s" "dt_threw (update_cell env v i c s) = dt_threw s"
    "dt_prev (update_cell env v i c s) = dt_prev s" "dt_columns (update_cell env v i c s) = dt_columns s"
    "length (dt_data (update_cell env v i c s)) = length (dt_data s)"
    by (simp_all add: e)
  let ?new = "?r\<lparr>ro_data := (ro_data ?r)[c := v], ro_cells := ?cells\<rparr>"
  have n: "length (ro_data ?new) = length (dt_columns s)" "list_all is_text (ro_data ?new)" "length (ro_cells ?new) = length (dt_columns s)"
    using r v by (auto simp: list_all_iff dest!: set_update_subset_insert [THEN subsetD])
  have t: "\<forall>x \<in> set ((dt_data s)[i := ?new]). length (ro_data x) = length (dt_columns s) \<and> list_all is_text (ro_data x)"
    "\<forall>x \<in> set ((dt_data s)[i := ?new]). length (ro_cells x) = length (dt_columns s)"
    using wf n by (auto simp: table_wf_def text_table_def dest!: set_update_subset_insert [THEN subsetD])
  have no: "\<forall>k < length (dt_data s). dt_rowIndex s (ro_node ((dt_data s)[i := ?new] ! k)) = Some k \<and>
      ro_node ((dt_data s)[i := ?new] ! k) < dt_nextNode s"
  proof -
    have "ro_node ((dt_data s)[i := ?new] ! k) = ro_node (dt_data s ! k)" if "k < length (dt_data s)" for k
      using that by (cases "k = i") auto
    then show ?thesis using wf by (simp add: table_wf_def)
  qed
  show "table_wf (update_cell env v i c s)"
    unfolding e using wf t no by (simp add: table_wf_def text_table_def aaSort_of_def cong: option.case_cong)
qed

definition update_cells :: "dt_env \<Rightarrow> (nat \<times> nat \<times> dt_cell) list \<Rightarrow> dt_table \<Rightarrow> dt_table" where
  "update_cells env us s = fold (\<lambda>(i, c, v). update_cell env v i c) us s"

lemma update_cells_keep:
  "table_wf s \<Longrightarrow> \<forall>u \<in> set us. cell_in s u \<Longrightarrow>
   table_wf (update_cells env us s) \<and> dt_length (update_cells env us s) = dt_length s \<and>
   dt_threw (update_cells env us s) = dt_threw s \<and> dt_prev (update_cells env us s) = dt_prev s"
proof (induction us arbitrary: s)
  case (Cons u us)
  obtain i c v where u: "u = (i, c, v)" by (cases u)
  let ?t = "update_cell env v i c s"
  note k = update_cell_keep [OF Cons.prems(1), of i c v env]
  have "\<forall>u \<in> set us. cell_in ?t u" using Cons.prems(2) k u by (auto simp: cell_in_def)
  then show ?case using Cons.IH [of ?t] k u Cons.prems(2) by (auto simp: update_cells_def)
qed (simp add: update_cells_def)

lemma update_cells_inv:
  assumes inv: "table_inv env s" and us: "\<forall>u \<in> set us. cell_in s u" and f: "en_filter env" "en_sort env"
  shows "table_inv env (reDraw env (update_cells env us s))"
  using update_cells_keep [of s us env] us inv f by (intro reDraw_inv) (auto simp: table_inv_def display_length_ok_def)

section \<open>Events\<close>

datatype dt_event =
    AddRows "dt_cell list list"                \<comment> \<open>\<open>fnAddData\<close>\<close>
  | DeleteRow nat                              \<comment> \<open>\<open>fnDeleteRow\<close>\<close>
  | UpdateCells "(nat \<times> nat \<times> dt_cell) list"   \<comment> \<open>\<open>fnUpdate(..., false)\<close> for each, then \<open>fnDraw()\<close>\<close>
  | Search dt_search                           \<comment> \<open>\<open>fnFilter\<close> of all columns\<close>
  | SearchColumn nat dt_search
  | Typed string                               \<comment> \<open>a key in the search field\<close>
  | SortBy "(nat \<times> dt_dir \<times> nat option) list"
  | SortClick nat bool
  | Page dt_page
  | PageClick dt_page
  | LengthMenu int
  | Clear
  | Redraw bool

fun table_step :: "dt_env \<Rightarrow> dt_event \<Rightarrow> dt_table \<Rightarrow> dt_table" where
  "table_step env (AddRows rows) s = fnAddData env rows True s"
| "table_step env (DeleteRow i) s = fnDeleteRow env (Some i) True s"
| "table_step env (UpdateCells us) s = fnDraw env True (update_cells env us s)"
| "table_step env (Search q) s = fnFilter env q None s"
| "table_step env (SearchColumn c q) s = fnFilter env q (Some c) s"
| "table_step env (Typed val) s = filter_keyup env val s"
| "table_step env (SortBy l) s = fnSort env l s"
| "table_step env (SortClick c shift) s = sort_click env c shift s"
| "table_step env (Page p) s = fnPageChange env p True s"
| "table_step env (PageClick p) s = pager_click env p s"
| "table_step env (LengthMenu v) s = lengthChange env v s"
| "table_step env Clear s = fnClearTable env True s"
| "table_step env (Redraw b) s = fnDraw env b s"

text \<open>The pages that exist: a number that points at a row, and a length below a million for \<open>Last\<close>.\<close>

definition page_exists :: "dt_table \<Rightarrow> dt_page \<Rightarrow> bool" where
  "page_exists s p \<longleftrightarrow>
     (case p of
        PageNumber k \<Rightarrow> k = 0 \<or> 0 < k \<and> 0 < dt_length s \<and> k * dt_length s \<noteq> int (length (dt_display s))
      | Last \<Rightarrow> dt_length s \<le> 1000000 \<and> (dt_display s = [] \<longrightarrow> dt_length s \<noteq> 1)
      | _ \<Rightarrow> True)"

text \<open>The events that the theorems allow in a state.\<close>

fun table_event_ok :: "dt_env \<Rightarrow> dt_table \<Rightarrow> dt_event \<Rightarrow> bool" where
  "table_event_ok env s (AddRows rows) = (\<forall>row \<in> set rows. text_row s row)"
| "table_event_ok env s (DeleteRow i) = (i \<in> set (dt_display s) \<and> en_custom env = [])"
| "table_event_ok env s (UpdateCells us) = (\<forall>u \<in> set us. cell_in s u)"
| "table_event_ok env s (Search q) = (\<not> se_regex q)"
| "table_event_ok env s (SearchColumn c q) = (c < length (dt_columns s))"
| "table_event_ok env s (Typed val) = True"
| "table_event_ok env s (SortBy l) = (\<forall>e \<in> set l. fst e < length (dt_columns s))"
| "table_event_ok env s (SortClick c shift) = (c < length (dt_columns s))"
| "table_event_ok env s (Page p) = page_exists s p"
| "table_event_ok env s (PageClick p) = page_exists s p"
| "table_event_ok env s (LengthMenu v) = (0 < v \<or> v = - 1)"
| "table_event_ok env s Clear = True"
| "table_event_ok env s (Redraw b) = True"

section \<open>Every event keeps the invariant\<close>

lemma last_result_cong:
  "dt_columns s = dt_columns t \<Longrightarrow> dt_data s = dt_data t \<Longrightarrow> dt_preCols s = dt_preCols t \<Longrightarrow>
   dt_display s = dt_display t \<Longrightarrow> dt_master s = dt_master t \<Longrightarrow> dt_prev s = dt_prev t \<Longrightarrow>
   dt_dataSearch s = dt_dataSearch t \<Longrightarrow> last_result env s = last_result env t"
  using row_matches_cong [of s t env] searchRow_cong [of s t env] by (simp add: last_result_def)

lemma fnFilter_inv:
  assumes inv: "table_inv env s" and ok: "table_event_ok env s (case iCol of None \<Rightarrow> Search q | Some c \<Rightarrow> SearchColumn c q)"
  shows "table_inv env (fnFilter env q iCol s)"
proof (cases "en_filter env")
  case True
  have b: "table_wf s" "display_length_ok s" "\<not> dt_threw s" "\<not> se_regex (dt_prev s)" using inv by (simp_all add: table_inv_def)
  show ?thesis
  proof (cases iCol)
    case None
    then show ?thesis using True ok filterComplete_inv [of s q True env] b by (simp add: fnFilter_def)
  next
    case (Some c)
    let ?s = "s\<lparr>dt_preCols := (dt_preCols s)[c := q]\<rparr>"
    have "table_wf ?s" using b(1) by (simp add: table_wf_def text_table_def aaSort_of_def cong: option.case_cong)
    then have "table_inv env (filterComplete env (dt_prev s) True ?s)"
      by (rule filterComplete_inv) (use b in \<open>auto simp: display_length_ok_def\<close>)
    then show ?thesis using True Some by (simp add: fnFilter_def)
  qed
qed (use inv in \<open>simp add: fnFilter_def\<close>)

lemma filter_keyup_inv: "table_inv env s \<Longrightarrow> table_inv env (filter_keyup env val s)"
  using filterComplete_inv [of s "(dt_prev s)\<lparr>se_search := val\<rparr>" False env]
  by (simp add: filter_keyup_def table_inv_def same_flags_def)

lemma sort_with_inv:
  assumes inv: "table_inv env s" and l: "\<forall>e \<in> set l. fst e < length (dt_columns s)" and f: "en_filter env"
  shows "table_inv env (table_sort env (s\<lparr>dt_sorting := l\<rparr>))"
proof -
  have "set (aaSort_of (s\<lparr>dt_sorting := l\<rparr>)) \<subseteq> set (aaSort_of s) \<union> set l" by (auto simp: aaSort_of_def split: option.splits)
  then have "\<forall>e \<in> set (aaSort_of (s\<lparr>dt_sorting := l\<rparr>)). fst e < length (dt_columns s)"
    using inv l by (auto simp: table_inv_def table_wf_def)
  then have "table_wf (s\<lparr>dt_sorting := l\<rparr>)" using inv by (simp add: table_inv_def table_wf_def text_table_def)
  then show ?thesis by (rule table_sort_inv) (use inv f in \<open>auto simp: table_inv_def display_length_ok_def\<close>)
qed

lemma shift_sorting_columns: "fst ` set (shift_sorting s c l) \<subseteq> insert c (fst ` set l)"
  by (induction s c l rule: shift_sorting.induct) (auto split: option.splits)

lemma click_sorting_columns: "e \<in> set (click_sorting s c shift) \<Longrightarrow> fst e \<in> insert c (fst ` set (dt_sorting s))"
  using shift_sorting_columns [of s c "dt_sorting s"]
  by (auto simp: click_sorting_def Let_def split: if_splits list.splits option.splits prod.splits)

lemma sort_click_inv:
  assumes inv: "table_inv env s" and c: "c < length (dt_columns s)" and f: "en_filter env"
  shows "table_inv env (sort_click env c shift s)"
proof -
  have "fst e < length (dt_columns s)" if "e \<in> set (dt_sorting s)" for e
    using inv that by (auto simp: table_inv_def table_wf_def aaSort_of_def split: option.splits)
  then have "\<forall>e \<in> set (click_sorting s c shift). fst e < length (dt_columns s)"
    using click_sorting_columns [of _ s c shift] c by fastforce
  then show ?thesis using sort_with_inv [OF inv _ f] inv by (simp add: sort_click_def)
qed

lemma table_clear_inv:
  assumes "table_inv env s"
  shows "table_inv env (fnClearTable env True s)"
proof -
  let ?s = "s\<lparr>dt_data := [], dt_master := [], dt_display := []\<rparr>"
  have "table_wf ?s" using assms by (simp add: table_inv_def table_wf_def text_table_def aaSort_of_def cong: option.case_cong)
  then have "table_inv env (draw (calculateEnd env ?s))"
    by (rule draw_inv) (use assms in \<open>auto simp: table_inv_def display_length_ok_def page_start_ok_def last_result_def\<close>)
  then show ?thesis by (simp add: fnClearTable_def clearTable_def)
qed

section \<open>Pages\<close>

lemma parse_quotient_div: "0 < b \<Longrightarrow> b \<le> 1000000 \<Longrightarrow> 0 \<le> a \<Longrightarrow> parse_quotient a b = a div b"
  by (auto simp: parse_quotient_def sgn_if)

lemma parse_quotient_minus: "1 < b \<Longrightarrow> b \<le> 1000000 \<Longrightarrow> parse_quotient (- 1) b = 0"
  by (simp add: parse_quotient_def)

lemma pageChange_start:
  assumes "display_length_ok s" "0 \<le> dt_start s" "page_start_ok s" "page_exists s p"
  shows "0 \<le> dt_start (pageChange p s) \<and> page_start_ok (pageChange p s)"
proof (cases "dt_display s = []")
  case True
  then show ?thesis
    using assms parse_quotient_minus [of "dt_length s"]
    by (cases p) (auto simp: pageChange_def page_start_ok_def page_exists_def display_length_ok_def Let_def)
next
  case False
  let ?n = "int (length (dt_display s))"
  have n: "0 < ?n" using False by simp
  have l: "dt_length s > 0 \<or> dt_length s = - 1" using assms(1) by (simp add: display_length_ok_def)
  have q: "((?n - 1) div dt_length s) * dt_length s < ?n" if "dt_length s > 0"
    using that minus_mod_eq_div_mult [of "?n - 1" "dt_length s"] pos_mod_sign [OF that, of "?n - 1"] by linarith
  show ?thesis
    using assms False n l q parse_quotient_div [of "dt_length s" "?n - 1"]
    by (cases p) (auto simp: pageChange_def page_start_ok_def page_exists_def Let_def pos_imp_zdiv_nonneg_iff)
qed

lemma page_draw_inv:
  assumes inv: "table_inv env s" and p: "page_exists s p"
  shows "table_inv env (draw (calculateEnd env (pageChange p s)))"
proof -
  have st: "0 \<le> dt_start (pageChange p s)" "page_start_ok (pageChange p s)"
    using pageChange_start [of s p] inv p by (auto simp: table_inv_def)
  have "table_wf (pageChange p s) = table_wf s" by (rule table_wf_cong) (simp_all add: pageChange_def Let_def)
  moreover have "last_result env (pageChange p s) = last_result env s" by (rule last_result_cong) (simp_all add: pageChange_def Let_def)
  ultimately show ?thesis
    by (intro draw_inv) (use inv st in \<open>auto simp: table_inv_def display_length_ok_def pageChange_def Let_def\<close>)
qed

lemma pager_click_inv:
  assumes "table_inv env s" "page_exists s p"
  shows "table_inv env (pager_click env p s)"
proof -
  have "pageChange p s = s\<lparr>dt_start := dt_start (pageChange p s)\<rparr>" by (simp add: pageChange_def Let_def)
  then have "dt_start s = dt_start (pageChange p s) \<Longrightarrow> pageChange p s = s" by (metis dt_table.surjective dt_table.update_convs(8))
  then show ?thesis using page_draw_inv [OF assms] assms(1) by (auto simp: pager_click_def Let_def)
qed

lemma length_menu_inv:
  assumes inv: "table_inv env s" and v: "0 < v \<or> v = - 1"
  shows "table_inv env (lengthChange env v s)"
proof -
  let ?n = "int (length (dt_display s))"
  define x where "x = (if v = - 1 then 0 else
    if dt_end (calculateEnd env (s\<lparr>dt_length := v\<rparr>)) = ?n then max 0 (?n - v) else dt_start s)"
  let ?t = "s\<lparr>dt_length := v, dt_start := x\<rparr>"
  have st: "0 \<le> dt_start s" "page_start_ok s" using inv by (simp_all add: table_inv_def)
  have e: "calculateEnd env ?t = (calculateEnd env (s\<lparr>dt_length := v\<rparr>))\<lparr>dt_start := x\<rparr>"
    using v st by (auto simp: calculateEnd_def Let_def x_def)
  have l: "lengthChange env v s = draw (calculateEnd env ?t)"
  proof -
    have c: "(calculateEnd env (s\<lparr>dt_length := v\<rparr>))\<lparr>dt_start := dt_start s\<rparr> = calculateEnd env (s\<lparr>dt_length := v\<rparr>)"
      by (simp add: calculateEnd_def Let_def)
    show ?thesis unfolding e using v by (auto simp: lengthChange_def x_def Let_def c)
  qed
  have w: "table_wf ?t = table_wf s" by (rule table_wf_cong) simp_all
  have r: "last_result env ?t = last_result env s" by (rule last_result_cong) simp_all
  have x: "0 \<le> x" "page_start_ok ?t"
    using v st by (auto simp: x_def page_start_ok_def calculateEnd_end split: if_splits)
  have "table_inv env (draw (calculateEnd env ?t))"
    by (rule draw_inv) (use inv v w r x in \<open>simp_all add: table_inv_def display_length_ok_def\<close>)
  then show ?thesis by (simp only: l)
qed

section \<open>Histories\<close>

lemma redraw_inv: "table_inv env s \<Longrightarrow> en_filter env \<Longrightarrow> en_sort env \<Longrightarrow> table_inv env (fnDraw env b s)"
  using reDraw_inv [of s env] draw_inv [of s env] by (simp add: fnDraw_def table_inv_def)

lemma table_step_inv:
  assumes "en_filter env" "en_sort env" "table_inv env s" "table_event_ok env s e"
  shows "table_inv env (table_step env e s)"
proof (cases e)
  case (UpdateCells us)
  then show ?thesis using update_cells_inv [OF assms(3)] assms by (simp add: fnDraw_def)
next
  case (Search q)
  then show ?thesis using fnFilter_inv [OF assms(3), where iCol = None and q = q] assms(4) by simp
next
  case (SearchColumn c q)
  then show ?thesis using fnFilter_inv [OF assms(3), where iCol = "Some c" and q = q] assms(4) by simp
next
  case (Page p)
  then show ?thesis using page_draw_inv [OF assms(3)] assms(4) by (simp add: fnPageChange_def)
qed (use assms in \<open>auto simp: fnSort_def intro: fnAddData_inv fnDeleteRow_inv filter_keyup_inv sort_with_inv sort_click_inv
       pager_click_inv length_menu_inv table_clear_inv redraw_inv\<close>)

text \<open>The two features that are on unless the page turns them off.\<close>

definition standard_env :: "dt_env \<Rightarrow> bool" where
  "standard_env env \<longleftrightarrow> en_filter env \<and> en_sort env"

interpretation table: guarded_machine "table_step env" "\<lambda>s. standard_env env \<and> table_inv env s" "table_event_ok env" for env
  by unfold_locales (auto simp: standard_env_def table_step_inv)

section \<open>New tables\<close>

definition no_search :: dt_search where
  "no_search = \<lparr>se_search = [], se_regex = False, se_smart = True, se_caseInsensitive = True\<rparr>"

text \<open>A table without rows; \<open>sorting\<close> is the option \<open>aaSorting\<close>.\<close>

definition new_table :: "dt_column list \<Rightarrow> (nat \<times> dt_dir \<times> nat option) list \<Rightarrow> int \<Rightarrow> dt_table" where
  "new_table cols sorting len =
     \<lparr>dt_columns = cols, dt_data = [], dt_master = [], dt_display = [], dt_dataSearch = [], dt_prev = no_search,
      dt_preCols = replicate (length cols) no_search, dt_start = 0, dt_length = len, dt_end = 0,
      dt_sorting = sorting, dt_sortFixed = None, dt_rowIndex = (\<lambda>_. None), dt_nextNode = 0,
      dt_shown = ShowEmpty, dt_threw = False\<rparr>"

definition columns_ok :: "dt_column list \<Rightarrow> (nat \<times> dt_dir \<times> nat option) list \<Rightarrow> bool" where
  "columns_ok cols sorting \<longleftrightarrow>
     (\<forall>c \<in> set cols. (\<forall>d \<in> set (co_dataSort c). d < length cols) \<and> co_asSorting c \<noteq> []) \<and>
     (\<forall>e \<in> set sorting. fst e < length cols)"

lemma new_table_inv: "columns_ok cols sorting \<Longrightarrow> 0 < len \<or> len = - 1 \<Longrightarrow> table_inv env (new_table cols sorting len)"
  by (auto simp: table_inv_def table_wf_def text_table_def display_length_ok_def last_result_def page_start_ok_def
      new_table_def columns_ok_def aaSort_of_def no_search_def calculateEnd_end page_view_def)

text \<open>The table after a history that starts with no rows.\<close>

definition table_after :: "dt_env \<Rightarrow> dt_column list \<Rightarrow> (nat \<times> dt_dir \<times> nat option) list \<Rightarrow> int \<Rightarrow> dt_event list \<Rightarrow> dt_table" where
  "table_after env cols sorting len es = fold (table_step env) es (new_table cols sorting len)"

definition history_ok :: "dt_env \<Rightarrow> dt_column list \<Rightarrow> (nat \<times> dt_dir \<times> nat option) list \<Rightarrow> int \<Rightarrow> dt_event list \<Rightarrow> bool" where
  "history_ok env cols sorting len es \<longleftrightarrow>
     standard_env env \<and> columns_ok cols sorting \<and> (0 < len \<or> len = - 1) \<and>
     ok_run (table_step env) (table_event_ok env) (new_table cols sorting len) es"

lemma table_inv_history: "history_ok env cols sorting len es \<Longrightarrow> table_inv env (table_after env cols sorting len es)"
  using table.run_inv [of env "new_table cols sorting len" es] new_table_inv [of cols sorting len env]
  by (simp add: history_ok_def table_after_def)

text \<open>
  What the user should see: of the rows that match the searches, in the order of the table, the page that
  starts where the table says.
\<close>

definition expected_view :: "dt_env \<Rightarrow> dt_table \<Rightarrow> dt_shown" where
  "expected_view env s = page_view env s (filter (row_matches env s (dt_prev s)) (dt_master s))"

text \<open>
  C2: After any history of admissible events the table shows the page of the matching rows that it should, also
  when it has only refined its last result.
\<close>

theorem table_history_view:
  assumes "history_ok env cols sorting len es"
  shows "dt_shown (table_after env cols sorting len es) = expected_view env (table_after env cols sorting len es)"
  using table_inv_history [OF assms] by (simp add: expected_view_def table_inv_def last_result_def)

text \<open>The arrays of indices: the master array has each row once, the node of a row knows its index.\<close>

definition arrays_fit :: "dt_table \<Rightarrow> bool" where
  "arrays_fit t \<longleftrightarrow>
     distinct (dt_master t) \<and> set (dt_master t) = {..<length (dt_data t)} \<and>
     (\<forall>i < length (dt_data t). dt_rowIndex t (ro_node (dt_data t ! i)) = Some i) \<and>
     0 \<le> dt_start t \<and> page_start_ok t \<and> \<not> dt_threw t"

text \<open>
  C13: In every admissible history the arrays of indices fit the data (the master array has each row once, the
  node of a row knows its index), the page begins at a row, and nothing is thrown.
\<close>

theorem table_history_arrays:
  assumes "history_ok env cols sorting len es"
  shows "arrays_fit (table_after env cols sorting len es)"
  using table_inv_history [OF assms] unfolding table_inv_def table_wf_def arrays_fit_def by blast

text \<open>A table of three rows that is sorted by number, searched letter by letter, and shortened.\<close>

definition demo_env :: dt_env where
  "demo_env = \<lparr>en_filter = True, en_sort = True, en_paginate = True, en_engine = (\<lambda>_ _ _. False), en_htmlText = id,
     en_dateParse = (\<lambda>_. None), en_custom = []\<rparr>"

definition demo_column :: "nat \<Rightarrow> dt_column" where
  "demo_column i = \<lparr>co_type = None, co_autoType = True, co_visible = True, co_searchable = True, co_sortable = True,
     co_dataSort = [i], co_asSorting = [Asc, Desc], co_default = CNull\<rparr>"

definition demo_columns :: "dt_column list" where
  "demo_columns = [demo_column 0, demo_column 1]"

definition demo_events :: "dt_event list" where
  "demo_events =
     [AddRows [[CText ''beta'', CText ''10''], [CText ''Alpha'', CText ''9''], [CText ''gamma'', CText ''100'']],
      SortClick 1 False, SortClick 1 False, Typed ''a'', Typed ''am'', Page Last, Typed ''a'', DeleteRow 0]"

lemma demo_history_ok: "history_ok demo_env demo_columns [(0, Asc, Some 0)] 2 demo_events"
  by code_simp

lemma table_history_view_witness:
  "dt_shown (table_after demo_env demo_columns [(0, Asc, Some 0)] 2 demo_events) =
   expected_view demo_env (table_after demo_env demo_columns [(0, Asc, Some 0)] 2 demo_events)"
  by (rule table_history_view [OF demo_history_ok])

lemma table_history_arrays_witness:
  "arrays_fit (table_after demo_env demo_columns [(0, Asc, Some 0)] 2 demo_events)"
  by (rule table_history_arrays [OF demo_history_ok])

lemma demo_view: "dt_shown (table_after demo_env demo_columns [(0, Asc, Some 0)] 2 demo_events) = ShowRows [2, 1]"
  by code_simp

end
