(* ===== verification/Dt_Pages.thy ===== *)
theory Dt_Pages
  imports Dt_History
begin

text \<open>
  The pages of a table: going through them shows every matching row once; and the calls that leave the range
  of the pages or of the search array.
\<close>

section \<open>Going through the pages\<close>

definition shown_nodes :: "dt_table \<Rightarrow> nat list" where
  "shown_nodes s = (case dt_shown s of ShowRows ns \<Rightarrow> ns | ShowEmpty \<Rightarrow> [])"

text \<open>The first page and then \<open>k\<close> times the next one.\<close>

definition page_visit :: "dt_env \<Rightarrow> nat \<Rightarrow> dt_table \<Rightarrow> dt_table" where
  "page_visit env k s = fold (table_step env) (Page First # replicate k (Page Next)) s"

text \<open>\<open>Math.ceil(n / len)\<close>\<close>

definition page_count :: "int \<Rightarrow> int \<Rightarrow> nat" where
  "page_count n len = nat ((n + len - 1) div len)"

lemma drawn_page_fields:
  assumes "table_inv env s" "page_exists s p"
  shows "dt_display (table_step env (Page p) s) = dt_display s" "dt_data (table_step env (Page p) s) = dt_data s"
    "dt_length (table_step env (Page p) s) = dt_length s"
    "dt_start (table_step env (Page p) s) = dt_start (pageChange p s)"
proof -
  have sub: "set (dt_display s) \<subseteq> {..<length (dt_data s)}"
    using assms(1) by (auto simp: table_inv_def table_wf_def last_result_def)
  have "draw (calculateEnd env (pageChange p s)) = (calculateEnd env (pageChange p s))\<lparr>dt_shown :=
      page_view env (pageChange p s) (dt_display (pageChange p s))\<rparr>"
    by (rule draw_page) (use assms pageChange_start [of s p] sub in \<open>auto simp: table_inv_def display_length_ok_def pageChange_def Let_def\<close>)
  then show "dt_display (table_step env (Page p) s) = dt_display s" "dt_data (table_step env (Page p) s) = dt_data s"
    "dt_length (table_step env (Page p) s) = dt_length s"
    "dt_start (table_step env (Page p) s) = dt_start (pageChange p s)"
    by (simp_all add: fnPageChange_def pageChange_def Let_def)
qed

lemma page_visit_state:
  assumes inv: "table_inv env s" and len: "0 < dt_length s" and k: "int k * dt_length s < int (length (dt_display s))"
  shows "table_inv env (page_visit env k s) \<and> dt_display (page_visit env k s) = dt_display s \<and>
    dt_data (page_visit env k s) = dt_data s \<and> dt_length (page_visit env k s) = dt_length s \<and>
    dt_start (page_visit env k s) = int k * dt_length s"
  using k
proof (induction k)
  case 0
  have "page_exists s First" by (simp add: page_exists_def)
  then show ?case
    using drawn_page_fields [OF inv, of First] page_draw_inv [OF inv, of First]
    by (simp add: page_visit_def fnPageChange_def pageChange_def)
next
  case (Suc k)
  let ?t = "page_visit env k s"
  have "int k * dt_length s \<le> int (Suc k) * dt_length s" using len by (simp add: algebra_simps)
  then have ih: "table_inv env ?t" "dt_display ?t = dt_display s" "dt_data ?t = dt_data s" "dt_length ?t = dt_length s"
    "dt_start ?t = int k * dt_length s"
    using Suc by auto
  have p: "page_exists ?t Next" by (simp add: page_exists_def)
  have st: "dt_start (pageChange Next ?t) = int (Suc k) * dt_length s"
    using ih Suc.prems len by (simp add: pageChange_def Let_def algebra_simps)
  have v: "page_visit env (Suc k) s = table_step env (Page Next) ?t"
    using fold_append [of "table_step env" "Page First # replicate k (Page Next)" "[Page Next]"]
    by (simp add: page_visit_def replicate_append_same)
  show ?case
    using drawn_page_fields [OF ih(1) p] page_draw_inv [OF ih(1) p] ih st unfolding v
    by (simp add: fnPageChange_def)
qed

lemma concat_pages:
  assumes "0 < m"
  shows "concat (map (\<lambda>k. take m (drop (k * m) xs)) [0..<p]) = take (p * m) xs"
proof (induction p)
  case (Suc p)
  have "take (p * m) xs @ take m (drop (p * m) xs) = take (p * m + m) xs" by (simp add: take_add)
  then show ?case using Suc by (simp add: add.commute)
qed simp

lemma page_count_enough:
  assumes "0 < len"
  shows "n \<le> int (page_count n len) * len" "k < page_count n len \<Longrightarrow> int k * len < n"
proof -
  have d: "(n + len - 1) div len * len > n - 1" "(n + len - 1) div len * len \<le> n + len - 1"
    using assms minus_mod_eq_div_mult [of "n + len - 1" len] pos_mod_bound [OF assms, of "n + len - 1"]
      pos_mod_sign [OF assms, of "n + len - 1"] by linarith+
  show "n \<le> int (page_count n len) * len"
  proof (cases "0 \<le> (n + len - 1) div len")
    case True
    then show ?thesis using d by (simp add: page_count_def)
  next
    case False
    then have "(n + len - 1) div len * len < 0" using assms by (simp add: mult_neg_pos)
    then show ?thesis using d False by (simp add: page_count_def)
  qed
  show "int k * len < n" if "k < page_count n len"
  proof -
    have "int k + 1 \<le> (n + len - 1) div len" using that by (simp add: page_count_def)
    then have "(int k + 1) * len \<le> (n + len - 1) div len * len" using assms by (intro mult_right_mono) auto
    then show ?thesis using d by (simp add: algebra_simps)
  qed
qed

text \<open>
  C21: The first page and the next ones, as many as there are, show the matching rows one after the other, each
  once.
\<close>

theorem pages_show_all_rows:
  assumes inv: "table_inv env s" and len: "0 < dt_length s" and pg: "en_paginate env"
  shows "concat (map (\<lambda>k. shown_nodes (page_visit env k s)) [0..<page_count (int (length (dt_display s))) (dt_length s)]) =
    map (\<lambda>i. ro_node (dt_data s ! i)) (dt_display s)"
proof -
  let ?n = "int (length (dt_display s))"
  let ?m = "nat (dt_length s)"
  let ?f = "\<lambda>i. ro_node (dt_data s ! i)"
  have "shown_nodes (page_visit env k s) = take ?m (drop (k * ?m) (map ?f (dt_display s)))"
    if "k < page_count ?n (dt_length s)" for k
  proof -
    have k: "int k * dt_length s < ?n" by (rule page_count_enough(2) [OF len that])
    have n: "nat (int k * dt_length s) = k * ?m" using len by (simp add: nat_mult_distrib)
    have "dt_display s \<noteq> []" using k len by (cases "dt_display s") (auto simp: zero_le_mult_iff mult_less_0_iff)
    then show ?thesis
      using page_visit_state [OF inv len k] pg len n
      by (simp add: table_inv_def shown_nodes_def page_view_def page_rows_def Let_def take_map drop_map)
  qed
  then have "concat (map (\<lambda>k. shown_nodes (page_visit env k s)) [0..<page_count ?n (dt_length s)]) =
      concat (map (\<lambda>k. take ?m (drop (k * ?m) (map ?f (dt_display s)))) [0..<page_count ?n (dt_length s)])"
    by (intro arg_cong [of _ _ concat] map_cong) auto
  also have "\<dots> = take (page_count ?n (dt_length s) * ?m) (map ?f (dt_display s))"
    by (rule concat_pages) (use len in simp)
  also have "\<dots> = map ?f (dt_display s)"
  proof -
    have m: "int ?m = dt_length s" using len by simp
    have "?n \<le> int (page_count ?n (dt_length s) * ?m)" using page_count_enough(1) [OF len, of ?n] unfolding of_nat_mult m .
    then have "length (map ?f (dt_display s)) \<le> page_count ?n (dt_length s) * ?m" by (simp only: of_nat_le_iff length_map)
    then show ?thesis by (rule take_all)
  qed
  finally show ?thesis .
qed

lemma pages_show_all_rows_witness:
  "concat (map (\<lambda>k. shown_nodes (page_visit demo_env k (table_after demo_env demo_columns [] 2 [AddRows [[CText ''x'', CText ''1''], [CText ''y'', CText ''2''], [CText ''z'', CText ''3'']]]))) [0..<2])
   = [0, 1, 2]"
proof -
  let ?s = "table_after demo_env demo_columns [] 2 [AddRows [[CText ''x'', CText ''1''], [CText ''y'', CText ''2''], [CText ''z'', CText ''3'']]]"
  have h: "history_ok demo_env demo_columns [] 2 [AddRows [[CText ''x'', CText ''1''], [CText ''y'', CText ''2''], [CText ''z'', CText ''3'']]]"
    by code_simp
  have l: "dt_length ?s = 2" "dt_display ?s = [0, 1, 2]" "map (\<lambda>i. ro_node (dt_data ?s ! i)) (dt_display ?s) = [0, 1, 2]"
    by code_simp+
  have p: "page_count (int (length (dt_display ?s))) (dt_length ?s) = 2" unfolding l by (simp add: page_count_def)
  show ?thesis
    using pages_show_all_rows [OF table_inv_history [OF h]] l(1) unfolding p l(3) by (simp add: demo_env_def)
qed

section \<open>Calls that leave the range\<close>

text \<open>A page number that is just past the last page shows no row at all: the code compares with \<open>></\<close>.\<close>

theorem page_past_the_end_is_blank:
  assumes inv: "table_inv env s" and k: "k * dt_length s = int (length (dt_display s))" "dt_display s \<noteq> []"
    and len: "0 < dt_length s"
  shows "dt_shown (table_step env (Page (PageNumber k)) s) = ShowRows []"
proof -
  have sub: "set (dt_display s) \<subseteq> {..<length (dt_data s)}"
    using inv by (auto simp: table_inv_def table_wf_def last_result_def)
  have "draw (calculateEnd env (pageChange (PageNumber k) s)) = (calculateEnd env (pageChange (PageNumber k) s))\<lparr>dt_shown :=
      page_view env (pageChange (PageNumber k) s) (dt_display (pageChange (PageNumber k) s))\<rparr>"
    by (rule draw_page) (use sub k len in \<open>auto simp: display_length_ok_def pageChange_def Let_def\<close>)
  then show ?thesis
    using k len by (simp add: fnPageChange_def pageChange_def Let_def page_view_def page_rows_def)
qed

lemma page_past_the_end_is_blank_witness:
  "dt_shown (table_step demo_env (Page (PageNumber 1)) (table_after demo_env demo_columns [] 1 [AddRows [[CText ''x'', CText ''1'']]]))
     = ShowRows []"
proof -
  have h: "history_ok demo_env demo_columns [] 1 [AddRows [[CText ''x'', CText ''1'']]]" by code_simp
  have l: "dt_length (table_after demo_env demo_columns [] 1 [AddRows [[CText ''x'', CText ''1'']]]) = 1"
    "dt_display (table_after demo_env demo_columns [] 1 [AddRows [[CText ''x'', CText ''1'']]]) = [0]" by code_simp+
  show ?thesis by (rule page_past_the_end_is_blank [OF table_inv_history [OF h]]) (simp_all add: l)
qed

text \<open>\<open>Last\<close> on a table without rows and with one row per page goes to the page before the first.\<close>

lemma last_of_no_rows: "dt_start (pageChange Last (new_table demo_columns [] 1)) = - 1"
  by code_simp

text \<open>\<open>Last\<close> with a page length that is large against the number of rows goes far beyond the rows.\<close>

lemma last_of_long_page:
  "dt_start (pageChange Last ((new_table demo_columns [] 1000000000)\<lparr>dt_display := [0, 1, 2, 3]\<rparr>)) = 3000000000"
  by (simp add: pageChange_def new_table_def parse_quotient_def lead_digit.simps)

section \<open>Deleting a row that is not shown\<close>

text \<open>The refinement when the search array is one entry short: the last row is not looked at.\<close>

lemma refine_short:
  "length ds = length xs \<Longrightarrow> \<exists>ws. refine_display P (length ys) ds (ys @ xs @ zs) = ys @ ws @ zs"
proof (induction ds arbitrary: xs ys)
  case (Cons d ds)
  then obtain x xs' where x: "xs = x # xs'" "length ds = length xs'" by (cases xs) auto
  show ?case
  proof (cases "P d")
    case True
    then show ?thesis using Cons.IH [OF x(2), of "ys @ [x]"] x(1) by auto
  next
    case False
    then show ?thesis using Cons.IH [OF x(2), of ys] x(1) by (simp add: js_splice_def)
  qed
qed simp

lemma removed_hidden:
  assumes inv: "table_inv env s" and t: "t < length (dt_data s)" "t \<notin> set (dt_display s)"
    and n: "length (dt_display s) \<noteq> length (dt_master s)"
  shows "dt_dataSearch (remove_row (Some t) s) = butlast (map (searchRow env s) (dt_display s))"
    and "dt_display (remove_row (Some t) s) = map (dec_above t) (dt_display s)"
    and "length (dt_master (remove_row (Some t) s)) = length (dt_master s) - 1"
    and "dt_data (remove_row (Some t) s) = js_splice (dt_data s) t 1 []"
    and "dt_columns (remove_row (Some t) s) = dt_columns s" "dt_prev (remove_row (Some t) s) = dt_prev s"
    and "dt_preCols (remove_row (Some t) s) = dt_preCols s" "dt_threw (remove_row (Some t) s) = dt_threw s"
proof -
  have wf: "table_wf s" and lr: "last_result env s" using inv by (simp_all add: table_inv_def)
  have m: "distinct (dt_master s)" "t \<in> set (dt_master s)" "distinct (dt_display s)"
    using wf lr t by (auto simp: table_wf_def last_result_def)
  have i: "index_in (Some t) (map Some (dt_display s)) = None" using t by (auto simp: index_in_None)
  have id: "filter (\<lambda>x. x \<noteq> t) (dt_display s) = dt_display s" using t by (auto simp: filter_id_conv)
  show "dt_dataSearch (remove_row (Some t) s) = butlast (map (searchRow env s) (dt_display s))"
    "dt_display (remove_row (Some t) s) = map (dec_above t) (dt_display s)"
    "length (dt_master (remove_row (Some t) s)) = length (dt_master s) - 1"
    using lr n i deleteIndex_distinct [OF m(1), of t] deleteIndex_distinct [OF m(3), of t] id length_without [OF m(1,2)]
    by (auto simp: remove_row_def Let_def reindex_def last_result_def)
qed (simp_all add: remove_row_def Let_def reindex_def)

text \<open>Filtering a column without a search leaves the display alone.\<close>

lemma no_column_search:
  "\<forall>c < n. se_search (dt_preCols s ! c) = [] \<Longrightarrow> fold (\<lambda>i. andThen (filterColumn env i)) [0..<n] s = s"
  by (induction n) (simp_all add: andThen_def filterColumn_def)

lemma filter_global_any:
  "filter_global env q f s = s\<lparr>dt_display := dt_display (filter_global env q f s), dt_dataSearch := dt_dataSearch (filter_global env q f s)\<rparr>"
  by (simp add: filter_global_def buildSearchArray_def Let_def)

text \<open>The display that a refining key leaves, when there are no other filters.\<close>

lemma keyup_display:
  assumes "\<not> dt_threw s" "\<forall>c < length (dt_preCols s). se_search (dt_preCols s ! c) = []" "en_custom env = []"
    and "val \<noteq> se_search (dt_prev s)"
  shows "dt_display (filter_keyup env val s) = dt_display (filter_global env ((dt_prev s)\<lparr>se_search := val\<rparr>) False s)"
proof -
  let ?q = "(dt_prev s)\<lparr>se_search := val\<rparr>"
  let ?g = "(filter_global env ?q False s)\<lparr>dt_prev := ?q\<rparr>"
  have g: "\<exists>D ds. filter_global env ?q False s = s\<lparr>dt_display := D, dt_dataSearch := ds\<rparr>"
    using filter_global_any by blast
  have dd: "dt_display (andThen f u) = dt_display u" if "\<And>v. dt_display (f v) = dt_display v" for f u
    using that by (simp add: andThen_def)
  have dr: "dt_display (draw u) = dt_display u" for u by (simp add: draw_def split: option.split)
  show ?thesis
    using g assms no_column_search [of "length (dt_preCols s)" ?g env]
    by (auto simp: filter_keyup_def filterComplete_def Let_def dd dr andThen_def filterCustom_def buildSearchArray_def)
qed

lemma keyup_short:
  assumes w: "\<not> dt_threw w" "dt_display w = ys @ [z]" "length (dt_dataSearch w) = length ys" "length (dt_display w) \<noteq> length (dt_master w)"
    and no: "\<forall>c < length (dt_preCols w). se_search (dt_preCols w ! c) = []" "en_custom env = []"
    and val: "prefix (se_search (dt_prev w)) val" "val \<noteq> se_search (dt_prev w)"
  shows "z \<in> set (dt_display (filter_keyup env val w))"
proof -
  let ?q = "(dt_prev w)\<lparr>se_search := val\<rparr>"
  have v: "val \<noteq> []" using val by auto
  have l: "\<not> length val < length (se_search (dt_prev w))" using val(1) by (auto dest: prefix_length_le)
  have "dt_display (filter_keyup env val w) = dt_display (filter_global env ?q False w)"
    by (rule keyup_display [OF w(1) no val(2)])
  also have "\<dots> = refine_display (search_test env ?q) 0 (dt_dataSearch w) (dt_display w)"
    using w(4) no(2) val(1) v l by (simp add: filter_global_def Let_def)
  finally show ?thesis
    using refine_short [OF w(3), of "search_test env ?q" "[]" "[z]"] w(2) by auto
qed

text \<open>
  C32: in a table without column searches and custom filters, with rows on display and at least two rows that
  the search hides: when one of the hidden rows has been deleted, the search array is one entry short, and a
  key that then extends the text of the search keeps the last row on display, whatever the text of that row.
  (After the only hidden row has been deleted, or on a key that does not extend the last search, the search
  array is built anew and the filter is right.)
\<close>

theorem hidden_delete_keeps_last:
  assumes inv: "table_inv env s" and t: "t < length (dt_data s)" "t \<notin> set (dt_display s)"
    and n: "dt_display s \<noteq> []" "Suc (length (dt_display s)) < length (dt_master s)"
    and no: "\<forall>c < length (dt_preCols s). se_search (dt_preCols s ! c) = []" "en_custom env = []"
    and val: "prefix (se_search (dt_prev s)) val" "val \<noteq> se_search (dt_prev s)"
  shows "last (dt_display (table_step env (DeleteRow t) s)) \<in>
    set (dt_display (table_step env (Typed val) (table_step env (DeleteRow t) s)))"
proof -
  note r = removed_hidden [OF inv t, OF less_imp_neq [OF less_trans [OF lessI n(2)]]]
  let ?d = "table_step env (DeleteRow t) s"
  let ?u = "calculateEnd env (if dt_start s \<ge> int (length (dt_display s)) then
      (remove_row (Some t) s)\<lparr>dt_start := max 0 (dt_start s - dt_length s)\<rparr> else remove_row (Some t) s)"
  have len: "dt_length (remove_row (Some t) s) = dt_length s" "dt_start (remove_row (Some t) s) = dt_start s"
    by (simp_all add: remove_row_def Let_def reindex_def)
  have e: "?d = draw ?u" using r(2) len by (simp add: fnDeleteRow_def Let_def)
  have f: "dt_display ?u = map (dec_above t) (dt_display s)" "dt_dataSearch ?u = butlast (map (searchRow env s) (dt_display s))"
    "length (dt_master ?u) = length (dt_master s) - 1" "dt_prev ?u = dt_prev s" "dt_preCols ?u = dt_preCols s" "\<not> dt_threw ?u"
    using r inv by (auto simp: table_inv_def)
  have st: "0 \<le> dt_start ?u" "display_length_ok ?u" using inv len by (auto simp: table_inv_def display_length_ok_def)
  have sub: "set (dt_display ?u) \<subseteq> {..<length (dt_data ?u)}"
  proof -
    have "set (dt_display s) \<subseteq> {..<length (dt_data s)} - {t}"
      using inv t by (auto simp: table_inv_def table_wf_def last_result_def)
    then have "dec_above t ` set (dt_display s) \<subseteq> {..<length (dt_data s) - 1}" using dec_above_image [OF t(1)] by blast
    moreover have "length (dt_data ?u) = length (dt_data s) - 1" using r(4) t(1) by (simp add: js_splice_def)
    ultimately show ?thesis unfolding f(1) by simp
  qed
  have cc: "calculateEnd env ?u = ?u" by (simp add: calculateEnd_def Let_def)
  have d: "?d = ?u\<lparr>dt_shown := page_view env ?u (dt_display ?u)\<rparr>" unfolding e using draw_page [OF sub st, of env] cc by simp
  obtain xs z where D: "dt_display s = xs @ [z]" using n(1) by (cases "dt_display s" rule: rev_cases) auto
  have fd: "dt_display ?d = map (dec_above t) xs @ [dec_above t z]" "length (dt_dataSearch ?d) = length (map (dec_above t) xs)"
    "length (dt_display ?d) \<noteq> length (dt_master ?d)" "dt_prev ?d = dt_prev s" "dt_preCols ?d = dt_preCols s" "\<not> dt_threw ?d"
    unfolding d using f n(2) by (simp_all add: D)
  have "dec_above t z \<in> set (dt_display (filter_keyup env val ?d))"
    by (rule keyup_short [OF fd(6,1,2,3)]) (use no val fd(4,5) in simp_all)
  then show ?thesis using fd(1) by simp
qed

text \<open>The rows \<open>xa\<close> and \<open>xb\<close> of four are on display; the third is deleted, and a search for \<open>xa\<close> still shows \<open>xb\<close>.\<close>

definition hidden_events :: "dt_event list" where
  "hidden_events = [AddRows [[CText ''xa'', CText ''1''], [CText ''xb'', CText ''2''], [CText ''c'', CText ''3''], [CText ''d'', CText ''4'']],
     Typed ''x'']"

lemma hidden_delete_keeps_last_witness:
  "last (dt_display (table_step demo_env (DeleteRow 2) (table_after demo_env demo_columns [] 5 hidden_events))) \<in>
     set (dt_display (table_step demo_env (Typed ''xa'') (table_step demo_env (DeleteRow 2) (table_after demo_env demo_columns [] 5 hidden_events))))"
proof -
  let ?s = "table_after demo_env demo_columns [] 5 hidden_events"
  have h: "history_ok demo_env demo_columns [] 5 hidden_events" by code_simp
  have c: "2 < length (dt_data ?s) \<and> dt_display ?s = [0, 1] \<and> length (dt_master ?s) = 4 \<and> dt_preCols ?s = [no_search, no_search] \<and>
      se_search (dt_prev ?s) = ''x''" by code_simp
  show ?thesis
    by (rule hidden_delete_keeps_last [OF table_inv_history [OF h]])
      (use c in \<open>auto simp: demo_env_def no_search_def less_Suc_eq\<close>)
qed

lemma hidden_delete_shows:
  "dt_display (table_step demo_env (Typed ''xa'') (table_step demo_env (DeleteRow 2) (table_after demo_env demo_columns [] 5 hidden_events))) = [0, 1]"
  by code_simp

end
