(* ===== verification/Dt_Pager.thy ===== *)
theory Dt_Pager
  imports Dt_Pages
begin

text \<open>
  The buttons with page numbers: the pager of \<open>DT_bootstrap.js\<close> and \<open>full_numbers\<close> of
  \<open>jquery.dataTables.js\<close>, each with five numbers at most, and the numbers of the line below the table.
\<close>

section \<open>\<open>DT_bootstrap.js\<close>\<close>

text \<open>\<open>Math.ceil(a / b)\<close>; the page length is not 0.\<close>

definition page_ceil :: "int \<Rightarrow> int \<Rightarrow> int" where
  "page_ceil a b = \<lceil>(of_int a :: rat) / of_int b\<rceil>"

record paging_info =
  iStart :: int
  iEnd :: int
  iLength :: int
  iTotal :: nat
  iFilteredTotal :: nat
  iPage :: int
  iTotalPages :: int

definition fnPagingInfo :: "dt_table \<Rightarrow> paging_info" where
  "fnPagingInfo s =
     \<lparr>iStart = dt_start s, iEnd = dt_end s, iLength = dt_length s, iTotal = length (dt_master s),
      iFilteredTotal = length (dt_display s), iPage = page_ceil (dt_start s) (dt_length s),
      iTotalPages = page_ceil (int (length (dt_display s))) (dt_length s)\<rparr>"

text \<open>The first and the last number of \<open>fnUpdate\<close>.\<close>

definition bootstrap_window :: "paging_info \<Rightarrow> int \<times> int" where
  "bootstrap_window oPaging =
     (let iListLength = 5; iHalf = iListLength div 2 in
      if iTotalPages oPaging < iListLength then (1, iTotalPages oPaging)
      else if iPage oPaging \<le> iHalf then (1, iListLength)
      else if iPage oPaging \<ge> iTotalPages oPaging - iHalf then (iTotalPages oPaging - iListLength + 1, iTotalPages oPaging)
      else (let a = iPage oPaging - iHalf + 1 in (a, a + iListLength - 1)))"

text \<open>The buttons: each number with the class \<open>active\<close> or without; then whether \<open>prev\<close> and \<open>next\<close> are disabled.\<close>

definition bootstrap_buttons :: "paging_info \<Rightarrow> (int \<times> bool) list \<times> bool \<times> bool" where
  "bootstrap_buttons oPaging =
     (case bootstrap_window oPaging of (a, b) \<Rightarrow>
        (map (\<lambda>j. (j, j = iPage oPaging + 1)) [a..b], iPage oPaging = 0,
         iPage oPaging = iTotalPages oPaging - 1 \<or> iTotalPages oPaging = 0))"

definition number_click :: "dt_env \<Rightarrow> int \<Rightarrow> dt_table \<Rightarrow> dt_table" where
  "number_click env j s = draw (calculateEnd env (s\<lparr>dt_start := (j - 1) * iLength (fnPagingInfo s)\<rparr>))"

section \<open>\<open>full_numbers\<close>\<close>

definition full_window :: "dt_table \<Rightarrow> int \<times> int" where
  "full_window s =
     (let iPageCount = 5; iPageCountHalf = iPageCount div 2;
          iPages = page_ceil (int (length (dt_display s))) (dt_length s);
          iCurrentPage = page_ceil (dt_start s) (dt_length s) + 1
      in
      if dt_length s = - 1 then (1, 1)
      else if iPages < iPageCount then (1, iPages)
      else if iCurrentPage \<le> iPageCountHalf then (1, iPageCount)
      else if iCurrentPage \<ge> iPages - iPageCountHalf then (iPages - iPageCount + 1, iPages)
      else (let a = iCurrentPage - 3 + 1 in (a, a + iPageCount - 1)))"

text \<open>The two pagers show the same numbers, although they count pages from 0 and from 1.\<close>

theorem pagers_agree:
  assumes "dt_length s \<noteq> - 1"
  shows "full_window s = bootstrap_window (fnPagingInfo s)"
  using assms by (auto simp: full_window_def bootstrap_window_def fnPagingInfo_def Let_def)

lemma pagers_agree_witness: "full_window (new_table demo_columns [] 10) = bootstrap_window (fnPagingInfo (new_table demo_columns [] 10))"
  by (rule pagers_agree) (simp add: new_table_def)

section \<open>The buttons and the pages\<close>

lemma page_ceil_mult: "0 < b \<Longrightarrow> page_ceil (k * b) b = k"
  by (simp add: page_ceil_def)

lemma page_ceil_bounds:
  assumes "0 < b"
  shows "a \<le> page_ceil a b * b" "(page_ceil a b - 1) * b < a"
proof -
  have c: "(of_int a :: rat) / of_int b \<le> of_int (page_ceil a b)" "of_int (page_ceil a b) - 1 < (of_int a :: rat) / of_int b"
    unfolding page_ceil_def by linarith+
  have "(of_int a :: rat) \<le> of_int (page_ceil a b) * of_int b" "(of_int (page_ceil a b) - 1) * of_int b < (of_int a :: rat)"
    using c assms by (simp_all add: field_simps)
  then have "(of_int a :: rat) \<le> of_int (page_ceil a b * b)" "(of_int ((page_ceil a b - 1) * b) :: rat) < of_int a" by simp_all
  then show "a \<le> page_ceil a b * b" "(page_ceil a b - 1) * b < a" by (simp_all only: of_int_le_iff of_int_less_iff)
qed

text \<open>What the numbers should be: as many as five pages allow, all of them pages, one of them active.\<close>

definition buttons_ok :: "int \<Rightarrow> (int \<times> bool) list \<Rightarrow> bool" where
  "buttons_ok pages bs \<longleftrightarrow>
     int (length bs) = min 5 pages \<and> (\<forall>(j, _) \<in> set bs. 1 \<le> j \<and> j \<le> pages) \<and>
     length (filter snd bs) = 1"

text \<open>
  C29: On a page that starts at a multiple of the page length, there are five numbers or one for each page, all
  are pages, and exactly one is active.
\<close>

theorem bootstrap_numbers:
  assumes "0 < dt_length s" "dt_start s = k * dt_length s" "0 \<le> k" "dt_start s < int (length (dt_display s))"
  shows "buttons_ok (iTotalPages (fnPagingInfo s)) (fst (bootstrap_buttons (fnPagingInfo s)))"
proof -
  let ?p = "fnPagingInfo s"
  let ?T = "iTotalPages ?p"
  have pg: "iPage ?p = k" using assms(1,2) by (simp add: fnPagingInfo_def page_ceil_mult)
  have "k * dt_length s < ?T * dt_length s"
    using assms(2,4) page_ceil_bounds(1) [OF assms(1), of "int (length (dt_display s))"] by (simp add: fnPagingInfo_def)
  then have T: "k < ?T" using assms(1) by simp
  obtain a b where w: "bootstrap_window ?p = (a, b)" by force
  have r: "1 \<le> a \<and> b \<le> ?T \<and> b - a + 1 = min 5 ?T \<and> a \<le> k + 1 \<and> k + 1 \<le> b"
    using w T assms(3) by (auto simp: bootstrap_window_def Let_def pg split: if_splits)
  have "filter snd (map (\<lambda>j. (j, j = k + 1)) [a..b]) = map (\<lambda>j. (j, j = k + 1)) (filter (\<lambda>j. j = k + 1) [a..b])"
    by (simp add: filter_map comp_def)
  moreover have "filter (\<lambda>j. j = k + 1) [a..b] = [k + 1]"
  proof -
    have s: "[a..b] = [a..k] @ (k + 1) # [k + 2..b]"
      using r upto_split2 [of a "k + 1" b] upto_split1 [of a "k + 1" b] by (metis upto_split3 add_diff_cancel_right' add.assoc one_add_one)
    have "filter (\<lambda>j. j = k + 1) [a..k] = []" "filter (\<lambda>j. j = k + 1) [k + 2..b] = []" by (auto simp: filter_empty_conv)
    then show ?thesis unfolding s by simp
  qed
  ultimately show ?thesis using r T w assms(3) by (auto simp: buttons_ok_def bootstrap_buttons_def pg)
qed

lemma bootstrap_numbers_witness:
  "buttons_ok 3 (fst (bootstrap_buttons (fnPagingInfo ((new_table demo_columns [] 2)\<lparr>dt_display := [0, 1, 2, 3, 4], dt_start := 2\<rparr>))))"
proof -
  let ?s = "(new_table demo_columns [] 2)\<lparr>dt_display := [0, 1, 2, 3, 4], dt_start := 2\<rparr>"
  have "page_ceil 5 2 = 3" by (simp add: page_ceil_def ceiling_unique)
  then have "iTotalPages (fnPagingInfo ?s) = 3" by (simp add: fnPagingInfo_def new_table_def)
  then show ?thesis using bootstrap_numbers [of ?s 1] by (simp add: new_table_def)
qed

text \<open>
  A longer page leaves a start that is no multiple of its length: of twelve rows, five a page, the third
  page becomes the rows 3 to 12, marked as page 2 of 2.
\<close>

lemma length_menu_shifts_pages:
  "dt_start (lengthChange demo_env 10 ((new_table demo_columns [] 5)\<lparr>dt_display := [0..<12], dt_start := 10\<rparr>)) = 2"
  by (simp add: lengthChange_def calculateEnd_def draw_def demo_env_def new_table_def Let_def split: option.split)

section \<open>The line below the table\<close>

text \<open>\<open>_START_\<close>, \<open>_END_\<close>, \<open>_TOTAL_\<close> and \<open>_MAX_\<close> of \<open>_fnInfoMacros\<close>.\<close>

definition info_numbers :: "dt_table \<Rightarrow> int \<times> int \<times> nat \<times> nat" where
  "info_numbers s = (dt_start s + 1, dt_end s, length (dt_display s), length (dt_master s))"

text \<open>Which texts \<open>_fnUpdateInfo\<close> takes: that for no records or the normal one, and the addition for a filter.\<close>

definition info_texts :: "dt_table \<Rightarrow> bool \<times> bool" where
  "info_texts s = (dt_display s = [], length (dt_display s) \<noteq> length (dt_master s))"

text \<open>
  C37: In every admissible history the line counts the rows that are shown: its range is not empty, lies in the
  matching rows, and has as many rows as the body of the table.
\<close>

theorem info_counts_rows:
  assumes h: "history_ok env cols sorting len es" and ne: "dt_display (table_after env cols sorting len es) \<noteq> []"
  shows "case info_numbers (table_after env cols sorting len es) of (a, b, tot, mx) \<Rightarrow>
    1 \<le> a \<and> a \<le> b \<and> b \<le> int tot \<and> tot \<le> mx \<and>
    int (length (shown_nodes (table_after env cols sorting len es))) = b - a + 1"
proof -
  let ?s = "table_after env cols sorting len es"
  have inv: "table_inv env ?s" by (rule table_inv_history [OF h])
  have st: "0 \<le> dt_start ?s" "dt_start ?s < int (length (dt_display ?s))" "display_length_ok ?s"
    "dt_end ?s = dt_end (calculateEnd env ?s)" "dt_shown ?s = page_view env ?s (dt_display ?s)"
    using inv ne by (auto simp: table_inv_def page_start_ok_def)
  have "length (dt_display ?s) \<le> length (dt_master ?s)" using inv by (simp add: table_inv_def last_result_def)
  moreover have e: "dt_start ?s < dt_end ?s" "dt_end ?s \<le> int (length (dt_display ?s))"
    using st by (auto simp: calculateEnd_end display_length_ok_def)
  moreover have "int (length (shown_nodes ?s)) = dt_end ?s - dt_start ?s"
  proof -
    have "length (shown_nodes ?s) = length (page_rows env ?s (dt_display ?s))"
      using st(5) ne by (simp add: shown_nodes_def page_view_def)
    also have "\<dots> = length (take (nat (dt_end ?s - dt_start ?s)) (drop (nat (dt_start ?s)) (dt_display ?s)))"
      using page_rows_end [OF st(1,3), of env] st(4) by simp
    finally show ?thesis using e st(1) by simp
  qed
  ultimately show ?thesis using st by (simp add: info_numbers_def)
qed

lemma info_counts_rows_witness:
  "case info_numbers (table_after demo_env demo_columns [(0, Asc, Some 0)] 2 demo_events) of (a, b, tot, mx) \<Rightarrow>
    1 \<le> a \<and> a \<le> b \<and> b \<le> int tot \<and> tot \<le> mx \<and>
    int (length (shown_nodes (table_after demo_env demo_columns [(0, Asc, Some 0)] 2 demo_events))) = b - a + 1"
proof -
  have "dt_display (table_after demo_env demo_columns [(0, Asc, Some 0)] 2 demo_events) \<noteq> []" by code_simp
  then show ?thesis by (rule info_counts_rows [OF demo_history_ok])
qed

end
