(* ===== verification/Page_Editable.thy ===== *)
theory Page_Editable
  imports Dt_History
begin

text \<open>
  The editable table of \<open>js/editable-table.js\<close> over the table of \<open>Dt_Table\<close>: the row that is edited
  (\<open>nEditing\<close>), the input fields of rows in edit mode, and the handlers of the links \<open>Edit\<close>/\<open>Save\<close>, \<open>Cancel\<close>,
  \<open>Delete\<close> and of the button for a new row. A handler that throws gives \<open>None\<close>. How a browser reads the
  value of an input from the markup that \<open>editRow\<close> builds is a parameter; a text whose own markup would make
  further input fields (\<open>editRow\<close> does not escape it) is outside the model. The page hides no column, so that
  the cells of a row are the columns 0 to 5.
\<close>

section \<open>State\<close>

record editor =
  ed_table :: dt_table
  ed_editing :: "nat option"                   \<comment> \<open>\<open>nEditing\<close>, a node\<close>
  ed_inputs :: "nat \<Rightarrow> string list option"     \<comment> \<open>the values of the input fields in a row\<close>

record editor_env =
  ee_table :: dt_env
  ee_read :: "string \<Rightarrow> string"                \<comment> \<open>the value of \<open><input value="...">\<close> with this text in it\<close>

definition edit_link :: string where "edit_link = ''<a class=\"edit\" href=\"\">Edit</a>''"
definition save_link :: string where "save_link = ''<a class=\"edit\" href=\"\">Save</a>''"
definition delete_link :: string where "delete_link = ''<a class=\"delete\" href=\"\">Delete</a>''"
definition cancel_link :: string where "cancel_link = ''<a class=\"cancel\" href=\"\">Cancel</a>''"
definition cancel_new_link :: string where "cancel_new_link = ''<a class=\"cancel\" data-mode=\"new\" href=\"\">Cancel</a>''"

definition input_html :: "string \<Rightarrow> string" where
  "input_html v = ''<input type=\"text\" class=\"form-control small\" value=\"'' @ v @ ''\">''"

section \<open>Operations\<close>

text \<open>\<open>oTable.fnGetData(nRow)\<close>: the index of the node and the data of its row.\<close>

definition row_of :: "editor \<Rightarrow> nat \<Rightarrow> (nat \<times> dt_row) option" where
  "row_of s n =
     (case dt_rowIndex (ed_table s) n of
        None \<Rightarrow> None
      | Some i \<Rightarrow> if i < length (dt_data (ed_table s)) then Some (i, dt_data (ed_table s) ! i) else None)"

text \<open>The text of a cell of the data, as the concatenation and \<open>fnUpdate\<close> use it.\<close>

definition data_text :: "dt_row \<Rightarrow> nat \<Rightarrow> string" where
  "data_text r c = html_of (ro_data r ! c)"

definition no_inputs :: "nat \<Rightarrow> editor \<Rightarrow> editor" where
  "no_inputs n s = s\<lparr>ed_inputs := (ed_inputs s)(n := None)\<rparr>"

definition restoreRow :: "editor_env \<Rightarrow> nat option \<Rightarrow> editor \<Rightarrow> editor option" where
  "restoreRow ee nRow s =
     (case nRow of
        None \<Rightarrow> None
      | Some n \<Rightarrow>
          (case row_of s n of
             None \<Rightarrow> None
           | Some (i, r) \<Rightarrow>
               let t = update_cells (ee_table ee) (map (\<lambda>c. (i, c, ro_data r ! c)) [0..<6]) (ed_table s)
               in Some (no_inputs (ro_node r) (s\<lparr>ed_table := fnDraw (ee_table ee) True t\<rparr>))))"

definition editRow :: "editor_env \<Rightarrow> nat \<Rightarrow> editor \<Rightarrow> editor option" where
  "editRow ee n s =
     (case row_of s n of
        None \<Rightarrow> None
      | Some (i, r) \<Rightarrow>
          let cells = map (\<lambda>c. input_html (data_text r c)) [0..<4] @ [save_link, cancel_link] @ drop 6 (ro_cells r)
          in Some (s\<lparr>ed_table := (ed_table s)\<lparr>dt_data := (dt_data (ed_table s))[i := r\<lparr>ro_cells := cells\<rparr>]\<rparr>,
                     ed_inputs := (ed_inputs s)(n := Some (map (\<lambda>c. ee_read ee (data_text r c)) [0..<4]))\<rparr>))"

definition saveRow :: "editor_env \<Rightarrow> nat \<Rightarrow> editor \<Rightarrow> editor option" where
  "saveRow ee n s =
     (case (ed_inputs s n, row_of s n) of
        (Some vs, Some (i, r)) \<Rightarrow>
          let us = map (\<lambda>c. (i, c, CText (vs ! c))) [0..<4] @ [(i, 4, CText edit_link), (i, 5, CText delete_link)];
              t = update_cells (ee_table ee) us (ed_table s)
          in Some (no_inputs (ro_node r) (s\<lparr>ed_table := fnDraw (ee_table ee) True t\<rparr>))
      | _ \<Rightarrow> None)"

section \<open>Handlers\<close>

definition new_row :: "dt_cell list" where
  "new_row = [CText [], CText [], CText [], CText [], CText edit_link, CText cancel_new_link]"

definition new_click :: "editor_env \<Rightarrow> editor \<Rightarrow> editor option" where
  "new_click ee s =
     (let aiNew = length (dt_data (ed_table s));
          s = s\<lparr>ed_table := fnAddData (ee_table ee) [new_row] True (ed_table s)\<rparr>;
          nRow = ro_node (dt_data (ed_table s) ! aiNew)
      in map_option (\<lambda>s. s\<lparr>ed_editing := Some nRow\<rparr>) (editRow ee nRow s))"

text \<open>\<open>fnDeleteRow(nRow)\<close>; the node goes from the page with its fields.\<close>

definition delete_node :: "editor_env \<Rightarrow> nat \<Rightarrow> editor \<Rightarrow> editor" where
  "delete_node ee n s =
     no_inputs n (s\<lparr>ed_table := fnDeleteRow (ee_table ee) (dt_rowIndex (ed_table s) n) True (ed_table s)\<rparr>)"

definition delete_click :: "editor_env \<Rightarrow> bool \<Rightarrow> nat \<Rightarrow> editor \<Rightarrow> editor option" where
  "delete_click ee confirmed n s = Some (if confirmed then delete_node ee n s else s)"

text \<open>The content of a cell of the row that a click was in.\<close>

definition cell_html :: "editor \<Rightarrow> nat \<Rightarrow> nat \<Rightarrow> string option" where
  "cell_html s n c = map_option (\<lambda>(i, r). ro_cells r ! c) (row_of s n)"

definition cancel_click :: "editor_env \<Rightarrow> nat \<Rightarrow> editor \<Rightarrow> editor option" where
  "cancel_click ee n s =
     (if cell_html s n 5 = Some cancel_new_link then Some (delete_node ee n s)
      else map_option (\<lambda>s. s\<lparr>ed_editing := None\<rparr>) (restoreRow ee (ed_editing s) s))"

definition edit_click :: "editor_env \<Rightarrow> nat \<Rightarrow> editor \<Rightarrow> editor option" where
  "edit_click ee n s =
     (if ed_editing s \<noteq> None \<and> ed_editing s \<noteq> Some n then
        Option.bind (restoreRow ee (ed_editing s) s) (\<lambda>s.
          map_option (\<lambda>s. s\<lparr>ed_editing := Some n\<rparr>) (editRow ee n s))
      else if ed_editing s = Some n \<and> cell_html s n 4 = Some save_link then
        map_option (\<lambda>s. s\<lparr>ed_editing := None\<rparr>) (saveRow ee n s)
      else map_option (\<lambda>s. s\<lparr>ed_editing := Some n\<rparr>) (editRow ee n s))"

text \<open>The user changes the text of a field.\<close>

definition type_input :: "nat \<Rightarrow> nat \<Rightarrow> string \<Rightarrow> editor \<Rightarrow> editor" where
  "type_input n c v s = s\<lparr>ed_inputs := (ed_inputs s)(n := map_option (\<lambda>vs. vs[c := v]) (ed_inputs s n))\<rparr>"

datatype editor_event =
    NewClick | DeleteClick bool nat | CancelClick nat | EditClick nat | TypeInput nat nat string | OnTable dt_event

text \<open>An exception ends the handler; none of them changes anything before it throws.\<close>

fun editor_react :: "editor_env \<Rightarrow> editor_event \<Rightarrow> editor \<Rightarrow> editor option" where
  "editor_react ee NewClick s = new_click ee s"
| "editor_react ee (DeleteClick b n) s = delete_click ee b n s"
| "editor_react ee (CancelClick n) s = cancel_click ee n s"
| "editor_react ee (EditClick n) s = edit_click ee n s"
| "editor_react ee (TypeInput n c v) s = Some (type_input n c v s)"
| "editor_react ee (OnTable e) s = Some (s\<lparr>ed_table := table_step (ee_table ee) e (ed_table s)\<rparr>)"

end
