(* ===== verification/Page_Editable_Rows.thy ===== *)
theory Page_Editable_Rows
  imports Page_Editable Dt_Pages
begin

text \<open>
  What the calls of the editable table do to its rows: drawing, sorting and filtering keep them, \<open>fnUpdate\<close> of
  all cells of a row replaces it, and writing into its node changes the content of the node only.
\<close>

section \<open>Drawing, sorting and filtering keep the rows\<close>

definition same_rows :: "dt_table \<Rightarrow> dt_table \<Rightarrow> bool" where
  "same_rows s t \<longleftrightarrow>
     dt_data s = dt_data t \<and> length (dt_columns s) = length (dt_columns t) \<and> dt_rowIndex s = dt_rowIndex t \<and>
     dt_nextNode s = dt_nextNode t"

lemma same_rows_refl [simp]: "same_rows s s"
  by (simp add: same_rows_def)

lemma same_rows_trans: "same_rows s t \<Longrightarrow> same_rows t u \<Longrightarrow> same_rows s u"
  by (simp add: same_rows_def)

lemma rows_calculateEnd: "same_rows s t \<Longrightarrow> same_rows s (calculateEnd env t)"
  by (simp add: same_rows_def)

lemma rows_draw: "same_rows s t \<Longrightarrow> same_rows s (draw t)"
  by (simp add: same_rows_def draw_def split: option.split)

lemma rows_andThen: "(\<And>t. same_rows s t \<Longrightarrow> same_rows s (f t)) \<Longrightarrow> same_rows s t \<Longrightarrow> same_rows s (andThen f t)"
  by (simp add: andThen_def)

lemma rows_filterColumn: "same_rows s t \<Longrightarrow> same_rows s (filterColumn env c t)"
  by (simp add: same_rows_def filterColumn_def Let_def split: prod.split)

lemma rows_fold: "(\<And>x t. same_rows s t \<Longrightarrow> same_rows s (f x t)) \<Longrightarrow> same_rows s t \<Longrightarrow> same_rows s (fold f xs t)"
  by (induction xs arbitrary: t) auto

lemma rows_filterComplete: "same_rows s t \<Longrightarrow> same_rows s (filterComplete env q f t)"
  unfolding filterComplete_def Let_def
proof (intro rows_andThen rows_fold)
  show "same_rows s (buildSearchArray env False u)" if "same_rows s u" for u
    using that by (simp add: same_rows_def buildSearchArray_def)
  show "same_rows s (draw u)" if "same_rows s u" for u using that by (rule rows_draw)
  show "same_rows s (calculateEnd env (u\<lparr>dt_start := 0\<rparr>))" if "same_rows s u" for u
    using that by (intro rows_calculateEnd) (simp add: same_rows_def)
  show "same_rows s (filterCustom env u)" if "same_rows s u" for u
    using that unfolding filterCustom_display by (simp add: same_rows_def)
  show "same_rows s (filterColumn env c u)" if "same_rows s u" for u c using that by (rule rows_filterColumn)
  show "same_rows s ((filter_global env q f t)\<lparr>dt_prev := q\<rparr>)" if "same_rows s t"
    using that by (subst filter_global_any) (simp add: same_rows_def)
qed

lemma rows_table_sort: "same_rows s t \<Longrightarrow> same_rows s (table_sort env t)"
proof (cases "sort_master env t")
  case None
  then show "same_rows s t \<Longrightarrow> ?thesis" by (simp add: table_sort_def same_rows_def)
next
  case (Some m)
  assume "same_rows s t"
  then have "same_rows s (t\<lparr>dt_master := m\<rparr>)" "same_rows s (t\<lparr>dt_master := m, dt_display := m, dt_start := 0\<rparr>)"
    by (simp_all add: same_rows_def)
  then show ?thesis
    using rows_filterComplete rows_draw rows_calculateEnd Some by (simp add: table_sort_def Let_def)
qed

lemma rows_reDraw: "same_rows s t \<Longrightarrow> same_rows s (reDraw env t)"
  by (simp add: reDraw_def rows_table_sort rows_filterComplete rows_draw rows_calculateEnd)

lemma rows_delete: "same_rows (remove_row k t) (fnDeleteRow env k True t)"
proof -
  have "same_rows (remove_row k t) ((remove_row k t)\<lparr>dt_start := x\<rparr>)" for x by (simp add: same_rows_def)
  then show ?thesis by (simp add: fnDeleteRow_def Let_def rows_draw rows_calculateEnd)
qed

text \<open>The events that leave the rows alone.\<close>

fun rows_kept :: "dt_event \<Rightarrow> bool" where
  "rows_kept (AddRows rows) = False"
| "rows_kept (DeleteRow i) = False"
| "rows_kept (UpdateCells us) = False"
| "rows_kept Clear = False"
| "rows_kept e = True"

lemma rows_pageChange: "same_rows s t \<Longrightarrow> same_rows s (pageChange p t)"
  by (simp add: pageChange_def same_rows_def Let_def)

lemma rows_table_step: "rows_kept e \<Longrightarrow> same_rows s (table_step env e s)"
proof (cases e)
  case (SearchColumn c q)
  have "same_rows s (s\<lparr>dt_preCols := (dt_preCols s)[c := q]\<rparr>)" by (simp add: same_rows_def)
  then show ?thesis using SearchColumn by (simp add: fnFilter_def rows_filterComplete)
next
  case (SortBy l)
  have "same_rows s (s\<lparr>dt_sorting := l\<rparr>)" by (simp add: same_rows_def)
  then show ?thesis using SortBy by (simp add: fnSort_def rows_table_sort)
next
  case (SortClick c b)
  have "same_rows s (s\<lparr>dt_sorting := click_sorting s c b\<rparr>)" by (simp add: same_rows_def)
  then show ?thesis using SortClick by (simp add: sort_click_def rows_table_sort)
next
  case (LengthMenu v)
  have "same_rows s (s\<lparr>dt_length := v\<rparr>)" by (simp add: same_rows_def)
  then have a: "same_rows s (calculateEnd env (s\<lparr>dt_length := v\<rparr>))" by (rule rows_calculateEnd)
  then have "same_rows s ((calculateEnd env (s\<lparr>dt_length := v\<rparr>))\<lparr>dt_start := x\<rparr>)" for x by (simp add: same_rows_def)
  then show ?thesis using LengthMenu a by (auto simp: lengthChange_def Let_def intro!: rows_draw)
qed (simp_all add: fnFilter_def filter_keyup_def fnPageChange_def pager_click_def fnDraw_def Let_def
    rows_filterComplete rows_draw rows_calculateEnd rows_pageChange rows_reDraw)

section \<open>Updating a whole row\<close>

lemma update_cells_snoc: "update_cells env (us @ [(i, c, v)]) s = update_cell env v i c (update_cells env us s)"
  by (simp add: update_cells_def)

text \<open>The cells of a row from the first on: data, node content and nothing else but the search array.\<close>

lemma update_row_cells:
  assumes "i < length (dt_data s)" "n \<le> length (ro_data (dt_data s ! i))" "n \<le> length (ro_cells (dt_data s ! i))"
    and "\<forall>c < n. is_text (f c)"
  shows "\<exists>ds. update_cells env (map (\<lambda>c. (i, c, f c)) [0..<n]) s =
    s\<lparr>dt_data := (dt_data s)[i := (dt_data s ! i)\<lparr>ro_data := map f [0..<n] @ drop n (ro_data (dt_data s ! i)),
        ro_cells := map (\<lambda>c. html_of (f c)) [0..<n] @ drop n (ro_cells (dt_data s ! i))\<rparr>],
      dt_dataSearch := ds\<rparr>"
  using assms(2-)
proof (induction n)
  case 0
  then show ?case by (intro exI [of _ "dt_dataSearch s"]) (simp add: update_cells_def)
next
  case (Suc n)
  let ?r = "dt_data s ! i"
  let ?new = "?r\<lparr>ro_data := map f [0..<n] @ drop n (ro_data ?r), ro_cells := map (\<lambda>c. html_of (f c)) [0..<n] @ drop n (ro_cells ?r)\<rparr>"
  obtain ds where ds: "update_cells env (map (\<lambda>c. (i, c, f c)) [0..<n]) s = s\<lparr>dt_data := (dt_data s)[i := ?new], dt_dataSearch := ds\<rparr>"
    using Suc.IH Suc.prems by (auto simp: less_SucI)
  let ?t = "s\<lparr>dt_data := (dt_data s)[i := ?new], dt_dataSearch := ds\<rparr>"
  have "(map f [0..<n] @ drop n (ro_data ?r))[n := f n] = map f [0..<Suc n] @ drop (Suc n) (ro_data ?r)"
    "(map (\<lambda>c. html_of (f c)) [0..<n] @ drop n (ro_cells ?r))[n := html_of (f n)] = map (\<lambda>c. html_of (f c)) [0..<Suc n] @ drop (Suc n) (ro_cells ?r)"
    using Suc.prems by (simp_all add: list_update_append upd_conv_take_nth_drop Cons_nth_drop_Suc [symmetric] less_le_trans)
  moreover have "\<exists>ds'. update_cell env (f n) i n ?t =
      ?t\<lparr>dt_data := (dt_data ?t)[i := (dt_data ?t ! i)\<lparr>ro_data := (ro_data (dt_data ?t ! i))[n := f n],
        ro_cells := (ro_cells (dt_data ?t ! i))[n := html_of (f n)]\<rparr>], dt_dataSearch := ds'\<rparr>"
    using assms(1) Suc.prems by (intro update_cell_fields) simp_all
  ultimately show ?case
    using ds assms(1) by (auto simp: update_cells_snoc)
qed

text \<open>Writing the cells of the node only.\<close>

definition put_cells :: "nat \<Rightarrow> string list \<Rightarrow> dt_table \<Rightarrow> dt_table" where
  "put_cells i cells t = t\<lparr>dt_data := (dt_data t)[i := (dt_data t ! i)\<lparr>ro_cells := cells\<rparr>]\<rparr>"

lemma put_cells_nth:
  assumes "i < length (dt_data t)"
  shows "ro_data (dt_data (put_cells i cells t) ! k) = ro_data (dt_data t ! k)"
    "ro_node (dt_data (put_cells i cells t) ! k) = ro_node (dt_data t ! k)"
  using assms by (cases "k = i"; simp add: put_cells_def)+

lemma put_cells_inv:
  assumes inv: "table_inv env t" and i: "i < length (dt_data t)" and c: "length cells = length (dt_columns t)"
  shows "table_inv env (put_cells i cells t)"
proof -
  let ?u = "put_cells i cells t"
  have f: "dt_columns ?u = dt_columns t" "dt_master ?u = dt_master t" "dt_display ?u = dt_display t" "dt_prev ?u = dt_prev t"
    "dt_preCols ?u = dt_preCols t" "dt_start ?u = dt_start t" "dt_length ?u = dt_length t" "dt_end ?u = dt_end t"
    "dt_shown ?u = dt_shown t" "dt_threw ?u = dt_threw t" "dt_rowIndex ?u = dt_rowIndex t" "dt_nextNode ?u = dt_nextNode t"
    "dt_dataSearch ?u = dt_dataSearch t" "length (dt_data ?u) = length (dt_data t)" "aaSort_of ?u = aaSort_of t"
    by (simp_all add: put_cells_def aaSort_of_def cong: option.case_cong)
  note n = put_cells_nth [OF i]
  have g: "getCellData ?u = getCellData t" by (intro ext) (simp add: getCellData_def f n)
  then have r: "getRowData ?u = getRowData t" "getColumns p ?u = getColumns p t" for p
    by (auto simp: getRowData_def getColumns_def f fun_eq_iff)
  then have s: "searchRow env ?u = searchRow env t" by (intro ext) (simp add: searchRow_def)
  have m: "row_matches env ?u = row_matches env t"
    using g r s by (intro ext) (simp add: row_matches_def global_match_def column_match_def custom_match_def column_text_def f)
  have v: "page_view env ?u xs = page_view env t xs" for xs by (simp add: page_view_def page_rows_def Let_def f n)
  have wf: "table_wf t" using inv by (simp add: table_inv_def)
  have cl: "length (ro_cells (dt_data t ! k)) = length (dt_columns t)" if "k < length (dt_data t)" for k
    using wf nth_mem [OF that] by (simp add: table_wf_def)
  have rows: "ro_data x = ro_data y \<and> length (ro_cells x) = length (dt_columns t)"
    if "x = dt_data ?u ! k" "y = dt_data t ! k" "k < length (dt_data t)" for x y k
    using that n c cl [OF that(3)] by (cases "k = i") (simp_all add: put_cells_def)
  have "text_table ?u" using wf rows f(1,14) unfolding table_wf_def text_table_def by (metis in_set_conv_nth)
  moreover have "\<forall>x \<in> set (dt_data ?u). length (ro_cells x) = length (dt_columns t)" using rows f(14) by (metis in_set_conv_nth)
  ultimately have "table_wf ?u" using wf by (simp add: table_wf_def f n)
  moreover have "dt_end (calculateEnd env ?u) = dt_end (calculateEnd env t)" by (simp add: calculateEnd_end f)
  moreover have "last_result env ?u = last_result env t" by (simp add: last_result_def f m s)
  moreover have "display_length_ok ?u = display_length_ok t" "page_start_ok ?u = page_start_ok t"
    by (simp_all add: display_length_ok_def page_start_ok_def f)
  ultimately show ?thesis using inv unfolding table_inv_def by (simp add: f v)
qed

text \<open>Writing a row of six cells and drawing the table, as \<open>restoreRow\<close> and \<open>saveRow\<close> do.\<close>

lemma six_cells: "[0..<6] = [0, 1, 2, 3, 4, 5 :: nat]"
  by (simp add: numeral_eq_Suc)

lemma write_row:
  assumes env: "standard_env env" and inv: "table_inv env t" and six: "length (dt_columns t) = 6"
    and i: "i < length (dt_data t)" and f: "\<forall>c < 6. is_text (f c)"
    and u: "u = fnDraw env True (update_cells env (map (\<lambda>c. (i, c, f c)) [0..<6]) t)"
  shows "table_inv env u" "length (dt_columns u) = 6" "dt_rowIndex u = dt_rowIndex t"
    "dt_data u = (dt_data t)[i := (dt_data t ! i)\<lparr>ro_data := map f [0..<6], ro_cells := map (\<lambda>c. html_of (f c)) [0..<6]\<rparr>]"
proof -
  have e: "en_filter env" "en_sort env" using env by (simp_all add: standard_env_def)
  let ?us = "map (\<lambda>c. (i, c, f c)) [0..<6]"
  have "\<forall>u \<in> set ?us. cell_in t u" using i f six by (auto simp: cell_in_def)
  then show "table_inv env u" unfolding u using update_cells_inv [OF inv _ e, of ?us] by (simp add: fnDraw_def)
  have l: "length (ro_data (dt_data t ! i)) = 6" "length (ro_cells (dt_data t ! i)) = 6"
    using inv i six nth_mem by (auto simp: table_inv_def table_wf_def text_table_def)
  obtain ds where w: "update_cells env ?us t = t\<lparr>dt_data := (dt_data t)[i := (dt_data t ! i)\<lparr>ro_data := map f [0..<6],
      ro_cells := map (\<lambda>c. html_of (f c)) [0..<6]\<rparr>], dt_dataSearch := ds\<rparr>"
    using update_row_cells [OF i, of 6 f env] f l by (auto simp: six_cells)
  have "same_rows (update_cells env ?us t) u"
    unfolding u fnDraw_def using rows_reDraw [OF same_rows_refl] by simp
  then show "length (dt_columns u) = 6" "dt_rowIndex u = dt_rowIndex t"
    "dt_data u = (dt_data t)[i := (dt_data t ! i)\<lparr>ro_data := map f [0..<6], ro_cells := map (\<lambda>c. html_of (f c)) [0..<6]\<rparr>]"
    unfolding w using six by (simp_all add: same_rows_def)
qed

end
