(* ===== verification/Page_Editable_Props.thy ===== *)
theory Page_Editable_Props
  imports Page_Editable_Rows
begin

text \<open>
  The editable table in every history in which a new row is begun only when no row is edited: one row at
  most is in edit mode, it is the one the code remembers, saving stores what was typed, cancelling restores
  the row, and nothing throws. The last section has what happens otherwise.
\<close>

section \<open>The state of the editor\<close>

text \<open>The cells of a row in edit mode, and what every row keeps.\<close>

definition edit_cells :: "dt_row \<Rightarrow> string list" where
  "edit_cells r = map (\<lambda>c. input_html (data_text r c)) [0..<4] @ [save_link, cancel_link]"

definition shown_cells :: "nat option \<Rightarrow> dt_row \<Rightarrow> string list" where
  "shown_cells e r = (if e = Some (ro_node r) then edit_cells r else map html_of (ro_data r))"

definition linked :: "dt_row \<Rightarrow> bool" where
  "linked r \<longleftrightarrow> ro_data r ! 4 = CText edit_link \<and> ro_data r ! 5 \<in> {CText delete_link, CText cancel_new_link}"

definition editor_inv :: "editor_env \<Rightarrow> editor \<Rightarrow> bool" where
  "editor_inv ee s \<longleftrightarrow>
     standard_env (ee_table ee) \<and> table_inv (ee_table ee) (ed_table s) \<and> length (dt_columns (ed_table s)) = 6 \<and>
     (\<forall>r \<in> set (dt_data (ed_table s)). linked r \<and> ro_cells r = shown_cells (ed_editing s) r) \<and>
     (\<forall>n. ed_inputs s n \<noteq> None \<longrightarrow> ed_editing s = Some n) \<and>
     (\<forall>n. ed_editing s = Some n \<longrightarrow>
        n \<in> ro_node ` set (dt_data (ed_table s)) \<and> (\<exists>vs. ed_inputs s n = Some vs \<and> length vs = 4))"

lemma inv_row_of:
  assumes "editor_inv ee s" "n \<in> ro_node ` set (dt_data (ed_table s))"
  obtains i where "i < length (dt_data (ed_table s))" "ro_node (dt_data (ed_table s) ! i) = n"
    "row_of s n = Some (i, dt_data (ed_table s) ! i)"
    "length (ro_data (dt_data (ed_table s) ! i)) = 6" "list_all is_text (ro_data (dt_data (ed_table s) ! i))"
proof -
  obtain i where i: "i < length (dt_data (ed_table s))" "ro_node (dt_data (ed_table s) ! i) = n"
    using assms(2) by (auto simp: in_set_conv_nth)
  then have "dt_rowIndex (ed_table s) n = Some i" using assms(1) by (auto simp: editor_inv_def table_inv_def table_wf_def)
  then show ?thesis
    using that [OF i] i assms(1) nth_mem [OF i(1)] by (auto simp: row_of_def editor_inv_def table_inv_def table_wf_def text_table_def)
qed

lemma node_unique:
  assumes "editor_inv ee s" "i < length (dt_data (ed_table s))" "r \<in> set (dt_data (ed_table s))"
    "ro_node r = ro_node (dt_data (ed_table s) ! i)"
  shows "r = dt_data (ed_table s) ! i"
  using assms by (auto simp: in_set_conv_nth editor_inv_def table_inv_def table_wf_def) (metis option.inject)

text \<open>Replacing the row of a node: what the rows of the new data are.\<close>

lemma replaced_rows:
  assumes "editor_inv ee s" "i < length (dt_data (ed_table s))" "ro_node new = ro_node (dt_data (ed_table s) ! i)"
  shows "(dt_data (ed_table s))[i := new] = map (\<lambda>r. if ro_node r = ro_node new then new else r) (dt_data (ed_table s))"
proof (rule nth_equalityI)
  fix k assume "k < length ((dt_data (ed_table s))[i := new])"
  then show "(dt_data (ed_table s))[i := new] ! k = map (\<lambda>r. if ro_node r = ro_node new then new else r) (dt_data (ed_table s)) ! k"
    using assms by (auto simp: nth_list_update editor_inv_def table_inv_def table_wf_def) (metis option.inject)
qed simp

section \<open>Entering and leaving edit mode\<close>

lemma editRow_enters:
  assumes inv: "editor_inv ee s" and idle: "ed_editing s = None \<or> ed_editing s = Some n"
    and n: "n \<in> ro_node ` set (dt_data (ed_table s))"
  shows "\<exists>s'. editRow ee n s = Some s' \<and> editor_inv ee (s'\<lparr>ed_editing := Some n\<rparr>) \<and>
    map ro_data (dt_data (ed_table s')) = map ro_data (dt_data (ed_table s)) \<and>
    map ro_node (dt_data (ed_table s')) = map ro_node (dt_data (ed_table s)) \<and>
    dt_shown (ed_table s') = dt_shown (ed_table s)"
proof -
  let ?t = "ed_table s"
  obtain i where i: "i < length (dt_data ?t)" "ro_node (dt_data ?t ! i) = n" "row_of s n = Some (i, dt_data ?t ! i)"
    "length (ro_data (dt_data ?t ! i)) = 6" by (rule inv_row_of [OF inv n])
  let ?r = "dt_data ?t ! i"
  have six: "length (dt_columns ?t) = 6" and ti: "table_inv (ee_table ee) ?t" using inv by (simp_all add: editor_inv_def)
  have lc: "length (ro_cells ?r) = 6" using ti i(1) six nth_mem by (auto simp: table_inv_def table_wf_def)
  have l6: "length (edit_cells r) = 6" for r by (simp add: edit_cells_def)
  define s' where "s' = s\<lparr>ed_table := put_cells i (edit_cells ?r) ?t,
      ed_inputs := (ed_inputs s)(n := Some (map (\<lambda>c. ee_read ee (data_text ?r c)) [0..<4]))\<rparr>"
  have e: "editRow ee n s = Some s'"
    using i(3) lc by (simp add: editRow_def s'_def put_cells_def edit_cells_def Let_def)
  have rows: "dt_data (put_cells i (edit_cells ?r) ?t) =
      map (\<lambda>r. if ro_node r = n then ?r\<lparr>ro_cells := edit_cells ?r\<rparr> else r) (dt_data ?t)"
    using replaced_rows [OF inv i(1), of "?r\<lparr>ro_cells := edit_cells ?r\<rparr>"] i(2) by (simp add: put_cells_def)
  have old: "linked r \<and> ro_cells r = shown_cells (ed_editing s) r" if "r \<in> set (dt_data ?t)" for r
    using inv that by (simp add: editor_inv_def)
  have "linked x \<and> ro_cells x = shown_cells (Some n) x" if x: "x \<in> set (dt_data (put_cells i (edit_cells ?r) ?t))" for x
  proof -
    obtain r where r: "r \<in> set (dt_data ?t)" "x = (if ro_node r = n then ?r\<lparr>ro_cells := edit_cells ?r\<rparr> else r)"
      using x unfolding rows by auto
    show ?thesis
    proof (cases "ro_node r = n")
      case True
      then show ?thesis using r(2) i(2) old [OF nth_mem [OF i(1)]] by (simp add: linked_def shown_cells_def edit_cells_def data_text_def)
    next
      case False
      then show ?thesis using r old [OF r(1)] idle by (auto simp: shown_cells_def)
    qed
  qed
  moreover have "table_inv (ee_table ee) (put_cells i (edit_cells ?r) ?t)"
    by (rule put_cells_inv [OF ti i(1)]) (simp add: l6 six)
  moreover have maps: "map ro_data (dt_data (put_cells i (edit_cells ?r) ?t)) = map ro_data (dt_data ?t)"
    "map ro_node (dt_data (put_cells i (edit_cells ?r) ?t)) = map ro_node (dt_data ?t)"
    using put_cells_nth [OF i(1)] by (auto intro!: nth_equalityI simp: put_cells_def)
  moreover have "n \<in> ro_node ` set (dt_data (put_cells i (edit_cells ?r) ?t))" using n maps(2) by (metis set_map)
  moreover have inp: "m = n" if "ed_inputs s m \<noteq> None" for m using that inv idle by (auto simp: editor_inv_def)
  ultimately have "editor_inv ee (s'\<lparr>ed_editing := Some n\<rparr>)"
    unfolding editor_inv_def s'_def using inv six by (simp add: editor_inv_def put_cells_def)
  then show ?thesis using e maps by (simp add: s'_def put_cells_def)
qed

text \<open>The row that is edited gets six new cells and leaves edit mode.\<close>

lemma row_written:
  assumes inv: "editor_inv ee s" and n: "ed_editing s = Some n"
    and i: "i < length (dt_data (ed_table s))" "ro_node (dt_data (ed_table s) ! i) = n"
    and f: "\<forall>c < 6. is_text (f c)" "f 4 = CText edit_link" "f 5 \<in> {CText delete_link, CText cancel_new_link}"
    and u: "u = fnDraw (ee_table ee) True (update_cells (ee_table ee) (map (\<lambda>c. (i, c, f c)) [0..<6]) (ed_table s))"
  shows "editor_inv ee ((no_inputs n (s\<lparr>ed_table := u\<rparr>))\<lparr>ed_editing := None\<rparr>)"
    and "dt_data u = map (\<lambda>r. if ro_node r = n then r\<lparr>ro_data := map f [0..<6], ro_cells := map (\<lambda>c. html_of (f c)) [0..<6]\<rparr> else r)
      (dt_data (ed_table s))"
    and "map ro_node (dt_data u) = map ro_node (dt_data (ed_table s))"
proof -
  let ?t = "ed_table s" and ?g = "\<lambda>r. r\<lparr>ro_data := map f [0..<6], ro_cells := map (\<lambda>c. html_of (f c)) [0..<6]\<rparr>"
  have b: "standard_env (ee_table ee)" "table_inv (ee_table ee) ?t" "length (dt_columns ?t) = 6" using inv by (simp_all add: editor_inv_def)
  note w = write_row [OF b i(1) f(1) u]
  have "dt_data u = map (\<lambda>r. if ro_node r = n then ?g (dt_data ?t ! i) else r) (dt_data ?t)"
    unfolding w(4) using replaced_rows [OF inv i(1), of "?g (dt_data ?t ! i)"] i(2) by simp
  also have "\<dots> = map (\<lambda>r. if ro_node r = n then ?g r else r) (dt_data ?t)"
    using node_unique [OF inv i(1)] i(2) by (intro map_cong) auto
  finally show d: "dt_data u = map (\<lambda>r. if ro_node r = n then ?g r else r) (dt_data ?t)" .
  show "map ro_node (dt_data u) = map ro_node (dt_data ?t)" unfolding d by simp
  have "linked x \<and> ro_cells x = shown_cells None x" if x: "x \<in> set (dt_data u)" for x
  proof -
    obtain r where r: "r \<in> set (dt_data ?t)" "x = (if ro_node r = n then ?g r else r)" using x unfolding d by auto
    have l: "linked r" "ro_cells r = shown_cells (ed_editing s) r" using inv r(1) by (simp_all add: editor_inv_def)
    show ?thesis
    proof (cases "ro_node r = n")
      case True
      then show ?thesis using r(2) f(2,3) by (simp add: linked_def shown_cells_def comp_def)
    next
      case False
      then show ?thesis using r(2) l n by (simp add: shown_cells_def)
    qed
  qed
  moreover have "ed_inputs s m = None" if "m \<noteq> n" for m using inv n that by (auto simp: editor_inv_def)
  ultimately show "editor_inv ee ((no_inputs n (s\<lparr>ed_table := u\<rparr>))\<lparr>ed_editing := None\<rparr>)"
    using b(1) w(1,2) by (simp add: editor_inv_def no_inputs_def)
qed

lemma restoreRow_leaves:
  assumes inv: "editor_inv ee s" and n: "ed_editing s = Some n"
  shows "\<exists>s'. restoreRow ee (Some n) s = Some s' \<and> editor_inv ee (s'\<lparr>ed_editing := None\<rparr>) \<and>
    dt_data (ed_table s') = map (\<lambda>r. r\<lparr>ro_cells := map html_of (ro_data r)\<rparr>) (dt_data (ed_table s)) \<and> ed_editing s' = Some n"
proof -
  have "n \<in> ro_node ` set (dt_data (ed_table s))" using inv n by (simp add: editor_inv_def)
  then obtain i where i: "i < length (dt_data (ed_table s))" "ro_node (dt_data (ed_table s) ! i) = n"
    "row_of s n = Some (i, dt_data (ed_table s) ! i)" and
    r: "length (ro_data (dt_data (ed_table s) ! i)) = 6" "list_all is_text (ro_data (dt_data (ed_table s) ! i))"
    by (rule inv_row_of [OF inv])
  let ?r = "dt_data (ed_table s) ! i"
  define u where "u = fnDraw (ee_table ee) True (update_cells (ee_table ee) (map (\<lambda>c. (i, c, ro_data ?r ! c)) [0..<6]) (ed_table s))"
  have "linked ?r" using inv i(1) by (simp add: editor_inv_def)
  then have l: "ro_data ?r ! 4 = CText edit_link" "ro_data ?r ! 5 \<in> {CText delete_link, CText cancel_new_link}" by (simp_all add: linked_def)
  have t: "\<forall>c < 6. is_text (ro_data ?r ! c)" using r by (simp add: list_all_length)
  note w = row_written [OF inv n i(1,2) t l u_def]
  have six: "map (\<lambda>c. g (xs ! c)) [0..<6] = map g xs" if "length xs = 6" for g :: "dt_cell \<Rightarrow> 'z" and xs
    using that by (intro nth_equalityI) auto
  have m: "map (\<lambda>c. ro_data ?r ! c) [0..<6] = ro_data ?r" using six [OF r(1), of id] by simp
  have h: "map (\<lambda>c. html_of (ro_data ?r ! c)) [0..<6] = map html_of (ro_data ?r)" by (rule six [OF r(1)])
  have "dt_data u = map (\<lambda>r. r\<lparr>ro_cells := map html_of (ro_data r)\<rparr>) (dt_data (ed_table s))"
    unfolding w(2) m h
  proof (intro map_cong refl)
    fix x assume x: "x \<in> set (dt_data (ed_table s))"
    show "(if ro_node x = n then x\<lparr>ro_data := ro_data ?r, ro_cells := map html_of (ro_data ?r)\<rparr> else x) =
        x\<lparr>ro_cells := map html_of (ro_data x)\<rparr>"
    proof (cases "ro_node x = n")
      case True
      then show ?thesis using node_unique [OF inv i(1) x] i(2) by simp
    next
      case False
      then show ?thesis using inv x n by (simp add: editor_inv_def shown_cells_def)
    qed
  qed
  moreover have "restoreRow ee (Some n) s = Some (no_inputs n (s\<lparr>ed_table := u\<rparr>))"
    using i(2,3) by (simp add: restoreRow_def u_def Let_def)
  ultimately show ?thesis using w(1) n by (simp add: no_inputs_def)
qed

lemma saveRow_stores:
  assumes inv: "editor_inv ee s" and n: "ed_editing s = Some n" and vs: "ed_inputs s n = Some vs"
  shows "\<exists>s'. saveRow ee n s = Some s' \<and> editor_inv ee (s'\<lparr>ed_editing := None\<rparr>) \<and>
    dt_data (ed_table s') = map (\<lambda>r. if ro_node r = n
      then r\<lparr>ro_data := map CText vs @ [CText edit_link, CText delete_link], ro_cells := vs @ [edit_link, delete_link]\<rparr> else r)
      (dt_data (ed_table s))"
proof -
  have "n \<in> ro_node ` set (dt_data (ed_table s))" "length vs = 4" using inv n vs by (auto simp: editor_inv_def)
  then obtain i where i: "i < length (dt_data (ed_table s))" "ro_node (dt_data (ed_table s) ! i) = n"
    "row_of s n = Some (i, dt_data (ed_table s) ! i)" and v: "length vs = 4"
    using inv_row_of [OF inv] by metis
  let ?f = "\<lambda>c. if c < 4 then CText (vs ! c) else if c = 4 then CText edit_link else CText delete_link"
  define u where "u = fnDraw (ee_table ee) True (update_cells (ee_table ee) (map (\<lambda>c. (i, c, ?f c)) [0..<6]) (ed_table s))"
  note w = row_written [OF inv n i(1,2) _ _ _ u_def]
  obtain a b c d where "vs = [a, b, c, d]" using v by (auto simp: numeral_eq_Suc length_Suc_conv)
  then have f: "map ?f [0..<6] = map CText vs @ [CText edit_link, CText delete_link]"
    "map (\<lambda>c. html_of (?f c)) [0..<6] = vs @ [edit_link, delete_link]"
    "map (\<lambda>c. (i, c, ?f c)) [0..<6] = map (\<lambda>c. (i, c, CText (vs ! c))) [0..<4] @ [(i, 4, CText edit_link), (i, 5, CText delete_link)]"
    by (simp_all add: numeral_eq_Suc html_of_def)
  have "saveRow ee n s = Some (no_inputs n (s\<lparr>ed_table := u\<rparr>))"
    using i(2,3) vs by (simp add: saveRow_def u_def f(3) Let_def)
  then show ?thesis using w(1,2) unfolding f by (simp add: no_inputs_def)
qed

text \<open>The link in a cell of a row.\<close>

lemma links_differ [simp]:
  "edit_link \<noteq> save_link" "delete_link \<noteq> cancel_link" "delete_link \<noteq> cancel_new_link" "cancel_link \<noteq> cancel_new_link"
  "cancel_link \<noteq> delete_link" "cancel_new_link \<noteq> cancel_link" "save_link \<noteq> edit_link" "cancel_new_link \<noteq> delete_link"
  by (simp_all add: edit_link_def save_link_def delete_link_def cancel_link_def cancel_new_link_def)

lemma cell_of_row:
  assumes inv: "editor_inv ee s" and n: "n \<in> ro_node ` set (dt_data (ed_table s))"
  obtains r where "r \<in> set (dt_data (ed_table s))" "ro_node r = n"
    "cell_html s n 4 = Some (if ed_editing s = Some n then save_link else edit_link)"
    "cell_html s n 5 = Some (if ed_editing s = Some n then cancel_link else html_of (ro_data r ! 5))"
    "html_of (ro_data r ! 5) \<in> {delete_link, cancel_new_link}"
proof -
  obtain i where i: "i < length (dt_data (ed_table s))" "ro_node (dt_data (ed_table s) ! i) = n"
    "row_of s n = Some (i, dt_data (ed_table s) ! i)" and r: "length (ro_data (dt_data (ed_table s) ! i)) = 6"
    by (rule inv_row_of [OF inv n])
  let ?r = "dt_data (ed_table s) ! i"
  have l: "linked ?r" "ro_cells ?r = shown_cells (ed_editing s) ?r" using inv i(1) by (simp_all add: editor_inv_def)
  have "edit_cells ?r ! 4 = save_link" "edit_cells ?r ! 5 = cancel_link" by (simp_all add: edit_cells_def nth_append)
  then show ?thesis
    using that [of ?r] i l r by (auto simp: cell_html_def shown_cells_def linked_def html_of_def)
qed

text \<open>A row on show is one of the display.\<close>

lemma shown_row:
  assumes inv: "table_inv env t" and n: "n \<in> set (shown_nodes t)"
  obtains i where "i \<in> set (dt_display t)" "i < length (dt_data t)" "ro_node (dt_data t ! i) = n" "dt_rowIndex t n = Some i"
proof -
  have "set (page_rows env t xs) \<subseteq> set xs" for xs :: "nat list"
    by (auto simp: page_rows_def Let_def dest: in_set_takeD in_set_dropD)
  then obtain i where i: "i \<in> set (dt_display t)" "n = ro_node (dt_data t ! i)"
    using inv n by (fastforce simp: table_inv_def shown_nodes_def page_view_def split: if_splits)
  moreover have "set (dt_display t) \<subseteq> {..<length (dt_data t)}" using inv by (auto simp: table_inv_def table_wf_def last_result_def)
  ultimately show ?thesis using that [of i] inv by (auto simp: table_inv_def table_wf_def)
qed

section \<open>Adding and deleting\<close>

lemma new_row_table:
  assumes env: "standard_env env" and inv: "table_inv env t" and six: "length (dt_columns t) = 6"
  shows "table_inv env (fnAddData env [new_row] True t)" "length (dt_columns (fnAddData env [new_row] True t)) = 6"
    "dt_data (fnAddData env [new_row] True t) =
       dt_data t @ [\<lparr>ro_data = new_row, ro_node = dt_nextNode t, ro_cells = map html_of new_row\<rparr>]"
proof -
  have row: "text_row t new_row" using six by (simp add: text_row_def new_row_def)
  show "table_inv env (fnAddData env [new_row] True t)"
    using fnAddData_inv [OF inv, of "[new_row]"] row env by (simp add: standard_env_def)
  obtain cs where a: "addData env new_row t =
      t\<lparr>dt_columns := cs, dt_data := dt_data t @ [\<lparr>ro_data = new_row, ro_node = dt_nextNode t, ro_cells = map html_of new_row\<rparr>],
        dt_master := dt_master t @ [length (dt_data t)],
        dt_rowIndex := (dt_rowIndex t)(dt_nextNode t := Some (length (dt_data t))), dt_nextNode := Suc (dt_nextNode t)\<rparr>"
    and "map col_shape cs = map col_shape (dt_columns t)"
    using addData_fields [OF row, of env] by blast
  then have "length cs = 6" using six map_eq_imp_length_eq by metis
  moreover have "same_rows ((addData env new_row t)\<lparr>dt_display := dt_master (addData env new_row t)\<rparr>) (fnAddData env [new_row] True t)"
    using rows_reDraw [OF same_rows_refl] by (simp add: fnAddData_def Let_def)
  ultimately show "length (dt_columns (fnAddData env [new_row] True t)) = 6"
    "dt_data (fnAddData env [new_row] True t) =
       dt_data t @ [\<lparr>ro_data = new_row, ro_node = dt_nextNode t, ro_cells = map html_of new_row\<rparr>]"
    by (simp_all add: same_rows_def a)
qed

lemma new_click_idle:
  assumes inv: "editor_inv ee s" and idle: "ed_editing s = None"
  shows "\<exists>s'. new_click ee s = Some s' \<and> editor_inv ee s' \<and> ed_editing s' = Some (dt_nextNode (ed_table s))"
proof -
  let ?t = "fnAddData (ee_table ee) [new_row] True (ed_table s)" and ?k = "dt_nextNode (ed_table s)"
  have b: "standard_env (ee_table ee)" "table_inv (ee_table ee) (ed_table s)" "length (dt_columns (ed_table s)) = 6"
    using inv by (simp_all add: editor_inv_def)
  note t = new_row_table [OF b]
  have "linked \<lparr>ro_data = new_row, ro_node = ?k, ro_cells = map html_of new_row\<rparr>" by (simp add: linked_def new_row_def)
  then have "editor_inv ee (s\<lparr>ed_table := ?t\<rparr>)"
    using inv b(1) t(1,2) idle unfolding editor_inv_def t(3) by (auto simp: t(3) shown_cells_def)
  then show ?thesis
    using editRow_enters [of ee "s\<lparr>ed_table := ?t\<rparr>" ?k] idle by (auto simp: new_click_def t(3) Let_def)
qed

lemma delete_keeps:
  assumes inv: "editor_inv ee s" and n: "n \<in> set (shown_nodes (ed_table s))" "ed_editing s \<noteq> Some n" and cu: "en_custom (ee_table ee) = []"
  shows "editor_inv ee (delete_node ee n s)"
proof -
  let ?t = "ed_table s"
  have ti: "table_inv (ee_table ee) ?t" using inv by (simp add: editor_inv_def)
  obtain i where i: "i \<in> set (dt_display ?t)" "i < length (dt_data ?t)" "ro_node (dt_data ?t ! i) = n" "dt_rowIndex ?t n = Some i"
    by (rule shown_row [OF ti n(1)])
  let ?u = "fnDeleteRow (ee_table ee) (Some i) True ?t"
  have d: "dt_data ?u = js_splice (dt_data ?t) i 1 []" "length (dt_columns ?u) = length (dt_columns ?t)"
    using rows_delete [of "Some i" ?t "ee_table ee"] by (simp_all add: same_rows_def remove_row_def reindex_def Let_def)
  have sub: "set (dt_data ?u) \<subseteq> set (dt_data ?t)" unfolding d using set_js_splice_subset [of "dt_data ?t" i 1 "[]"] by simp
  have stay: "r \<in> set (dt_data ?u)" if r: "r \<in> set (dt_data ?t)" "ro_node r \<noteq> n" for r
  proof -
    obtain k where k: "k < length (dt_data ?t)" "dt_data ?t ! k = r" using r(1) by (auto simp: in_set_conv_nth)
    then consider "k < i" | "i < k" using r(2) i(3) by fastforce
    then show ?thesis
    proof cases
      case 1
      then show ?thesis using k nth_mem [of k "take i (dt_data ?t)"] unfolding d by (simp add: js_splice_def)
    next
      case 2
      then show ?thesis using k nth_mem [of "k - Suc i" "drop (Suc i) (dt_data ?t)"] unfolding d by (simp add: js_splice_def)
    qed
  qed
  have "table_inv (ee_table ee) ?u" by (rule fnDeleteRow_inv [OF ti i(1) cu])
  moreover have "m \<in> ro_node ` set (dt_data ?u)" if "ed_editing s = Some m" for m
    using inv that n(2) stay by (force simp: editor_inv_def)
  ultimately show ?thesis
    using inv sub n(2) d(2) i(4) by (auto simp: editor_inv_def delete_node_def no_inputs_def)
qed

section \<open>Events\<close>

text \<open>
  What the theorems allow: clicks on the links that a row on show has, fields that exist, a new row only when
  no row is edited, and the events of the table that leave its rows alone.
\<close>

fun editor_ok :: "editor_env \<Rightarrow> editor \<Rightarrow> editor_event \<Rightarrow> bool" where
  "editor_ok ee s NewClick = (ed_editing s = None)"
| "editor_ok ee s (DeleteClick b n) = (n \<in> set (shown_nodes (ed_table s)) \<and> cell_html s n 5 = Some delete_link)"
| "editor_ok ee s (CancelClick n) =
     (n \<in> set (shown_nodes (ed_table s)) \<and> cell_html s n 5 \<in> {Some cancel_link, Some cancel_new_link})"
| "editor_ok ee s (EditClick n) = (n \<in> set (shown_nodes (ed_table s)))"
| "editor_ok ee s (TypeInput n c v) = (ed_inputs s n \<noteq> None \<and> c < 4)"
| "editor_ok ee s (OnTable e) = (rows_kept e \<and> table_event_ok (ee_table ee) (ed_table s) e)"

lemma shown_live:
  assumes "editor_inv ee s" "n \<in> set (shown_nodes (ed_table s))"
  shows "n \<in> ro_node ` set (dt_data (ed_table s))"
  by (rule shown_row [of "ee_table ee" "ed_table s" n]) (use assms in \<open>auto simp: editor_inv_def\<close>)

lemma type_input_keeps:
  "editor_inv ee s \<Longrightarrow> editor_inv ee (type_input n c v s)"
  by (auto simp: editor_inv_def type_input_def split: if_splits)

lemma editRow_mode: "editRow ee n (s\<lparr>ed_editing := e\<rparr>) = map_option (\<lambda>s. s\<lparr>ed_editing := e\<rparr>) (editRow ee n s)"
  by (simp add: editRow_def row_of_def Let_def split: option.split)

lemma edit_click_keeps:
  assumes inv: "editor_inv ee s" and n: "n \<in> ro_node ` set (dt_data (ed_table s))"
  shows "\<exists>s'. edit_click ee n s = Some s' \<and> editor_inv ee s'"
proof (cases "ed_editing s")
  case None
  then show ?thesis using editRow_enters [OF inv _ n] by (auto simp: edit_click_def)
next
  case (Some m)
  show ?thesis
  proof (cases "m = n")
    case True
    obtain vs where vs: "ed_inputs s n = Some vs" using inv Some True by (auto simp: editor_inv_def)
    moreover have "cell_html s n 4 = Some save_link" by (rule cell_of_row [OF inv n]) (use Some True in simp)
    ultimately show ?thesis using saveRow_stores [OF inv _ vs] Some True by (auto simp: edit_click_def)
  next
    case False
    obtain r where r: "restoreRow ee (Some m) s = Some r" "editor_inv ee (r\<lparr>ed_editing := None\<rparr>)"
      "dt_data (ed_table r) = map (\<lambda>r. r\<lparr>ro_cells := map html_of (ro_data r)\<rparr>) (dt_data (ed_table s))"
      using restoreRow_leaves [OF inv Some] by blast
    have "n \<in> ro_node ` set (dt_data (ed_table r))" using n unfolding r(3) by (auto simp: image_iff)
    then obtain t where "editRow ee n (r\<lparr>ed_editing := None\<rparr>) = Some t" "editor_inv ee (t\<lparr>ed_editing := Some n\<rparr>)"
      using editRow_enters [OF r(2), of n] by auto
    then show ?thesis using r(1) Some False by (auto simp: edit_click_def editRow_mode)
  qed
qed

lemma cancel_click_keeps:
  assumes inv: "editor_inv ee s" and cu: "en_custom (ee_table ee) = []" and ok: "editor_ok ee s (CancelClick n)"
  shows "\<exists>s'. cancel_click ee n s = Some s' \<and> editor_inv ee s'"
proof -
  have sh: "n \<in> set (shown_nodes (ed_table s))" using ok by simp
  obtain l where c: "cell_html s n 5 = Some (if ed_editing s = Some n then cancel_link else l)" "l \<in> {delete_link, cancel_new_link}"
    by (rule cell_of_row [OF inv shown_live [OF inv sh]])
  show ?thesis
  proof (cases "cell_html s n 5 = Some cancel_new_link")
    case True
    then have "ed_editing s \<noteq> Some n" using c(1) by auto
    then show ?thesis using True delete_keeps [OF inv sh _ cu] by (simp add: cancel_click_def)
  next
    case False
    then have "ed_editing s = Some n" using c ok by (auto split: if_splits)
    then show ?thesis using False restoreRow_leaves [OF inv] by (auto simp: cancel_click_def)
  qed
qed

lemma editor_react_inv:
  assumes inv: "editor_inv ee s" and cu: "en_custom (ee_table ee) = []" and ok: "editor_ok ee s e"
  shows "\<exists>s'. editor_react ee e s = Some s' \<and> editor_inv ee s'"
proof (cases e)
  case NewClick
  then show ?thesis using new_click_idle [OF inv] ok by auto
next
  case (DeleteClick b n)
  have n: "n \<in> set (shown_nodes (ed_table s))" "cell_html s n 5 = Some delete_link" using ok DeleteClick by simp_all
  have "ed_editing s \<noteq> Some n" by (rule cell_of_row [OF inv shown_live [OF inv n(1)]]) (use n(2) in auto)
  then show ?thesis using DeleteClick delete_keeps [OF inv n(1) _ cu] inv by (simp add: delete_click_def)
next
  case (CancelClick n)
  then show ?thesis using cancel_click_keeps [OF inv cu] ok by simp
next
  case (EditClick n)
  then show ?thesis using edit_click_keeps [OF inv shown_live [OF inv]] ok by simp
next
  case (TypeInput n c v)
  then show ?thesis using type_input_keeps [OF inv] by simp
next
  case (OnTable e)
  let ?u = "table_step (ee_table ee) e (ed_table s)"
  have "same_rows (ed_table s) ?u" using ok OnTable by (intro rows_table_step) simp
  moreover have "table_inv (ee_table ee) ?u"
    using inv ok OnTable by (intro table_step_inv) (simp_all add: editor_inv_def standard_env_def)
  ultimately show ?thesis using OnTable inv by (simp add: editor_inv_def same_rows_def)
qed

section \<open>Histories\<close>

text \<open>An exception ends the history.\<close>

definition editor_step :: "editor_env \<Rightarrow> editor_event \<Rightarrow> editor option \<Rightarrow> editor option" where
  "editor_step ee e o' = Option.bind o' (editor_react ee e)"

definition editor_step_ok :: "editor_env \<Rightarrow> editor option \<Rightarrow> editor_event \<Rightarrow> bool" where
  "editor_step_ok ee o' e = (case o' of None \<Rightarrow> False | Some s \<Rightarrow> editor_ok ee s e)"

definition editor_runs :: "editor_env \<Rightarrow> editor option \<Rightarrow> bool" where
  "editor_runs ee o' \<longleftrightarrow> en_custom (ee_table ee) = [] \<and> (\<exists>s. o' = Some s \<and> editor_inv ee s)"

interpretation editor: guarded_machine "editor_step ee" "editor_runs ee" "editor_step_ok ee" for ee
  by unfold_locales (auto simp: editor_step_def editor_runs_def editor_step_ok_def dest: editor_react_inv)

text \<open>The rows that the page starts with, five a page, none of them in edit mode.\<close>

definition editor_start :: "editor_env \<Rightarrow> dt_column list \<Rightarrow> (nat \<times> dt_dir \<times> nat option) list \<Rightarrow> dt_cell list list \<Rightarrow> editor" where
  "editor_start ee cols sorting rows =
     \<lparr>ed_table = table_after (ee_table ee) cols sorting 5 [AddRows rows], ed_editing = None, ed_inputs = (\<lambda>_. None)\<rparr>"

definition editor_history_ok ::
    "editor_env \<Rightarrow> dt_column list \<Rightarrow> (nat \<times> dt_dir \<times> nat option) list \<Rightarrow> dt_cell list list \<Rightarrow> editor_event list \<Rightarrow> bool" where
  "editor_history_ok ee cols sorting rows es \<longleftrightarrow>
     en_custom (ee_table ee) = [] \<and> length cols = 6 \<and> history_ok (ee_table ee) cols sorting 5 [AddRows rows] \<and>
     (\<forall>row \<in> set rows. row ! 4 = CText edit_link \<and> row ! 5 = CText delete_link) \<and>
     ok_run (editor_step ee) (editor_step_ok ee) (Some (editor_start ee cols sorting rows)) es"

definition editor_after ::
    "editor_env \<Rightarrow> dt_column list \<Rightarrow> (nat \<times> dt_dir \<times> nat option) list \<Rightarrow> dt_cell list list \<Rightarrow> editor_event list \<Rightarrow> editor option" where
  "editor_after ee cols sorting rows es = fold (editor_step ee) es (Some (editor_start ee cols sorting rows))"

lemma added_rows:
  "\<forall>row \<in> set rows. text_row s row \<Longrightarrow>
   length (dt_columns (fold (addData env) rows s)) = length (dt_columns s) \<and>
   (\<forall>r \<in> set (dt_data (fold (addData env) rows s)).
      r \<in> set (dt_data s) \<or> ro_data r \<in> set rows \<and> ro_cells r = map html_of (ro_data r))"
proof (induction rows arbitrary: s)
  case (Cons row rows)
  then have row: "text_row s row" by simp
  obtain cs where a: "addData env row s =
      s\<lparr>dt_columns := cs, dt_data := dt_data s @ [\<lparr>ro_data = row, ro_node = dt_nextNode s, ro_cells = map html_of row\<rparr>],
        dt_master := dt_master s @ [length (dt_data s)],
        dt_rowIndex := (dt_rowIndex s)(dt_nextNode s := Some (length (dt_data s))), dt_nextNode := Suc (dt_nextNode s)\<rparr>"
    using addData_fields [OF row, of env] by blast
  have l: "length (dt_columns (addData env row s)) = length (dt_columns s)" by (rule addData_frame(4) [OF row])
  then have "\<forall>r \<in> set rows. text_row (addData env row s) r" using Cons.prems by (simp add: text_row_def)
  then show ?case using Cons.IH [of "addData env row s"] l by (auto simp: a)
qed simp

lemma start_inv:
  assumes "editor_history_ok ee cols sorting rows es"
  shows "editor_inv ee (editor_start ee cols sorting rows)"
proof -
  let ?env = "ee_table ee" and ?n = "new_table cols sorting 5"
  have h: "history_ok ?env cols sorting 5 [AddRows rows]" "length cols = 6"
    "\<forall>row \<in> set rows. row ! 4 = CText edit_link \<and> row ! 5 = CText delete_link"
    using assms by (simp_all add: editor_history_ok_def)
  have rows: "\<forall>row \<in> set rows. text_row ?n row" using h(1) by (simp add: history_ok_def)
  let ?f = "fold (addData ?env) rows ?n"
  have "same_rows ?f (table_after ?env cols sorting 5 [AddRows rows])"
  proof (cases "rows = []")
    case False
    have "same_rows ?f (?f\<lparr>dt_display := dt_master ?f\<rparr>)" by (simp add: same_rows_def)
    then show ?thesis using False rows_reDraw by (simp add: table_after_def fnAddData_def Let_def)
  qed (simp add: table_after_def fnAddData_def)
  then have "dt_data (table_after ?env cols sorting 5 [AddRows rows]) = dt_data ?f"
    "length (dt_columns (table_after ?env cols sorting 5 [AddRows rows])) = length (dt_columns ?f)"
    by (simp_all add: same_rows_def)
  moreover have "linked r \<and> ro_cells r = shown_cells None r" if "r \<in> set (dt_data ?f)" for r
    using added_rows [OF rows, of ?env] that h(3) by (auto simp: linked_def shown_cells_def new_table_def)
  moreover have "length (dt_columns ?f) = 6" using added_rows [OF rows, of ?env] h(2) by (simp add: new_table_def)
  ultimately show ?thesis
    using h(1) table_inv_history [OF h(1)] by (simp add: editor_inv_def editor_start_def history_ok_def)
qed

lemma editor_history_inv:
  assumes "editor_history_ok ee cols sorting rows es"
  shows "\<exists>s. editor_after ee cols sorting rows es = Some s \<and> editor_inv ee s"
proof -
  have "editor_runs ee (Some (editor_start ee cols sorting rows))"
    using start_inv [OF assms] assms by (simp add: editor_runs_def editor_history_ok_def)
  then have "editor_runs ee (editor_after ee cols sorting rows es)"
    unfolding editor_after_def by (rule editor.run_inv) (use assms in \<open>simp add: editor_history_ok_def\<close>)
  then show ?thesis by (simp add: editor_runs_def)
qed

text \<open>One row at most is in edit mode, it is the one the code remembers, and all others show their data.\<close>

definition one_row_edited :: "editor_env \<Rightarrow> editor \<Rightarrow> bool" where
  "one_row_edited ee s \<longleftrightarrow>
     (\<forall>r \<in> set (dt_data (ed_table s)). ro_cells r = shown_cells (ed_editing s) r) \<and>
     (\<forall>n. ed_inputs s n \<noteq> None \<longleftrightarrow> ed_editing s = Some n) \<and>
     (\<forall>n. ed_editing s = Some n \<longrightarrow> n \<in> ro_node ` set (dt_data (ed_table s))) \<and>
     dt_shown (ed_table s) = expected_view (ee_table ee) (ed_table s)"

text \<open>
  C20: In every admissible history of clicks, typing and events of the table nothing throws, one row at most is in
  edit mode, the one the code remembers, every other row shows its data, and the table its page of the
  matching rows.
\<close>

theorem editor_history:
  assumes "editor_history_ok ee cols sorting rows es"
  shows "\<exists>s. editor_after ee cols sorting rows es = Some s \<and> one_row_edited ee s"
proof -
  obtain s where s: "editor_after ee cols sorting rows es = Some s" "editor_inv ee s" using editor_history_inv [OF assms] by blast
  have "dt_shown (ed_table s) = expected_view (ee_table ee) (ed_table s)"
    using s(2) by (simp add: editor_inv_def table_inv_def last_result_def expected_view_def)
  then have "one_row_edited ee s" using s(2) unfolding one_row_edited_def editor_inv_def by blast
  then show ?thesis using s(1) by blast
qed

definition demo_editor :: editor_env where
  "demo_editor = \<lparr>ee_table = demo_env, ee_read = id\<rparr>"

definition demo_cols :: "dt_column list" where
  "demo_cols = map (\<lambda>i. (demo_column i)\<lparr>co_searchable := i = 0\<rparr>) [0, 1, 2, 3, 4, 5]"

definition demo_rows :: "dt_cell list list" where
  "demo_rows =
     [[CText ''Jo'', CText ''Bo'', CText ''1'', CText ''a'', CText edit_link, CText delete_link]]"

text \<open>A row is edited, changed and saved; a new one is begun, given up and removed.\<close>

definition demo_clicks :: "editor_event list" where
  "demo_clicks = [EditClick 0, TypeInput 0 1 ''Di'', EditClick 0, NewClick, CancelClick 1, CancelClick 1]"

lemma demo_clicks_ok: "editor_history_ok demo_editor demo_cols [] demo_rows demo_clicks"
  by code_simp

lemma editor_history_witness:
  "\<exists>s. editor_after demo_editor demo_cols [] demo_rows demo_clicks = Some s \<and> one_row_edited demo_editor s"
  by (rule editor_history [OF demo_clicks_ok])

lemma demo_clicks_data:
  "map_option (\<lambda>s. map (map html_of \<circ> ro_data) (dt_data (ed_table s))) (editor_after demo_editor demo_cols [] demo_rows demo_clicks) =
     Some [[''Jo'', ''Di'', ''1'', ''a'', edit_link, delete_link]]"
  by code_simp

section \<open>Saving and cancelling\<close>

text \<open>A click on \<open>Save\<close> stores the four typed values and the links in the row that is edited, and in no other.\<close>

lemma save_stores_typed:
  assumes inv: "editor_inv ee s" and n: "ed_editing s = Some n" and vs: "ed_inputs s n = Some vs"
  shows "\<exists>t. edit_click ee n s = Some t \<and> ed_editing t = None \<and>
    dt_data (ed_table t) = map (\<lambda>r. if ro_node r = n
      then r\<lparr>ro_data := map CText vs @ [CText edit_link, CText delete_link], ro_cells := vs @ [edit_link, delete_link]\<rparr> else r)
      (dt_data (ed_table s))"
proof -
  have "n \<in> ro_node ` set (dt_data (ed_table s))" using inv n by (simp add: editor_inv_def)
  then have "cell_html s n 4 = Some save_link" by (rule cell_of_row [OF inv]) (use n in simp)
  then show ?thesis using saveRow_stores [OF inv n vs] n by (auto simp: edit_click_def)
qed

text \<open>The fields after the user has typed into some of them.\<close>

definition typed :: "nat \<Rightarrow> (nat \<times> string) list \<Rightarrow> editor \<Rightarrow> editor" where
  "typed n keys s = fold (\<lambda>(c, v). type_input n c v) keys s"

lemma typed_keeps:
  "editor_inv ee s \<Longrightarrow> editor_inv ee (typed n keys s) \<and> ed_table (typed n keys s) = ed_table s \<and> ed_editing (typed n keys s) = ed_editing s"
proof (induction keys arbitrary: s)
  case (Cons k keys)
  obtain c v where "k = (c, v)" by (cases k)
  then show ?case
    using Cons.IH [OF type_input_keeps [OF Cons.prems, of n c v]] by (simp add: typed_def) (simp add: type_input_def)
qed (simp add: typed_def)

lemma rows_at_rest:
  assumes "map ro_data xs = map ro_data ys" "map ro_node xs = map ro_node ys" "\<forall>r \<in> set ys. ro_cells r = map html_of (ro_data r)"
  shows "map (\<lambda>r. r\<lparr>ro_cells := map html_of (ro_data r)\<rparr>) xs = (ys :: dt_row list)"
proof (rule nth_equalityI)
  have l: "length xs = length ys" using assms(1) by (rule map_eq_imp_length_eq)
  then show "length (map (\<lambda>r. r\<lparr>ro_cells := map html_of (ro_data r)\<rparr>) xs) = length ys" by simp
  fix k assume "k < length (map (\<lambda>r. r\<lparr>ro_cells := map html_of (ro_data r)\<rparr>) xs)"
  then have k: "k < length xs" by simp
  have "ro_data (xs ! k) = ro_data (ys ! k)" "ro_node (xs ! k) = ro_node (ys ! k)"
    using assms(1,2) k l by (metis nth_map)+
  then show "map (\<lambda>r. r\<lparr>ro_cells := map html_of (ro_data r)\<rparr>) xs ! k = ys ! k"
    using assms(3) k l nth_mem [of k ys] by simp
qed

text \<open>\<open>Edit\<close>, any typing, and \<open>Cancel\<close>: all rows are as before, data and content.\<close>

lemma edit_cancel_restores:
  assumes inv: "editor_inv ee s" and idle: "ed_editing s = None" and n: "n \<in> ro_node ` set (dt_data (ed_table s))"
  shows "\<exists>t u. edit_click ee n s = Some t \<and> cancel_click ee n (typed n keys t) = Some u \<and>
    ed_editing u = None \<and> dt_data (ed_table u) = dt_data (ed_table s)"
proof -
  obtain t where t: "editRow ee n s = Some t" "editor_inv ee (t\<lparr>ed_editing := Some n\<rparr>)"
    "map ro_data (dt_data (ed_table t)) = map ro_data (dt_data (ed_table s))"
    "map ro_node (dt_data (ed_table t)) = map ro_node (dt_data (ed_table s))"
    using editRow_enters [OF inv _ n] idle by blast
  let ?t = "t\<lparr>ed_editing := Some n\<rparr>" and ?k = "typed n keys (t\<lparr>ed_editing := Some n\<rparr>)"
  have k: "editor_inv ee ?k" "ed_table ?k = ed_table t" "ed_editing ?k = Some n" using typed_keeps [OF t(2), of n keys] by simp_all
  have "n \<in> ro_node ` set (dt_data (ed_table ?k))" using n t(4) k(2) by (metis set_map)
  then have "cell_html ?k n 5 = Some cancel_link" by (rule cell_of_row [OF k(1)]) (use k(3) in simp)
  moreover obtain u where u: "restoreRow ee (Some n) ?k = Some u"
    "dt_data (ed_table u) = map (\<lambda>r. r\<lparr>ro_cells := map html_of (ro_data r)\<rparr>) (dt_data (ed_table ?k))"
    using restoreRow_leaves [OF k(1,3)] by blast
  moreover have "dt_data (ed_table u) = dt_data (ed_table s)"
    unfolding u(2) k(2) by (rule rows_at_rest [OF t(3,4)]) (use inv idle in \<open>simp add: editor_inv_def shown_cells_def\<close>)
  ultimately show ?thesis using t(1) k(3) idle by (auto simp: edit_click_def cancel_click_def)
qed

text \<open>What the four fields hold after the user has typed into some of them, and the row that is saved.\<close>

definition typed_values :: "(nat \<times> string) list \<Rightarrow> string list \<Rightarrow> string list" where
  "typed_values keys vs = fold (\<lambda>(c, v) vs. vs[c := v]) keys vs"

definition saved_row :: "editor_env \<Rightarrow> (nat \<times> string) list \<Rightarrow> dt_row \<Rightarrow> dt_row" where
  "saved_row ee keys r =
     (let vs = typed_values keys (map (\<lambda>c. ee_read ee (data_text r c)) [0..<4])
      in r\<lparr>ro_data := map CText vs @ [CText edit_link, CText delete_link], ro_cells := vs @ [edit_link, delete_link]\<rparr>)"

lemma typed_inputs:
  "ed_inputs s n = Some vs \<Longrightarrow> ed_inputs (typed n keys s) n = Some (typed_values keys vs)"
proof (induction keys arbitrary: s vs)
  case (Cons k keys)
  obtain c v where k: "k = (c, v)" by (cases k)
  have "ed_inputs (type_input n c v s) n = Some (vs[c := v])" using Cons.prems by (simp add: type_input_def)
  from Cons.IH [OF this] show ?case unfolding k by (simp add: typed_def typed_values_def)
qed (simp add: typed_def typed_values_def)

lemma editRow_inputs:
  "editRow ee n s = Some t \<Longrightarrow> row_of s n = Some (i, r) \<Longrightarrow> ed_inputs t n = Some (map (\<lambda>c. ee_read ee (data_text r c)) [0..<4])"
  by (auto simp: editRow_def Let_def)

lemma edit_save_stores:
  assumes inv: "editor_inv ee s" and idle: "ed_editing s = None" and n: "n \<in> ro_node ` set (dt_data (ed_table s))"
  shows "\<exists>t v. edit_click ee n s = Some t \<and> edit_click ee n (typed n keys t) = Some v \<and> ed_editing v = None \<and>
    dt_data (ed_table v) = map (\<lambda>r. if ro_node r = n then saved_row ee keys r else r) (dt_data (ed_table s))"
proof -
  obtain t where t: "editRow ee n s = Some t" "editor_inv ee (t\<lparr>ed_editing := Some n\<rparr>)"
    "map ro_data (dt_data (ed_table t)) = map ro_data (dt_data (ed_table s))"
    "map ro_node (dt_data (ed_table t)) = map ro_node (dt_data (ed_table s))"
    using editRow_enters [OF inv _ n] idle by blast
  obtain i where i: "i < length (dt_data (ed_table s))" "ro_node (dt_data (ed_table s) ! i) = n"
    "row_of s n = Some (i, dt_data (ed_table s) ! i)" by (rule inv_row_of [OF inv n])
  let ?t = "t\<lparr>ed_editing := Some n\<rparr>" and ?r = "dt_data (ed_table s) ! i"
  let ?vs = "typed_values keys (map (\<lambda>c. ee_read ee (data_text ?r c)) [0..<4])"
  have k: "editor_inv ee (typed n keys ?t)" "ed_table (typed n keys ?t) = ed_table t" "ed_editing (typed n keys ?t) = Some n"
    using typed_keeps [OF t(2), of n keys] by simp_all
  have "ed_inputs ?t n = Some (map (\<lambda>c. ee_read ee (data_text ?r c)) [0..<4])" using editRow_inputs [OF t(1) i(3)] by simp
  from save_stores_typed [OF k(1,3) typed_inputs [OF this]]
  obtain v where v: "edit_click ee n (typed n keys ?t) = Some v" "ed_editing v = None"
    "dt_data (ed_table v) = map (\<lambda>r. if ro_node r = n then r\<lparr>ro_data := map CText ?vs @ [CText edit_link, CText delete_link],
       ro_cells := ?vs @ [edit_link, delete_link]\<rparr> else r) (dt_data (ed_table t))"
    unfolding k(2) by blast
  have "dt_data (ed_table v) = map (\<lambda>r. if ro_node r = n then saved_row ee keys r else r) (dt_data (ed_table s))"
  proof (rule nth_equalityI)
    show "length (dt_data (ed_table v)) = length (map (\<lambda>r. if ro_node r = n then saved_row ee keys r else r) (dt_data (ed_table s)))"
      unfolding v(3) using map_eq_imp_length_eq [OF t(3)] by simp
    fix k assume "k < length (dt_data (ed_table v))"
    then have k: "k < length (dt_data (ed_table t))" "k < length (dt_data (ed_table s))"
      unfolding v(3) using map_eq_imp_length_eq [OF t(3)] by simp_all
    let ?x = "dt_data (ed_table t) ! k" and ?y = "dt_data (ed_table s) ! k"
    have same: "ro_data ?x = ro_data ?y" "ro_node ?x = ro_node ?y" using t(3,4) k by (metis nth_map)+
    have y: "?y = ?r" if "ro_node ?y = n" by (rule node_unique [OF inv i(1)]) (use that i(2) k in auto)
    have cells: "ro_cells ?x = ro_cells ?y" if "ro_node ?y \<noteq> n"
      using t(2) inv idle k that same by (simp add: editor_inv_def shown_cells_def)
    show "dt_data (ed_table v) ! k = map (\<lambda>r. if ro_node r = n then saved_row ee keys r else r) (dt_data (ed_table s)) ! k"
      unfolding v(3) using k same y cells by (auto simp: saved_row_def Let_def)
  qed
  moreover have "edit_click ee n s = Some ?t" using t(1) idle by (simp add: edit_click_def)
  ultimately show ?thesis using v(1,2) by blast
qed

text \<open>
  C28: A session of one row, from any state in which no row is edited: \<open>Edit\<close> opens it; then, whatever is typed,
  \<open>Cancel\<close> gives back all rows as they were, data and content, and \<open>Save\<close> stores in this row the four texts
  that the fields hold with the links \<open>Edit\<close> and \<open>Delete\<close>, and leaves every other row alone; after both no row
  is edited.
\<close>

theorem edit_session:
  assumes "editor_inv ee s" "ed_editing s = None" "n \<in> ro_node ` set (dt_data (ed_table s))"
  shows "\<exists>t u v. edit_click ee n s = Some t \<and>
    cancel_click ee n (typed n keys t) = Some u \<and> ed_editing u = None \<and> dt_data (ed_table u) = dt_data (ed_table s) \<and>
    edit_click ee n (typed n keys t) = Some v \<and> ed_editing v = None \<and>
    dt_data (ed_table v) = map (\<lambda>r. if ro_node r = n then saved_row ee keys r else r) (dt_data (ed_table s))"
  using edit_cancel_restores [OF assms, of keys] edit_save_stores [OF assms, of keys] by fastforce

lemma edit_session_witness:
  "\<exists>t v. edit_click demo_editor 0 (editor_start demo_editor demo_cols [] demo_rows) = Some t \<and>
     edit_click demo_editor 0 (typed 0 [(1, ''Di'')] t) = Some v \<and>
     map ro_cells (dt_data (ed_table v)) = [[''Jo'', ''Di'', ''1'', ''a'', edit_link, delete_link]]"
proof -
  let ?s = "editor_start demo_editor demo_cols [] demo_rows"
  have d: "dt_data (ed_table ?s) = [\<lparr>ro_data = hd demo_rows, ro_node = 0, ro_cells = map html_of (hd demo_rows)\<rparr>]" by code_simp
  have "0 \<in> ro_node ` set (dt_data (ed_table ?s))" unfolding d by simp
  from edit_session [OF start_inv [OF demo_clicks_ok] _ this, of "[(1, ''Di'')]"]
  show ?thesis unfolding d
    by (fastforce simp: editor_start_def saved_row_def typed_values_def demo_editor_def demo_rows_def data_text_def html_of_def
        upt_conv_Cons Let_def)
qed

section \<open>A new row while another is edited\<close>

text \<open>
  The button for a new row does not look at \<open>nEditing\<close>: the row that was edited keeps its fields. After
  \<open>Cancel\<close> in the new row no row is remembered, and \<open>Cancel\<close> in the old one throws: \<open>fnGetData(null)\<close> reads
  \<open>null.nodeName\<close>.
\<close>

definition new_while_editing :: "editor_event list" where
  "new_while_editing = [EditClick 0, NewClick, CancelClick 1]"

lemma new_while_editing_throws:
  "editor_after demo_editor demo_cols [] demo_rows new_while_editing \<noteq> None \<and>
   editor_after demo_editor demo_cols [] demo_rows (new_while_editing @ [CancelClick 0]) = None"
  by code_simp

text \<open>
  The first \<open>Cancel\<close> of a new row only leaves edit mode: \<open>editRow\<close> has written over the link with
  \<open>data-mode="new"\<close>, and the empty row stays until its second \<open>Cancel\<close>.
\<close>

lemma first_cancel_keeps_new_row:
  "map_option (\<lambda>s. (ed_editing s, map (map html_of \<circ> ro_data) (dt_data (ed_table s))))
     (editor_after demo_editor demo_cols [] demo_rows [NewClick, CancelClick 1]) =
   Some (None, [map html_of (hd demo_rows), map html_of new_row])"
  by code_simp

end
