(* ===== verification/Spec2Isabelle.thy ===== *)
theory Spec2Isabelle
  imports Owl_Drag Spark_Discrete_Props Spark_Line_Geometry Spark_Calls Spark_Fields
    Boot_Carousel Boot_Modal Boot_Collapse Boot_Spy Boot_Affix Boot_Tab Boot_Dropdown Boot_Tooltip Boot_Placement Plug_Cookie Plug_Count Plug_Tags Plug_Stepy
    Dt_Sort_Props Dt_Pager Page_Editable_Props
begin

text \<open>
  \<^bold>\<open>vein\<close> is a Raft and gossip system in Java with a web view of its nodes. This development models the
  JavaScript of the view (\<open>src/view/src/main/webapp/\<close>) that has logic of its own: the carousel
  (\<open>js/owl.carousel.js\<close>), the inline charts (\<open>js/jquery.sparkline.js\<close>), the widgets of \<open>js/bootstrap.js\<close>,
  four small plugins (\<open>js/jquery.cookie.js\<close>, \<open>js/count.js\<close>, \<open>js/jquery.tagsinput.js\<close>,
  \<open>js/jquery.stepy.js\<close>), and the table: \<open>assets/data-tables/jquery.dataTables.js\<close> with the pager of
  \<open>DT_bootstrap.js\<close> and the page \<open>js/editable-table.js\<close> that edits its rows.

  \<^bold>\<open>How the parts interact.\<close> Every part reacts to events of the browser: calls of the page, the mouse and
  the keyboard, timers, ends of CSS transitions. JavaScript runs one handler to its end before the next,
  so a history is a list of events and a component is a step function (or, where the page and the browser
  choose, an inductive relation). The libraries share nothing but the event loop, apart from the editable
  table, whose handlers call the API of the table; inside the charts
  the calls go from \<open>$.fn.sparkline\<close> through the options, the chart and its base class to the shape store,
  and back from the mouse handler through the region of the chart to the tooltip.

  \<^bold>\<open>Shared theories.\<close>
  \<^item> \<open>Vein_Prelude\<close>: rounding, array reads and \<open>splice\<close>, timers, and the locales
  \<open>event_machine\<close>, \<open>framed_machine\<close> and \<open>guarded_machine\<close>: a step, an invariant it keeps, histories (of
  events whose admissibility may depend on the state). Every component with a state interprets them on its own
  step.
  \<^item> \<open>Js_Number\<close>, \<open>Js_Value\<close>: numbers with \<open>NaN\<close> and the infinities, values and their decimal texts.
  \<^item> \<open>Js_Text\<close>: \<open>split\<close> and \<open>join\<close>, the order of code units, lower and upper case, the removal of tags.

  \<^bold>\<open>The carousel of \<open>owl.carousel.js\<close>.\<close>
  \<^item> \<open>Owl_Model\<close>: the record of the object (options, sizes, pages, timers, flags) and every operation of the
    prototype that changes it; \<open>owl_step\<close> is one event.
  \<^item> \<open>Owl_Frame\<close>, \<open>Owl_Pages\<close>, \<open>Owl_Invariant\<close>, \<open>Owl_Carousel\<close>: what each operation leaves alone, the pages
    and their buttons, the invariant, and that every operation and start-up keep it.
  \<^item> \<open>Owl_Properties\<close>, \<open>Owl_Drag\<close>: positions, one autoplay timer, one active page, the cycle of autoplay,
    dragging, lazy loading.

  \<^bold>\<open>The charts of \<open>jquery.sparkline.js\<close>.\<close>
  \<^item> \<open>Spark_Util\<close>, \<open>Spark_Util_Props\<close>: clipping, quartiles, values of a tag, digit grouping, range maps.
  \<^item> \<open>Spark_Canvas\<close>, \<open>Spark_Store\<close>: \<open>VCanvas_canvas\<close>, the store of shapes, as operations on ids, order and
    shapes; the locale \<open>shape_store\<close> says what the charts may rely on and is interpreted on the store.
  \<^item> \<open>Spark_Base\<close>, \<open>Spark_Mixin\<close>: highlighting of regions, and the locale of the bar charts (what a region
    draws) whose lemma is that after any history the canvas shows the chart with the current region
    highlighted.
  \<^item> \<open>Spark_Bars\<close>, \<open>Spark_Bar_Props\<close>, \<open>Spark_Discrete_Props\<close>: bar, tristate and discrete charts.
  \<^item> \<open>Spark_Line\<close>, \<open>Spark_Line_Shows\<close>, \<open>Spark_Line_Props\<close>, \<open>Spark_Line_Geometry\<close>: line charts.
  \<^item> \<open>Spark_Keyed\<close>, \<open>Spark_Pie\<close>, \<open>Spark_Bullet\<close>: the charts that keep a map from regions to shapes.
  \<^item> \<open>Spark_Box\<close>: box plots. \<open>Spark_Options\<close>: defaults, settings of the tag and their precedence.
  \<^item> \<open>Spark_Format\<close>, \<open>Spark_Fields\<close>: tooltip texts. \<open>Spark_Tooltip\<close>, \<open>Spark_Mouse\<close>: the tooltip and the
    mouse handler over the locale \<open>mouse_chart\<close>, interpreted on line charts.
  \<^item> \<open>Spark_Calls\<close>: \<open>$.fn.sparkline\<close> and the queue of the elements that are hidden.

  \<^bold>\<open>The widgets of \<open>bootstrap.js\<close>.\<close>
  \<^item> \<open>Boot_Carousel\<close>: \<open>Carousel.prototype\<close> with CSS transitions; timers, the sliding flag, the hooks of \<open>slid\<close>.
  \<^item> \<open>Boot_Modal\<close>: \<open>Modal.prototype\<close>; user and browser steps as inductive relations, reachable states, calm
    histories (the user waits for transitions, the page prevents nothing).
  \<^item> \<open>Boot_Collapse\<close>: \<open>Collapse.prototype\<close> and the links of an accordion.
  \<^item> \<open>Boot_Tab\<close>: \<open>Tab.prototype\<close>. \<open>Boot_Dropdown\<close>: \<open>Dropdown.prototype\<close>, \<open>clearMenus\<close> and the keyboard.
  \<^item> \<open>Boot_Spy\<close>: \<open>ScrollSpy.prototype\<close>. \<open>Boot_Affix\<close>: \<open>Affix.prototype.checkPosition\<close>.
  \<^item> \<open>Boot_Tooltip\<close>, \<open>Boot_Placement\<close>: when the tip is shown, and where.

  \<^bold>\<open>The small plugins.\<close>
  \<^item> \<open>Plug_Cookie\<close> (\<open>jquery.cookie.js\<close>): the text that \<open>$.cookie\<close> assigns to \<open>document.cookie\<close> and how it reads a
    name from its text, over percent encoding; the pair that is set is read back. Which cookies a browser keeps
    is not modelled.
  \<^item> \<open>Plug_Count\<close> (\<open>count.js\<close>): the four counters of the front page; after how many ticks they stop, and at
    which number.
  \<^item> \<open>Plug_Tags\<close> (\<open>jquery.tagsinput.js\<close>): the hidden field and the shown tags as an implementation of a list.
  \<^item> \<open>Plug_Stepy\<close> (\<open>jquery.stepy.js\<close>): the wizard; one step is shown, and which steps block.

  \<^bold>\<open>The table of \<open>jquery.dataTables.js\<close>.\<close>
  \<^item> \<open>Dt_Regexp\<close>: the patterns that the filter builds from a search, and what they match.
  \<^item> \<open>Dt_Data\<close>: the settings object as a record (data, the arrays \<open>aiDisplayMaster\<close> and \<open>aiDisplay\<close>, nodes,
    \<open>asDataSearch\<close>), cells, types of columns, adding, deleting, drawing a page.
  \<^item> \<open>Dt_Sort\<close>, \<open>Dt_Sort_Props\<close>: \<open>_fnSort\<close> and the clicks on the header; the result is the one stable sorting.
  \<^item> \<open>Dt_Table\<close>: the filters with the refinement of the last result, pages, the length menu and the API;
    \<open>table_step\<close> in \<open>Dt_History\<close> is one event.
  \<^item> \<open>Dt_Filter_Props\<close>, \<open>Dt_Invariant\<close>, \<open>Dt_Rows\<close>, \<open>Dt_History\<close>: the display is the filtered master array, the
    invariant that every operation keeps, and what the table shows after every admissible history.
  \<^item> \<open>Dt_Pages\<close>, \<open>Dt_Pager\<close>: the pages one after the other, the numbers of the pagers and of the line below the
    table; the calls that leave the range.
  \<^item> \<open>Page_Editable\<close>, \<open>Page_Editable_Rows\<close>, \<open>Page_Editable_Props\<close>: the editable table over all this; which row is
    in edit mode, what saving and cancelling do, and what happens when a new row is begun during an edit.

  \<^bold>\<open>What the theorems show.\<close> Invariants of all histories (indices in range, one timer, one active page or
  panel or menu, handlers bound once, classes that fit the state); that what a chart has drawn is what its
  abstract picture says (the \<open>_history_picture\<close> refinements), and what a table shows is its page of the rows that
  match, computed afresh; bounds (shapes inside the canvas, quartiles
  in order); equivalence with reference definitions (digit grouping, the queue as a filter); round trips
  (texts of numbers, formats); liveness (autoplay visits every slide, a modal settles). Theorems whose text
  says what goes wrong (a modal shown twice, a stuck carousel, a section boundary) are about the code as it
  is: they are the flaws the modelling has shown.

  \<^bold>\<open>Bounds and fuel.\<close> The loop of \<open>formatNumber\<close> does not end for a group size that is not positive, so it
  is a \<open>partial_function\<close> with the result \<open>None\<close>, and its totality for positive sizes is proved. The other
  loops are structural or have a termination proof. Coordinates are integers below \<open>2 ^ 53\<close>, on which doubles
  are exact; quotients are exact rationals, so rounding errors of doubles are not modelled.

  \<^bold>\<open>Parameters.\<close> The layout of the page (sizes, positions, visibility), the text of a number that is not an
  integer, and whether a handler of the page prevents an event are inputs or parameters. So are, for the
  table, the matching of regular expressions that a user writes, the text of markup, \<open>Date.parse\<close> and custom
  filters; for the editable table, the value a browser reads from the markup of a field; for cookies, the clock
  and the text of a date.

  \<^bold>\<open>Not modelled.\<close> The Java modules (another language); drawing on the 2d context and the VML markup, the
  animated sizes, and other calls that only write to the browser; the branch of the Bootstrap carousel
  without CSS transitions; tabs in dropdown menus; alert, button and popover; the width of the tags input
  and its autocompletion; the plugins for switches, accordion menus and hovering (\<open>bootstrap-switch.js\<close>,
  \<open>jquery.dcjqaccordion\<close>, \<open>hover-dropdown.js\<close>, \<open>toucheffects.js\<close>); of the table, server-side processing, render functions and data paths, the layout of the
  header and the widths of columns, scrolling, saved state and detail rows; the page scripts with demonstration
  data and the other vendored libraries under \<open>assets/\<close>.
\<close>

end
